(* ===== verification/Prelude.thy ===== *)
theory Prelude
  imports Main "HOL-Library.Word"
begin

text \<open>
  Shared vocabulary of the development: machine integers as words, the little-endian memory
  accesses of the x86 hosts the program is built for, the byte swaps of \<open>arpa/inet.h\<close>, the errno
  values that the switch program defines for itself, and the lemmas on loads and stores that every
  packet proof uses.  Two collections carry the automation: \<open>ld_st\<close> (a load after a store) and
  \<open>wire_simps\<close> (lengths and unfoldings of wire layouts).
\<close>

unbundle bit_operations_syntax

section \<open>Types\<close>

type_synonym byte = "8 word"
type_synonym u16 = "16 word"
type_synonym u32 = "32 word"
type_synonym u64 = "64 word"

named_theorems ld_st "loads after stores"
named_theorems wire_simps "lengths and unfoldings of wire layouts"

section \<open>Errno values\<close>

definition ENOENT :: int where "ENOENT = 2"
definition EBUSY :: int where "EBUSY = 16"
definition EEXIST :: int where "EEXIST = 17"
definition EINVAL :: int where "EINVAL = 22"

lemmas errno_defs = ENOENT_def EBUSY_def EEXIST_def EINVAL_def

section \<open>Little-endian loads and stores\<close>

text \<open>
  A pointer into a buffer is an offset; \<open>*(uint16_t * )(buf + i)\<close> is \<open>ld16 buf i\<close> and the
  assignment to it is \<open>st16 buf i x\<close>.  The code only dereferences behind a bounds check.
\<close>

definition ld8 :: "byte list \<Rightarrow> nat \<Rightarrow> byte" where
  "ld8 p i = p ! i"

definition ld16 :: "byte list \<Rightarrow> nat \<Rightarrow> u16" where
  "ld16 p i = ucast (p ! i) OR push_bit 8 (ucast (p ! (i + 1)))"

definition ld32 :: "byte list \<Rightarrow> nat \<Rightarrow> u32" where
  "ld32 p i = ucast (ld16 p i) OR push_bit 16 (ucast (ld16 p (i + 2)))"

definition st8 :: "byte list \<Rightarrow> nat \<Rightarrow> byte \<Rightarrow> byte list" where
  "st8 p i x = p[i := x]"

definition st16 :: "byte list \<Rightarrow> nat \<Rightarrow> u16 \<Rightarrow> byte list" where
  "st16 p i x = p[i := ucast x, i + 1 := ucast (drop_bit 8 x)]"

definition st32 :: "byte list \<Rightarrow> nat \<Rightarrow> u32 \<Rightarrow> byte list" where
  "st32 p i x = st16 (st16 p i (ucast x)) (i + 2) (ucast (drop_bit 16 x))"

text \<open>\<open>memcpy\<close> into and out of a buffer.\<close>

definition ldn :: "nat \<Rightarrow> byte list \<Rightarrow> nat \<Rightarrow> byte list" where
  "ldn n p i = take n (drop i p)"

primrec stn :: "byte list \<Rightarrow> nat \<Rightarrow> byte list \<Rightarrow> byte list" where
  "stn p i [] = p"
| "stn p i (b # bs) = stn (p[i := b]) (i + 1) bs"

lemma length_st8 [simp]: "length (st8 p i x) = length p"
  by (simp add: st8_def)

lemma length_st16 [simp]: "length (st16 p i x) = length p"
  by (simp add: st16_def)

lemma length_st32 [simp]: "length (st32 p i x) = length p"
  by (simp add: st32_def)

lemma length_stn [simp]: "length (stn p i bs) = length p"
  by (induction bs arbitrary: p i) auto

lemma length_ldn [simp]: "length (ldn n p i) = min n (length p - i)"
  by (simp add: ldn_def)

subsection \<open>A store read back\<close>

lemma ucast_join16 [simp]:
  "ucast (ucast (x :: u16) :: byte) OR push_bit 8 (ucast (ucast (drop_bit 8 x) :: byte)) = x"
  by (rule bit_word_eqI) (auto simp: bit_simps)

lemma ucast_join32 [simp]:
  "ucast (ucast (x :: u32) :: u16) OR push_bit 16 (ucast (ucast (drop_bit 16 x) :: u16)) = x"
  by (rule bit_word_eqI) (auto simp: bit_simps)

lemma ld8_st8_same [ld_st]: "i < length p \<Longrightarrow> ld8 (st8 p i x) i = x"
  by (simp add: ld8_def st8_def)

lemma ld16_st16_same [ld_st]: "i + 1 < length p \<Longrightarrow> ld16 (st16 p i x) i = x"
  by (simp add: ld16_def st16_def)

lemma nth_st16: "j \<noteq> i \<Longrightarrow> j \<noteq> i + 1 \<Longrightarrow> st16 p i x ! j = p ! j"
  by (simp add: st16_def)

lemma nth_st32: "j < i \<or> i + 4 \<le> j \<Longrightarrow> st32 p i x ! j = p ! j"
  by (auto simp: st32_def nth_st16)

lemma nth_stn: "j < i \<or> i + length bs \<le> j \<Longrightarrow> stn p i bs ! j = p ! j"
  by (induction bs arbitrary: p i) auto

lemma ld16_st16_other [ld_st]: "j + 2 \<le> i \<or> i + 2 \<le> j \<Longrightarrow> ld16 (st16 p i x) j = ld16 p j"
  by (auto simp: ld16_def nth_st16)

lemma ld32_st32_same [ld_st]: "i + 3 < length p \<Longrightarrow> ld32 (st32 p i x) i = x"
  by (simp add: ld32_def st32_def ld_st)

subsection \<open>A store elsewhere does not change a load\<close>

lemma ld8_st8_other [ld_st]: "i \<noteq> j \<Longrightarrow> ld8 (st8 p i x) j = ld8 p j"
  by (simp add: ld8_def st8_def)

lemma ld8_st16 [ld_st]: "j < i \<or> i + 2 \<le> j \<Longrightarrow> ld8 (st16 p i x) j = ld8 p j"
  by (auto simp: ld8_def nth_st16)

lemma ld8_st32 [ld_st]: "j < i \<or> i + 4 \<le> j \<Longrightarrow> ld8 (st32 p i x) j = ld8 p j"
  by (auto simp: ld8_def nth_st32)

lemma ld8_stn [ld_st]: "j < i \<or> i + length bs \<le> j \<Longrightarrow> ld8 (stn p i bs) j = ld8 p j"
  by (auto simp: ld8_def nth_stn)

lemma ld16_st8 [ld_st]: "i < j \<or> j + 2 \<le> i \<Longrightarrow> ld16 (st8 p i x) j = ld16 p j"
  by (auto simp: ld16_def st8_def)

lemma ld16_st32 [ld_st]: "j + 2 \<le> i \<or> i + 4 \<le> j \<Longrightarrow> ld16 (st32 p i x) j = ld16 p j"
  by (auto simp: ld16_def nth_st32)

lemma ld16_stn [ld_st]: "j + 2 \<le> i \<or> i + length bs \<le> j \<Longrightarrow> ld16 (stn p i bs) j = ld16 p j"
  by (auto simp: ld16_def nth_stn)

lemma ld32_st8 [ld_st]: "i < j \<or> j + 4 \<le> i \<Longrightarrow> ld32 (st8 p i x) j = ld32 p j"
  by (auto simp: ld32_def ld_st)

lemma ld32_st16 [ld_st]: "j + 4 \<le> i \<or> i + 2 \<le> j \<Longrightarrow> ld32 (st16 p i x) j = ld32 p j"
  by (auto simp: ld32_def ld_st)

lemma ld32_st32_other [ld_st]: "j + 4 \<le> i \<or> i + 4 \<le> j \<Longrightarrow> ld32 (st32 p i x) j = ld32 p j"
  by (auto simp: ld32_def ld_st)

lemma ld32_stn [ld_st]: "j + 4 \<le> i \<or> i + length bs \<le> j \<Longrightarrow> ld32 (stn p i bs) j = ld32 p j"
  by (auto simp: ld32_def ld_st)

text \<open>The two halves of a 32-bit field are the 16-bit words at its offset and two above.\<close>

lemma ld16_st32_lo [ld_st]: "i + 3 < length p \<Longrightarrow> ld16 (st32 p i x) i = ucast x"
  by (simp add: st32_def ld_st)

lemma ld16_st32_hi [ld_st]: "i + 3 < length p \<Longrightarrow> ld16 (st32 p i x) (i + 2) = ucast (drop_bit 16 x)"
  by (simp add: st32_def ld_st)

lemma ucast_ld32: "ucast (ld32 p i) = (ld16 p i :: u16)"
  unfolding ld32_def by (rule bit_word_eqI) (auto simp: bit_simps)

lemma ucast_drop_ld32: "ucast (drop_bit 16 (ld32 p i)) = (ld16 p (i + 2) :: u16)"
  unfolding ld32_def by (rule bit_word_eqI) (auto simp: bit_simps dest: bit_imp_le_length)

subsection \<open>Byte runs\<close>

lemma ldn_eqI: "(\<And>j. i \<le> j \<Longrightarrow> j < i + n \<Longrightarrow> p ! j = q ! j) \<Longrightarrow> length p = length q \<Longrightarrow> ldn n p i = ldn n q i"
  by (auto simp: ldn_def intro!: nth_equalityI)

lemma ldn_st8 [ld_st]: "j < i \<or> i + n \<le> j \<Longrightarrow> ldn n (st8 p j x) i = ldn n p i"
  by (intro ldn_eqI) (auto simp: st8_def)

lemma ldn_st16 [ld_st]: "j + 2 \<le> i \<or> i + n \<le> j \<Longrightarrow> ldn n (st16 p j x) i = ldn n p i"
  by (intro ldn_eqI) (auto simp: nth_st16)

lemma ldn_st32 [ld_st]: "j + 4 \<le> i \<or> i + n \<le> j \<Longrightarrow> ldn n (st32 p j x) i = ldn n p i"
  by (intro ldn_eqI) (auto simp: nth_st32)

lemma ldn_stn_other [ld_st]: "j + length bs \<le> i \<or> i + n \<le> j \<Longrightarrow> ldn n (stn p j bs) i = ldn n p i"
  by (intro ldn_eqI) (auto simp: nth_stn)

lemma nth_stn_in: "i + length bs \<le> length p \<Longrightarrow> k < length bs \<Longrightarrow> stn p i bs ! (i + k) = bs ! k"
proof (induction bs arbitrary: p i k)
  case Nil
  then show ?case by simp
next
  case (Cons b bs)
  show ?case
  proof (cases k)
    case 0
    with Cons.prems show ?thesis by (simp add: nth_stn)
  next
    case (Suc k')
    with Cons.prems Cons.IH [of "i + 1" "p[i := b]" k'] show ?thesis by simp
  qed
qed

lemma ldn_stn_same [ld_st]:
  "i + length bs \<le> length p \<Longrightarrow> n = length bs \<Longrightarrow> ldn n (stn p i bs) i = bs"
  by (rule nth_equalityI) (auto simp: ldn_def nth_stn_in)

section \<open>Values of loads\<close>

lemma unat_ucast_up:
  "LENGTH('a::len) \<le> LENGTH('b::len) \<Longrightarrow> unat (ucast (x :: 'a word) :: 'b word) = unat x"
proof -
  assume le: "LENGTH('a) \<le> LENGTH('b)"
  have "unat x < 2 ^ LENGTH('a)" by (rule unsigned_less)
  also have "\<dots> \<le> 2 ^ LENGTH('b)" using le by simp
  finally show ?thesis by (simp add: unsigned_ucast_eq take_bit_nat_eq_self)
qed

lemma unat_ld16: "unat (ld16 p i) = unat (p ! i) + 256 * unat (p ! (i + 1))"
proof -
  have disj: "(ucast (p ! i) :: u16) AND push_bit 8 (ucast (p ! (i + 1))) = 0"
    by (rule bit_word_eqI) (auto simp: bit_simps dest: bit_imp_le_length)
  have lt: "unat (p ! k) < 256" for k
    using unsigned_less [of "p ! k"] by simp
  have "ld16 p i = ucast (p ! i) + push_bit 8 (ucast (p ! (i + 1)))"
    using disj by (simp add: ld16_def disjunctive_add_eq_or)
  moreover have "unat (push_bit 8 (ucast (p ! (i + 1)) :: u16)) = 256 * unat (p ! (i + 1))"
    using lt [of "i + 1"] by (simp add: push_bit_eq_mult unat_word_ariths unat_ucast_up)
  ultimately show ?thesis
    using lt [of i] lt [of "i + 1"] by (simp add: unat_word_ariths unat_ucast_up)
qed

section \<open>Byte order\<close>

definition bswap16 :: "u16 \<Rightarrow> u16" where
  "bswap16 x = push_bit 8 x OR drop_bit 8 x"

text \<open>\<open>htons\<close> and \<open>ntohs\<close> (\<open>bpf_ntohs\<close> in the switch program) swap the bytes on these hosts.\<close>

abbreviation (input) htons :: "u16 \<Rightarrow> u16" where "htons \<equiv> bswap16"
abbreviation (input) ntohs :: "u16 \<Rightarrow> u16" where "ntohs \<equiv> bswap16"

lemma bswap16_bswap16 [simp]: "bswap16 (bswap16 x) = x"
  unfolding bswap16_def by (rule bit_word_eqI) (auto simp: bit_simps)

definition bswap32 :: "u32 \<Rightarrow> u32" where
  "bswap32 x = push_bit 16 (ucast (bswap16 (ucast x))) OR ucast (bswap16 (ucast (drop_bit 16 x)))"

abbreviation (input) htonl :: "u32 \<Rightarrow> u32" where "htonl \<equiv> bswap32"
abbreviation (input) ntohl :: "u32 \<Rightarrow> u32" where "ntohl \<equiv> bswap32"

lemma bswap32_halves:
  "(ucast (bswap32 x) :: u16) = bswap16 (ucast (drop_bit 16 x))"
  "(ucast (drop_bit 16 (bswap32 x)) :: u16) = bswap16 (ucast x)"
  unfolding bswap32_def by (rule bit_word_eqI, auto simp: bit_simps dest: bit_imp_le_length)+

lemma bswap32_alt:
  "bswap32 x = ucast (bswap16 (ucast (drop_bit 16 x))) OR push_bit 16 (ucast (bswap16 (ucast x)))"
  by (simp add: bswap32_def or.commute)

lemma bswap32_bswap32 [simp]: "bswap32 (bswap32 x) = x"
  by (subst bswap32_alt) (simp add: bswap32_halves)

end
