(* ===== verification/Checksum.thy ===== *)
theory Checksum
  imports Prelude
begin

text \<open>
  The incremental checksum arithmetic of the switch program (\<open>csum16_add\<close> and \<open>csum16_sub\<close> of
  prism_switch.bpf.c), against an independent specification: the Internet checksum of RFC 1071, a
  natural-number sum of 16-bit words whose carries are folded back until it fits 16 bits.  A
  checksummed run of bytes verifies when its folded sum is \<open>0xffff\<close>.
\<close>

section \<open>The program's arithmetic\<close>

definition csum16_add :: "u16 \<Rightarrow> u16 \<Rightarrow> u16" where
  "csum16_add csum addend =
     (let ret = csum + addend in ret + (if ret < addend then 1 else 0))"

definition csum16_sub :: "u16 \<Rightarrow> u16 \<Rightarrow> u16" where
  "csum16_sub csum addend = csum16_add csum (NOT addend)"

section \<open>The specification\<close>

text \<open>The sum of the little-endian 16-bit words of a run of bytes, an odd last byte padded with 0.\<close>

fun wsum :: "byte list \<Rightarrow> nat" where
  "wsum [] = 0"
| "wsum [a] = unat a"
| "wsum (a # b # r) = unat a + 256 * unat b + wsum r"

function carry_fold :: "nat \<Rightarrow> nat" where
  "carry_fold n = (if n < 65536 then n else carry_fold (n mod 65536 + n div 65536))"
  by pat_completeness auto
termination
proof (relation "measure id")
  fix n :: nat
  assume "\<not> n < 65536"
  then have "0 < n div 65536" by (simp add: div_greater_zero_iff)
  then have "n mod 65536 + n div 65536 < n"
    using div_mult_mod_eq [of n 65536] by linarith
  then show "(n mod 65536 + n div 65536, n) \<in> measure id" by simp
qed simp

declare carry_fold.simps [simp del]

definition csum_verifies :: "nat \<Rightarrow> bool" where
  "csum_verifies s \<longleftrightarrow> carry_fold s = 65535"

section \<open>Folding is reduction modulo 65535\<close>

lemma carry_fold_lt: "carry_fold n < 65536"
  by (induction n rule: carry_fold.induct) (subst carry_fold.simps, auto)

lemma carry_step_mod: "(n mod 65536 + n div 65536) mod 65535 = n mod (65535 :: nat)"
proof -
  have "n = n mod 65536 + n div 65536 + 65535 * (n div 65536)"
    using div_mult_mod_eq [of n 65536] by linarith
  then have "n mod 65535 = (n mod 65536 + n div 65536 + 65535 * (n div 65536)) mod 65535" by simp
  then show ?thesis by (simp only: mod_mult_self2)
qed

lemma carry_fold_mod: "carry_fold n mod 65535 = n mod 65535"
proof (induction n rule: carry_fold.induct)
  case (1 n)
  then show ?case by (subst carry_fold.simps) (simp add: carry_step_mod)
qed

lemma carry_fold_pos: "0 < n \<Longrightarrow> 0 < carry_fold n"
proof (induction n rule: carry_fold.induct)
  case (1 n)
  have "\<not> n < 65536 \<Longrightarrow> 0 < n div 65536" by (simp add: div_greater_zero_iff)
  with 1 show ?case by (subst carry_fold.simps) auto
qed

lemma csum_verifies_iff: "csum_verifies n \<longleftrightarrow> 0 < n \<and> n mod 65535 = 0"
proof -
  have lt: "carry_fold n < 65536" by (rule carry_fold_lt)
  have "carry_fold n = 65535 \<longleftrightarrow> 0 < carry_fold n \<and> carry_fold n mod 65535 = 0"
    using lt by (auto simp: mod_eq_0_iff_dvd elim!: dvdE)
  moreover have "0 < carry_fold n \<longleftrightarrow> 0 < n"
    by (cases "n = 0") (simp_all add: carry_fold_pos carry_fold.simps [of 0])
  ultimately show ?thesis by (simp add: csum_verifies_def carry_fold_mod)
qed

lemma csum_verifies_cong:
  "0 < m \<Longrightarrow> 0 < n \<Longrightarrow> m mod 65535 = n mod 65535 \<Longrightarrow> csum_verifies m = csum_verifies n"
  by (simp add: csum_verifies_iff)

section \<open>The program's arithmetic is one's-complement arithmetic\<close>

lemma unat_u16_lt: "unat (x :: u16) < 65536"
  using unsigned_less [of x] by simp

lemma unat_not_u16: "unat (NOT x :: u16) = 65535 - unat x"
proof -
  have "unat (- 1 - x) = unat (- 1 :: u16) - unat x" by (rule unat_sub) simp
  moreover have "- 1 - x = NOT x" by (simp add: not_eq_complement)
  ultimately show ?thesis by (simp add: unsigned_minus_1_eq_mask mask_eq_exp_minus_1)
qed

lemma unat_csum16_add:
  "unat (csum16_add a b) =
     (if unat a + unat b < 65536 then unat a + unat b else unat a + unat b - 65535)"
proof (cases "unat a + unat b < 65536")
  case True
  then have "unat (a + b) = unat a + unat b" by (simp add: unat_word_ariths)
  with True show ?thesis by (simp add: csum16_add_def Let_def word_less_nat_alt)
next
  case False
  define s where "s = unat a + unat b - 65536"
  have s: "s < 65535" "s < unat b" "unat a + unat b = s + 65536"
    using False unat_u16_lt [of a] unat_u16_lt [of b] by (auto simp: s_def)
  then have u: "unat (a + b) = s" by (simp add: unat_word_ariths)
  with s have "unat (a + b + 1) = s + 1" by (simp add: unat_word_ariths)
  with u s False show ?thesis by (simp add: csum16_add_def Let_def word_less_nat_alt)
qed

lemma csum16_add_mod: "unat (csum16_add a b) mod 65535 = (unat a + unat b) mod 65535"
  by (simp add: unat_csum16_add mod_if le_mod_geq)

text \<open>
  Adding the complement of a word subtracts it modulo 65535: the form the program uses, with the
  old words put back and the complements of the new ones added.
\<close>

lemma not_u16_mod: "uint (NOT x :: u16) mod 65535 = - uint x mod 65535"
proof -
  have "int (unat (NOT x)) = 65535 - uint x"
    using unat_u16_lt [of x] by (simp only: unat_not_u16 of_nat_diff) simp
  then have "uint (NOT x) = - uint x + 65535" by simp
  then show ?thesis by (simp only: mod_add_self2)
qed

lemma csum16_add_int: "uint (csum16_add a b) mod 65535 = (uint a + uint b) mod 65535"
proof -
  have "int (unat (csum16_add a b) mod 65535) = int ((unat a + unat b) mod 65535)"
    by (simp only: csum16_add_mod)
  then show ?thesis by (simp add: zmod_int)
qed

lemma csum16_add_not_int:
  "uint (csum16_add a (NOT b)) mod 65535 = (uint a - uint b) mod 65535"
proof -
  have "uint (csum16_add a (NOT b)) mod 65535 = (uint a + uint (NOT b)) mod 65535"
    by (rule csum16_add_int)
  also have "\<dots> = (uint a + - uint b) mod 65535"
    by (rule mod_add_cong) (simp_all only: not_u16_mod)
  finally show ?thesis by simp
qed

lemma csum16_sub_not [simp]: "csum16_sub a (NOT b) = csum16_add a b"
  by (simp add: csum16_sub_def)

text \<open>The program's replacement of a 32-bit address and of a 16-bit port in a checksum.\<close>

definition csum_swap32 :: "u16 \<Rightarrow> u32 \<Rightarrow> u32 \<Rightarrow> u16" where
  "csum_swap32 c old new = csum16_add (csum16_add (csum16_add (csum16_add c
     (ucast (drop_bit 16 old))) (ucast old)) (NOT (ucast (drop_bit 16 new)))) (NOT (ucast new))"

definition csum_swap16 :: "u16 \<Rightarrow> u16 \<Rightarrow> u16 \<Rightarrow> u16" where
  "csum_swap16 c old new = csum16_add (csum16_add c old) (NOT new)"

lemma csum16_add_int_cong:
  "uint c mod 65535 = x mod 65535 \<Longrightarrow> uint (csum16_add c a) mod 65535 = (x + uint a) mod 65535"
  unfolding csum16_add_int by (rule mod_add_cong [OF _ refl])

lemma csum16_add_not_int_cong:
  "uint c mod 65535 = x mod 65535 \<Longrightarrow> uint (csum16_add c (NOT a)) mod 65535 = (x - uint a) mod 65535"
  unfolding csum16_add_not_int by (rule mod_diff_cong [OF _ refl])

lemma csum_swap32_int:
  "uint (csum_swap32 c old new) mod 65535 =
     (uint c + uint (ucast (drop_bit 16 old) :: u16) + uint (ucast old :: u16)
      - uint (ucast (drop_bit 16 new) :: u16) - uint (ucast new :: u16)) mod 65535"
  unfolding csum_swap32_def
  by (intro csum16_add_int_cong csum16_add_not_int_cong refl)

lemma csum_swap16_int:
  "uint c mod 65535 = x mod 65535 \<Longrightarrow>
   uint (csum_swap16 c old new) mod 65535 = (x + uint old - uint new) mod 65535"
  unfolding csum_swap16_def
  by (intro csum16_add_int_cong csum16_add_not_int_cong)

section \<open>Storing a word changes the sum by the difference\<close>

lemma st16_Cons2: "st16 (a # b # r) (Suc (Suc j)) x = a # b # st16 r j x"
  by (simp add: st16_def)

lemma ld16_Cons2: "ld16 (a # b # r) (Suc (Suc j)) = ld16 r j"
  by (simp add: ld16_def)

lemma wsum_st16_0: "wsum (st16 (a # b # r) 0 x) = unat x + wsum r"
proof -
  have "unat (ld16 (st16 (a # b # r) 0 x) 0) = unat x"
    by (simp add: ld_st)
  then show ?thesis unfolding unat_ld16 by (simp add: st16_def)
qed

lemma wsum_st16:
  "even i \<Longrightarrow> i + 1 < length p \<Longrightarrow> int (wsum (st16 p i x)) = int (wsum p) - uint (ld16 p i) + uint x"
proof (induction p arbitrary: i rule: wsum.induct)
  case (3 a b r)
  show ?case
  proof (cases "i = 0")
    case True
    have "int (unat (ld16 (a # b # r) 0)) = int (unat a) + 256 * int (unat b)"
      by (simp only: unat_ld16) simp
    with True show ?thesis by (simp add: wsum_st16_0)
  next
    case False
    obtain k where "i = 2 * k" using "3.prems"(1) by (rule evenE)
    with False have j: "i = Suc (Suc (2 * (k - 1)))" "even (2 * (k - 1))" by (cases k; simp)+
    have "2 * (k - 1) + 1 < length r" using "3.prems"(2) j(1) by simp
    with j(2) have "int (wsum (st16 r (2 * (k - 1)) x)) = int (wsum r) - uint (ld16 r (2 * (k - 1))) + uint x"
      by (rule "3.IH")
    then show ?thesis unfolding j(1) st16_Cons2 ld16_Cons2 wsum.simps of_nat_add by linarith
  qed
qed auto

lemma ldn_st16_in:
  "o' \<le> i \<Longrightarrow> i + 2 \<le> o' + n \<Longrightarrow> ldn n (st16 p i x) o' = st16 (ldn n p o') (i - o') x"
  unfolding ldn_def st16_def
  by (cases "i + 1 < length p") (auto simp: drop_update_swap take_update_swap Suc_diff_le)

lemma ld16_ldn: "j + 2 \<le> n \<Longrightarrow> o' + n \<le> length p \<Longrightarrow> ld16 (ldn n p o') j = ld16 p (o' + j)"
  by (simp add: ld16_def ldn_def)

lemma wsum_ldn_st16:
  assumes "o' \<le> i" "i + 2 \<le> o' + n" "o' + n \<le> length p" "even (i - o')"
  shows "int (wsum (ldn n (st16 p i x) o')) =
    int (wsum (ldn n p o')) - uint (ld16 p i) + uint x"
proof -
  have "int (wsum (ldn n (st16 p i x) o')) = int (wsum (st16 (ldn n p o') (i - o') x))"
    using assms by (simp add: ldn_st16_in)
  also have "\<dots> = int (wsum (ldn n p o')) - uint (ld16 (ldn n p o') (i - o')) + uint x"
    by (rule wsum_st16) (use assms in auto)
  also have "ld16 (ldn n p o') (i - o') = ld16 p i"
    using assms by (subst ld16_ldn) auto
  finally show ?thesis .
qed

lemma wsum_ldn_st32:
  assumes "o' \<le> i" "i + 4 \<le> o' + n" "o' + n \<le> length p" "even (i - o')"
  shows "int (wsum (ldn n (st32 p i x) o')) =
    int (wsum (ldn n p o')) - uint (ld16 p i) - uint (ld16 p (i + 2))
      + uint (ucast x :: u16) + uint (ucast (drop_bit 16 x) :: u16)"
proof -
  have "even (i + 2 - o')" using assms by (simp add: Suc_diff_le)
  with assms show ?thesis
    unfolding st32_def by (simp add: wsum_ldn_st16 ld_st)
qed

lemma wsum_pos: "wsum p = 0 \<Longrightarrow> i < length p \<Longrightarrow> p ! i = 0"
proof (induction p arbitrary: i rule: wsum.induct)
  case (2 a)
  then show ?case by (simp add: unat_eq_zero)
next
  case (3 a b r)
  then show ?case by (cases i rule: nat.exhaust; cases "i - 1") (auto simp: unat_eq_zero nth_Cons split: nat.splits)
qed auto

end
