(* ===== verification/BpfTable.thy ===== *)
theory BpfTable
  imports Prelude "HOL-Library.AList"
begin

text \<open>
  The hash tables of the switch program.  They are maps of the BPF runtime (declared with
  \<open>BPF_TABLE\<close> in prism_switch.bpf.c), not code of the repository, so the model takes their
  operations as a parameter: a record of functions over an abstract table state.  What the program
  relies on is the locale \<open>bpf_hash\<close>, which states the documented behaviour of a BPF hash map; an
  update may fail (the table is bounded) and a failed operation changes nothing.  The interpretation
  at the end shows a bounded association list to be such a table.
\<close>

section \<open>The operations\<close>

record ('k, 'v, 'm) bpf_table =
  bt_lookup :: "'m \<Rightarrow> 'k \<Rightarrow> 'v option"
  bt_update :: "'m \<Rightarrow> 'k \<Rightarrow> 'v \<Rightarrow> int \<times> 'm"
  bt_delete :: "'m \<Rightarrow> 'k \<Rightarrow> int \<times> 'm"
  bt_write :: "'m \<Rightarrow> 'k \<Rightarrow> 'v \<Rightarrow> 'm" \<comment> \<open>a store through the pointer \<open>lookup\<close> returned\<close>

section \<open>What the program relies on\<close>

locale bpf_hash =
  fixes T :: "('k, 'v, 'm) bpf_table"
  assumes update_ok: "bt_update T m k v = (0, m') \<Longrightarrow> bt_lookup T m' = (bt_lookup T m)(k \<mapsto> v)"
    and update_fail: "bt_update T m k v = (e, m') \<Longrightarrow> e \<noteq> 0 \<Longrightarrow> e < 0 \<and> bt_lookup T m' = bt_lookup T m"
    and delete_ok: "bt_delete T m k = (0, m') \<Longrightarrow> bt_lookup T m' = (bt_lookup T m)(k := None)"
    and delete_fail: "bt_delete T m k = (e, m') \<Longrightarrow> e \<noteq> 0 \<Longrightarrow> e < 0 \<and> bt_lookup T m' = bt_lookup T m"
    and delete_absent: "bt_lookup T m k = None \<Longrightarrow> fst (bt_delete T m k) = - ENOENT"
    and write_ok: "bt_lookup T m k = Some v0 \<Longrightarrow> bt_lookup T (bt_write T m k v) = (bt_lookup T m)(k \<mapsto> v)"
begin

lemma update_lookup:
  "bt_update T m k v = (e, m') \<Longrightarrow>
     bt_lookup T m' = (if e = 0 then (bt_lookup T m)(k \<mapsto> v) else bt_lookup T m)"
  using update_ok update_fail by auto

lemma delete_lookup:
  "bt_delete T m k = (e, m') \<Longrightarrow>
     bt_lookup T m' = (if e = 0 then (bt_lookup T m)(k := None) else bt_lookup T m)"
  using delete_ok delete_fail by auto

lemma update_nonpos: "bt_update T m k v = (e, m') \<Longrightarrow> e \<le> 0"
  using update_fail [of m k v e m'] by (cases "e = 0") auto

lemma delete_nonpos: "bt_delete T m k = (e, m') \<Longrightarrow> e \<le> 0"
  using delete_fail [of m k e m'] by (cases "e = 0") auto

lemma update_preserves:
  assumes "\<And>k v. bt_lookup T m k = Some v \<Longrightarrow> P k v" and "P k v" and "bt_update T m k v = (e, m')"
  shows "bt_lookup T m' k' = Some v' \<Longrightarrow> P k' v'"
  using assms update_lookup [OF assms(3)] by (auto split: if_splits)

lemma delete_preserves:
  assumes "\<And>k v. bt_lookup T m k = Some v \<Longrightarrow> P k v" and "bt_delete T m k = (e, m')"
  shows "bt_lookup T m' k' = Some v' \<Longrightarrow> P k' v'"
  using assms delete_lookup [OF assms(2)] by (auto split: if_splits)

end

text \<open>The tables of the program are preallocated, where replacing an element never fails.\<close>

locale bpf_hash_prealloc = bpf_hash +
  assumes update_present: "bt_lookup T m k = Some v0 \<Longrightarrow> fst (bt_update T m k v) = 0"
begin

lemma update_replaces:
  "bt_lookup T m k = Some v0 \<Longrightarrow> bt_update T m k v = (e, m') \<Longrightarrow>
     e = 0 \<and> bt_lookup T m' = (bt_lookup T m)(k \<mapsto> v)"
  using update_present [of m k v0 v] update_ok by auto

end

section \<open>A bounded association list is such a table\<close>

definition E2BIG :: int where "E2BIG = 7"

definition alist_table :: "nat \<Rightarrow> ('k, 'v, ('k \<times> 'v) list) bpf_table" where
  "alist_table cap = \<lparr>
     bt_lookup = map_of,
     bt_update = (\<lambda>m k v. if map_of m k = None \<and> cap \<le> length m then (- E2BIG, m)
                          else (0, AList.update k v m)),
     bt_delete = (\<lambda>m k. if map_of m k = None then (- ENOENT, m) else (0, AList.delete k m)),
     bt_write = (\<lambda>m k v. AList.update k v m)\<rparr>"

interpretation alist: bpf_hash_prealloc "alist_table cap" for cap
  by unfold_locales
    (auto simp: alist_table_def E2BIG_def ENOENT_def update_conv' delete_conv' split: if_splits)

end
