(* ===== verification/PswProto.thy ===== *)
theory PswProto
  imports Prelude
begin

text \<open>
  The configuration protocol between the servers and the switch (prism_switch.h, and the copy of it
  in prism_switch_client.h): the packed request structures, their reading out of a packet (the cast
  of a pointer to a structure) and their memory image (what \<open>memcpy\<close> puts into a datagram).  The
  locale \<open>wire_struct\<close> is the contract of such a layout; it is interpreted for every request.
\<close>

section \<open>Request types\<close>

definition PSW_REQ_ADD :: byte where "PSW_REQ_ADD = 0"
definition PSW_REQ_DELETE :: byte where "PSW_REQ_DELETE = 1"
definition PSW_REQ_CHOWN :: byte where "PSW_REQ_CHOWN = 2"
definition PSW_REQ_LOCK :: byte where "PSW_REQ_LOCK = 3"
definition PSW_REQ_UNLOCK :: byte where "PSW_REQ_UNLOCK = 4"

lemmas psw_req_defs =
  PSW_REQ_ADD_def PSW_REQ_DELETE_def PSW_REQ_CHOWN_def PSW_REQ_LOCK_def PSW_REQ_UNLOCK_def

section \<open>Structures\<close>

record psw_req_base =
  rb_type :: byte
  rb_status :: u16

record psw_add_req =
  ar_type :: byte
  ar_status :: u16
  ar_peer_addr :: u32
  ar_peer_port :: u16
  ar_virtual_addr :: u32
  ar_virtual_port :: u16
  ar_owner_addr :: u32
  ar_owner_port :: u16
  ar_owner_mac :: "byte list"
  ar_lock :: byte

record psw_chown_req =
  cr_type :: byte
  cr_status :: u16
  cr_peer_addr :: u32
  cr_peer_port :: u16
  cr_owner_addr :: u32
  cr_owner_port :: u16
  cr_owner_mac :: "byte list"
  cr_unlock :: byte

record psw_delete_req =
  dr_type :: byte
  dr_status :: u16
  dr_peer_addr :: u32
  dr_peer_port :: u16

record psw_lock_req =
  lr_type :: byte
  lr_status :: u16
  lr_peer_addr :: u32
  lr_peer_port :: u16

definition sizeof_req_base :: nat where "sizeof_req_base = 3"
definition sizeof_add_req :: nat where "sizeof_add_req = 28"
definition sizeof_chown_req :: nat where "sizeof_chown_req = 22"
definition sizeof_delete_req :: nat where "sizeof_delete_req = 9"
definition sizeof_lock_req :: nat where "sizeof_lock_req = 9"

lemmas sizeof_req_defs [wire_simps] =
  sizeof_req_base_def sizeof_add_req_def sizeof_chown_req_def sizeof_delete_req_def
  sizeof_lock_req_def

section \<open>Reading a structure in a buffer\<close>

definition req_base_at :: "byte list \<Rightarrow> nat \<Rightarrow> psw_req_base" where
  "req_base_at p i = \<lparr>rb_type = ld8 p i, rb_status = ld16 p (i + 1)\<rparr>"

definition add_req_at :: "byte list \<Rightarrow> nat \<Rightarrow> psw_add_req" where
  "add_req_at p i = \<lparr>ar_type = ld8 p i, ar_status = ld16 p (i + 1),
     ar_peer_addr = ld32 p (i + 3), ar_peer_port = ld16 p (i + 7),
     ar_virtual_addr = ld32 p (i + 9), ar_virtual_port = ld16 p (i + 13),
     ar_owner_addr = ld32 p (i + 15), ar_owner_port = ld16 p (i + 19),
     ar_owner_mac = ldn 6 p (i + 21), ar_lock = ld8 p (i + 27)\<rparr>"

definition chown_req_at :: "byte list \<Rightarrow> nat \<Rightarrow> psw_chown_req" where
  "chown_req_at p i = \<lparr>cr_type = ld8 p i, cr_status = ld16 p (i + 1),
     cr_peer_addr = ld32 p (i + 3), cr_peer_port = ld16 p (i + 7),
     cr_owner_addr = ld32 p (i + 9), cr_owner_port = ld16 p (i + 13),
     cr_owner_mac = ldn 6 p (i + 15), cr_unlock = ld8 p (i + 21)\<rparr>"

definition delete_req_at :: "byte list \<Rightarrow> nat \<Rightarrow> psw_delete_req" where
  "delete_req_at p i = \<lparr>dr_type = ld8 p i, dr_status = ld16 p (i + 1),
     dr_peer_addr = ld32 p (i + 3), dr_peer_port = ld16 p (i + 7)\<rparr>"

definition lock_req_at :: "byte list \<Rightarrow> nat \<Rightarrow> psw_lock_req" where
  "lock_req_at p i = \<lparr>lr_type = ld8 p i, lr_status = ld16 p (i + 1),
     lr_peer_addr = ld32 p (i + 3), lr_peer_port = ld16 p (i + 7)\<rparr>"

section \<open>Memory images\<close>

definition bytes16 :: "u16 \<Rightarrow> byte list" where
  "bytes16 x = [ucast x, ucast (drop_bit 8 x)]"

definition bytes32 :: "u32 \<Rightarrow> byte list" where
  "bytes32 x = bytes16 (ucast x) @ bytes16 (ucast (drop_bit 16 x))"

definition add_req_bytes :: "psw_add_req \<Rightarrow> byte list" where
  "add_req_bytes r = [ar_type r] @ bytes16 (ar_status r) @ bytes32 (ar_peer_addr r) @
     bytes16 (ar_peer_port r) @ bytes32 (ar_virtual_addr r) @ bytes16 (ar_virtual_port r) @
     bytes32 (ar_owner_addr r) @ bytes16 (ar_owner_port r) @ ar_owner_mac r @ [ar_lock r]"

definition chown_req_bytes :: "psw_chown_req \<Rightarrow> byte list" where
  "chown_req_bytes r = [cr_type r] @ bytes16 (cr_status r) @ bytes32 (cr_peer_addr r) @
     bytes16 (cr_peer_port r) @ bytes32 (cr_owner_addr r) @ bytes16 (cr_owner_port r) @
     cr_owner_mac r @ [cr_unlock r]"

definition delete_req_bytes :: "psw_delete_req \<Rightarrow> byte list" where
  "delete_req_bytes r = [dr_type r] @ bytes16 (dr_status r) @ bytes32 (dr_peer_addr r) @
     bytes16 (dr_peer_port r)"

definition lock_req_bytes :: "psw_lock_req \<Rightarrow> byte list" where
  "lock_req_bytes r = [lr_type r] @ bytes16 (lr_status r) @ bytes32 (lr_peer_addr r) @
     bytes16 (lr_peer_port r)"

lemma length_bytes16 [simp]: "length (bytes16 x) = 2"
  by (simp add: bytes16_def)

lemma length_bytes32 [simp]: "length (bytes32 x) = 4"
  by (simp add: bytes32_def)

section \<open>Loads from a concatenation\<close>

lemma ld8_append [wire_simps]: "ld8 (a @ b) i = (if i < length a then ld8 a i else ld8 b (i - length a))"
  by (simp add: ld8_def nth_append)

lemma ld16_append_left: "i + 2 \<le> length a \<Longrightarrow> ld16 (a @ b) i = ld16 a i"
  by (simp add: ld16_def nth_append)

lemma ld16_append_right: "length a \<le> i \<Longrightarrow> ld16 (a @ b) i = ld16 b (i - length a)"
  by (simp add: ld16_def nth_append Suc_diff_le)

lemma ld32_append_left: "i + 4 \<le> length a \<Longrightarrow> ld32 (a @ b) i = ld32 a i"
  by (simp add: ld32_def ld16_append_left)

lemma ld32_append_right: "length a \<le> i \<Longrightarrow> ld32 (a @ b) i = ld32 b (i - length a)"
  by (simp add: ld32_def ld16_append_right Suc_diff_le)

lemma ldn_append_left: "i + n \<le> length a \<Longrightarrow> ldn n (a @ b) i = ldn n a i"
  by (simp add: ldn_def)

lemma ldn_append_right: "length a \<le> i \<Longrightarrow> ldn n (a @ b) i = ldn n b (i - length a)"
  by (simp add: ldn_def)

lemma ld16_bytes16 [simp]: "ld16 (bytes16 x) 0 = x"
  by (simp add: ld16_def bytes16_def)

lemma ld32_bytes32 [simp]: "ld32 (bytes32 x) 0 = x"
proof -
  have "ld16 (bytes32 x) 0 = ucast x" by (simp add: bytes32_def ld16_append_left)
  moreover have "ld16 (bytes32 x) 2 = ucast (drop_bit 16 x)"
    by (simp add: bytes32_def ld16_append_right)
  ultimately show ?thesis by (simp add: ld32_def del: add_2_eq_Suc add_2_eq_Suc')
qed

lemma ldn_all [simp]: "n = length a \<Longrightarrow> ldn n a 0 = a"
  by (simp add: ldn_def)

lemma load_Cons:
  "ld8 (b # xs) 0 = b"
  "0 < i \<Longrightarrow> ld8 (b # xs) i = ld8 xs (i - 1)"
  "0 < i \<Longrightarrow> ld16 (b # xs) i = ld16 xs (i - 1)"
  "0 < i \<Longrightarrow> ld32 (b # xs) i = ld32 xs (i - 1)"
  "0 < i \<Longrightarrow> ldn n (b # xs) i = ldn n xs (i - 1)"
  by (simp_all add: ld8_def ld16_def ld32_def ldn_def drop_Cons')

lemmas load_append = load_Cons
  ld8_append ld16_append_left ld16_append_right ld32_append_left ld32_append_right
  ldn_append_left ldn_append_right

lemma shift_loads:
  "ld8 (a @ b) (length a + i) = ld8 b i"
  "ld16 (a @ b) (length a + i) = ld16 b i"
  "ld32 (a @ b) (length a + i) = ld32 b i"
  "ldn n (a @ b) (length a + i) = ldn n b i"
  by (simp_all add: ld8_append ld16_append_right ld32_append_right ldn_append_right)

section \<open>The contract of a layout\<close>

text \<open>
  \<open>enc\<close> writes a well-formed structure as exactly \<open>n\<close> bytes, and reading at the place where these
  bytes lie gives the structure back, whatever surrounds them.
\<close>

locale wire_struct =
  fixes n :: nat
    and wf :: "'a \<Rightarrow> bool"
    and enc :: "'a \<Rightarrow> byte list"
    and dec :: "byte list \<Rightarrow> nat \<Rightarrow> 'a"
  assumes enc_length: "wf x \<Longrightarrow> length (enc x) = n"
    and dec_enc: "wf x \<Longrightarrow> dec (enc x @ post) 0 = x"
    and dec_shift: "dec (pre @ b) (length pre + i) = dec b i"
begin

lemma dec_in_packet: "wf x \<Longrightarrow> dec (pre @ enc x @ post) (length pre) = x"
  using dec_shift [of pre "enc x @ post" 0] by (simp add: dec_enc)

lemma dec_at_header: "wf x \<Longrightarrow> length pre = k \<Longrightarrow> dec (pre @ enc x @ post) k = x"
  using dec_in_packet by blast

lemma enc_inj: "wf x \<Longrightarrow> wf y \<Longrightarrow> enc x = enc y \<Longrightarrow> x = y"
  using dec_enc [of x "[]"] dec_enc [of y "[]"] by simp

lemma fits: "wf x \<Longrightarrow> length pre = k \<Longrightarrow> k + n \<le> length (pre @ enc x @ post)"
  by (simp add: enc_length)

end

lemmas wire_layouts =
  add_req_bytes_def add_req_at_def chown_req_bytes_def chown_req_at_def
  delete_req_bytes_def delete_req_at_def lock_req_bytes_def lock_req_at_def

interpretation add_req: wire_struct sizeof_add_req "\<lambda>r. length (ar_owner_mac r) = 6"
    add_req_bytes add_req_at
  by unfold_locales
    (simp_all add: wire_layouts wire_simps load_append shift_loads add.assoc)

interpretation chown_req: wire_struct sizeof_chown_req "\<lambda>r. length (cr_owner_mac r) = 6"
    chown_req_bytes chown_req_at
  by unfold_locales
    (simp_all add: wire_layouts wire_simps load_append shift_loads add.assoc)

interpretation delete_req: wire_struct sizeof_delete_req "\<lambda>_. True" delete_req_bytes delete_req_at
  by unfold_locales
    (simp_all add: wire_layouts wire_simps load_append shift_loads add.assoc)

interpretation lock_req: wire_struct sizeof_lock_req "\<lambda>_. True" lock_req_bytes lock_req_at
  by unfold_locales
    (simp_all add: wire_layouts wire_simps load_append shift_loads add.assoc)

end
