(* ===== verification/PrismSwitch.thy ===== *)
theory PrismSwitch
  imports Checksum BpfTable PswProto
begin

text \<open>
  The data path of the switch: the eBPF program \<open>vale_lookup\<close> of switch/src/cpp/prism_switch.bpf.c,
  which parses a frame, serves configuration requests addressed to the switch, rewrites the TCP
  segments of handed-off flows, and learns MAC addresses.  A frame is a list of bytes, a header
  pointer is an offset into it, a header is read as a record and written field by field, as the C
  code does through its casts.  This theory holds the model; PrismSwitchProps proves its properties.
\<close>

section \<open>Protocol headers\<close>

record eth_hdr =
  eth_dst :: "byte list"
  eth_src :: "byte list"
  eth_type :: u16

definition eth_at :: "byte list \<Rightarrow> nat \<Rightarrow> eth_hdr" where
  "eth_at p i = \<lparr>eth_dst = ldn 6 p i, eth_src = ldn 6 p (i + 6), eth_type = ld16 p (i + 12)\<rparr>"

definition ETH_P_IP :: u16 where "ETH_P_IP = 0x0800"

record ip_hdr =
  ip_hl :: byte
  ip_v :: byte
  ip_tos :: byte
  ip_len :: u16
  ip_id :: u16
  ip_off :: u16
  ip_ttl :: byte
  ip_proto :: byte
  ip_csum :: u16
  ip_src :: u32
  ip_dst :: u32

definition ip_at :: "byte list \<Rightarrow> nat \<Rightarrow> ip_hdr" where
  "ip_at p i = \<lparr>ip_hl = ld8 p i AND 15, ip_v = drop_bit 4 (ld8 p i), ip_tos = ld8 p (i + 1),
     ip_len = ld16 p (i + 2), ip_id = ld16 p (i + 4), ip_off = ld16 p (i + 6),
     ip_ttl = ld8 p (i + 8), ip_proto = ld8 p (i + 9), ip_csum = ld16 p (i + 10),
     ip_src = ld32 p (i + 12), ip_dst = ld32 p (i + 16)\<rparr>"

definition IPPROTO_TCP :: byte where "IPPROTO_TCP = 6"
definition IPPROTO_UDP :: byte where "IPPROTO_UDP = 17"

text \<open>The flag bits of the TCP header are kept as the byte that holds them; no code reads them.\<close>

record tcp_hdr =
  tcp_src :: u16
  tcp_dst :: u16
  tcp_seq :: u32
  tcp_ack_seq :: u32
  tcp_doff_res1 :: byte
  tcp_flags :: byte
  tcp_window :: u16
  tcp_csum :: u16
  tcp_urg_ptr :: u16

definition tcp_at :: "byte list \<Rightarrow> nat \<Rightarrow> tcp_hdr" where
  "tcp_at p i = \<lparr>tcp_src = ld16 p i, tcp_dst = ld16 p (i + 2), tcp_seq = ld32 p (i + 4),
     tcp_ack_seq = ld32 p (i + 8), tcp_doff_res1 = ld8 p (i + 12), tcp_flags = ld8 p (i + 13),
     tcp_window = ld16 p (i + 14), tcp_csum = ld16 p (i + 16), tcp_urg_ptr = ld16 p (i + 18)\<rparr>"

record udp_hdr =
  udp_src :: u16
  udp_dst :: u16
  udp_len :: u16
  udp_csum :: u16

definition udp_at :: "byte list \<Rightarrow> nat \<Rightarrow> udp_hdr" where
  "udp_at p i = \<lparr>udp_src = ld16 p i, udp_dst = ld16 p (i + 2), udp_len = ld16 p (i + 4),
     udp_csum = ld16 p (i + 6)\<rparr>"

definition sizeof_eth :: nat where "sizeof_eth = 14"
definition sizeof_ip :: nat where "sizeof_ip = 20"
definition sizeof_tcp :: nat where "sizeof_tcp = 20"
definition sizeof_udp :: nat where "sizeof_udp = 8"

lemmas sizeof_hdr_defs [wire_simps] = sizeof_eth_def sizeof_ip_def sizeof_tcp_def sizeof_udp_def

section \<open>Tables and metadata\<close>

record prism_key =
  key_addr :: u32
  key_port :: u32

record prism_value =
  virtual_addr :: u32
  virtual_port :: u16
  owner_addr :: u32
  owner_port :: u16
  owner_mac :: "byte list"
  locked :: byte

type_synonym l2_key = "byte list"

record headers =
  h_eth :: nat
  h_ip :: nat
  h_l4 :: nat \<comment> \<open>the union of the tcp and udp pointers\<close>
  h_prb :: nat

record metadata =
  md_pkt :: "byte list" \<comment> \<open>the bytes from \<open>data\<close> up to \<open>data_end\<close>\<close>
  md_cur :: nat
  md_sport :: u32
  md_sring :: u32
  md_dport :: u32
  md_matched :: byte
  md_abort :: byte

abbreviation data_end :: "metadata \<Rightarrow> nat" where
  "data_end md \<equiv> length (md_pkt md)"

text \<open>The two tables, and the address of the switch that the daemon compiles into the program.\<close>

record ('p, 'l) switch_env =
  prism_tab :: "(prism_key, prism_value, 'p) bpf_table"
  l2_tab :: "(l2_key, u32, 'l) bpf_table"
  CONFIG_ADDR :: u32
  CONFIG_PORT :: u16

record ('p, 'l) switch =
  sw_prism :: 'p
  sw_l2 :: 'l

definition VALE_BPF_BROADCAST :: u32 where "VALE_BPF_BROADCAST = 254"
definition VALE_BPF_DROP :: u32 where "VALE_BPF_DROP = 255"

section \<open>Configuration requests\<close>

definition swap_mac_byte :: "nat \<Rightarrow> byte list \<Rightarrow> nat \<Rightarrow> byte list" where
  "swap_mac_byte o' p i =
     (let tmp_mac = ld8 p (o' + 6 + i);
          p = st8 p (o' + 6 + i) (ld8 p (o' + i))
      in st8 p (o' + i) tmp_mac)"

definition config_prepare_response :: "metadata \<Rightarrow> headers \<Rightarrow> int \<Rightarrow> metadata" where
  "config_prepare_response md hdr status =
     (if status > 0 then md\<lparr>md_abort := 1\<rparr>
      else
        let p = md_pkt md;
            p = foldl (swap_mac_byte (h_eth hdr)) p [0..<6];
            tmp_ip = ip_src (ip_at p (h_ip hdr));
            p = st32 p (h_ip hdr + 12) (ip_dst (ip_at p (h_ip hdr)));
            p = st32 p (h_ip hdr + 16) tmp_ip;
            tmp_port = udp_src (udp_at p (h_l4 hdr));
            p = st16 p (h_l4 hdr) (udp_dst (udp_at p (h_l4 hdr)));
            p = st16 p (h_l4 hdr + 2) tmp_port;
            csum = csum16_sub (udp_csum (udp_at p (h_l4 hdr)))
                     (NOT (rb_status (req_base_at p (h_prb hdr))));
            csum = csum16_add csum (NOT (word_of_int (- status)));
            p = st16 p (h_l4 hdr + 6) csum
        in md\<lparr>md_pkt := p\<rparr>)"

definition config_handle_add_req ::
  "(prism_key, prism_value, 'p) bpf_table \<Rightarrow> metadata \<Rightarrow> 'p \<Rightarrow> int \<times> metadata \<times> 'p" where
  "config_handle_add_req T md m =
     (if \<not> md_cur md + sizeof_add_req \<le> data_end md then (- EINVAL, md, m)
      else
        let par = add_req_at (md_pkt md) (md_cur md);
            key = \<lparr>key_addr = ar_peer_addr par, key_port = ucast (ar_peer_port par)\<rparr>
        in case bt_lookup T m key of
             Some val \<Rightarrow> (- EEXIST, md, m)
           | None \<Rightarrow>
               let new_val = \<lparr>virtual_addr = ar_virtual_addr par, virtual_port = ar_virtual_port par,
                     owner_addr = ar_owner_addr par, owner_port = ar_owner_port par,
                     owner_mac = ar_owner_mac par, locked = ar_lock par\<rparr>;
                   (error, m') = bt_update T m key new_val
               in (if error \<noteq> 0 then (error, md, m') else (0, md, m')))"

definition config_handle_delete_req ::
  "(prism_key, prism_value, 'p) bpf_table \<Rightarrow> metadata \<Rightarrow> 'p \<Rightarrow> int \<times> metadata \<times> 'p" where
  "config_handle_delete_req T md m =
     (if \<not> md_cur md + sizeof_delete_req \<le> data_end md then (- EINVAL, md, m)
      else
        let pdr = delete_req_at (md_pkt md) (md_cur md);
            key = \<lparr>key_addr = dr_peer_addr pdr, key_port = ucast (dr_peer_port pdr)\<rparr>;
            (error, m') = bt_delete T m key
        in (if error \<noteq> 0 then (error, md, m') else (0, md, m')))"

definition config_handle_chown_req ::
  "(prism_key, prism_value, 'p) bpf_table \<Rightarrow> metadata \<Rightarrow> 'p \<Rightarrow> int \<times> metadata \<times> 'p" where
  "config_handle_chown_req T md m =
     (if \<not> md_cur md + sizeof_chown_req \<le> data_end md then (- EINVAL, md\<lparr>md_abort := 1\<rparr>, m)
      else
        let pcr = chown_req_at (md_pkt md) (md_cur md);
            key = \<lparr>key_addr = cr_peer_addr pcr, key_port = ucast (cr_peer_port pcr)\<rparr>
        in case bt_lookup T m key of
             None \<Rightarrow> (- ENOENT, md, m)
           | Some val \<Rightarrow>
               let new_val = val\<lparr>owner_addr := cr_owner_addr pcr, owner_port := cr_owner_port pcr,
                     owner_mac := cr_owner_mac pcr\<rparr>;
                   new_val = (if cr_unlock pcr \<noteq> 0
                     then new_val\<lparr>locked := (if locked new_val = 1 then 0 else 1)\<rparr> else new_val);
                   (error, m') = bt_update T m key new_val
               in (if error \<noteq> 0 then (error, md, m') else (0, md, m')))"

definition config_handle_lock_req ::
  "(prism_key, prism_value, 'p) bpf_table \<Rightarrow> metadata \<Rightarrow> 'p \<Rightarrow> int \<times> metadata \<times> 'p" where
  "config_handle_lock_req T md m =
     (if \<not> md_cur md + sizeof_lock_req \<le> data_end md then (- EINVAL, md\<lparr>md_abort := 1\<rparr>, m)
      else
        let plr = lock_req_at (md_pkt md) (md_cur md);
            key = \<lparr>key_addr = lr_peer_addr plr, key_port = ucast (lr_peer_port plr)\<rparr>
        in case bt_lookup T m key of
             None \<Rightarrow> (- ENOENT, md, m)
           | Some val \<Rightarrow>
               let new_val = val\<lparr>locked := (if locked val = 0 then 1 else 0)\<rparr>;
                   (error, m') = bt_update T m key new_val
               in (if error \<noteq> 0 then (error, md, m') else (0, md, m')))"

definition config_handle_unlock_req ::
  "(prism_key, prism_value, 'p) bpf_table \<Rightarrow> metadata \<Rightarrow> 'p \<Rightarrow> int \<times> metadata \<times> 'p" where
  "config_handle_unlock_req T md m =
     (if \<not> md_cur md + sizeof_lock_req \<le> data_end md then (- EINVAL, md\<lparr>md_abort := 1\<rparr>, m)
      else
        let pur = lock_req_at (md_pkt md) (md_cur md);
            key = \<lparr>key_addr = lr_peer_addr pur, key_port = ucast (lr_peer_port pur)\<rparr>
        in case bt_lookup T m key of
             None \<Rightarrow> (- ENOENT, md, m)
           | Some val \<Rightarrow>
               let new_val = val\<lparr>locked := (if locked val = 1 then 0 else 1)\<rparr>;
                   (error, m') = bt_update T m key new_val
               in (if error \<noteq> 0 then (error, md, m') else (0, md, m')))"

definition configure_switch ::
  "(prism_key, prism_value, 'p) bpf_table \<Rightarrow> metadata \<Rightarrow> headers \<Rightarrow> 'p \<Rightarrow> metadata \<times> headers \<times> 'p" where
  "configure_switch T md hdr m =
     (if \<not> md_cur md + sizeof_req_base \<le> data_end md then (md\<lparr>md_abort := 1\<rparr>, hdr, m)
      else
        let prb = req_base_at (md_pkt md) (md_cur md);
            hdr = hdr\<lparr>h_prb := md_cur md\<rparr>;
            respond = (\<lambda>(error, md, m). (config_prepare_response md hdr error, hdr, m))
        in if rb_type prb = PSW_REQ_ADD then respond (config_handle_add_req T md m)
           else if rb_type prb = PSW_REQ_DELETE then respond (config_handle_delete_req T md m)
           else if rb_type prb = PSW_REQ_CHOWN then respond (config_handle_chown_req T md m)
           else if rb_type prb = PSW_REQ_LOCK then respond (config_handle_lock_req T md m)
           else if rb_type prb = PSW_REQ_UNLOCK then respond (config_handle_unlock_req T md m)
           else (md\<lparr>md_abort := 1\<rparr>, hdr, m))"

section \<open>Rewriting the segments of handed-off flows\<close>

text \<open>
  Traffic of a server towards the peer of a handed-off flow leaves with the virtual address and
  port the peer connected to.
\<close>

definition prism_out_lookup ::
  "(prism_key, prism_value, 'p) bpf_table \<Rightarrow> metadata \<Rightarrow> headers \<Rightarrow> 'p \<Rightarrow> metadata" where
  "prism_out_lookup T md hdr m =
     (let p = md_pkt md;
          ip = ip_at p (h_ip hdr);
          tcp = tcp_at p (h_l4 hdr);
          key = \<lparr>key_addr = ip_dst ip, key_port = ucast (tcp_dst tcp)\<rparr>
      in case bt_lookup T m key of
           None \<Rightarrow> md
         | Some val \<Rightarrow>
             if locked val \<noteq> 0 then md\<lparr>md_abort := 1\<rparr>
             else
               let ics = csum16_sub (ip_csum ip) (NOT (ucast (drop_bit 16 (ip_src ip))));
                   ics = csum16_sub ics (NOT (ucast (ip_src ip AND 0xffff)));
                   ics = csum16_add ics (NOT (ucast (drop_bit 16 (virtual_addr val))));
                   ics = csum16_add ics (NOT (ucast (virtual_addr val AND 0xffff)));
                   p = st16 p (h_ip hdr + 10) ics;
                   tcs = csum16_sub (tcp_csum tcp) (NOT (ucast (drop_bit 16 (ip_src ip))));
                   tcs = csum16_sub tcs (NOT (ucast (ip_src ip AND 0xffff)));
                   tcs = csum16_add tcs (NOT (ucast (drop_bit 16 (virtual_addr val))));
                   tcs = csum16_add tcs (NOT (ucast (virtual_addr val AND 0xffff)));
                   tcs = csum16_sub tcs (NOT (tcp_src tcp));
                   tcs = csum16_add tcs (NOT (virtual_port val));
                   p = st16 p (h_l4 hdr + 16) tcs;
                   p = st16 p (h_l4 hdr) (virtual_port val);
                   p = st32 p (h_ip hdr + 12) (virtual_addr val)
               in md\<lparr>md_pkt := p, md_matched := 1\<rparr>)"

text \<open>Traffic of the peer goes to the current owner of the flow.\<close>

definition prism_in_lookup ::
  "(prism_key, prism_value, 'p) bpf_table \<Rightarrow> metadata \<Rightarrow> headers \<Rightarrow> 'p \<Rightarrow> metadata" where
  "prism_in_lookup T md hdr m =
     (let p = md_pkt md;
          ip = ip_at p (h_ip hdr);
          tcp = tcp_at p (h_l4 hdr);
          key = \<lparr>key_addr = ip_src ip, key_port = ucast (tcp_src tcp)\<rparr>
      in case bt_lookup T m key of
           None \<Rightarrow> md
         | Some val \<Rightarrow>
             if locked val = 1 then md\<lparr>md_abort := 1\<rparr>
             else
               let p = stn p (h_eth hdr) (owner_mac val);
                   ics = csum16_sub (ip_csum ip) (NOT (ucast (drop_bit 16 (ip_dst ip))));
                   ics = csum16_sub ics (NOT (ucast (ip_dst ip AND 0xffff)));
                   ics = csum16_add ics (NOT (ucast (drop_bit 16 (owner_addr val))));
                   ics = csum16_add ics (NOT (ucast (owner_addr val AND 0xffff)));
                   p = st16 p (h_ip hdr + 10) ics;
                   tcs = csum16_sub (tcp_csum tcp) (NOT (ucast (drop_bit 16 (ip_dst ip))));
                   tcs = csum16_sub tcs (NOT (ucast (ip_dst ip AND 0xffff)));
                   tcs = csum16_add tcs (NOT (ucast (drop_bit 16 (owner_addr val))));
                   tcs = csum16_add tcs (NOT (ucast (owner_addr val AND 0xffff)));
                   tcs = csum16_sub tcs (NOT (tcp_dst tcp));
                   tcs = csum16_add tcs (NOT (owner_port val));
                   p = st16 p (h_l4 hdr + 16) tcs;
                   p = st32 p (h_ip hdr + 16) (owner_addr val);
                   p = st16 p (h_l4 hdr + 2) (owner_port val)
               in md\<lparr>md_pkt := p, md_matched := 1\<rparr>)"

section \<open>Layer-2 learning\<close>

definition l2_lookup ::
  "(l2_key, u32, 'l) bpf_table \<Rightarrow> metadata \<Rightarrow> headers \<Rightarrow> 'l \<Rightarrow> metadata \<times> 'l" where
  "l2_lookup L md hdr l =
     (let eth = eth_at (md_pkt md) (h_eth hdr)
      in if ld8 (md_pkt md) (h_eth hdr) AND 1 \<noteq> 0 then (md\<lparr>md_dport := VALE_BPF_BROADCAST\<rparr>, l)
         else
           let (error, l') =
                 (case bt_lookup L l (eth_src eth) of
                    None \<Rightarrow> bt_update L l (eth_src eth) (md_sport md)
                  | Some sport \<Rightarrow>
                      (0, if sport \<noteq> md_sport md then bt_write L l (eth_src eth) (md_sport md) else l))
           in if error \<noteq> 0 then (md\<lparr>md_dport := VALE_BPF_DROP\<rparr>, l')
              else case bt_lookup L l' (eth_dst eth) of
                     None \<Rightarrow> (md\<lparr>md_dport := VALE_BPF_BROADCAST\<rparr>, l')
                   | Some dport \<Rightarrow> (md\<lparr>md_dport := dport\<rparr>, l'))"

section \<open>The program\<close>

record xdp_md =
  xm_pkt :: "byte list"
  ingress_ifindex :: u32
  rx_queue_index :: u32

type_synonym ('p, 'l) verdict = "u32 \<times> byte list \<times> ('p, 'l) switch"

text \<open>The label \<open>l2\<close>: the frame leaves by the port the layer-2 table gives.\<close>

definition vale_l2 :: "('p, 'l) switch_env \<Rightarrow> metadata \<Rightarrow> headers \<Rightarrow> ('p, 'l) switch \<Rightarrow> ('p, 'l) verdict" where
  "vale_l2 E md hdr s =
     (let (md, l) = l2_lookup (l2_tab E) md hdr (sw_l2 s)
      in (md_dport md, md_pkt md, s\<lparr>sw_l2 := l\<rparr>))"

definition vale_udp :: "('p, 'l) switch_env \<Rightarrow> metadata \<Rightarrow> headers \<Rightarrow> ('p, 'l) switch \<Rightarrow> ('p, 'l) verdict" where
  "vale_udp E md hdr s =
     (let hdr = hdr\<lparr>h_l4 := md_cur md\<rparr>
      in if \<not> md_cur md + sizeof_udp \<le> data_end md then vale_l2 E md hdr s
         else
           let udp = udp_at (md_pkt md) (h_l4 hdr);
               md = md\<lparr>md_cur := md_cur md + sizeof_udp\<rparr>
           in if ip_dst (ip_at (md_pkt md) (h_ip hdr)) \<noteq> CONFIG_ADDR E \<or> udp_dst udp \<noteq> CONFIG_PORT E
              then vale_l2 E md hdr s
              else
                let (md, hdr, m) = configure_switch (prism_tab E) md hdr (sw_prism s);
                    s = s\<lparr>sw_prism := m\<rparr>
                in if md_abort md = 1 then (VALE_BPF_DROP, md_pkt md, s)
                   else (md_sport md, md_pkt md, s))"

definition vale_tcp :: "('p, 'l) switch_env \<Rightarrow> metadata \<Rightarrow> headers \<Rightarrow> ('p, 'l) switch \<Rightarrow> ('p, 'l) verdict" where
  "vale_tcp E md hdr s =
     (let hdr = hdr\<lparr>h_l4 := md_cur md\<rparr>
      in if \<not> md_cur md + sizeof_tcp \<le> data_end md then vale_l2 E md hdr s
         else
           let md = md\<lparr>md_cur := md_cur md + sizeof_tcp\<rparr>;
               md = prism_out_lookup (prism_tab E) md hdr (sw_prism s)
           in if md_matched md = 1 then vale_l2 E md hdr s
              else if md_abort md = 1 then (VALE_BPF_DROP, md_pkt md, s)
              else
                let md = prism_in_lookup (prism_tab E) md hdr (sw_prism s)
                in if md_abort md = 1 then (VALE_BPF_DROP, md_pkt md, s)
                   else vale_l2 E md hdr s)"

definition vale_lookup :: "('p, 'l) switch_env \<Rightarrow> xdp_md \<Rightarrow> ('p, 'l) switch \<Rightarrow> ('p, 'l) verdict" where
  "vale_lookup E xm s =
     (let md = \<lparr>md_pkt = xm_pkt xm, md_cur = 0, md_sport = ingress_ifindex xm,
            md_sring = rx_queue_index xm, md_dport = VALE_BPF_DROP, md_matched = 0, md_abort = 0\<rparr>;
          hdr = \<lparr>h_eth = 0, h_ip = 0, h_l4 = 0, h_prb = 0\<rparr>;
          hdr = hdr\<lparr>h_eth := md_cur md\<rparr>
      in if \<not> md_cur md + sizeof_eth \<le> data_end md then (VALE_BPF_DROP, md_pkt md, s)
         else if ntohs (eth_type (eth_at (md_pkt md) (h_eth hdr))) \<noteq> ETH_P_IP then vale_l2 E md hdr s
         else
           let md = md\<lparr>md_cur := md_cur md + sizeof_eth\<rparr>;
               hdr = hdr\<lparr>h_ip := md_cur md\<rparr>
           in if \<not> md_cur md + sizeof_ip \<le> data_end md then vale_l2 E md hdr s
              else
                let ip = ip_at (md_pkt md) (h_ip hdr)
                in if ip_hl ip \<noteq> 5 then vale_l2 E md hdr s
                   else
                     let md = md\<lparr>md_cur := md_cur md + sizeof_ip\<rparr>
                     in if ip_proto ip = IPPROTO_UDP then vale_udp E md hdr s
                        else if ip_proto ip = IPPROTO_TCP then vale_tcp E md hdr s
                        else vale_l2 E md hdr s)"

end
