(* ===== verification/PrismSwitchProps.thy ===== *)
theory PrismSwitchProps
  imports PrismSwitch
begin

text \<open>
  Properties of the switch program.  First the frame classes the parser distinguishes and the
  dispatch of \<open>vale_lookup\<close> to them; then the rewriting of handed-off flows with its checksums,
  configuration requests, layer-2 learning, and runs of many frames.
\<close>

section \<open>Frame classes and dispatch\<close>

definition ip_frame :: "byte list \<Rightarrow> bool" where
  "ip_frame p \<longleftrightarrow> 34 \<le> length p \<and> ntohs (eth_type (eth_at p 0)) = ETH_P_IP \<and> ip_hl (ip_at p 14) = 5"

definition tcp_frame :: "byte list \<Rightarrow> bool" where
  "tcp_frame p \<longleftrightarrow> ip_frame p \<and> ip_proto (ip_at p 14) = IPPROTO_TCP \<and> 54 \<le> length p"

definition config_frame :: "('p, 'l) switch_env \<Rightarrow> byte list \<Rightarrow> bool" where
  "config_frame E p \<longleftrightarrow> ip_frame p \<and> ip_proto (ip_at p 14) = IPPROTO_UDP \<and> 42 \<le> length p \<and>
     ip_dst (ip_at p 14) = CONFIG_ADDR E \<and> udp_dst (udp_at p 34) = CONFIG_PORT E"

definition in_key :: "byte list \<Rightarrow> prism_key" where
  "in_key p = \<lparr>key_addr = ip_src (ip_at p 14), key_port = ucast (tcp_src (tcp_at p 34))\<rparr>"

definition out_key :: "byte list \<Rightarrow> prism_key" where
  "out_key p = \<lparr>key_addr = ip_dst (ip_at p 14), key_port = ucast (tcp_dst (tcp_at p 34))\<rparr>"

definition sw_rules :: "('p, 'l) switch_env \<Rightarrow> ('p, 'l) switch \<Rightarrow> prism_key \<rightharpoonup> prism_value" where
  "sw_rules E s = bt_lookup (prism_tab E) (sw_prism s)"

definition sw_macs :: "('p, 'l) switch_env \<Rightarrow> ('p, 'l) switch \<Rightarrow> l2_key \<rightharpoonup> u32" where
  "sw_macs E s = bt_lookup (l2_tab E) (sw_l2 s)"

definition frame_md :: "byte list \<Rightarrow> u32 \<Rightarrow> u32 \<Rightarrow> nat \<Rightarrow> metadata" where
  "frame_md p sport sring cur = \<lparr>md_pkt = p, md_cur = cur, md_sport = sport, md_sring = sring,
     md_dport = VALE_BPF_DROP, md_matched = 0, md_abort = 0\<rparr>"

text \<open>Forwarding of a frame by the layer-2 table alone.\<close>

definition l2_forward :: "('p, 'l) switch_env \<Rightarrow> byte list \<Rightarrow> u32 \<Rightarrow> ('p, 'l) switch \<Rightarrow> ('p, 'l) verdict" where
  "l2_forward E p sport s = vale_l2 E (frame_md p sport 0 0) \<lparr>h_eth = 0, h_ip = 0, h_l4 = 0, h_prb = 0\<rparr> s"

lemma vale_l2_forward:
  "h_eth hdr = 0 \<Longrightarrow> vale_l2 E md hdr s = l2_forward E (md_pkt md) (md_sport md) s"
  by (auto simp: vale_l2_def l2_forward_def l2_lookup_def frame_md_def Let_def split: option.splits prod.splits)

lemma frame_md_simps [simp]:
  "md_pkt (frame_md p sport sring cur) = p" "md_cur (frame_md p sport sring cur) = cur"
  "md_sport (frame_md p sport sring cur) = sport" "md_abort (frame_md p sport sring cur) = 0"
  "md_matched (frame_md p sport sring cur) = 0"
  "(frame_md p sport sring cur)\<lparr>md_cur := cur'\<rparr> = frame_md p sport sring cur'"
  by (simp_all add: frame_md_def)

lemma vale_lookup_frame:
  "vale_lookup E xm s =
     (let p = xm_pkt xm; sport = ingress_ifindex xm; sring = rx_queue_index xm in
      if length p < 14 then (VALE_BPF_DROP, p, s)
      else if \<not> ip_frame p then l2_forward E p sport s
      else if ip_proto (ip_at p 14) = IPPROTO_UDP then
        vale_udp E (frame_md p sport sring 34) \<lparr>h_eth = 0, h_ip = 14, h_l4 = 0, h_prb = 0\<rparr> s
      else if ip_proto (ip_at p 14) = IPPROTO_TCP then
        vale_tcp E (frame_md p sport sring 34) \<lparr>h_eth = 0, h_ip = 14, h_l4 = 0, h_prb = 0\<rparr> s
      else l2_forward E p sport s)"
  by (simp add: vale_lookup_def ip_frame_def wire_simps vale_l2_forward frame_md_def Let_def not_le)

lemma vale_lookup_short: "length (xm_pkt xm) < 14 \<Longrightarrow> vale_lookup E xm s = (VALE_BPF_DROP, xm_pkt xm, s)"
  by (simp add: vale_lookup_frame Let_def)

lemma vale_lookup_plain:
  assumes "14 \<le> length (xm_pkt xm)" "\<not> tcp_frame (xm_pkt xm)" "\<not> config_frame E (xm_pkt xm)"
  shows "vale_lookup E xm s = l2_forward E (xm_pkt xm) (ingress_ifindex xm) s"
  using assms
  by (auto simp: vale_lookup_frame Let_def tcp_frame_def config_frame_def vale_udp_def vale_tcp_def
      wire_simps vale_l2_forward IPPROTO_TCP_def IPPROTO_UDP_def)

lemma vale_lookup_config:
  assumes "config_frame E (xm_pkt xm)"
  shows "vale_lookup E xm s =
    (let (md, hdr, m) = configure_switch (prism_tab E)
           (frame_md (xm_pkt xm) (ingress_ifindex xm) (rx_queue_index xm) 42)
           \<lparr>h_eth = 0, h_ip = 14, h_l4 = 34, h_prb = 0\<rparr> (sw_prism s)
     in (if md_abort md = 1 then VALE_BPF_DROP else md_sport md, md_pkt md, s\<lparr>sw_prism := m\<rparr>))"
  using assms
  by (auto simp: vale_lookup_frame Let_def config_frame_def vale_udp_def wire_simps ip_frame_def
      split: prod.splits)

section \<open>Rewriting\<close>

lemma ucast_and_ffff [simp]: "ucast (x AND 0xffff :: u32) = (ucast x :: u16)"
proof -
  have "(mask 16 :: u32) = 0xffff" by (simp add: mask_eq_exp_minus_1)
  moreover have "ucast (x AND mask 16) = (ucast x :: u16)"
    by (rule bit_word_eqI) (auto simp: bit_simps)
  ultimately show ?thesis by simp
qed

text \<open>The frame after the peer's address or port fields have been replaced.\<close>

definition rewrite_in :: "prism_value \<Rightarrow> byte list \<Rightarrow> byte list" where
  "rewrite_in v p =
     (let ip = ip_at p 14; tcp = tcp_at p 34;
          q = st16 (stn p 0 (owner_mac v)) 24 (csum_swap32 (ip_csum ip) (ip_dst ip) (owner_addr v));
          q = st16 q 50 (csum_swap16 (csum_swap32 (tcp_csum tcp) (ip_dst ip) (owner_addr v))
                (tcp_dst tcp) (owner_port v))
      in st16 (st32 q 30 (owner_addr v)) 36 (owner_port v))"

definition rewrite_out :: "prism_value \<Rightarrow> byte list \<Rightarrow> byte list" where
  "rewrite_out v p =
     (let ip = ip_at p 14; tcp = tcp_at p 34;
          q = st16 p 24 (csum_swap32 (ip_csum ip) (ip_src ip) (virtual_addr v));
          q = st16 q 50 (csum_swap16 (csum_swap32 (tcp_csum tcp) (ip_src ip) (virtual_addr v))
                (tcp_src tcp) (virtual_port v))
      in st32 (st16 q 34 (virtual_port v)) 26 (virtual_addr v))"

lemma prism_in_lookup_eq:
  "prism_in_lookup T (frame_md p sport sring cur) \<lparr>h_eth = 0, h_ip = 14, h_l4 = 34, h_prb = 0\<rparr> m =
     (case bt_lookup T m (in_key p) of
        None \<Rightarrow> frame_md p sport sring cur
      | Some v \<Rightarrow>
          if locked v = 1 then (frame_md p sport sring cur)\<lparr>md_abort := 1\<rparr>
          else (frame_md p sport sring cur)\<lparr>md_pkt := rewrite_in v p, md_matched := 1\<rparr>)"
  by (simp add: prism_in_lookup_def in_key_def rewrite_in_def Let_def csum_swap32_def csum_swap16_def
      split: option.splits)

lemma prism_out_lookup_eq:
  "prism_out_lookup T (frame_md p sport sring cur) \<lparr>h_eth = 0, h_ip = 14, h_l4 = 34, h_prb = 0\<rparr> m =
     (case bt_lookup T m (out_key p) of
        None \<Rightarrow> frame_md p sport sring cur
      | Some v \<Rightarrow>
          if locked v \<noteq> 0 then (frame_md p sport sring cur)\<lparr>md_abort := 1\<rparr>
          else (frame_md p sport sring cur)\<lparr>md_pkt := rewrite_out v p, md_matched := 1\<rparr>)"
  by (simp add: prism_out_lookup_def out_key_def rewrite_out_def Let_def csum_swap32_def csum_swap16_def
      split: option.splits)

text \<open>What the program does with a TCP segment, by the rules of its two end points.\<close>

lemma vale_lookup_tcp:
  assumes "tcp_frame (xm_pkt xm)"
  shows "vale_lookup E xm s =
    (let p = xm_pkt xm; sport = ingress_ifindex xm in
     case sw_rules E s (out_key p) of
       Some v \<Rightarrow>
         if locked v \<noteq> 0 then (VALE_BPF_DROP, p, s) else l2_forward E (rewrite_out v p) sport s
     | None \<Rightarrow>
         (case sw_rules E s (in_key p) of
            Some v \<Rightarrow>
              if locked v = 1 then (VALE_BPF_DROP, p, s) else l2_forward E (rewrite_in v p) sport s
          | None \<Rightarrow> l2_forward E p sport s))"
  using assms
  by (auto simp: vale_lookup_frame Let_def tcp_frame_def vale_tcp_def wire_simps prism_out_lookup_eq
      prism_in_lookup_eq sw_rules_def vale_l2_forward IPPROTO_TCP_def IPPROTO_UDP_def ip_frame_def
      split: option.splits)

lemma length_rewrite [simp]: "length (rewrite_in v p) = length p" "length (rewrite_out v p) = length p"
  by (simp_all add: rewrite_in_def rewrite_out_def Let_def)

lemma drop_beyond:
  "j < n \<Longrightarrow> drop n (st8 p j b) = drop n p"
  "j + 2 \<le> n \<Longrightarrow> drop n (st16 p j x) = drop n p"
  "j + 4 \<le> n \<Longrightarrow> drop n (st32 p j y) = drop n p"
  by (simp_all add: st8_def st16_def st32_def)

lemma drop_stn_beyond: "j + length bs \<le> n \<Longrightarrow> drop n (stn p j bs) = drop n p"
  by (induction bs arbitrary: p j) auto

lemma rewrite_in_headers:
  assumes "54 \<le> length p" "length (owner_mac v) = 6"
  shows "eth_at (rewrite_in v p) 0 = (eth_at p 0)\<lparr>eth_dst := owner_mac v\<rparr>"
    and "ip_at (rewrite_in v p) 14 = (ip_at p 14)\<lparr>ip_dst := owner_addr v,
           ip_csum := csum_swap32 (ip_csum (ip_at p 14)) (ip_dst (ip_at p 14)) (owner_addr v)\<rparr>"
    and "tcp_at (rewrite_in v p) 34 = (tcp_at p 34)\<lparr>tcp_dst := owner_port v,
           tcp_csum := csum_swap16 (csum_swap32 (tcp_csum (tcp_at p 34)) (ip_dst (ip_at p 14)) (owner_addr v))
                         (tcp_dst (tcp_at p 34)) (owner_port v)\<rparr>"
    and "drop 54 (rewrite_in v p) = drop 54 p"
  using assms
  by (simp_all add: rewrite_in_def Let_def eth_at_def ip_at_def tcp_at_def ld_st drop_beyond drop_stn_beyond)

lemma rewrite_out_headers:
  assumes "54 \<le> length p"
  shows "eth_at (rewrite_out v p) 0 = eth_at p 0"
    and "ip_at (rewrite_out v p) 14 = (ip_at p 14)\<lparr>ip_src := virtual_addr v,
           ip_csum := csum_swap32 (ip_csum (ip_at p 14)) (ip_src (ip_at p 14)) (virtual_addr v)\<rparr>"
    and "tcp_at (rewrite_out v p) 34 = (tcp_at p 34)\<lparr>tcp_src := virtual_port v,
           tcp_csum := csum_swap16 (csum_swap32 (tcp_csum (tcp_at p 34)) (ip_src (ip_at p 14)) (virtual_addr v))
                         (tcp_src (tcp_at p 34)) (virtual_port v)\<rparr>"
    and "drop 54 (rewrite_out v p) = drop 54 p"
  using assms
  by (simp_all add: rewrite_out_def Let_def eth_at_def ip_at_def tcp_at_def ld_st drop_beyond)

subsection \<open>Checksums\<close>

text \<open>
  The sum a receiver forms over the IP header, and over the TCP pseudo header (addresses, protocol
  and segment length, in network order) and segment.
\<close>

definition ip_sum :: "byte list \<Rightarrow> nat" where
  "ip_sum p = wsum (ldn 20 p 14)"

definition seg_len :: "byte list \<Rightarrow> nat" where
  "seg_len p = unat (ntohs (ip_len (ip_at p 14))) - 20"

definition tcp_sum :: "byte list \<Rightarrow> nat" where
  "tcp_sum p = wsum (ldn 8 p 26) + wsum [0, ip_proto (ip_at p 14)]
     + wsum (bytes16 (htons (of_nat (seg_len p)))) + wsum (ldn (seg_len p) p 34)"

definition ip_csum_ok :: "byte list \<Rightarrow> bool" where
  "ip_csum_ok p \<longleftrightarrow> csum_verifies (ip_sum p)"

definition tcp_csum_ok :: "byte list \<Rightarrow> bool" where
  "tcp_csum_ok p \<longleftrightarrow> csum_verifies (tcp_sum p)"

text \<open>A frame that holds the whole of the segment its IP header announces.\<close>

definition whole_segment :: "byte list \<Rightarrow> bool" where
  "whole_segment p \<longleftrightarrow> tcp_frame p \<and> 20 \<le> seg_len p \<and> 34 + seg_len p \<le> length p"

lemma ip_frame_sum_pos: "ip_frame p \<Longrightarrow> 0 < ip_sum p"
proof -
  assume f: "ip_frame p"
  then have "ldn 20 p 14 ! 0 \<noteq> 0" by (auto simp: ip_frame_def ip_at_def ld8_def ldn_def)
  moreover have "0 < length (ldn 20 p 14)" using f by (simp add: ip_frame_def)
  ultimately show ?thesis unfolding ip_sum_def using wsum_pos by blast
qed

lemma tcp_frame_sum_pos: "tcp_frame p \<Longrightarrow> 0 < tcp_sum p"
  by (simp add: tcp_frame_def tcp_sum_def IPPROTO_TCP_def)

lemma ip_at_fields: "ip_csum (ip_at p i) = ld16 p (i + 10)" "ip_src (ip_at p i) = ld32 p (i + 12)"
  "ip_dst (ip_at p i) = ld32 p (i + 16)" "ip_len (ip_at p i) = ld16 p (i + 2)"
  "ip_proto (ip_at p i) = ld8 p (i + 9)"
  by (simp_all add: ip_at_def)

lemma tcp_at_fields: "tcp_csum (tcp_at p i) = ld16 p (i + 16)" "tcp_src (tcp_at p i) = ld16 p i"
  "tcp_dst (tcp_at p i) = ld16 p (i + 2)"
  by (simp_all add: tcp_at_def)

lemmas sum_stores = wsum_ldn_st16 wsum_ldn_st32 ld_st ucast_ld32 ucast_drop_ld32

lemma mod_replace: "a = s + c \<Longrightarrow> c mod M = e mod M \<Longrightarrow> s + e = b \<Longrightarrow> a mod M = b mod (M :: int)"
  using mod_add_cong [of s M s c e] by simp

lemma ip_sum_rewrite_in:
  assumes "54 \<le> length p" "length (owner_mac v) = 6"
  shows "int (ip_sum (rewrite_in v p)) mod 65535 = int (ip_sum p) mod 65535"
proof -
  let ?c = "csum_swap32 (ld16 p 24) (ld32 p 30) (owner_addr v)"
  have "int (ip_sum (rewrite_in v p)) = int (ip_sum p) - uint (ld16 p 24) - uint (ld16 p 30)
      - uint (ld16 p 32) + uint (ucast (owner_addr v) :: u16)
      + uint (ucast (drop_bit 16 (owner_addr v)) :: u16) + uint ?c"
    using assms by (simp add: ip_sum_def rewrite_in_def Let_def ip_at_fields sum_stores)
  then show ?thesis
    by (rule mod_replace [OF _ csum_swap32_int]) (simp add: ucast_ld32 ucast_drop_ld32)
qed

lemma ip_sum_rewrite_out:
  assumes "54 \<le> length p"
  shows "int (ip_sum (rewrite_out v p)) mod 65535 = int (ip_sum p) mod 65535"
proof -
  let ?c = "csum_swap32 (ld16 p 24) (ld32 p 26) (virtual_addr v)"
  have "int (ip_sum (rewrite_out v p)) = int (ip_sum p) - uint (ld16 p 24) - uint (ld16 p 26)
      - uint (ld16 p 28) + uint (ucast (virtual_addr v) :: u16)
      + uint (ucast (drop_bit 16 (virtual_addr v)) :: u16) + uint ?c"
    using assms by (simp add: ip_sum_def rewrite_out_def Let_def ip_at_fields sum_stores)
  then show ?thesis
    by (rule mod_replace [OF _ csum_swap32_int]) (simp add: ucast_ld32 ucast_drop_ld32)
qed

lemma seg_len_rewrite [simp]:
  "54 \<le> length p \<Longrightarrow> length (owner_mac v) = 6 \<Longrightarrow> seg_len (rewrite_in v p) = seg_len p"
  "54 \<le> length p \<Longrightarrow> seg_len (rewrite_out v p) = seg_len p"
  by (simp_all add: seg_len_def rewrite_in_headers rewrite_out_headers)

lemma tcp_sum_rewrite_in:
  assumes "whole_segment p" "length (owner_mac v) = 6"
  shows "int (tcp_sum (rewrite_in v p)) mod 65535 = int (tcp_sum p) mod 65535"
proof -
  from assms(1) have len: "54 \<le> length p" "20 \<le> seg_len p" "34 + seg_len p \<le> length p"
    by (auto simp: whole_segment_def tcp_frame_def)
  let ?c = "csum_swap16 (csum_swap32 (ld16 p 50) (ld32 p 30) (owner_addr v)) (ld16 p 36) (owner_port v)"
  have proto: "ip_proto (ip_at (rewrite_in v p) 14) = ip_proto (ip_at p 14)"
    using len assms(2) by (simp add: rewrite_in_headers)
  have sl: "seg_len (rewrite_in v p) = seg_len p" using len assms(2) by simp
  have "int (tcp_sum (rewrite_in v p)) = int (tcp_sum p) - uint (ld16 p 30) - uint (ld16 p 32)
      + uint (ucast (owner_addr v) :: u16) + uint (ucast (drop_bit 16 (owner_addr v)) :: u16)
      - uint (ld16 p 36) + uint (owner_port v) - uint (ld16 p 50) + uint ?c"
    unfolding tcp_sum_def proto sl
    using len assms(2)
    by (simp add: rewrite_in_def [of v p] Let_def ip_at_fields tcp_at_fields sum_stores)
  then show ?thesis
    by (rule mod_replace [OF _ csum_swap16_int [OF csum_swap32_int]])
      (simp add: ucast_ld32 ucast_drop_ld32)
qed

lemma tcp_sum_rewrite_out:
  assumes "whole_segment p"
  shows "int (tcp_sum (rewrite_out v p)) mod 65535 = int (tcp_sum p) mod 65535"
proof -
  from assms(1) have len: "54 \<le> length p" "20 \<le> seg_len p" "34 + seg_len p \<le> length p"
    by (auto simp: whole_segment_def tcp_frame_def)
  let ?c = "csum_swap16 (csum_swap32 (ld16 p 50) (ld32 p 26) (virtual_addr v)) (ld16 p 34) (virtual_port v)"
  have proto: "ip_proto (ip_at (rewrite_out v p) 14) = ip_proto (ip_at p 14)"
    using len by (simp add: rewrite_out_headers)
  have sl: "seg_len (rewrite_out v p) = seg_len p" using len by simp
  have "int (tcp_sum (rewrite_out v p)) = int (tcp_sum p) - uint (ld16 p 26) - uint (ld16 p 28)
      + uint (ucast (virtual_addr v) :: u16) + uint (ucast (drop_bit 16 (virtual_addr v)) :: u16)
      - uint (ld16 p 34) + uint (virtual_port v) - uint (ld16 p 50) + uint ?c"
    unfolding tcp_sum_def proto sl
    using len
    by (simp add: rewrite_out_def [of v p] Let_def ip_at_fields tcp_at_fields sum_stores)
  then show ?thesis
    by (rule mod_replace [OF _ csum_swap16_int [OF csum_swap32_int]])
      (simp add: ucast_ld32 ucast_drop_ld32)
qed

lemma csum_verifies_int_cong:
  "0 < m \<Longrightarrow> 0 < n \<Longrightarrow> int m mod 65535 = int n mod 65535 \<Longrightarrow> csum_verifies m = csum_verifies n"
proof (rule csum_verifies_cong)
  assume "int m mod 65535 = int n mod 65535"
  then have "int (m mod 65535) = int (n mod 65535)" by (simp add: zmod_int)
  then show "m mod 65535 = n mod 65535" by (simp only: of_nat_eq_iff)
qed

lemma frame_classes_rewrite:
  "54 \<le> length p \<Longrightarrow> length (owner_mac v) = 6 \<Longrightarrow> ip_frame (rewrite_in v p) = ip_frame p"
  "54 \<le> length p \<Longrightarrow> length (owner_mac v) = 6 \<Longrightarrow> tcp_frame (rewrite_in v p) = tcp_frame p"
  "54 \<le> length p \<Longrightarrow> ip_frame (rewrite_out v p) = ip_frame p"
  "54 \<le> length p \<Longrightarrow> tcp_frame (rewrite_out v p) = tcp_frame p"
  by (simp_all add: tcp_frame_def ip_frame_def rewrite_in_headers rewrite_out_headers)

lemma rewrite_in_csums:
  assumes "whole_segment p" "length (owner_mac v) = 6"
  shows "ip_csum_ok (rewrite_in v p) = ip_csum_ok p" "tcp_csum_ok (rewrite_in v p) = tcp_csum_ok p"
proof -
  have t: "tcp_frame p" "ip_frame p" "54 \<le> length p"
    using assms(1) by (auto simp: whole_segment_def tcp_frame_def)
  then have t': "tcp_frame (rewrite_in v p)" "ip_frame (rewrite_in v p)"
    using assms(2) by (simp_all add: frame_classes_rewrite)
  show "ip_csum_ok (rewrite_in v p) = ip_csum_ok p"
    unfolding ip_csum_ok_def
    by (rule csum_verifies_int_cong) (use t t' assms in \<open>simp_all add: ip_frame_sum_pos ip_sum_rewrite_in\<close>)
  show "tcp_csum_ok (rewrite_in v p) = tcp_csum_ok p"
    unfolding tcp_csum_ok_def
    by (rule csum_verifies_int_cong) (use t t' assms in \<open>simp_all add: tcp_frame_sum_pos tcp_sum_rewrite_in\<close>)
qed

lemma rewrite_out_csums:
  assumes "whole_segment p"
  shows "ip_csum_ok (rewrite_out v p) = ip_csum_ok p" "tcp_csum_ok (rewrite_out v p) = tcp_csum_ok p"
proof -
  have t: "tcp_frame p" "ip_frame p" "54 \<le> length p"
    using assms(1) by (auto simp: whole_segment_def tcp_frame_def)
  then have t': "tcp_frame (rewrite_out v p)" "ip_frame (rewrite_out v p)"
    by (simp_all add: frame_classes_rewrite)
  show "ip_csum_ok (rewrite_out v p) = ip_csum_ok p"
    unfolding ip_csum_ok_def
    by (rule csum_verifies_int_cong) (use t t' assms in \<open>simp_all add: ip_frame_sum_pos ip_sum_rewrite_out\<close>)
  show "tcp_csum_ok (rewrite_out v p) = tcp_csum_ok p"
    unfolding tcp_csum_ok_def
    by (rule csum_verifies_int_cong) (use t t' assms in \<open>simp_all add: tcp_frame_sum_pos tcp_sum_rewrite_out\<close>)
qed

end
