(* ===== verification/SwitchConfigProps.thy ===== *)
theory SwitchConfigProps
  imports PrismSwitchProps
begin

text \<open>
  Configuration of the switch.  The abstract specification is a partial map from flows to rules and
  five commands on it; the lemmas show that a request in a frame is such a command, that the program
  carries it out or refuses it, and what the response frame holds.
\<close>

section \<open>Commands on an abstract rule table\<close>

datatype psw_cmd =
    Add prism_key prism_value
  | Delete prism_key
  | Chown prism_key u32 u16 "byte list" bool
  | Lock prism_key
  | Unlock prism_key

type_synonym rules = "prism_key \<rightharpoonup> prism_value"

text \<open>The errno a command is refused with.\<close>

fun refusal :: "psw_cmd \<Rightarrow> rules \<Rightarrow> int option" where
  "refusal (Add k v) R = (if R k = None then None else Some EEXIST)"
| "refusal (Delete k) R = (if R k = None then Some ENOENT else None)"
| "refusal (Chown k a p m u) R = (if R k = None then Some ENOENT else None)"
| "refusal (Lock k) R = (if R k = None then Some ENOENT else None)"
| "refusal (Unlock k) R = (if R k = None then Some ENOENT else None)"

definition toggle_lock :: "byte \<Rightarrow> byte" where
  "toggle_lock l = (if l = 0 then 1 else 0)"

definition toggle_unlock :: "byte \<Rightarrow> byte" where
  "toggle_unlock l = (if l = 1 then 0 else 1)"

text \<open>The table after a command, as the program computes it.\<close>

fun exec_cmd :: "psw_cmd \<Rightarrow> rules \<Rightarrow> rules" where
  "exec_cmd (Add k v) R = R(k \<mapsto> v)"
| "exec_cmd (Delete k) R = R(k := None)"
| "exec_cmd (Chown k a p m u) R = (case R k of None \<Rightarrow> R | Some v \<Rightarrow>
     R(k \<mapsto> v\<lparr>owner_addr := a, owner_port := p, owner_mac := m,
           locked := (if u then toggle_unlock (locked v) else locked v)\<rparr>))"
| "exec_cmd (Lock k) R = (case R k of None \<Rightarrow> R | Some v \<Rightarrow>
     R(k \<mapsto> v\<lparr>locked := toggle_lock (locked v)\<rparr>))"
| "exec_cmd (Unlock k) R = (case R k of None \<Rightarrow> R | Some v \<Rightarrow>
     R(k \<mapsto> v\<lparr>locked := toggle_unlock (locked v)\<rparr>))"

text \<open>What the protocol means by the commands: lock and unlock set the lock.\<close>

fun spec_cmd :: "psw_cmd \<Rightarrow> rules \<Rightarrow> rules" where
  "spec_cmd (Add k v) R = R(k \<mapsto> v)"
| "spec_cmd (Delete k) R = R(k := None)"
| "spec_cmd (Chown k a p m u) R = (case R k of None \<Rightarrow> R | Some v \<Rightarrow>
     R(k \<mapsto> v\<lparr>owner_addr := a, owner_port := p, owner_mac := m, locked := (if u then 0 else locked v)\<rparr>))"
| "spec_cmd (Lock k) R = (case R k of None \<Rightarrow> R | Some v \<Rightarrow> R(k \<mapsto> v\<lparr>locked := 1\<rparr>))"
| "spec_cmd (Unlock k) R = (case R k of None \<Rightarrow> R | Some v \<Rightarrow> R(k \<mapsto> v\<lparr>locked := 0\<rparr>))"

text \<open>The commands a client may send in the protocol: only an unlocked flow is locked, and only a
  locked one unlocked.\<close>

fun in_protocol :: "psw_cmd \<Rightarrow> rules \<Rightarrow> bool" where
  "in_protocol (Chown k a p m u) R = (case R k of None \<Rightarrow> True | Some v \<Rightarrow> u \<longrightarrow> locked v = 1)"
| "in_protocol (Lock k) R = (case R k of None \<Rightarrow> True | Some v \<Rightarrow> locked v = 0)"
| "in_protocol (Unlock k) R = (case R k of None \<Rightarrow> True | Some v \<Rightarrow> locked v = 1)"
| "in_protocol _ R = True"

lemma exec_cmd_spec: "in_protocol c R \<Longrightarrow> exec_cmd c R = spec_cmd c R"
  by (cases c) (auto simp: toggle_lock_def toggle_unlock_def split: option.splits)

section \<open>The command a buffer holds\<close>

definition add_cmd :: "psw_add_req \<Rightarrow> psw_cmd" where
  "add_cmd r = Add \<lparr>key_addr = ar_peer_addr r, key_port = ucast (ar_peer_port r)\<rparr>
     \<lparr>virtual_addr = ar_virtual_addr r, virtual_port = ar_virtual_port r,
      owner_addr = ar_owner_addr r, owner_port = ar_owner_port r,
      owner_mac = ar_owner_mac r, locked = ar_lock r\<rparr>"

definition delete_cmd :: "psw_delete_req \<Rightarrow> psw_cmd" where
  "delete_cmd r = Delete \<lparr>key_addr = dr_peer_addr r, key_port = ucast (dr_peer_port r)\<rparr>"

definition chown_cmd :: "psw_chown_req \<Rightarrow> psw_cmd" where
  "chown_cmd r = Chown \<lparr>key_addr = cr_peer_addr r, key_port = ucast (cr_peer_port r)\<rparr>
     (cr_owner_addr r) (cr_owner_port r) (cr_owner_mac r) (cr_unlock r \<noteq> 0)"

definition lock_key :: "psw_lock_req \<Rightarrow> prism_key" where
  "lock_key r = \<lparr>key_addr = lr_peer_addr r, key_port = ucast (lr_peer_port r)\<rparr>"

definition cmd_at :: "byte list \<Rightarrow> nat \<Rightarrow> psw_cmd option" where
  "cmd_at p i =
     (if length p < i + sizeof_req_base then None
      else if ld8 p i = PSW_REQ_ADD then
        if length p < i + sizeof_add_req then None else Some (add_cmd (add_req_at p i))
      else if ld8 p i = PSW_REQ_DELETE then
        if length p < i + sizeof_delete_req then None else Some (delete_cmd (delete_req_at p i))
      else if ld8 p i = PSW_REQ_CHOWN then
        if length p < i + sizeof_chown_req then None else Some (chown_cmd (chown_req_at p i))
      else if ld8 p i = PSW_REQ_LOCK then
        if length p < i + sizeof_lock_req then None else Some (Lock (lock_key (lock_req_at p i)))
      else if ld8 p i = PSW_REQ_UNLOCK then
        if length p < i + sizeof_lock_req then None else Some (Unlock (lock_key (lock_req_at p i)))
      else None)"

lemmas cmd_defs = add_cmd_def delete_cmd_def chown_cmd_def lock_key_def

section \<open>The response\<close>

definition response :: "byte list \<Rightarrow> int \<Rightarrow> byte list" where
  "response p status = md_pkt (config_prepare_response (frame_md p 0 0 42)
     \<lparr>h_eth = 0, h_ip = 14, h_l4 = 34, h_prb = 42\<rparr> status)"

lemma config_prepare_response_frame:
  "status \<le> 0 \<Longrightarrow> config_prepare_response md \<lparr>h_eth = 0, h_ip = 14, h_l4 = 34, h_prb = 42\<rparr> status
     = md\<lparr>md_pkt := response (md_pkt md) status\<rparr>"
  by (simp add: response_def config_prepare_response_def Let_def)

text \<open>
  One request on the rule table: the program answers with an errno of 0 or below; it refuses what
  the specification refuses, and otherwise carries the command out unless the table update fails.
\<close>

definition outcome :: "psw_cmd \<Rightarrow> rules \<Rightarrow> int \<Rightarrow> rules \<Rightarrow> bool" where
  "outcome c R e R' \<longleftrightarrow>
     (case refusal c R of
        Some err \<Rightarrow> e = - err \<and> R' = R
      | None \<Rightarrow> e \<le> 0 \<and> R' = (if e = 0 then exec_cmd c R else R))"

lemma outcome_nonpos: "outcome c R e R' \<Longrightarrow> e \<le> 0"
  by (cases c) (auto simp: outcome_def errno_defs split: if_splits)

locale rule_table = bpf_hash T for T :: "(prism_key, prism_value, 'p) bpf_table"
begin

lemma outcome_update:
  assumes "bt_update T m k v = (e, m')" "refusal c (bt_lookup T m) = None"
    "exec_cmd c (bt_lookup T m) = (bt_lookup T m)(k \<mapsto> v)"
  shows "outcome c (bt_lookup T m) e (bt_lookup T m')"
  using assms update_lookup [OF assms(1)] update_nonpos [OF assms(1)] by (simp add: outcome_def)

lemma outcome_delete:
  assumes "bt_delete T m k = (e, m')"
  shows "outcome (Delete k) (bt_lookup T m) e (bt_lookup T m')"
proof (cases "bt_lookup T m k")
  case None
  then have "e = - ENOENT" using delete_absent [of m k] assms by simp
  then show ?thesis
    using None delete_lookup [OF assms] by (simp add: outcome_def ENOENT_def)
next
  case (Some v)
  then show ?thesis
    using delete_lookup [OF assms] delete_nonpos [OF assms] by (simp add: outcome_def)
qed

lemma handle_add:
  assumes "config_handle_add_req T md m = (e, md', m')" "md_cur md + sizeof_add_req \<le> data_end md"
  shows "md' = md \<and> outcome (add_cmd (add_req_at (md_pkt md) (md_cur md))) (bt_lookup T m) e (bt_lookup T m')"
  using assms
  by (auto simp: config_handle_add_req_def Let_def add_cmd_def outcome_def
      split: option.splits prod.splits if_splits dest: update_lookup update_nonpos)

lemma handle_delete:
  assumes "config_handle_delete_req T md m = (e, md', m')" "md_cur md + sizeof_delete_req \<le> data_end md"
  shows "md' = md \<and> outcome (delete_cmd (delete_req_at (md_pkt md) (md_cur md))) (bt_lookup T m) e (bt_lookup T m')"
  using assms
  by (auto simp: config_handle_delete_req_def Let_def delete_cmd_def
      split: prod.splits if_splits intro: outcome_delete)

lemma handle_chown:
  assumes "config_handle_chown_req T md m = (e, md', m')" "md_cur md + sizeof_chown_req \<le> data_end md"
  shows "md' = md \<and> outcome (chown_cmd (chown_req_at (md_pkt md) (md_cur md))) (bt_lookup T m) e (bt_lookup T m')"
  using assms
  by (auto simp: config_handle_chown_req_def Let_def chown_cmd_def outcome_def toggle_unlock_def
      split: option.splits prod.splits if_splits dest: update_lookup update_nonpos)

lemma handle_lock:
  assumes "config_handle_lock_req T md m = (e, md', m')" "md_cur md + sizeof_lock_req \<le> data_end md"
  shows "md' = md \<and> outcome (Lock (lock_key (lock_req_at (md_pkt md) (md_cur md)))) (bt_lookup T m) e (bt_lookup T m')"
  using assms
  by (auto simp: config_handle_lock_req_def Let_def lock_key_def outcome_def toggle_lock_def
      split: option.splits prod.splits if_splits dest: update_lookup update_nonpos)

lemma handle_unlock:
  assumes "config_handle_unlock_req T md m = (e, md', m')" "md_cur md + sizeof_lock_req \<le> data_end md"
  shows "md' = md \<and> outcome (Unlock (lock_key (lock_req_at (md_pkt md) (md_cur md)))) (bt_lookup T m) e (bt_lookup T m')"
  using assms
  by (auto simp: config_handle_unlock_req_def Let_def lock_key_def outcome_def toggle_unlock_def
      split: option.splits prod.splits if_splits dest: update_lookup update_nonpos)

text \<open>A whole request in a frame: one command carried out, and the response.\<close>

lemma configure_switch_request:
  assumes "configure_switch T md hdr m = (md', hdr', m')"
    and "hdr = \<lparr>h_eth = 0, h_ip = 14, h_l4 = 34, h_prb = 0\<rparr>" and "md_cur md = 42"
    and "cmd_at (md_pkt md) 42 = Some c"
  obtains e where "outcome c (bt_lookup T m) e (bt_lookup T m')"
    and "md' = md\<lparr>md_pkt := response (md_pkt md) e\<rparr>"
proof -
  have base: "rb_type (req_base_at (md_pkt md) 42) = ld8 (md_pkt md) 42"
    by (simp add: req_base_at_def)
  have "\<exists>e. outcome c (bt_lookup T m) e (bt_lookup T m') \<and>
      md' = config_prepare_response md \<lparr>h_eth = 0, h_ip = 14, h_l4 = 34, h_prb = 42\<rparr> e"
    using assms
    by (auto simp: configure_switch_def Let_def base cmd_at_def
        split: if_splits prod.splits dest!: handle_add handle_delete handle_chown handle_lock handle_unlock)
  then show ?thesis
    using that by (auto simp: config_prepare_response_frame outcome_nonpos)
qed

end

text \<open>On a preallocated table a command that is not refused is always carried out, unless it adds.\<close>

definition replaces :: "psw_cmd \<Rightarrow> bool" where
  "replaces c \<longleftrightarrow> (case c of Chown _ _ _ _ _ \<Rightarrow> True | Lock _ \<Rightarrow> True | Unlock _ \<Rightarrow> True | _ \<Rightarrow> False)"

locale rule_table_prealloc = rule_table + bpf_hash_prealloc
begin

lemma configure_switch_replaces:
  assumes "configure_switch T md hdr m = (md', hdr', m')"
    and "hdr = \<lparr>h_eth = 0, h_ip = 14, h_l4 = 34, h_prb = 0\<rparr>" and "md_cur md = 42"
    and "cmd_at (md_pkt md) 42 = Some c" and "replaces c" and "refusal c (bt_lookup T m) = None"
  shows "bt_lookup T m' = exec_cmd c (bt_lookup T m)"
  using assms
  by (auto simp: configure_switch_def Let_def req_base_at_def cmd_at_def replaces_def chown_cmd_def
      lock_key_def add_cmd_def delete_cmd_def config_handle_chown_req_def config_handle_lock_req_def
      config_handle_unlock_req_def toggle_lock_def toggle_unlock_def
      split: if_splits prod.splits option.splits dest: update_replaces)

end

interpretation alist_rules: rule_table_prealloc "alist_table cap" for cap
  by unfold_locales

end
