(* ===== verification/SwitchRuns.thy ===== *)
theory SwitchRuns
  imports SwitchConfigProps
begin

text \<open>
  The switch over many frames: frames of one kind leave the other kind's table alone, the reachable
  states keep the rule table well formed, and the properties of the switch that the rest of the
  system rests on.
\<close>

section \<open>Which table a frame can change\<close>

lemma l2_forward_cases:
  assumes "bpf_hash (l2_tab E)" and "l2_forward E p sport s = (v, q, s')"
  shows "q = p \<and> sw_prism s' = sw_prism s \<and>
    (if ld8 p 0 AND 1 \<noteq> 0 then v = VALE_BPF_BROADCAST \<and> s' = s
     else (sw_macs E s' = (sw_macs E s)(eth_src (eth_at p 0) \<mapsto> sport) \<and>
           v = (case sw_macs E s' (eth_dst (eth_at p 0)) of None \<Rightarrow> VALE_BPF_BROADCAST | Some d \<Rightarrow> d))
        \<or> (v = VALE_BPF_DROP \<and> sw_macs E s' = sw_macs E s \<and> sw_macs E s (eth_src (eth_at p 0)) = None))"
proof -
  note laws = bpf_hash.update_lookup [OF assms(1)] bpf_hash.update_nonpos [OF assms(1)]
  show ?thesis
    using assms(2)
    by (auto simp: l2_forward_def vale_l2_def l2_lookup_def frame_md_def sw_macs_def Let_def fun_eq_iff
        bpf_hash.write_ok [OF assms(1)] split: option.splits prod.splits if_splits dest: laws)
qed

lemma l2_forward_prism: "sw_prism (snd (snd (l2_forward E p sport s))) = sw_prism s"
  by (auto simp: l2_forward_def vale_l2_def l2_lookup_def Let_def split: option.splits prod.splits)

lemma data_frame_prism:
  assumes "\<not> config_frame E (xm_pkt xm)"
  shows "sw_prism (snd (snd (vale_lookup E xm s))) = sw_prism s"
proof -
  consider "length (xm_pkt xm) < 14" | "tcp_frame (xm_pkt xm)"
    | "14 \<le> length (xm_pkt xm)" "\<not> tcp_frame (xm_pkt xm)" by linarith
  then show ?thesis
    using assms
    by cases (auto simp: vale_lookup_short vale_lookup_tcp vale_lookup_plain l2_forward_prism Let_def
        split: option.splits)
qed

lemma config_frame_l2:
  assumes "config_frame E (xm_pkt xm)"
  shows "sw_l2 (snd (snd (vale_lookup E xm s))) = sw_l2 s"
  using assms by (auto simp: vale_lookup_config split: prod.splits)

lemma handle_sport [simp]:
  "md_sport (fst (snd (config_handle_add_req T md m))) = md_sport md"
  "md_sport (fst (snd (config_handle_delete_req T md m))) = md_sport md"
  "md_sport (fst (snd (config_handle_chown_req T md m))) = md_sport md"
  "md_sport (fst (snd (config_handle_lock_req T md m))) = md_sport md"
  "md_sport (fst (snd (config_handle_unlock_req T md m))) = md_sport md"
  by (simp_all add: config_handle_add_req_def config_handle_delete_req_def config_handle_chown_req_def
      config_handle_lock_req_def config_handle_unlock_req_def Let_def split: option.splits prod.splits)

lemma prepare_response_sport [simp]: "md_sport (config_prepare_response md hdr e) = md_sport md"
  by (simp add: config_prepare_response_def Let_def)

lemma configure_switch_sport: "md_sport (fst (configure_switch T md hdr m)) = md_sport md"
  by (simp add: configure_switch_def Let_def case_prod_unfold)

lemma config_frame_sport:
  assumes "config_frame E (xm_pkt xm)"
  shows "fst (vale_lookup E xm s) \<in> {ingress_ifindex xm, VALE_BPF_DROP}"
  by (simp add: vale_lookup_config [OF assms] case_prod_unfold Let_def configure_switch_sport)

text \<open>A configuration frame that holds no complete request changes no table.\<close>

lemma short_requests:
  "data_end md < md_cur md + sizeof_add_req \<Longrightarrow> config_handle_add_req T md m = (- EINVAL, md, m)"
  "data_end md < md_cur md + sizeof_delete_req \<Longrightarrow> config_handle_delete_req T md m = (- EINVAL, md, m)"
  "data_end md < md_cur md + sizeof_chown_req \<Longrightarrow> config_handle_chown_req T md m = (- EINVAL, md\<lparr>md_abort := 1\<rparr>, m)"
  "data_end md < md_cur md + sizeof_lock_req \<Longrightarrow> config_handle_lock_req T md m = (- EINVAL, md\<lparr>md_abort := 1\<rparr>, m)"
  "data_end md < md_cur md + sizeof_lock_req \<Longrightarrow> config_handle_unlock_req T md m = (- EINVAL, md\<lparr>md_abort := 1\<rparr>, m)"
  by (simp_all add: config_handle_add_req_def config_handle_delete_req_def config_handle_chown_req_def
      config_handle_lock_req_def config_handle_unlock_req_def)

lemma prepare_response_abort:
  "md_abort (config_prepare_response md hdr (- EINVAL)) = md_abort md"
  by (simp add: config_prepare_response_def EINVAL_def Let_def)

lemma respond_no_cmd:
  assumes "cmd_at (md_pkt md) 42 = None" "md_cur md = 42" "md_abort md = 0"
  shows "snd (snd (configure_switch T md hdr m)) = m"
    and "md_abort (fst (configure_switch T md hdr m)) =
      (if 45 \<le> data_end md \<and> (ld8 (md_pkt md) 42 = PSW_REQ_ADD \<or> ld8 (md_pkt md) 42 = PSW_REQ_DELETE) then 0 else 1)"
proof -
  have b: "rb_type (req_base_at (md_pkt md) 42) = ld8 (md_pkt md) 42" by (simp add: req_base_at_def)
  have s: "sizeof_req_base = 3" by (simp add: sizeof_req_defs)
  show "snd (snd (configure_switch T md hdr m)) = m"
    using assms by (auto simp: configure_switch_def cmd_at_def b Let_def short_requests split: if_splits)
  show "md_abort (fst (configure_switch T md hdr m)) =
      (if 45 \<le> data_end md \<and> (ld8 (md_pkt md) 42 = PSW_REQ_ADD \<or> ld8 (md_pkt md) 42 = PSW_REQ_DELETE) then 0 else 1)"
    using assms
    by (auto simp: configure_switch_def cmd_at_def b s Let_def short_requests prepare_response_abort psw_req_defs
        split: if_splits)
qed

lemma config_frame_no_cmd:
  assumes "config_frame E (xm_pkt xm)" "cmd_at (xm_pkt xm) 42 = None"
  shows "snd (snd (vale_lookup E xm s)) = s"
proof -
  have "snd (snd (configure_switch (prism_tab E)
      (frame_md (xm_pkt xm) (ingress_ifindex xm) (rx_queue_index xm) 42)
      \<lparr>h_eth = 0, h_ip = 14, h_l4 = 34, h_prb = 0\<rparr> (sw_prism s))) = sw_prism s"
    by (rule respond_no_cmd(1)) (simp_all add: assms)
  then show ?thesis
    by (auto simp: vale_lookup_config [OF assms(1)] split: prod.splits)
qed

lemma config_frame_cmd:
  assumes "bpf_hash (prism_tab E)" "config_frame E (xm_pkt xm)" "cmd_at (xm_pkt xm) 42 = Some c"
  obtains e s' where "vale_lookup E xm s = (ingress_ifindex xm, response (xm_pkt xm) e, s')"
    "outcome c (sw_rules E s) e (sw_rules E s')" "sw_l2 s' = sw_l2 s"
proof -
  let ?md = "frame_md (xm_pkt xm) (ingress_ifindex xm) (rx_queue_index xm) 42"
  let ?hdr = "\<lparr>h_eth = 0, h_ip = 14, h_l4 = 34, h_prb = 0\<rparr>"
  obtain md' hdr' m' where cs: "configure_switch (prism_tab E) ?md ?hdr (sw_prism s) = (md', hdr', m')"
    by (cases "configure_switch (prism_tab E) ?md ?hdr (sw_prism s)") auto
  have "rule_table (prism_tab E)" using assms(1) by (rule rule_table.intro)
  from rule_table.configure_switch_request [OF this cs refl _ _]
  obtain e where e: "outcome c (bt_lookup (prism_tab E) (sw_prism s)) e (bt_lookup (prism_tab E) m')"
    "md' = ?md\<lparr>md_pkt := response (md_pkt ?md) e\<rparr>"
    using assms(3) by (metis frame_md_simps(1,2))
  then have "vale_lookup E xm s = (ingress_ifindex xm, response (xm_pkt xm) e, s\<lparr>sw_prism := m'\<rparr>)"
    by (simp add: vale_lookup_config [OF assms(2)] cs)
  then show ?thesis using that e(1) by (simp add: sw_rules_def)
qed

lemma config_frame_replaces:
  assumes "bpf_hash_prealloc (prism_tab E)" "config_frame E (xm_pkt xm)" "cmd_at (xm_pkt xm) 42 = Some c"
    and "replaces c" "refusal c (sw_rules E s) = None"
  shows "sw_rules E (snd (snd (vale_lookup E xm s))) = exec_cmd c (sw_rules E s)"
proof -
  let ?md = "frame_md (xm_pkt xm) (ingress_ifindex xm) (rx_queue_index xm) 42"
  let ?hdr = "\<lparr>h_eth = 0, h_ip = 14, h_l4 = 34, h_prb = 0\<rparr>"
  obtain md' hdr' m' where cs: "configure_switch (prism_tab E) ?md ?hdr (sw_prism s) = (md', hdr', m')"
    by (cases "configure_switch (prism_tab E) ?md ?hdr (sw_prism s)") auto
  have loc: "rule_table_prealloc (prism_tab E)"
    using assms(1) by (simp add: rule_table_prealloc_def rule_table_def bpf_hash_prealloc_def)
  have "bt_lookup (prism_tab E) m' = exec_cmd c (bt_lookup (prism_tab E) (sw_prism s))"
    using assms(3-5) by (intro rule_table_prealloc.configure_switch_replaces [OF loc cs refl]) (simp_all add: sw_rules_def)
  then show ?thesis by (simp add: vale_lookup_config [OF assms(2)] cs sw_rules_def)
qed

section \<open>Runs\<close>

fun switch_run :: "('p, 'l) switch_env \<Rightarrow> xdp_md list \<Rightarrow> ('p, 'l) switch \<Rightarrow> ('p, 'l) switch" where
  "switch_run E [] s = s"
| "switch_run E (xm # xms) s = switch_run E xms (snd (snd (vale_lookup E xm s)))"

lemma switch_run_append: "switch_run E (xs @ ys) s = switch_run E ys (switch_run E xs s)"
  by (induction xs arbitrary: s) auto

lemma data_run_rules:
  "\<forall>xm \<in> set xms. \<not> config_frame E (xm_pkt xm) \<Longrightarrow> sw_rules E (switch_run E xms s) = sw_rules E s"
  by (induction xms arbitrary: s) (auto simp: sw_rules_def data_frame_prism)

section \<open>Reachable rule tables\<close>

definition rule_ok :: "prism_value \<Rightarrow> bool" where
  "rule_ok v \<longleftrightarrow> length (owner_mac v) = 6 \<and> (locked v = 0 \<or> locked v = 1)"

text \<open>The clients only add rules with a lock of 0 or 1.\<close>

definition client_frame :: "('p, 'l) switch_env \<Rightarrow> byte list \<Rightarrow> bool" where
  "client_frame E p \<longleftrightarrow> (\<forall>k v. config_frame E p \<longrightarrow> cmd_at p 42 = Some (Add k v) \<longrightarrow> locked v = 0 \<or> locked v = 1)"

inductive switch_reach :: "('p, 'l) switch_env \<Rightarrow> ('p, 'l) switch \<Rightarrow> bool" for E where
  start: "sw_rules E s = Map.empty \<Longrightarrow> switch_reach E s"
| frame: "switch_reach E s \<Longrightarrow> client_frame E (xm_pkt xm) \<Longrightarrow> vale_lookup E xm s = (v, q, s') \<Longrightarrow>
    switch_reach E s'"

lemma cmd_at_macs:
  "cmd_at p i = Some (Add k v) \<Longrightarrow> length (owner_mac v) = 6"
  "cmd_at p i = Some (Chown k a po m u) \<Longrightarrow> length m = 6"
  by (auto simp: cmd_at_def cmd_defs add_req_at_def chown_req_at_def wire_simps psw_req_defs split: if_splits)

lemma exec_cmd_rule_ok:
  assumes "\<forall>k v. R k = Some v \<longrightarrow> rule_ok v" "cmd_at p i = Some c"
    "\<And>k v. c = Add k v \<Longrightarrow> locked v = 0 \<or> locked v = 1" "exec_cmd c R k = Some v"
  shows "rule_ok v"
  using assms cmd_at_macs [of p i]
  by (cases c) (fastforce simp: rule_ok_def toggle_lock_def toggle_unlock_def split: if_splits option.splits)+

lemma outcome_rules: "outcome c R e R' \<Longrightarrow> R' = R \<or> R' = exec_cmd c R"
  by (auto simp: outcome_def split: option.splits if_splits)

lemma switch_reach_rules:
  assumes "bpf_hash (prism_tab E)" "switch_reach E s"
  shows "\<forall>k v. sw_rules E s k = Some v \<longrightarrow> rule_ok v"
  using assms(2)
proof induction
  case (start s)
  then show ?case by simp
next
  case (frame s xm v q s')
  show ?case
  proof (cases "config_frame E (xm_pkt xm)")
    case False
    with frame data_frame_prism [of E xm s] show ?thesis by (simp add: sw_rules_def)
  next
    case True
    show ?thesis
    proof (cases "cmd_at (xm_pkt xm) 42")
      case None
      with True frame config_frame_no_cmd [of E xm s] show ?thesis by simp
    next
      case (Some c)
      obtain e s'' where "vale_lookup E xm s = (ingress_ifindex xm, response (xm_pkt xm) e, s'')"
        "outcome c (sw_rules E s) e (sw_rules E s'')"
        using config_frame_cmd [OF assms(1) True Some] by metis
      with frame have "sw_rules E s' = sw_rules E s \<or> sw_rules E s' = exec_cmd c (sw_rules E s)"
        by (auto dest: outcome_rules)
      moreover have "exec_cmd c (sw_rules E s) k = Some v \<Longrightarrow> rule_ok v" for k v
        using frame True Some exec_cmd_rule_ok [of "sw_rules E s" "xm_pkt xm" 42 c]
        by (auto simp: client_frame_def)
      ultimately show ?thesis using frame.IH by auto
    qed
  qed
qed

end
