(* ===== verification/SwitchResponse.thy ===== *)
theory SwitchResponse
  imports SwitchConfigProps
begin

text \<open>
  The response frame of the switch: the frame of the request sent back, with its Ethernet, IP and
  UDP end points exchanged.  The program also adjusts the UDP checksum for the status of the
  response, but it never stores that status in the request header; the lemmas on \<open>udp_sum\<close> show
  what a receiver makes of that.
\<close>

section \<open>The exchanged addresses\<close>

lemma swap_macs:
  assumes "12 \<le> length p"
  shows "foldl (swap_mac_byte 0) p [0..<6] = ldn 6 p 6 @ ldn 6 p 0 @ drop 12 p"
proof -
  obtain a b c d e f g h i j k l r where "p = a # b # c # d # e # f # g # h # i # j # k # l # r"
    using assms by (auto simp: Suc_le_length_iff numeral_eq_Suc)
  moreover have "[0..<6] = [0, 1, 2, 3, 4, 5::nat]" by (simp add: upt_rec)
  ultimately show ?thesis
    by (simp add: swap_mac_byte_def ld8_def st8_def ldn_def Let_def)
qed

definition swapped :: "byte list \<Rightarrow> byte list" where
  "swapped p = ldn 6 p 6 @ ldn 6 p 0 @ drop 12 p"

lemma length_swapped [simp]: "12 \<le> length p \<Longrightarrow> length (swapped p) = length p"
  by (simp add: swapped_def)

lemma swapped_macs: "12 \<le> length p \<Longrightarrow> ldn 6 (swapped p) 0 = ldn 6 p 6"
  "12 \<le> length p \<Longrightarrow> ldn 6 (swapped p) 6 = ldn 6 p 0"
  by (simp_all add: swapped_def ldn_def)

lemma nth_swapped: "12 \<le> length p \<Longrightarrow> 12 \<le> j \<Longrightarrow> swapped p ! j = p ! j"
  by (auto simp: swapped_def nth_append)

lemma ld_swapped:
  assumes "12 \<le> length p" "12 \<le> i"
  shows "ld8 (swapped p) i = ld8 p i" "ld16 (swapped p) i = ld16 p i"
    "ld32 (swapped p) i = ld32 p i" "ldn n (swapped p) i = ldn n p i"
proof -
  show "ld8 (swapped p) i = ld8 p i" "ld16 (swapped p) i = ld16 p i" "ld32 (swapped p) i = ld32 p i"
    using assms by (simp_all add: ld8_def ld16_def ld32_def nth_swapped)
  show "ldn n (swapped p) i = ldn n p i"
    by (rule ldn_eqI) (use assms in \<open>simp_all add: nth_swapped\<close>)
qed

lemma response_eq:
  assumes "42 \<le> length p" "status \<le> 0"
  shows "response p status =
    st16 (st16 (st16 (st32 (st32 (swapped p) 26 (ld32 p 30)) 30 (ld32 p 26)) 34 (ld16 p 36)) 36 (ld16 p 34))
      40 (csum16_add (csum16_add (ld16 p 40) (ld16 p 43)) (NOT (word_of_int (- status))))"
  using assms
  by (simp add: response_def config_prepare_response_def Let_def swap_macs swapped_def [symmetric]
      ip_at_def udp_at_def req_base_at_def ld_st ld_swapped)

lemma response_headers:
  assumes "45 \<le> length p" "status \<le> 0"
  shows "length (response p status) = length p"
    and "eth_at (response p status) 0 = (eth_at p 0)\<lparr>eth_dst := eth_src (eth_at p 0), eth_src := eth_dst (eth_at p 0)\<rparr>"
    and "ip_at (response p status) 14 = (ip_at p 14)\<lparr>ip_src := ip_dst (ip_at p 14), ip_dst := ip_src (ip_at p 14)\<rparr>"
    and "udp_src (udp_at (response p status) 34) = udp_dst (udp_at p 34)"
    and "udp_dst (udp_at (response p status) 34) = udp_src (udp_at p 34)"
    and "udp_len (udp_at (response p status) 34) = udp_len (udp_at p 34)"
    and "drop 42 (response p status) = drop 42 p"
proof -
  have [simp]: "drop 42 (swapped p) = drop 42 p" using assms by (simp add: swapped_def)
  show "length (response p status) = length p"
    and "eth_at (response p status) 0 = (eth_at p 0)\<lparr>eth_dst := eth_src (eth_at p 0), eth_src := eth_dst (eth_at p 0)\<rparr>"
    and "ip_at (response p status) 14 = (ip_at p 14)\<lparr>ip_src := ip_dst (ip_at p 14), ip_dst := ip_src (ip_at p 14)\<rparr>"
    and "udp_src (udp_at (response p status) 34) = udp_dst (udp_at p 34)"
    and "udp_dst (udp_at (response p status) 34) = udp_src (udp_at p 34)"
    and "udp_len (udp_at (response p status) 34) = udp_len (udp_at p 34)"
    and "drop 42 (response p status) = drop 42 p"
    using assms
    by (simp_all add: response_eq eth_at_def ip_at_def udp_at_def ld_st ld_swapped swapped_macs drop_beyond)
qed

section \<open>Its checksums\<close>

text \<open>The sum a receiver forms over the UDP pseudo header and datagram.\<close>

definition dgram_len :: "byte list \<Rightarrow> nat" where
  "dgram_len p = unat (ntohs (udp_len (udp_at p 34)))"

definition udp_sum :: "byte list \<Rightarrow> nat" where
  "udp_sum p = wsum (ldn 8 p 26) + wsum [0, ip_proto (ip_at p 14)]
     + wsum (bytes16 (udp_len (udp_at p 34))) + wsum (ldn (dgram_len p) p 34)"

definition udp_csum_ok :: "byte list \<Rightarrow> bool" where
  "udp_csum_ok p \<longleftrightarrow> csum_verifies (udp_sum p)"

definition whole_dgram :: "byte list \<Rightarrow> bool" where
  "whole_dgram p \<longleftrightarrow> 8 + sizeof_req_base \<le> dgram_len p \<and> 34 + dgram_len p \<le> length p"

lemma udp_sum_response:
  assumes "whole_dgram p" "- 65536 < status" "status \<le> 0"
  shows "int (udp_sum (response p status)) mod 65535 =
    (int (udp_sum p) + uint (ld16 p 43) + status) mod 65535"
proof -
  from assms(1) have len: "45 \<le> length p" "11 \<le> dgram_len p" "34 + dgram_len p \<le> length p"
    by (auto simp: whole_dgram_def wire_simps)
  have hdrs: "ip_proto (ip_at (response p status) 14) = ip_proto (ip_at p 14)"
    "udp_len (udp_at (response p status) 34) = udp_len (udp_at p 34)"
    "dgram_len (response p status) = dgram_len p"
    using len assms(3) by (simp_all add: response_headers dgram_len_def)
  let ?c = "csum16_add (csum16_add (ld16 p 40) (ld16 p 43)) (NOT (word_of_int (- status)))"
  have st: "uint (word_of_int (- status) :: u16) = - status"
    using assms by (simp del: of_int_minus add: unsigned_of_int take_bit_eq_mod)
  have "int (udp_sum (response p status)) = int (udp_sum p) - uint (ld16 p 40) + uint ?c"
    unfolding udp_sum_def hdrs
    using len assms(3)
    by (simp add: response_eq sum_stores ld_swapped)
  moreover have "uint ?c mod 65535 =
      (uint (ld16 p 40) + uint (ld16 p 43) - uint (word_of_int (- status) :: u16)) mod 65535"
    by (intro csum16_add_not_int_cong csum16_add_int)
  then have "uint ?c mod 65535 = (uint (ld16 p 40) + uint (ld16 p 43) - (- status)) mod 65535"
    by (simp only: st)
  ultimately show ?thesis by (rule mod_replace) simp
qed

lemma ip_sum_response:
  assumes "45 \<le> length p" "status \<le> 0"
  shows "ip_sum (response p status) = ip_sum p"
proof -
  have "int (ip_sum (response p status)) = int (ip_sum p)"
    using assms by (simp add: ip_sum_def response_eq sum_stores ld_swapped)
  then show ?thesis by simp
qed

lemma ld16_drop_cong:
  assumes "drop n p = drop n q" "n \<le> i" "i + 2 \<le> length p" "length p = length q"
  shows "ld16 p i = ld16 q i"
proof -
  have "p ! j = q ! j" if "n \<le> j" "j < length p" for j
    using arg_cong [OF assms(1), of "\<lambda>xs. xs ! (j - n)"] that assms(4) by simp
  then show ?thesis using assms by (simp add: ld16_def)
qed

lemma udp_csum_response:
  assumes "whole_dgram p" "- 65535 < status" "status < 0" "udp_csum_ok p" "ld16 p 43 = 0"
  shows "\<not> udp_csum_ok (response p status)"
proof
  assume "udp_csum_ok (response p status)"
  then have "int (udp_sum (response p status)) mod 65535 = 0"
    using zmod_int [of "udp_sum (response p status)" 65535] by (simp add: udp_csum_ok_def csum_verifies_iff)
  moreover have "int (udp_sum p) mod 65535 = 0"
    using assms(4) zmod_int [of "udp_sum p" 65535] by (simp add: udp_csum_ok_def csum_verifies_iff)
  moreover have "int (udp_sum (response p status)) mod 65535 = (int (udp_sum p) + status) mod 65535"
    using udp_sum_response [OF assms(1), of status] assms by simp
  ultimately have "(int (udp_sum p) + status) mod 65535 = 0" "65535 dvd int (udp_sum p)"
    by (simp_all add: dvd_eq_mod_eq_0)
  then have "65535 dvd - status" by (simp add: dvd_eq_mod_eq_0 [symmetric] dvd_add_right_iff)
  then show False using zdvd_imp_le [of 65535 "- status"] assms(2,3) by simp
qed

end
