(* ===== verification/SwitchTheorems.thy ===== *)
theory SwitchTheorems
  imports SwitchRuns SwitchResponse
begin

text \<open>
  The properties of the switch that the servers rely on, each with a witness: a peer
  172.16.10.1:40000 whose connection to the frontend 172.16.10.11:80 is handed to the backend
  172.16.10.12:80, with real frames and tables bounded as in the program.
\<close>

section \<open>Sample frames\<close>

definition sample_env :: "((prism_key \<times> prism_value) list, (l2_key \<times> u32) list) switch_env" where
  "sample_env = \<lparr>prism_tab = alist_table 2048, l2_tab = alist_table 2048,
     CONFIG_ADDR = 168431788, CONFIG_PORT = 41030\<rparr>"

definition sample_key :: prism_key where
  "sample_key = \<lparr>key_addr = 17436844, key_port = 16540\<rparr>"

definition sample_rule :: "byte \<Rightarrow> prism_value" where
  "sample_rule l = \<lparr>virtual_addr = 185209004, virtual_port = 20480, owner_addr = 201986220,
     owner_port = 20480, owner_mac = [2, 0, 0, 0, 0, 2], locked = l\<rparr>"

definition sample_switch :: "(prism_key \<times> prism_value) list \<Rightarrow>
    ((prism_key \<times> prism_value) list, (l2_key \<times> u32) list) switch" where
  "sample_switch rs = \<lparr>sw_prism = rs, sw_l2 = []\<rparr>"

definition from_port :: "u32 \<Rightarrow> byte list \<Rightarrow> xdp_md" where
  "from_port i p = \<lparr>xm_pkt = p, ingress_ifindex = i, rx_queue_index = 0\<rparr>"

definition inbound :: "byte list" where
  "inbound = [2, 0, 0, 0, 0, 1, 2, 0, 0, 0, 0, 9, 8, 0, 69, 0, 0, 43, 18, 52, 64, 0, 64, 6, 188, 108,
     172, 16, 10, 1, 172, 16, 10, 11, 156, 64, 0, 80, 0, 0, 3, 232, 0, 0, 7, 208, 80, 24, 250, 240,
     5, 30, 0, 0, 71, 69, 84]"

definition outbound :: "byte list" where
  "outbound = [2, 0, 0, 0, 0, 9, 2, 0, 0, 0, 0, 2, 8, 0, 69, 0, 0, 44, 18, 52, 64, 0, 64, 6, 188, 106,
     172, 16, 10, 12, 172, 16, 10, 1, 0, 80, 156, 64, 0, 0, 3, 232, 0, 0, 7, 208, 80, 24, 250, 240,
     47, 245, 0, 0, 79, 75, 33, 33]"

definition add_frame :: "byte list" where
  "add_frame = [2, 0, 0, 0, 0, 10, 2, 0, 0, 0, 0, 1, 8, 0, 69, 0, 0, 56, 18, 52, 64, 0, 64, 17, 188, 75,
     172, 16, 10, 11, 172, 16, 10, 10, 19, 136, 70, 160, 0, 36, 14, 134, 0, 0, 0, 172, 16, 10, 1,
     156, 64, 172, 16, 10, 11, 0, 80, 172, 16, 10, 11, 0, 80, 2, 0, 0, 0, 0, 1, 1]"

definition lock_frame :: "byte list" where
  "lock_frame = [2, 0, 0, 0, 0, 10, 2, 0, 0, 0, 0, 1, 8, 0, 69, 0, 0, 37, 18, 52, 64, 0, 64, 17, 188, 94,
     172, 16, 10, 11, 172, 16, 10, 10, 19, 136, 70, 160, 0, 17, 228, 27, 3, 0, 0, 172, 16, 10, 1,
     156, 64]"

definition chown_frame :: "byte list" where
  "chown_frame = [2, 0, 0, 0, 0, 10, 2, 0, 0, 0, 0, 2, 8, 0, 69, 0, 0, 50, 18, 52, 64, 0, 64, 17, 188, 80,
     172, 16, 10, 12, 172, 16, 10, 10, 19, 136, 70, 160, 0, 30, 118, 71, 2, 0, 0, 172, 16, 10, 1,
     156, 64, 172, 16, 10, 12, 0, 80, 2, 0, 0, 0, 0, 2, 1]"

lemma sample_bpf: "bpf_hash (prism_tab sample_env)" "bpf_hash (l2_tab sample_env)"
  by (simp_all add: sample_env_def alist.bpf_hash_axioms)

lemma sample_prealloc: "bpf_hash_prealloc (prism_tab sample_env)"
  by (simp add: sample_env_def alist.bpf_hash_prealloc_axioms)

lemmas sample_defs = inbound_def outbound_def add_frame_def lock_frame_def chown_frame_def

lemma sample_frames:
  "tcp_frame inbound" "tcp_frame outbound" "whole_segment inbound" "whole_segment outbound"
  "in_key inbound = sample_key" "out_key outbound = sample_key"
  "config_frame sample_env add_frame" "config_frame sample_env lock_frame"
  "config_frame sample_env chown_frame" "\<not> config_frame sample_env inbound"
  by code_simp+

lemma sample_cmds:
  "cmd_at lock_frame 42 = Some (Lock sample_key)"
  "cmd_at chown_frame 42 = Some (Chown sample_key 201986220 20480 [2, 0, 0, 0, 0, 2] True)"
  by code_simp+

lemma sample_keys:
  "out_key inbound \<noteq> sample_key" "sample_key \<noteq> out_key inbound"
  by code_simp+

lemma sample_rules:
  "sw_rules sample_env (sample_switch rs) = map_of rs"
  by (simp add: sw_rules_def sample_env_def sample_switch_def alist_table_def)

lemma sample_macs:
  "sw_macs sample_env (sample_switch rs) = Map.empty"
  by (simp add: sw_macs_def sample_env_def sample_switch_def alist_table_def fun_eq_iff)

lemma from_port_simps [simp]:
  "xm_pkt (from_port i p) = p" "ingress_ifindex (from_port i p) = i" "rx_queue_index (from_port i p) = 0"
  by (simp_all add: from_port_def)

lemma sample_rule_simps [simp]:
  "locked (sample_rule l) = l" "length (owner_mac (sample_rule l)) = 6"
  "owner_mac (sample_rule l) = [2, 0, 0, 0, 0, 2]" "owner_addr (sample_rule l) = 201986220"
  by (simp_all add: sample_rule_def)

section \<open>Rewriting of handed-off flows\<close>

text \<open>C12: a TCP segment from the peer of a handed-off, unlocked flow leaves the switch with the MAC
  address, IP address and TCP port of the flow's owner as its destination and is otherwise unchanged;
  its IP and TCP checksums verify exactly when they verified on arrival.\<close>

theorem inbound_rewritten_to_owner:
  assumes "tcp_frame (xm_pkt xm)"
    and "sw_rules E s (out_key (xm_pkt xm)) = None"
    and "sw_rules E s (in_key (xm_pkt xm)) = Some v"
    and "locked v \<noteq> 1" and "length (owner_mac v) = 6"
  shows "\<exists>q ic tc. vale_lookup E xm s = l2_forward E q (ingress_ifindex xm) s \<and> length q = length (xm_pkt xm) \<and>
    eth_at q 0 = (eth_at (xm_pkt xm) 0)\<lparr>eth_dst := owner_mac v\<rparr> \<and>
    ip_at q 14 = (ip_at (xm_pkt xm) 14)\<lparr>ip_dst := owner_addr v, ip_csum := ic\<rparr> \<and>
    tcp_at q 34 = (tcp_at (xm_pkt xm) 34)\<lparr>tcp_dst := owner_port v, tcp_csum := tc\<rparr> \<and>
    drop 54 q = drop 54 (xm_pkt xm) \<and>
    (whole_segment (xm_pkt xm) \<longrightarrow>
       ip_csum_ok q = ip_csum_ok (xm_pkt xm) \<and> tcp_csum_ok q = tcp_csum_ok (xm_pkt xm))"
proof (intro exI conjI impI)
  have len: "54 \<le> length (xm_pkt xm)" using assms(1) by (simp add: tcp_frame_def)
  let ?q = "rewrite_in v (xm_pkt xm)"
  show "vale_lookup E xm s = l2_forward E ?q (ingress_ifindex xm) s"
    using assms(2-4) by (simp add: vale_lookup_tcp [OF assms(1)] Let_def)
  show "length ?q = length (xm_pkt xm)" by simp
  note h = rewrite_in_headers [OF len assms(5)]
  show "eth_at ?q 0 = (eth_at (xm_pkt xm) 0)\<lparr>eth_dst := owner_mac v\<rparr>" by (rule h)
  show "ip_at ?q 14 = (ip_at (xm_pkt xm) 14)\<lparr>ip_dst := owner_addr v, ip_csum := ip_csum (ip_at ?q 14)\<rparr>"
    by (simp add: h)
  show "tcp_at ?q 34 = (tcp_at (xm_pkt xm) 34)\<lparr>tcp_dst := owner_port v, tcp_csum := tcp_csum (tcp_at ?q 34)\<rparr>"
    by (simp add: h)
  show "drop 54 ?q = drop 54 (xm_pkt xm)" by (rule h)
qed (rule rewrite_in_csums [OF _ assms(5)], assumption)+

theorem inbound_rewritten_to_owner_witness:
  "\<exists>q. vale_lookup sample_env (from_port 3 inbound) (sample_switch [(sample_key, sample_rule 0)])
      = l2_forward sample_env q 3 (sample_switch [(sample_key, sample_rule 0)]) \<and>
    eth_dst (eth_at q 0) = [2, 0, 0, 0, 0, 2] \<and> ip_dst (ip_at q 14) = 201986220 \<and>
    drop 54 q = [71, 69, 84] \<and> ip_csum_ok q \<and> tcp_csum_ok q"
proof -
  have ok: "ip_csum_ok inbound" "tcp_csum_ok inbound"
    by (simp_all add: sample_defs ip_csum_ok_def tcp_csum_ok_def csum_verifies_iff ip_sum_def tcp_sum_def
        ldn_def seg_len_def ip_at_def ld16_def ld8_def bswap16_def bytes16_def)
  have d: "drop 54 inbound = [71, 69, 84]" by (simp add: inbound_def)
  obtain q ic tc where "vale_lookup sample_env (from_port 3 inbound) (sample_switch [(sample_key, sample_rule 0)])
      = l2_forward sample_env q 3 (sample_switch [(sample_key, sample_rule 0)])"
    "eth_at q 0 = (eth_at inbound 0)\<lparr>eth_dst := [2, 0, 0, 0, 0, 2]\<rparr>"
    "ip_at q 14 = (ip_at inbound 14)\<lparr>ip_dst := 201986220, ip_csum := ic\<rparr>"
    "drop 54 q = drop 54 inbound" "ip_csum_ok q" "tcp_csum_ok q"
    using inbound_rewritten_to_owner [of "from_port 3 inbound" sample_env
        "sample_switch [(sample_key, sample_rule 0)]" "sample_rule 0"]
    by (auto simp: sample_frames sample_rules sample_keys ok)
  then show ?thesis by (intro exI [of _ q]) (simp add: d)
qed

text \<open>C13: a TCP segment of a server towards the peer of an unlocked handed-off flow leaves the switch
  with the virtual address and port the peer connected to as its source and is otherwise unchanged; its
  checksums verify exactly when they verified on arrival.\<close>

theorem outbound_rewritten_to_virtual:
  assumes "tcp_frame (xm_pkt xm)"
    and "sw_rules E s (out_key (xm_pkt xm)) = Some v" and "locked v = 0"
  shows "\<exists>q ic tc. vale_lookup E xm s = l2_forward E q (ingress_ifindex xm) s \<and> length q = length (xm_pkt xm) \<and>
    eth_at q 0 = eth_at (xm_pkt xm) 0 \<and>
    ip_at q 14 = (ip_at (xm_pkt xm) 14)\<lparr>ip_src := virtual_addr v, ip_csum := ic\<rparr> \<and>
    tcp_at q 34 = (tcp_at (xm_pkt xm) 34)\<lparr>tcp_src := virtual_port v, tcp_csum := tc\<rparr> \<and>
    drop 54 q = drop 54 (xm_pkt xm) \<and>
    (whole_segment (xm_pkt xm) \<longrightarrow>
       ip_csum_ok q = ip_csum_ok (xm_pkt xm) \<and> tcp_csum_ok q = tcp_csum_ok (xm_pkt xm))"
proof (intro exI conjI impI)
  have len: "54 \<le> length (xm_pkt xm)" using assms(1) by (simp add: tcp_frame_def)
  let ?q = "rewrite_out v (xm_pkt xm)"
  show "vale_lookup E xm s = l2_forward E ?q (ingress_ifindex xm) s"
    using assms(2,3) by (simp add: vale_lookup_tcp [OF assms(1)] Let_def)
  show "length ?q = length (xm_pkt xm)" by simp
  note h = rewrite_out_headers [OF len]
  show "eth_at ?q 0 = eth_at (xm_pkt xm) 0" by (rule h)
  show "ip_at ?q 14 = (ip_at (xm_pkt xm) 14)\<lparr>ip_src := virtual_addr v, ip_csum := ip_csum (ip_at ?q 14)\<rparr>"
    by (simp add: h)
  show "tcp_at ?q 34 = (tcp_at (xm_pkt xm) 34)\<lparr>tcp_src := virtual_port v, tcp_csum := tcp_csum (tcp_at ?q 34)\<rparr>"
    by (simp add: h)
  show "drop 54 ?q = drop 54 (xm_pkt xm)" by (rule h)
qed (rule rewrite_out_csums, assumption)+

theorem outbound_rewritten_to_virtual_witness:
  "\<exists>q. vale_lookup sample_env (from_port 4 outbound) (sample_switch [(sample_key, sample_rule 0)])
      = l2_forward sample_env q 4 (sample_switch [(sample_key, sample_rule 0)]) \<and>
    ip_src (ip_at q 14) = 185209004 \<and> tcp_src (tcp_at q 34) = 20480 \<and>
    drop 54 q = [79, 75, 33, 33] \<and> ip_csum_ok q \<and> tcp_csum_ok q"
proof -
  have ok: "ip_csum_ok outbound" "tcp_csum_ok outbound"
    by (simp_all add: sample_defs ip_csum_ok_def tcp_csum_ok_def csum_verifies_iff ip_sum_def tcp_sum_def
        ldn_def seg_len_def ip_at_def ld16_def ld8_def bswap16_def bytes16_def)
  have d: "drop 54 outbound = [79, 75, 33, 33]" by (simp add: outbound_def)
  have v: "virtual_addr (sample_rule 0) = 185209004" "virtual_port (sample_rule 0) = 20480"
    by (simp_all add: sample_rule_def)
  obtain q ic tc where "vale_lookup sample_env (from_port 4 outbound) (sample_switch [(sample_key, sample_rule 0)])
      = l2_forward sample_env q 4 (sample_switch [(sample_key, sample_rule 0)])"
    "ip_at q 14 = (ip_at outbound 14)\<lparr>ip_src := 185209004, ip_csum := ic\<rparr>"
    "tcp_at q 34 = (tcp_at outbound 34)\<lparr>tcp_src := 20480, tcp_csum := tc\<rparr>"
    "drop 54 q = drop 54 outbound" "ip_csum_ok q" "tcp_csum_ok q"
    using outbound_rewritten_to_virtual [of "from_port 4 outbound" sample_env
        "sample_switch [(sample_key, sample_rule 0)]" "sample_rule 0"]
    by (auto simp: sample_frames sample_rules ok v)
  then show ?thesis by (intro exI [of _ q]) (simp add: d)
qed

text \<open>C15: while a flow is locked for a handoff no segment of it passes the switch, in either
  direction, and the switch learns nothing from such a segment.\<close>

theorem locked_flow_isolated:
  assumes "tcp_frame (xm_pkt xm)" and "sw_rules E s k = Some v" and "locked v = 1"
    and "out_key (xm_pkt xm) = k \<or> in_key (xm_pkt xm) = k \<and> sw_rules E s (out_key (xm_pkt xm)) = None"
  shows "vale_lookup E xm s = (VALE_BPF_DROP, xm_pkt xm, s)"
  using assms by (auto simp: vale_lookup_tcp Let_def)

theorem locked_flow_isolated_witness:
  "vale_lookup sample_env (from_port 3 inbound) (sample_switch [(sample_key, sample_rule 1)])
     = (VALE_BPF_DROP, inbound, sample_switch [(sample_key, sample_rule 1)])"
  using locked_flow_isolated [of "from_port 3 inbound" sample_env
      "sample_switch [(sample_key, sample_rule 1)]" sample_key "sample_rule 1"]
  by (simp add: sample_frames sample_rules sample_keys)

end
