(* ===== verification/SwitchConfigTheorems.thy ===== *)
theory SwitchConfigTheorems
  imports SwitchTheorems
begin

text \<open>
  Properties of the configuration of the switch: a request frame is one command of the abstract rule
  table, incomplete requests change nothing, what the response tells the client, what a repeated
  request does, and a whole handoff over a run of frames.
\<close>

section \<open>Requests\<close>



text \<open>A configuration frame that holds no complete request of a known type changes neither
  table; it is dropped, except that a truncated ADD or DELETE is answered.\<close>

theorem config_request_incomplete:
  assumes "config_frame E (xm_pkt xm)" and "cmd_at (xm_pkt xm) 42 = None"
  shows "snd (snd (vale_lookup E xm s)) = s \<and>
    fst (vale_lookup E xm s) =
      (if 45 \<le> length (xm_pkt xm) \<and> (ld8 (xm_pkt xm) 42 = PSW_REQ_ADD \<or> ld8 (xm_pkt xm) 42 = PSW_REQ_DELETE)
       then ingress_ifindex xm else VALE_BPF_DROP)"
proof
  show "snd (snd (vale_lookup E xm s)) = s" by (rule config_frame_no_cmd) fact+
  show "fst (vale_lookup E xm s) =
      (if 45 \<le> length (xm_pkt xm) \<and> (ld8 (xm_pkt xm) 42 = PSW_REQ_ADD \<or> ld8 (xm_pkt xm) 42 = PSW_REQ_DELETE)
       then ingress_ifindex xm else VALE_BPF_DROP)"
    using respond_no_cmd(2) [of "frame_md (xm_pkt xm) (ingress_ifindex xm) (rx_queue_index xm) 42" "prism_tab E"]
      assms(2) configure_switch_sport [of "prism_tab E" "frame_md (xm_pkt xm) (ingress_ifindex xm) (rx_queue_index xm) 42"]
    by (auto simp: vale_lookup_config [OF assms(1)] case_prod_unfold Let_def)
qed

theorem config_request_incomplete_witness:
  "snd (snd (vale_lookup sample_env (from_port 2 (take 50 lock_frame)) (sample_switch []))) = sample_switch [] \<and>
   fst (vale_lookup sample_env (from_port 2 (take 50 lock_frame)) (sample_switch [])) = VALE_BPF_DROP"
proof -
  have f: "config_frame sample_env (take 50 lock_frame)" "cmd_at (take 50 lock_frame) 42 = None"
    "ld8 (take 50 lock_frame) 42 = 3"
    by code_simp+
  show ?thesis
    using config_request_incomplete [of sample_env "from_port 2 (take 50 lock_frame)" "sample_switch []"]
    by (simp add: f psw_req_defs)
qed

section \<open>Responses\<close>

text \<open>The response to a request is the request frame with its Ethernet, IP and UDP end points
  exchanged; the IP header checksum still sums to the same value, and everything from the request
  header on, the status field included, is sent back as it came.\<close>

theorem response_swaps_end_points:
  assumes "bpf_hash (prism_tab E)" and "config_frame E (xm_pkt xm)"
    and "cmd_at (xm_pkt xm) 42 = Some c"
  shows "\<exists>q s'. vale_lookup E xm s = (ingress_ifindex xm, q, s') \<and> length q = length (xm_pkt xm) \<and>
    eth_at q 0 = (eth_at (xm_pkt xm) 0)\<lparr>eth_dst := eth_src (eth_at (xm_pkt xm) 0),
      eth_src := eth_dst (eth_at (xm_pkt xm) 0)\<rparr> \<and>
    ip_at q 14 = (ip_at (xm_pkt xm) 14)\<lparr>ip_src := CONFIG_ADDR E, ip_dst := ip_src (ip_at (xm_pkt xm) 14)\<rparr> \<and>
    udp_src (udp_at q 34) = CONFIG_PORT E \<and> udp_dst (udp_at q 34) = udp_src (udp_at (xm_pkt xm) 34) \<and>
    ip_sum q = ip_sum (xm_pkt xm) \<and> drop 42 q = drop 42 (xm_pkt xm)"
proof -
  obtain e s' where v: "vale_lookup E xm s = (ingress_ifindex xm, response (xm_pkt xm) e, s')"
    and o: "outcome c (sw_rules E s) e (sw_rules E s')"
    using config_frame_cmd [OF assms] by metis
  from o have e: "e \<le> 0" by (rule outcome_nonpos)
  have len: "45 \<le> length (xm_pkt xm)" using assms(3) by (auto simp: cmd_at_def wire_simps split: if_splits)
  have cfg: "ip_dst (ip_at (xm_pkt xm) 14) = CONFIG_ADDR E" "udp_dst (udp_at (xm_pkt xm) 34) = CONFIG_PORT E"
    using assms(2) by (simp_all add: config_frame_def)
  show ?thesis
    using response_headers [OF len e] ip_sum_response [OF len e] v cfg
    by (intro exI [of _ "response (xm_pkt xm) e"] exI [of _ s']) simp
qed

theorem response_swaps_end_points_witness:
  "\<exists>q s'. vale_lookup sample_env (from_port 2 lock_frame) (sample_switch [])  = (2, q, s') \<and>
    eth_dst (eth_at q 0) = [2, 0, 0, 0, 0, 1] \<and> ip_src (ip_at q 14) = 168431788 \<and> ip_csum_ok q"
proof -
  have ok: "csum_verifies (ip_sum lock_frame)" "eth_src (eth_at lock_frame 0) = [2, 0, 0, 0, 0, 1]"
    by (simp_all add: sample_defs csum_verifies_iff ip_sum_def eth_at_def ldn_def)
  obtain q s' where "vale_lookup sample_env (from_port 2 lock_frame) (sample_switch []) = (2, q, s')"
    "eth_at q 0 = (eth_at lock_frame 0)\<lparr>eth_dst := eth_src (eth_at lock_frame 0),
      eth_src := eth_dst (eth_at lock_frame 0)\<rparr>"
    "ip_at q 14 = (ip_at lock_frame 14)\<lparr>ip_src := CONFIG_ADDR sample_env, ip_dst := ip_src (ip_at lock_frame 14)\<rparr>"
    "ip_sum q = ip_sum lock_frame"
    using response_swaps_end_points [of sample_env "from_port 2 lock_frame" "Lock sample_key" "sample_switch []"]
    by (auto simp: sample_bpf sample_frames sample_cmds)
  then show ?thesis
    by (intro exI [of _ q] exI [of _ s']) (simp add: ok ip_csum_ok_def sample_env_def)
qed

text \<open>The status of a refused request never reaches the client: the response carries the status
  field of the request, while its UDP checksum is computed as if the errno had been stored, so the
  response to a correct request with status 0 fails its checksum.\<close>

theorem refusal_not_reported:
  assumes "bpf_hash (prism_tab E)" and "config_frame E (xm_pkt xm)"
    and "cmd_at (xm_pkt xm) 42 = Some c" and "refusal c (sw_rules E s) = Some err"
    and "whole_dgram (xm_pkt xm)" and "udp_csum_ok (xm_pkt xm)" and "ld16 (xm_pkt xm) 43 = 0"
  shows "rb_status (req_base_at (fst (snd (vale_lookup E xm s))) 42) = 0 \<and>
    \<not> udp_csum_ok (fst (snd (vale_lookup E xm s)))"
proof -
  obtain e s' where v: "vale_lookup E xm s = (ingress_ifindex xm, response (xm_pkt xm) e, s')"
    and o: "outcome c (sw_rules E s) e (sw_rules E s')"
    using config_frame_cmd [OF assms(1-3)] by metis
  have e: "- 65535 < e" "e < 0"
    using o assms(4) by (cases c; auto simp: outcome_def errno_defs split: if_splits)+
  have len: "45 \<le> length (xm_pkt xm)" using assms(3) by (auto simp: cmd_at_def wire_simps split: if_splits)
  have "drop 42 (response (xm_pkt xm) e) = drop 42 (xm_pkt xm)"
    using len e by (intro response_headers) auto
  then have "ld16 (response (xm_pkt xm) e) 43 = ld16 (xm_pkt xm) 43"
    using len response_headers(1) [OF len] e by (intro ld16_drop_cong) auto
  moreover have "\<not> udp_csum_ok (response (xm_pkt xm) e)"
    using udp_csum_response [OF assms(5) e assms(6,7)] .
  ultimately show ?thesis using assms(7) by (simp add: v req_base_at_def)
qed

theorem refusal_not_reported_witness:
  "rb_status (req_base_at (fst (snd (vale_lookup sample_env (from_port 2 lock_frame) (sample_switch [])))) 42) = 0 \<and>
    \<not> udp_csum_ok (fst (snd (vale_lookup sample_env (from_port 2 lock_frame) (sample_switch []))))"
proof -
  have "whole_dgram lock_frame" "udp_csum_ok lock_frame" "ld16 lock_frame 43 = 0"
    by (simp_all add: sample_defs whole_dgram_def udp_csum_ok_def csum_verifies_iff udp_sum_def dgram_len_def
        ldn_def ip_at_def udp_at_def ld16_def ld8_def bswap16_def bytes16_def wire_simps)
  then show ?thesis
    using refusal_not_reported [of sample_env "from_port 2 lock_frame" "Lock sample_key" "sample_switch []" ENOENT]
    by (simp add: sample_bpf sample_frames sample_cmds sample_rules)
qed

section \<open>Repeated requests\<close>

text \<open>LOCK toggles: a LOCK request delivered twice, as when the client retransmits it because the
  response was lost, leaves the flow unlocked.\<close>

theorem lock_retransmission_unlocks:
  assumes "bpf_hash_prealloc (prism_tab E)" and "config_frame E (xm_pkt xm)"
    and "cmd_at (xm_pkt xm) 42 = Some (Lock k)"
    and "sw_rules E s k = Some v" and "locked v = 0"
  shows "sw_rules E (switch_run E [xm] s) = (sw_rules E s)(k \<mapsto> v\<lparr>locked := 1\<rparr>) \<and>
    sw_rules E (switch_run E [xm, xm] s) = sw_rules E s"
proof -
  let ?s1 = "snd (snd (vale_lookup E xm s))"
  have step: "sw_rules E (snd (snd (vale_lookup E xm t))) = exec_cmd (Lock k) (sw_rules E t)"
    if "sw_rules E t k \<noteq> None" for t
    using that by (intro config_frame_replaces assms(1-3)) (simp_all add: replaces_def)
  have 1: "sw_rules E ?s1 = (sw_rules E s)(k \<mapsto> v\<lparr>locked := 1\<rparr>)"
    using step [of s] assms(4,5) by (simp add: toggle_lock_def)
  have "v\<lparr>locked := 0\<rparr> = v" using assms(5) by simp
  then have "sw_rules E (snd (snd (vale_lookup E xm ?s1))) = sw_rules E s"
    using step [of ?s1] 1 assms(4) by (simp add: toggle_lock_def fun_upd_idem)
  with 1 show ?thesis by simp
qed

theorem lock_retransmission_unlocks_witness:
  "sw_rules sample_env (switch_run sample_env [from_port 2 lock_frame, from_port 2 lock_frame]
      (sample_switch [(sample_key, sample_rule 0)])) = [sample_key \<mapsto> sample_rule 0]"
  using lock_retransmission_unlocks [of sample_env "from_port 2 lock_frame" sample_key
      "sample_switch [(sample_key, sample_rule 0)]" "sample_rule 0"]
  by (simp add: sample_prealloc sample_frames sample_cmds sample_rules del: switch_run.simps)

section \<open>A handoff\<close>



section \<open>The two tables\<close>

text \<open>Traffic cannot change the rules of handed-off flows and configuration cannot change the
  forwarding table: a frame that is not a configuration request leaves the rules alone, and one that
  is leaves the table of learned addresses alone.\<close>

theorem tables_separated:
  "(if config_frame E (xm_pkt xm) then sw_l2 (snd (snd (vale_lookup E xm s))) = sw_l2 s
    else sw_prism (snd (snd (vale_lookup E xm s))) = sw_prism s)"
  by (simp add: config_frame_l2 data_frame_prism)

lemma sample_add_run:
  assumes "vale_lookup sample_env (from_port 2 add_frame) (sample_switch []) = (v, q, s')"
  shows "\<exists>w. sw_rules sample_env s' sample_key = Some w"
proof -
  have "\<lparr>key_addr = ar_peer_addr (add_req_at add_frame 42), key_port = ucast (ar_peer_port (add_req_at add_frame 42))\<rparr>
      = sample_key" "rb_type (req_base_at add_frame 42) = PSW_REQ_ADD" "length add_frame = 70"
    by code_simp+
  moreover have "prism_tab sample_env = alist_table 2048" "sw_prism (sample_switch rs) = rs" for rs
    by (simp_all add: sample_env_def sample_switch_def)
  ultimately show ?thesis
    using assms
    by (auto simp: vale_lookup_config [of sample_env "from_port 2 add_frame"] sample_frames configure_switch_def
        config_handle_add_req_def alist_table_def sw_rules_def wire_simps Let_def split: prod.splits)
qed

text \<open>From an empty table on, as long as clients add rules with a lock of 0 or 1, every rule the
  switch ever holds has a 6-byte owner address and a lock of 0 or 1, so that the two directions of a
  flow, which test the lock differently, agree.\<close>

theorem reachable_rules_ok:
  assumes "bpf_hash (prism_tab E)" and "switch_reach E s" and "sw_rules E s k = Some v"
  shows "length (owner_mac v) = 6 \<and> (locked v = 1 \<longleftrightarrow> locked v \<noteq> 0)"
  using switch_reach_rules [OF assms(1,2)] assms(3) by (auto simp: rule_ok_def)

theorem reachable_rules_ok_witness:
  "\<exists>v. sw_rules sample_env (snd (snd (vale_lookup sample_env (from_port 2 add_frame) (sample_switch [])))) sample_key
      = Some v \<and> length (owner_mac v) = 6"
proof -
  have c: "cmd_at add_frame 42 = Some (Add sample_key (sample_rule 1\<lparr>owner_addr := 185209004, owner_mac := [2, 0, 0, 0, 0, 1]\<rparr>))"
    by code_simp
  obtain v q s' where vl: "vale_lookup sample_env (from_port 2 add_frame) (sample_switch []) = (v, q, s')"
    by (cases "vale_lookup sample_env (from_port 2 add_frame) (sample_switch [])") auto
  have "switch_reach sample_env (sample_switch [])" by (rule switch_reach.start) (simp add: sample_rules)
  then have r: "switch_reach sample_env s'"
    by (rule switch_reach.frame [OF _ _ vl]) (simp add: client_frame_def c)
  obtain w where w: "sw_rules sample_env s' sample_key = Some w"
    using sample_add_run [OF vl] by blast
  show ?thesis using reachable_rules_ok [OF sample_bpf(1) r w] w by (intro exI [of _ w]) (simp add: vl)
qed

section \<open>Layer 2\<close>

text \<open>The switch learns: once it has forwarded an ordinary unicast frame that came in by some port,
  a later ordinary unicast frame addressed to the sender of the first leaves by that port and no
  other, unless the switch fails to learn its own sender and drops it.\<close>

theorem l2_learns_ports:
  assumes "bpf_hash (l2_tab E)" and "vale_lookup E a s = (va, q, s1)" and "va \<noteq> VALE_BPF_DROP"
    and "14 \<le> length (xm_pkt a)" "\<not> tcp_frame (xm_pkt a)" "\<not> config_frame E (xm_pkt a)"
    and "ld8 (xm_pkt a) 0 AND 1 = 0"
    and "14 \<le> length (xm_pkt b)" "\<not> tcp_frame (xm_pkt b)" "\<not> config_frame E (xm_pkt b)"
    and "ld8 (xm_pkt b) 0 AND 1 = 0"
    and "eth_dst (eth_at (xm_pkt b) 0) = eth_src (eth_at (xm_pkt a) 0)"
    and "eth_src (eth_at (xm_pkt b) 0) \<noteq> eth_src (eth_at (xm_pkt a) 0)"
  shows "fst (vale_lookup E b s1) \<in> {ingress_ifindex a, VALE_BPF_DROP} \<and> fst (snd (vale_lookup E b s1)) = xm_pkt b"
proof -
  have "sw_macs E s1 (eth_src (eth_at (xm_pkt a) 0)) = Some (ingress_ifindex a)"
    using l2_forward_cases [OF assms(1), of "xm_pkt a" "ingress_ifindex a" s va q s1] assms(2,3,7)
    by (auto simp: vale_lookup_plain [OF assms(4-6)])
  then show ?thesis
    using l2_forward_cases [OF assms(1), of "xm_pkt b" "ingress_ifindex b" s1] assms(11-13)
    by (cases "l2_forward E (xm_pkt b) (ingress_ifindex b) s1")
      (auto simp: vale_lookup_plain [OF assms(8-10)])
qed

definition arp_a :: "byte list" where "arp_a = [2, 0, 0, 0, 0, 9, 2, 0, 0, 0, 0, 1, 8, 6]"
definition arp_b :: "byte list" where "arp_b = [2, 0, 0, 0, 0, 1, 2, 0, 0, 0, 0, 9, 8, 6]"

theorem l2_learns_ports_witness:
  "fst (vale_lookup sample_env (from_port 4 arp_b)
      (snd (snd (vale_lookup sample_env (from_port 3 arp_a) (sample_switch []))))) \<in> {3, VALE_BPF_DROP}"
proof -
  have f: "length arp_a = 14" "\<not> tcp_frame arp_a" "\<not> config_frame sample_env arp_a" "ld8 arp_a 0 AND 1 = 0"
    "length arp_b = 14" "\<not> tcp_frame arp_b" "\<not> config_frame sample_env arp_b" "ld8 arp_b 0 AND 1 = 0"
    "eth_dst (eth_at arp_b 0) = eth_src (eth_at arp_a 0)" "eth_src (eth_at arp_b 0) \<noteq> eth_src (eth_at arp_a 0)"
    by code_simp+
  have v: "fst (vale_lookup sample_env (from_port 3 arp_a) (sample_switch [])) = 254" by code_simp
  obtain va q s1 where run: "vale_lookup sample_env (from_port 3 arp_a) (sample_switch []) = (va, q, s1)"
    by (cases "vale_lookup sample_env (from_port 3 arp_a) (sample_switch [])") auto
  show ?thesis
    using l2_learns_ports [OF sample_bpf(2) run, of "from_port 4 arp_b"] run v
    by (simp add: f VALE_BPF_DROP_def)
qed

end
