(* ===== verification/ValeNative.thy ===== *)
theory ValeNative
  imports SwitchConfigTheorems
begin

text \<open>
  The kernel module of switch/kern_src/vale_bpf_native.c that runs an eBPF program as the lookup
  function of a VALE bridge.  The module keeps one program and one reference to it.  The netmap and
  kernel interfaces it calls are parameters: the outcome of \<open>netmap_bdg_regops\<close> and of the per-CPU
  allocation, the programs behind file descriptors, and \<open>bpf_prog_run_xdp\<close>; the reference counts
  \<open>bpf_prog_get_type\<close> takes and \<open>bpf_prog_put\<close> gives back are part of the state.
\<close>

section \<open>State\<close>

record 'prog native =
  nv_prog :: "'prog option"
  nv_refs :: "'prog \<Rightarrow> int" \<comment> \<open>references the module holds\<close>
  nv_ops :: bool \<comment> \<open>the bridge calls into the module\<close>
  nv_dummy_dev :: bool \<comment> \<open>the per-CPU device is allocated\<close>

definition native_unloaded :: "'prog native" where
  "native_unloaded = \<lparr>nv_prog = None, nv_refs = (\<lambda>_. 0), nv_ops = False, nv_dummy_dev = False\<rparr>"

definition bpf_prog_get :: "'prog \<Rightarrow> 'prog native \<Rightarrow> 'prog native" where
  "bpf_prog_get p n = n\<lparr>nv_refs := (nv_refs n)(p := nv_refs n p + 1)\<rparr>"

definition bpf_prog_put :: "'prog \<Rightarrow> 'prog native \<Rightarrow> 'prog native" where
  "bpf_prog_put p n = n\<lparr>nv_refs := (nv_refs n)(p := nv_refs n p - 1)\<rparr>"

section \<open>Lookup\<close>

text \<open>
  \<open>run\<close> is the interpreter of programs.  The result is an \<open>int\<close>: the comparison with the last port
  number is signed.
\<close>

definition vale_bpf_native_lookup ::
  "u32 \<Rightarrow> ('prog \<Rightarrow> xdp_md \<Rightarrow> 's \<Rightarrow> u32 \<times> byte list \<times> 's) \<Rightarrow> 'prog native \<Rightarrow>
   byte list \<Rightarrow> nat \<Rightarrow> byte \<Rightarrow> u32 \<Rightarrow> 's \<Rightarrow> u32 \<times> byte list \<times> 's" where
  "vale_bpf_native_lookup NM_BDG_NOPORT run n ft_buf ft_len hint bdg_port s =
     (let vale_bpf = \<lparr>xm_pkt = take ft_len ft_buf, ingress_ifindex = bdg_port, rx_queue_index = ucast hint\<rparr>;
          (ret, buf, s) =
            (case nv_prog n of
               Some p \<Rightarrow> (let (r, q, s) = run p vale_bpf s in (r, q @ drop ft_len ft_buf, s))
             | None \<Rightarrow> (NM_BDG_NOPORT, ft_buf, s));
          ret = (if sint ret > sint NM_BDG_NOPORT then NM_BDG_NOPORT else ret)
      in (ret, buf, s))"

section \<open>Installing programs\<close>

datatype native_method = INSTALL_PROG int | UNINSTALL_PROG | Invalid_method

definition vale_bpf_native_install_prog ::
  "(int \<Rightarrow> 'prog option) \<Rightarrow> int \<Rightarrow> 'prog native \<Rightarrow> int \<times> 'prog native" where
  "vale_bpf_native_install_prog prog_of_fd prog_fd n =
     (case prog_of_fd prog_fd of
        None \<Rightarrow> (-1, n)
      | Some p \<Rightarrow>
          let n = bpf_prog_get p n;
              n = (case nv_prog n of Some old \<Rightarrow> bpf_prog_put old n | None \<Rightarrow> n)
          in (0, n\<lparr>nv_prog := Some p\<rparr>))"

definition vale_bpf_native_uninstall_prog :: "'prog native \<Rightarrow> int \<times> 'prog native" where
  "vale_bpf_native_uninstall_prog n =
     (case nv_prog n of
        Some p \<Rightarrow> (0, (bpf_prog_put p n)\<lparr>nv_prog := None\<rparr>)
      | None \<Rightarrow> (0, n))"

definition vale_bpf_native_config ::
  "(int \<Rightarrow> 'prog option) \<Rightarrow> native_method \<Rightarrow> 'prog native \<Rightarrow> int \<times> 'prog native" where
  "vale_bpf_native_config prog_of_fd r n =
     (case r of
        INSTALL_PROG fd \<Rightarrow> vale_bpf_native_install_prog prog_of_fd fd n
      | UNINSTALL_PROG \<Rightarrow> vale_bpf_native_uninstall_prog n
      | Invalid_method \<Rightarrow> (-1, n))"

section \<open>Loading and unloading the module\<close>

definition ENOMEM :: int where "ENOMEM = 12"

definition vale_bpf_native_init :: "int \<Rightarrow> bool \<Rightarrow> 'prog native \<Rightarrow> int \<times> 'prog native" where
  "vale_bpf_native_init error dev_allocated n =
     (if error \<noteq> 0 then (- ENOENT, n)
      else
        let n = n\<lparr>nv_ops := True\<rparr>
        in if \<not> dev_allocated then (- ENOMEM, n)
           else (0, n\<lparr>nv_dummy_dev := True\<rparr>))"

definition vale_bpf_native_fini :: "int \<Rightarrow> 'prog native \<Rightarrow> 'prog native" where
  "vale_bpf_native_fini error n =
     (let n = (if error \<noteq> 0 then n else n\<lparr>nv_ops := False\<rparr>);
          n = (case nv_prog n of Some p \<Rightarrow> bpf_prog_put p n | None \<Rightarrow> n)
      in n\<lparr>nv_dummy_dev := False\<rparr>)"

section \<open>References are balanced\<close>

text \<open>The module holds one reference to the installed program and none to any other.\<close>

definition refs_ok :: "'prog native \<Rightarrow> bool" where
  "refs_ok n \<longleftrightarrow> (\<forall>p. nv_refs n p = (if nv_prog n = Some p then 1 else 0))"

fun config_run :: "(int \<Rightarrow> 'prog option) \<Rightarrow> native_method list \<Rightarrow> 'prog native \<Rightarrow> 'prog native" where
  "config_run fds [] n = n"
| "config_run fds (r # rs) n = config_run fds rs (snd (vale_bpf_native_config fds r n))"

lemma config_refs_ok: "refs_ok n \<Longrightarrow> refs_ok (snd (vale_bpf_native_config fds r n))"
  by (auto simp: vale_bpf_native_config_def vale_bpf_native_install_prog_def Let_def refs_ok_def
      vale_bpf_native_uninstall_prog_def bpf_prog_get_def bpf_prog_put_def
      split: native_method.splits option.splits)

lemma config_run_refs_ok: "refs_ok n \<Longrightarrow> refs_ok (config_run fds rs n)"
  by (induction rs arbitrary: n) (simp_all add: config_refs_ok)

lemma fini_refs: "refs_ok n \<Longrightarrow> nv_refs (vale_bpf_native_fini error n) = (\<lambda>_. 0)"
  by (auto simp: vale_bpf_native_fini_def refs_ok_def bpf_prog_put_def Let_def fun_eq_iff split: option.splits)

text \<open>C17: whatever sequence of install and uninstall requests the module serves after it is loaded,
  valid or not, it holds exactly one reference to the installed program and none to any other, and
  unloading it gives all references back.\<close>

theorem program_references_balanced:
  "nv_refs (config_run fds rs (snd (vale_bpf_native_init e ok native_unloaded))) =
     (\<lambda>p. if nv_prog (config_run fds rs (snd (vale_bpf_native_init e ok native_unloaded))) = Some p then 1 else 0) \<and>
   nv_refs (vale_bpf_native_fini e' (config_run fds rs (snd (vale_bpf_native_init e ok native_unloaded)))) = (\<lambda>_. 0)"
proof -
  have "refs_ok (snd (vale_bpf_native_init e ok native_unloaded))"
    by (simp add: refs_ok_def vale_bpf_native_init_def native_unloaded_def Let_def)
  then have r: "refs_ok (config_run fds rs (snd (vale_bpf_native_init e ok native_unloaded)))"
    by (rule config_run_refs_ok)
  then show ?thesis using fini_refs [OF r] by (simp add: refs_ok_def fun_eq_iff)
qed

section \<open>The switch program in the module\<close>

text \<open>The interpreter of the one program this repository installs.\<close>

definition run_prism :: "('p, 'l) switch_env \<Rightarrow> unit \<Rightarrow> xdp_md \<Rightarrow> ('p, 'l) switch \<Rightarrow> ('p, 'l) verdict" where
  "run_prism E _ xm s = vale_lookup E xm s"

lemma sint_port: "r \<le> 255 \<Longrightarrow> sint (r :: u32) = uint r"
proof -
  assume "r \<le> 255"
  then have "uint r \<le> 255" by (simp add: word_le_def)
  moreover have "0 \<le> uint r" by simp
  ultimately have "- 2147483648 \<le> uint r" "uint r < 2147483648" by linarith+
  then show ?thesis unfolding sint_uint by (intro signed_take_bit_int_eq_self) simp_all
qed

lemma not_sint_less: "(r :: u32) \<le> 255 \<Longrightarrow> \<not> sint (255 :: u32) < sint r"
  using sint_port [of r] sint_port [of 255] by (simp add: word_le_def)

text \<open>Every verdict of the switch program is its ingress port, a learned port, or one of the two codes.\<close>

lemma l2_forward_verdict:
  assumes "bpf_hash (l2_tab E)" "\<And>m i. sw_macs E s m = Some i \<Longrightarrow> P i" "P sport" "P VALE_BPF_BROADCAST" "P VALE_BPF_DROP"
    "l2_forward E p sport s = (v, q, s')"
  shows "P v \<and> length q = length p \<and> (\<forall>m i. sw_macs E s' m = Some i \<longrightarrow> P i)"
  using l2_forward_cases [OF assms(1,6)] assms(2-5) by (auto split: if_splits option.splits)

lemma vale_lookup_verdict:
  assumes "bpf_hash (l2_tab E)" "\<And>m i. sw_macs E s m = Some i \<Longrightarrow> P i"
    "P (ingress_ifindex xm)" "P VALE_BPF_BROADCAST" "P VALE_BPF_DROP"
    "vale_lookup E xm s = (v, q, s')"
  shows "P v \<and> (\<forall>m i. sw_macs E s' m = Some i \<longrightarrow> P i)"
proof -
  have l2: "P v \<and> (\<forall>m i. sw_macs E s' m = Some i \<longrightarrow> P i)"
    if "l2_forward E p (ingress_ifindex xm) s = (v, q, s')" for p
    using l2_forward_verdict [where P = P, OF assms(1) _ assms(3-5) that] assms(2) by blast
  consider "length (xm_pkt xm) < 14" | "config_frame E (xm_pkt xm)" | "tcp_frame (xm_pkt xm)"
    | "14 \<le> length (xm_pkt xm)" "\<not> tcp_frame (xm_pkt xm)" "\<not> config_frame E (xm_pkt xm)" by linarith
  then show ?thesis
  proof cases
    case 2
    then show ?thesis
      using config_frame_l2 [OF 2, of s] config_frame_sport [OF 2, of s] assms
      by (auto simp: sw_macs_def)
  next
    case 3
    show ?thesis
      using assms(6) l2 assms(2,5)
      by (auto simp: vale_lookup_tcp [OF 3] Let_def split: option.splits if_splits)
  qed (use assms l2 in \<open>auto simp: vale_lookup_short vale_lookup_plain\<close>)
qed

text \<open>C16: when the switch program is installed, a bridge whose ports are numbered below the two special
  codes gets exactly the program's verdict: the part of the buffer that holds the frame is processed by
  the program, the rest of the buffer is left alone, the clamp to the drop code never changes a verdict,
  and only such port numbers are ever learned.  With no program installed every frame is dropped
  unchanged.\<close>

theorem module_runs_switch:
  assumes "bpf_hash (l2_tab E)" and "\<forall>m i. sw_macs E s m = Some i \<longrightarrow> i \<le> 255" and "port \<le> 255"
    and "vale_lookup E \<lparr>xm_pkt = take len buf, ingress_ifindex = port, rx_queue_index = ucast hint\<rparr> s = (v, q, s')"
  shows "vale_bpf_native_lookup 255 (run_prism E) n buf len hint port s =
      (if nv_prog n = Some () then (v, q @ drop len buf, s') else (VALE_BPF_DROP, buf, s)) \<and>
    v \<le> 255 \<and> (\<forall>m i. sw_macs E s' m = Some i \<longrightarrow> i \<le> 255)"
proof -
  have b: "v \<le> 255 \<and> (\<forall>m i. sw_macs E s' m = Some i \<longrightarrow> i \<le> 255)"
    by (rule vale_lookup_verdict [OF assms(1) _ _ _ _ assms(4)])
      (use assms(2,3) in \<open>auto simp: VALE_BPF_DROP_def VALE_BPF_BROADCAST_def\<close>)
  then have "\<not> sint (255 :: u32) < sint v" by (intro not_sint_less) simp
  then show ?thesis
    using b not_sint_less [of 255] assms(4)
    by (auto simp: vale_bpf_native_lookup_def run_prism_def Let_def VALE_BPF_DROP_def split: option.splits)
qed

theorem module_runs_switch_witness:
  "fst (vale_bpf_native_lookup 255 (run_prism sample_env) (native_unloaded\<lparr>nv_prog := Some ()\<rparr>)
      (inbound @ [0, 0]) 57 0 3 (sample_switch [(sample_key, sample_rule 1)])) = VALE_BPF_DROP"
proof -
  have t: "take 57 (inbound @ [0, 0]) = inbound" by (simp add: inbound_def)
  have l: "vale_lookup sample_env \<lparr>xm_pkt = inbound, ingress_ifindex = 3, rx_queue_index = 0\<rparr>
      (sample_switch [(sample_key, sample_rule 1)]) = (VALE_BPF_DROP, inbound, sample_switch [(sample_key, sample_rule 1)])"
    by (simp add: vale_lookup_tcp [of "\<lparr>xm_pkt = inbound, ingress_ifindex = 3, rx_queue_index = 0\<rparr>"]
        sample_frames sample_rules sample_keys)
  show ?thesis
    using module_runs_switch [of sample_env "sample_switch [(sample_key, sample_rule 1)]" 3 57 "inbound @ [0, 0]" 0
        VALE_BPF_DROP inbound "sample_switch [(sample_key, sample_rule 1)]" "native_unloaded\<lparr>nv_prog := Some ()\<rparr>"]
    by (simp add: sample_bpf sample_macs t l del: take_append drop_append)
qed

end
