(* ===== verification/TcpExport.thy ===== *)
theory TcpExport
  imports Prelude
begin

text \<open>
  Moving a TCP connection, src/tcp_export.cpp: the socket is put into the kernel's repair mode, its
  state is read into a message, and on the other machine written into a fresh socket.  The system
  calls are a parameter: functions on a kernel state that return whether they succeeded, with the
  value they read.  A failed assertion, an access outside a buffer, a \<open>free\<close> of memory that
  \<open>malloc\<close> did not return and a loop that does not end are \<open>None\<close>.
\<close>

section \<open>The message\<close>

record TCPState =
  st_seq :: u32
  st_ack :: u32
  st_sendq :: "byte list"
  st_sendq_len :: u64
  st_unsentq_len :: u64
  st_recvq :: "byte list"
  st_recvq_len :: u64
  st_self_addr :: u32
  st_self_port :: u32
  st_peer_addr :: u32
  st_peer_port :: u32
  st_mss :: u32
  st_send_wscale :: u32
  st_recv_wscale :: u32
  st_timestamp :: u32
  st_snd_wl1 :: u32
  st_snd_wnd :: u32
  st_max_window :: u32
  st_rcv_wnd :: u32
  st_rcv_wup :: u32

definition TCPState_clear :: TCPState where
  "TCPState_clear = \<lparr>st_seq = 0, st_ack = 0, st_sendq = [], st_sendq_len = 0, st_unsentq_len = 0,
     st_recvq = [], st_recvq_len = 0, st_self_addr = 0, st_self_port = 0, st_peer_addr = 0, st_peer_port = 0,
     st_mss = 0, st_send_wscale = 0, st_recv_wscale = 0, st_timestamp = 0, st_snd_wl1 = 0, st_snd_wnd = 0,
     st_max_window = 0, st_rcv_wnd = 0, st_rcv_wup = 0\<rparr>"

section \<open>System calls\<close>

record tcp_info_sub =
  tcpi_state :: byte
  tcpi_snd_wscale :: u32
  tcpi_rcv_wscale :: u32

record repair_window =
  rw_snd_wl1 :: u32
  rw_snd_wnd :: u32
  rw_max_window :: u32
  rw_rcv_wnd :: u32
  rw_rcv_wup :: u32

record 'k tcp_api =
  k_errno :: "'k \<Rightarrow> int"
  k_malloc :: "u64 \<Rightarrow> 'k \<Rightarrow> bool \<times> 'k"
  k_set_repair :: "int \<Rightarrow> 'k \<Rightarrow> bool \<times> 'k"
  k_info :: "'k \<Rightarrow> (tcp_info_sub \<times> nat) option \<times> 'k"
  k_outq :: "'k \<Rightarrow> int option \<times> 'k"
  k_outqnsd :: "'k \<Rightarrow> int option \<times> 'k"
  k_inq :: "'k \<Rightarrow> int option \<times> 'k"
  k_maxseg :: "'k \<Rightarrow> u32 option \<times> 'k"
  k_timestamp :: "'k \<Rightarrow> u32 option \<times> 'k"
  k_set_options :: "(u32 \<times> u32) list \<Rightarrow> 'k \<Rightarrow> bool \<times> 'k"
  k_set_timestamp :: "u32 \<Rightarrow> 'k \<Rightarrow> bool \<times> 'k"
  k_window :: "'k \<Rightarrow> repair_window option \<times> 'k"
  k_set_window :: "repair_window \<Rightarrow> 'k \<Rightarrow> bool \<times> 'k"
  k_sockname :: "'k \<Rightarrow> (u32 \<times> u16) option \<times> 'k"
  k_peername :: "'k \<Rightarrow> (u32 \<times> u16) option \<times> 'k"
  k_bind :: "u32 \<Rightarrow> u16 \<Rightarrow> 'k \<Rightarrow> bool \<times> 'k"
  k_connect :: "u32 \<Rightarrow> u16 \<Rightarrow> 'k \<Rightarrow> bool \<times> 'k"
  k_set_queue :: "int \<Rightarrow> 'k \<Rightarrow> bool \<times> 'k"
  k_seq :: "'k \<Rightarrow> u32 option \<times> 'k"
  k_set_seq :: "u32 \<Rightarrow> 'k \<Rightarrow> bool \<times> 'k"
  k_recv_peek :: "u64 \<Rightarrow> 'k \<Rightarrow> byte list option \<times> 'k"
  k_send :: "byte list \<Rightarrow> 'k \<Rightarrow> int \<times> 'k"

definition ENOMEM :: int where "ENOMEM = 12"
definition TCP_ESTABLISHED :: byte where "TCP_ESTABLISHED = 1"
definition TCP_RECV_QUEUE :: int where "TCP_RECV_QUEUE = 1"
definition TCP_SEND_QUEUE :: int where "TCP_SEND_QUEUE = 2"
definition sizeof_tcp_info_sub :: nat where "sizeof_tcp_info_sub = 7"

section \<open>Steps that may fail\<close>

text \<open>A step returns an errno, 0 for success; \<open>TRY\<close> is the macro of that name, \<open>on_error\<close> the code
  behind its label.\<close>

type_synonym 's step = "'s \<Rightarrow> (int \<times> 's) option"

definition TRY :: "'s step \<Rightarrow> 's step \<Rightarrow> 's step" where
  "TRY f g s = (case f s of None \<Rightarrow> None | Some (e, s') \<Rightarrow> if e \<noteq> 0 then Some (e, s') else g s')"

definition on_error :: "(int \<Rightarrow> 's step) \<Rightarrow> 's step \<Rightarrow> 's step" where
  "on_error h f s = (case f s of None \<Rightarrow> None | Some (e, s') \<Rightarrow> if e \<noteq> 0 then h e s' else Some (0, s'))"

definition ok :: "'s step" where "ok s = Some (0, s)"

text \<open>A call whose failure is reported as \<open>errno\<close>.\<close>

definition sys :: "'k tcp_api \<Rightarrow> ('k \<Rightarrow> bool \<times> 'k) \<Rightarrow> 'k step" where
  "sys K call k = (let (success, k') = call k in Some (if success then 0 else k_errno K k', k'))"

definition tcp_repair_start :: "'k tcp_api \<Rightarrow> 'k step" where
  "tcp_repair_start K = sys K (k_set_repair K 1)"

definition tcp_repair_done :: "'k tcp_api \<Rightarrow> 'k step" where
  "tcp_repair_done K = sys K (k_set_repair K (-1))"

text \<open>\<open>assert(tcp_repair_done(sock) == 0)\<close>, then the error is returned.\<close>

definition err1 :: "'k tcp_api \<Rightarrow> int \<Rightarrow> 'k step" where
  "err1 K error k = (case tcp_repair_done K k of
     None \<Rightarrow> None | Some (e, k') \<Rightarrow> if e = 0 then Some (error, k') else None)"

section \<open>Export\<close>

text \<open>What export works on: the kernel, the message, and the local \<open>info\<close>.\<close>

record 'k export_state =
  es_k :: 'k
  es_ex :: TCPState
  es_info :: tcp_info_sub

type_synonym 'k estep = "'k export_state step"

definition lift_k :: "'k step \<Rightarrow> 'k estep" where
  "lift_k f s = (case f (es_k s) of None \<Rightarrow> None | Some (e, k) \<Rightarrow> Some (e, s\<lparr>es_k := k\<rparr>))"

text \<open>A call that reads a value, which is then stored.\<close>

definition fetch :: "'k tcp_api \<Rightarrow> ('k \<Rightarrow> 'a option \<times> 'k) \<Rightarrow> ('a \<Rightarrow> TCPState \<Rightarrow> TCPState) \<Rightarrow> 'k estep" where
  "fetch K call store s =
     (case call (es_k s) of
        (None, k) \<Rightarrow> Some (k_errno K k, s\<lparr>es_k := k\<rparr>)
      | (Some v, k) \<Rightarrow> Some (0, s\<lparr>es_k := k, es_ex := store v (es_ex s)\<rparr>))"

definition tcp_is_established :: "'k tcp_api \<Rightarrow> 'k estep" where
  "tcp_is_established K s =
     (case k_info K (es_k s) of
        (None, k) \<Rightarrow> Some (k_errno K k, s\<lparr>es_k := k\<rparr>)
      | (Some (info, opt_len), k) \<Rightarrow>
          let s = s\<lparr>es_k := k, es_info := info\<rparr>
          in if opt_len \<noteq> sizeof_tcp_info_sub then Some (k_errno K k, s)
             else if tcpi_state info \<noteq> TCP_ESTABLISHED then Some (EINVAL, s)
             else Some (0, s))"

definition tcp_get_queue_len :: "'k tcp_api \<Rightarrow> 'k estep" where
  "tcp_get_queue_len K =
     TRY (fetch K (k_outq K) (\<lambda>sz ex. ex\<lparr>st_sendq_len := word_of_int sz\<rparr>))
    (TRY (fetch K (k_outqnsd K) (\<lambda>sz ex. ex\<lparr>st_unsentq_len := word_of_int sz\<rparr>))
         (fetch K (k_inq K) (\<lambda>sz ex. ex\<lparr>st_recvq_len := word_of_int sz\<rparr>)))"

definition tcp_get_options :: "'k tcp_api \<Rightarrow> 'k estep" where
  "tcp_get_options K s =
     (let info = es_info s in
      TRY (fetch K (k_maxseg K) (\<lambda>mss ex. ex\<lparr>st_mss := mss, st_send_wscale := tcpi_snd_wscale info,
             st_recv_wscale := tcpi_rcv_wscale info\<rparr>))
          (fetch K (k_timestamp K) (\<lambda>timestamp ex. ex\<lparr>st_timestamp := timestamp\<rparr>)) s)"

definition tcp_get_window :: "'k tcp_api \<Rightarrow> 'k estep" where
  "tcp_get_window K =
     fetch K (k_window K) (\<lambda>window ex. ex\<lparr>st_snd_wl1 := rw_snd_wl1 window, st_snd_wnd := rw_snd_wnd window,
       st_max_window := rw_max_window window, st_rcv_wnd := rw_rcv_wnd window, st_rcv_wup := rw_rcv_wup window\<rparr>)"

definition tcp_get_addr :: "'k tcp_api \<Rightarrow> 'k estep" where
  "tcp_get_addr K =
     TRY (fetch K (k_sockname K) (\<lambda>(addr, port) ex. ex\<lparr>st_self_addr := addr, st_self_port := ucast port\<rparr>))
         (fetch K (k_peername K) (\<lambda>(addr, port) ex. ex\<lparr>st_peer_addr := addr, st_peer_port := ucast port\<rparr>))"

text \<open>The bytes of a queue: one byte more than expected is asked for, so that a longer queue is noticed.\<close>

definition peek_queue :: "'k tcp_api \<Rightarrow> int \<Rightarrow> u64 \<Rightarrow> 'k estep" where
  "peek_queue K qid len s =
     (let put = (\<lambda>buf ex. if qid = TCP_SEND_QUEUE then ex\<lparr>st_sendq := buf\<rparr> else ex\<lparr>st_recvq := buf\<rparr>)
      in if len = 0 then Some (0, s\<lparr>es_ex := put [] (es_ex s)\<rparr>)
         else
           case k_malloc K (len + 1) (es_k s) of
             (False, k) \<Rightarrow> Some (ENOMEM, s\<lparr>es_k := k\<rparr>)
           | (True, k) \<Rightarrow>
               (case k_recv_peek K (len + 1) k of
                  (None, k) \<Rightarrow> Some (EINVAL, s\<lparr>es_k := k\<rparr>)
                | (Some buf, k) \<Rightarrow>
                    if of_nat (length buf) \<noteq> len then Some (EINVAL, s\<lparr>es_k := k\<rparr>)
                    else Some (0, s\<lparr>es_k := k, es_ex := put buf (es_ex s)\<rparr>)))"

definition tcp_get_queue :: "'k tcp_api \<Rightarrow> int \<Rightarrow> 'k estep" where
  "tcp_get_queue K qid =
     TRY (lift_k (sys K (k_set_queue K qid)))
    (TRY (fetch K (k_seq K) (\<lambda>seq ex. if qid = TCP_SEND_QUEUE then ex\<lparr>st_seq := seq\<rparr> else ex\<lparr>st_ack := seq\<rparr>))
         (\<lambda>s. peek_queue K qid (if qid = TCP_SEND_QUEUE then st_sendq_len (es_ex s) else st_recvq_len (es_ex s)) s))"

text \<open>\<open>free\<close> of the bytes that the string field of the message owns: behind the label \<open>err2\<close>.\<close>

definition err2 :: "int \<Rightarrow> 'k estep" where "err2 error s = None"

definition tcp_export_body :: "'k tcp_api \<Rightarrow> 'k estep" where
  "tcp_export_body K =
     TRY (lift_k (tcp_repair_start K))
       (on_error (\<lambda>e. lift_k (err1 K e))
         (TRY (tcp_is_established K)
         (TRY (tcp_get_queue_len K)
         (TRY (tcp_get_options K)
         (TRY (tcp_get_window K)
         (TRY (tcp_get_addr K)
         (TRY (tcp_get_queue K TCP_SEND_QUEUE)
              (on_error err2 (tcp_get_queue K TCP_RECV_QUEUE)))))))))"

text \<open>A null pointer for the message is \<open>None\<close>.\<close>

definition tcp_export :: "'k tcp_api \<Rightarrow> TCPState option \<Rightarrow> tcp_info_sub \<Rightarrow> 'k \<Rightarrow> (int \<times> TCPState option \<times> 'k) option" where
  "tcp_export K ex garbage k =
     (if ex = None then Some (EINVAL, None, k)
      else
        case tcp_export_body K \<lparr>es_k = k, es_ex = TCPState_clear, es_info = garbage\<rparr> of
          None \<Rightarrow> None | Some (e, s) \<Rightarrow> Some (e, Some (es_ex s), es_k s))"

section \<open>Import\<close>

definition tcp_set_options :: "'k tcp_api \<Rightarrow> TCPState \<Rightarrow> 'k step" where
  "tcp_set_options K ex =
     TRY (sys K (k_set_options K [(4, 0), (3, st_send_wscale ex + push_bit 16 (st_recv_wscale ex)), (8, 0), (2, st_mss ex)]))
         (sys K (k_set_timestamp K (st_timestamp ex)))"

definition tcp_set_window :: "'k tcp_api \<Rightarrow> TCPState \<Rightarrow> 'k step" where
  "tcp_set_window K ex = sys K (k_set_window K \<lparr>rw_snd_wl1 = st_snd_wl1 ex, rw_snd_wnd = st_snd_wnd ex,
     rw_max_window = st_max_window ex, rw_rcv_wnd = st_rcv_wnd ex, rw_rcv_wup = st_rcv_wup ex\<rparr>)"

definition tcp_set_addr :: "'k tcp_api \<Rightarrow> TCPState \<Rightarrow> 'k step" where
  "tcp_set_addr K ex =
     TRY (sys K (k_bind K (st_self_addr ex) (ucast (st_self_port ex))))
         (sys K (k_connect K (st_peer_addr ex) (ucast (st_peer_port ex))))"

text \<open>The loop of \<open>__send_queue\<close>: a chunk the kernel refuses is tried again at half the size.\<close>

partial_function (option) send_loop ::
  "'k tcp_api \<Rightarrow> byte list \<Rightarrow> int \<Rightarrow> u32 \<Rightarrow> int \<Rightarrow> 'k \<Rightarrow> (int \<times> 'k) option" where
  "send_loop K buf off len max_chunk k =
     (let chunk = sint len;
          chunk = (if chunk > max_chunk then max_chunk else chunk)
      in if chunk < 0 \<or> off < 0 \<or> int (length buf) < off + chunk then None
         else
           let (ret, k) = k_send K (take (nat chunk) (drop (nat off) buf)) k
           in if ret \<le> 0 then
                (if max_chunk > 1024 then
                   (if len = 0 then Some (0, k) else send_loop K buf off len (max_chunk div 2) k)
                 else Some (k_errno K k, k))
              else
                let off = off + ret; len = len - word_of_int ret
                in if len = 0 then Some (0, k) else send_loop K buf off len max_chunk k)"

definition send_queue_bytes :: "'k tcp_api \<Rightarrow> byte list \<Rightarrow> u32 \<Rightarrow> 'k step" where
  "send_queue_bytes K buf len k = send_loop K buf 0 len (sint len) k"

definition send_queue :: "'k tcp_api \<Rightarrow> int \<Rightarrow> byte list \<Rightarrow> u32 \<Rightarrow> 'k step" where
  "send_queue K queue buf len = TRY (sys K (k_set_queue K queue)) (send_queue_bytes K buf len)"

text \<open>\<open>error = f(sock); assert(error == 0);\<close>\<close>

definition asserted :: "'s step \<Rightarrow> 's step" where
  "asserted f s = (case f s of None \<Rightarrow> None | Some (e, s') \<Rightarrow> if e = 0 then Some (0, s') else None)"

definition c_str :: "byte list \<Rightarrow> byte list" where "c_str s = s @ [0]"

definition tcp_set_queue :: "'k tcp_api \<Rightarrow> int \<Rightarrow> TCPState \<Rightarrow> 'k step" where
  "tcp_set_queue K queue ex =
     (if queue = TCP_RECV_QUEUE then
        (if st_recvq_len ex = 0 then ok
         else send_queue K TCP_RECV_QUEUE (c_str (st_recvq ex)) (ucast (st_recvq_len ex)))
      else if queue = TCP_SEND_QUEUE then
        (let ulen = ucast (st_unsentq_len ex) :: u32;
             len = ucast (st_sendq_len ex - ucast ulen) :: u32
         in TRY (if len \<noteq> 0 then send_queue K TCP_SEND_QUEUE (c_str (st_sendq ex)) len else ok)
                (if ulen \<noteq> 0 then
                   TRY (asserted (tcp_repair_done K))
                  (TRY (send_queue_bytes K (drop (unat len) (c_str (st_sendq ex))) ulen)
                       (asserted (tcp_repair_start K)))
                 else ok))
      else (\<lambda>k. Some (EINVAL, k)))"

definition tcp_set_seq :: "'k tcp_api \<Rightarrow> int \<Rightarrow> TCPState \<Rightarrow> 'k step" where
  "tcp_set_seq K queue ex =
     TRY (sys K (k_set_queue K queue))
         (sys K (k_set_seq K (if queue = TCP_SEND_QUEUE then st_seq ex else st_ack ex)))"

definition tcp_import_body :: "'k tcp_api \<Rightarrow> TCPState \<Rightarrow> 'k step" where
  "tcp_import_body K ex =
     TRY (tcp_repair_start K)
       (on_error (err1 K)
         (TRY (tcp_set_seq K TCP_SEND_QUEUE ex)
         (TRY (tcp_set_seq K TCP_RECV_QUEUE ex)
         (TRY (tcp_set_addr K ex)
         (TRY (tcp_set_queue K TCP_SEND_QUEUE ex)
         (TRY (tcp_set_queue K TCP_RECV_QUEUE ex)
         (TRY (tcp_set_options K ex)
         (TRY (tcp_set_window K ex)
              (tcp_repair_done K)))))))))"

definition tcp_import :: "'k tcp_api \<Rightarrow> TCPState option \<Rightarrow> 'k step" where
  "tcp_import K ex = (case ex of None \<Rightarrow> (\<lambda>k. Some (EINVAL, k)) | Some ex \<Rightarrow> tcp_import_body K ex)"

end
