(* ===== verification/TcpExportProps.thy ===== *)
theory TcpExportProps
  imports TcpExport
begin

text \<open>
  What the two halves of src/tcp_export.cpp do to a connection.  The kernel is described by what is
  documented of its repair mode, over an abstract view of a socket: which call reads or changes which
  part of the connection, and under which conditions it succeeds.
\<close>

section \<open>Connections and the documented kernel\<close>

record tcb =
  tb_repair :: bool
  tb_state :: byte
  tb_queue :: int
  tb_snd_seq :: u32
  tb_rcv_seq :: u32
  tb_sent :: "byte list"
  tb_unsent :: "byte list"
  tb_recv :: "byte list"
  tb_self :: "u32 \<times> u16"
  tb_peer :: "u32 \<times> u16"
  tb_mss :: u32
  tb_snd_wscale :: u32
  tb_rcv_wscale :: u32
  tb_timestamp :: u32
  tb_window :: repair_window

definition TCP_CLOSE :: byte where "TCP_CLOSE = 7"

definition reads :: "('b \<Rightarrow> bool) \<Rightarrow> ('k \<Rightarrow> 'b) \<Rightarrow> ('k \<Rightarrow> 'a option \<times> 'k) \<Rightarrow> ('b \<Rightarrow> 'a) \<Rightarrow> bool" where
  "reads P v call f \<longleftrightarrow> (\<forall>k. P (v k) \<longrightarrow> (\<exists>k'. call k = (Some (f (v k)), k') \<and> v k' = v k))"

definition writes :: "('b \<Rightarrow> bool) \<Rightarrow> ('k \<Rightarrow> 'b) \<Rightarrow> ('k \<Rightarrow> bool \<times> 'k) \<Rightarrow> ('b \<Rightarrow> 'b) \<Rightarrow> bool" where
  "writes P v call g \<longleftrightarrow> (\<forall>k. P (v k) \<longrightarrow> (\<exists>k'. call k = (True, k') \<and> v k' = g (v k)))"

definition set_opt :: "u32 \<times> u32 \<Rightarrow> tcb \<Rightarrow> tcb" where
  "set_opt o' b =
     (if fst o' = 2 then b\<lparr>tb_mss := snd o'\<rparr>
      else if fst o' = 3 then b\<lparr>tb_snd_wscale := snd o' AND 0xffff, tb_rcv_wscale := drop_bit 16 (snd o')\<rparr> else b)"

text \<open>Bytes sent are put at the end of the selected queue in repair mode, and are unsent data otherwise.\<close>

definition put_bytes :: "byte list \<Rightarrow> tcb \<Rightarrow> tcb" where
  "put_bytes bs b =
     (if \<not> tb_repair b then b\<lparr>tb_unsent := tb_unsent b @ bs, tb_snd_seq := tb_snd_seq b + of_nat (length bs)\<rparr>
      else if tb_queue b = TCP_SEND_QUEUE
        then b\<lparr>tb_sent := tb_sent b @ bs, tb_snd_seq := tb_snd_seq b + of_nat (length bs)\<rparr>
      else b\<lparr>tb_recv := tb_recv b @ bs, tb_rcv_seq := tb_rcv_seq b + of_nat (length bs)\<rparr>)"

abbreviation est :: "tcb \<Rightarrow> bool" where "est b \<equiv> tb_state b = TCP_ESTABLISHED"
abbreviation repairing :: "tcb \<Rightarrow> bool" where "repairing b \<equiv> tb_repair b"

text \<open>A send takes at least one byte; only a chunk of more than 1024 bytes may be refused.\<close>

definition sends :: "'k tcp_api \<Rightarrow> ('k \<Rightarrow> tcb) \<Rightarrow> bool" where
  "sends K v \<longleftrightarrow> (\<forall>bs k. est (v k) \<and> bs \<noteq> [] \<longrightarrow> (\<exists>r k'. k_send K bs k = (r, k') \<and>
     (if r \<le> 0 then 1024 < length bs \<and> v k' = v k
      else r \<le> int (length bs) \<and> v k' = put_bytes (take (nat r) bs) (v k))))"

definition readable :: "'k tcp_api \<Rightarrow> ('k \<Rightarrow> tcb) \<Rightarrow> bool" where
  "readable K v \<longleftrightarrow>
     reads est v (k_info K) (\<lambda>b. (\<lparr>tcpi_state = tb_state b, tcpi_snd_wscale = tb_snd_wscale b,
       tcpi_rcv_wscale = tb_rcv_wscale b\<rparr>, sizeof_tcp_info_sub)) \<and>
     reads est v (k_outq K) (\<lambda>b. int (length (tb_sent b) + length (tb_unsent b))) \<and>
     reads est v (k_outqnsd K) (\<lambda>b. int (length (tb_unsent b))) \<and>
     reads est v (k_inq K) (\<lambda>b. int (length (tb_recv b))) \<and>
     reads est v (k_maxseg K) tb_mss \<and> reads est v (k_timestamp K) tb_timestamp \<and>
     reads est v (k_sockname K) tb_self \<and> reads est v (k_peername K) tb_peer \<and>
     reads repairing v (k_window K) tb_window \<and>
     reads repairing v (k_seq K) (\<lambda>b. if tb_queue b = TCP_SEND_QUEUE then tb_snd_seq b else tb_rcv_seq b) \<and>
     (\<forall>n. reads repairing v (k_recv_peek K n)
        (\<lambda>b. take (unat n) (if tb_queue b = TCP_SEND_QUEUE then tb_sent b @ tb_unsent b else tb_recv b)))"

definition writable :: "'k tcp_api \<Rightarrow> ('k \<Rightarrow> tcb) \<Rightarrow> bool" where
  "writable K v \<longleftrightarrow>
     (\<forall>n. writes (\<lambda>_. True) v (k_malloc K n) (\<lambda>b. b)) \<and>
     (\<forall>on. writes (\<lambda>_. True) v (k_set_repair K on) (\<lambda>b. b\<lparr>tb_repair := 0 < on\<rparr>)) \<and>
     (\<forall>q. writes repairing v (k_set_queue K q) (\<lambda>b. b\<lparr>tb_queue := q\<rparr>)) \<and>
     (\<forall>s. writes (\<lambda>b. repairing b \<and> tb_state b = TCP_CLOSE) v (k_set_seq K s)
        (\<lambda>b. if tb_queue b = TCP_SEND_QUEUE then b\<lparr>tb_snd_seq := s\<rparr> else b\<lparr>tb_rcv_seq := s\<rparr>)) \<and>
     (\<forall>a p. writes (\<lambda>b. tb_state b = TCP_CLOSE) v (k_bind K a p) (\<lambda>b. b\<lparr>tb_self := (a, p)\<rparr>)) \<and>
     (\<forall>a p. writes (\<lambda>b. repairing b \<and> tb_state b = TCP_CLOSE) v (k_connect K a p)
        (\<lambda>b. b\<lparr>tb_peer := (a, p), tb_state := TCP_ESTABLISHED\<rparr>)) \<and>
     (\<forall>os. writes (\<lambda>b. repairing b \<and> est b) v (k_set_options K os) (fold set_opt os)) \<and>
     (\<forall>t. writes repairing v (k_set_timestamp K t) (\<lambda>b. b\<lparr>tb_timestamp := t\<rparr>)) \<and>
     (\<forall>w. writes repairing v (k_set_window K w) (\<lambda>b. b\<lparr>tb_window := w\<rparr>))"

definition repair_kernel :: "'k tcp_api \<Rightarrow> ('k \<Rightarrow> tcb) \<Rightarrow> bool" where
  "repair_kernel K v \<longleftrightarrow> readable K v \<and> writable K v \<and> sends K v"

section \<open>Steps that succeed\<close>

definition runs :: "'s step \<Rightarrow> 's \<Rightarrow> ('s \<Rightarrow> bool) \<Rightarrow> bool" where
  "runs f s Q \<longleftrightarrow> (\<exists>s'. f s = Some (0, s') \<and> Q s')"

lemma runs_TRY: "runs f s P \<Longrightarrow> (\<And>s'. P s' \<Longrightarrow> runs g s' Q) \<Longrightarrow> runs (TRY f g) s Q"
  by (fastforce simp: runs_def TRY_def)

lemma runs_on_error: "runs f s Q \<Longrightarrow> runs (on_error h f) s Q"
  by (auto simp: runs_def on_error_def)

lemma runs_asserted: "runs f s Q \<Longrightarrow> runs (asserted f) s Q"
  by (auto simp: runs_def asserted_def)

lemma runs_conseq: "runs f s P \<Longrightarrow> (\<And>s'. P s' \<Longrightarrow> Q s') \<Longrightarrow> runs f s Q"
  by (auto simp: runs_def)

lemma runs_ok [simp]: "runs ok s Q \<longleftrightarrow> Q s"
  by (simp add: runs_def ok_def)

lemma runs_sys:
  assumes "writes P v call g" "P (v k)"
  shows "runs (sys K call) k (\<lambda>k'. v k' = g (v k))"
proof -
  obtain k' where "call k = (True, k')" "v k' = g (v k)" using assms by (auto simp: writes_def)
  then show ?thesis by (simp add: runs_def sys_def)
qed

lemma runs_lift: "runs f (es_k s) Q \<Longrightarrow> runs (lift_k f) s (\<lambda>s'. Q (es_k s') \<and> es_ex s' = es_ex s \<and> es_info s' = es_info s)"
  by (auto simp: runs_def lift_k_def)

lemma runs_fetch:
  assumes "reads P v call f" "P (v (es_k s))"
  shows "runs (fetch K call store) s
    (\<lambda>s'. v (es_k s') = v (es_k s) \<and> es_info s' = es_info s \<and> es_ex s' = store (f (v (es_k s))) (es_ex s))"
proof -
  obtain k' where "call (es_k s) = (Some (f (v (es_k s))), k')" "v k' = v (es_k s)"
    using assms unfolding reads_def by blast
  then show ?thesis by (simp add: runs_def fetch_def)
qed

section \<open>Sending a queue\<close>

text \<open>\<open>__send_queue\<close> ends and appends all the bytes, halving the chunk when the kernel refuses it.\<close>

lemma put_put: "put_bytes ys (put_bytes xs b) = put_bytes (xs @ ys) b"
  by (simp add: put_bytes_def)

lemma put_est [simp]: "tb_state (put_bytes bs b) = tb_state b"
  by (simp add: put_bytes_def)

lemma send_loop_total:
  assumes "sends K v" "est (v k)" "0 < n" "n < 2 ^ 31" "off + n \<le> length buf" "0 < m"
  shows "runs (send_loop K buf (int off) (of_nat n) (int m)) k (\<lambda>k'. v k' = put_bytes (take n (drop off buf)) (v k))"
  using assms(2-)
proof (induction "n + m" arbitrary: n off m k rule: less_induct)
  case less
  let ?c = "min n m"
  let ?bs = "take ?c (drop off buf)"
  have sn: "sint (of_nat n :: u32) = int n"
    using less.prems(3) by (simp add: signed_of_nat signed_take_bit_int_eq_self)
  have len: "length ?bs = ?c" using less.prems(4) by simp
  have ne: "?bs \<noteq> []" using len less.prems(2,5) by (metis list.size(3) min_less_iff_conj order_less_irrefl)
  obtain r k' where r: "k_send K ?bs k = (r, k')"
    "if r \<le> 0 then 1024 < length ?bs \<and> v k' = v k
      else r \<le> int (length ?bs) \<and> v k' = put_bytes (take (nat r) ?bs) (v k)"
    using assms(1) less.prems(1) ne unfolding sends_def by blast
  have ch: "(if sint (of_nat n :: u32) > int m then int m else sint (of_nat n :: u32)) = int ?c"
    by (simp add: sn min_def)
  have inb: "\<not> (int ?c < 0 \<or> int off < 0 \<or> int (length buf) < int off + int ?c)" using less.prems(4) by simp
  have nz: "of_nat n \<noteq> (0 :: u32)" using less.prems(2) sn by auto
  note unf = send_loop.simps [of K buf "int off" "of_nat n" "int m" k, unfolded ch Let_def]
  show ?case
  proof (cases "r \<le> 0")
    case True
    then have big: "1024 < m" "v k' = v k" using r(2) len by auto
    have "n + m div 2 < n + m" "0 < m div 2" using big by simp_all
    from less.hyps [OF this(1) _ less.prems(2-4) this(2), of k'] big less.prems(1)
    have ih: "runs (send_loop K buf (int off) (of_nat n) (int (m div 2))) k' (\<lambda>k''. v k'' = put_bytes (take n (drop off buf)) (v k'))"
      by simp
    have "send_loop K buf (int off) (of_nat n) (int m) k = send_loop K buf (int off) (of_nat n) (int (m div 2)) k'"
      unfolding unf using inb r(1) True big nz by (simp add: zdiv_int)
    then show ?thesis using ih big(2) by (simp add: runs_def)
  next
    case False
    define d where "d = nat r"
    have rl: "r \<le> int ?c" "v k' = put_bytes (take d ?bs) (v k)" using False r(2) len by (simp_all add: d_def)
    have d: "r = int d" "0 < d" "d \<le> ?c" "v k' = put_bytes (take d ?bs) (v k)"
      using False rl unfolding d_def nat_le_iff by (simp_all only: rl)
    have tk: "take d ?bs = take d (drop off buf)" using d(3) by (simp add: min_absorb1)
    have w: "of_nat n - word_of_int r = (of_nat (n - d) :: u32)" using d(1,3) by (simp add: of_nat_diff)
    have "send_loop K buf (int off) (of_nat n) (int m) k =
        (if of_nat n - word_of_int r = (0 :: u32) then Some (0, k')
         else send_loop K buf (int off + r) (of_nat n - word_of_int r) (int m) k')"
      unfolding unf using inb r(1) False by simp
    then have step: "send_loop K buf (int off) (of_nat n) (int m) k =
        (if (of_nat (n - d) :: u32) = 0 then Some (0, k') else send_loop K buf (int (off + d)) (of_nat (n - d)) (int m) k')"
      unfolding w by (simp add: d(1))
    show ?thesis
    proof (cases "n = d")
      case True
      then show ?thesis using step d(4) tk by (simp add: runs_def)
    next
      case ne: False
      have "0 < n - d" using ne d(3) by simp
      have "sint (of_nat (n - d) :: u32) = int (n - d)"
        using less.prems(3) by (simp add: signed_of_nat signed_take_bit_int_eq_self)
      then have "of_nat (n - d) \<noteq> (0 :: u32)" using \<open>0 < n - d\<close> by auto
      moreover have "n - d + m < n + m" using d(2,3) less.prems(2) by simp
      from less.hyps [OF this _ \<open>0 < n - d\<close> _ _ less.prems(5), of k' "off + d"] less.prems d(3,4)
      have "runs (send_loop K buf (int (off + d)) (of_nat (n - d)) (int m)) k'
          (\<lambda>k''. v k'' = put_bytes (take (n - d) (drop (off + d) buf)) (v k'))" by simp
      moreover have "put_bytes (take (n - d) (drop (off + d) buf)) (v k') = put_bytes (take n (drop off buf)) (v k)"
        unfolding d(4) put_put tk using d(3) take_add [of d "n - d" "drop off buf"] by (simp add: add.commute)
      ultimately show ?thesis using step by (simp add: runs_def)
    qed
  qed
qed

section \<open>Reading a connection\<close>

definition exported :: "tcb \<Rightarrow> TCPState" where
  "exported b = \<lparr>st_seq = tb_snd_seq b, st_ack = tb_rcv_seq b,
     st_sendq = tb_sent b @ tb_unsent b, st_sendq_len = of_nat (length (tb_sent b) + length (tb_unsent b)),
     st_unsentq_len = of_nat (length (tb_unsent b)),
     st_recvq = tb_recv b, st_recvq_len = of_nat (length (tb_recv b)),
     st_self_addr = fst (tb_self b), st_self_port = ucast (snd (tb_self b)),
     st_peer_addr = fst (tb_peer b), st_peer_port = ucast (snd (tb_peer b)),
     st_mss = tb_mss b, st_send_wscale = tb_snd_wscale b, st_recv_wscale = tb_rcv_wscale b,
     st_timestamp = tb_timestamp b,
     st_snd_wl1 = rw_snd_wl1 (tb_window b), st_snd_wnd = rw_snd_wnd (tb_window b),
     st_max_window = rw_max_window (tb_window b), st_rcv_wnd = rw_rcv_wnd (tb_window b),
     st_rcv_wup = rw_rcv_wup (tb_window b)\<rparr>"

lemma readableD:
  "readable K v \<Longrightarrow> reads repairing v (k_recv_peek K n)
     (\<lambda>b. take (unat n) (if tb_queue b = TCP_SEND_QUEUE then tb_sent b @ tb_unsent b else tb_recv b))"
  unfolding readable_def by blast

lemma writableD:
  assumes "writable K v"
  shows "writes (\<lambda>_. True) v (k_malloc K n) (\<lambda>b. b)"
    "writes (\<lambda>_. True) v (k_set_repair K on) (\<lambda>b. b\<lparr>tb_repair := 0 < on\<rparr>)"
    "writes repairing v (k_set_queue K q) (\<lambda>b. b\<lparr>tb_queue := q\<rparr>)"
    "writes (\<lambda>b. repairing b \<and> tb_state b = TCP_CLOSE) v (k_set_seq K s)
        (\<lambda>b. if tb_queue b = TCP_SEND_QUEUE then b\<lparr>tb_snd_seq := s\<rparr> else b\<lparr>tb_rcv_seq := s\<rparr>)"
    "writes (\<lambda>b. tb_state b = TCP_CLOSE) v (k_bind K a p) (\<lambda>b. b\<lparr>tb_self := (a, p)\<rparr>)"
    "writes (\<lambda>b. repairing b \<and> tb_state b = TCP_CLOSE) v (k_connect K a p)
        (\<lambda>b. b\<lparr>tb_peer := (a, p), tb_state := TCP_ESTABLISHED\<rparr>)"
    "writes (\<lambda>b. repairing b \<and> est b) v (k_set_options K os) (fold set_opt os)"
    "writes repairing v (k_set_timestamp K t) (\<lambda>b. b\<lparr>tb_timestamp := t\<rparr>)"
    "writes repairing v (k_set_window K w) (\<lambda>b. b\<lparr>tb_window := w\<rparr>)"
  using assms unfolding writable_def by blast+

lemma set_repair_runs:
  assumes "writable K v"
  shows "runs (sys K (k_set_repair K on)) k (\<lambda>k'. v k' = (v k)\<lparr>tb_repair := 0 < on\<rparr>)"
  using runs_sys [OF writableD(2) [OF assms]] by simp

lemma repair_start_runs:
  "writable K v \<Longrightarrow> runs (tcp_repair_start K) k (\<lambda>k'. v k' = (v k)\<lparr>tb_repair := True\<rparr>)"
  unfolding tcp_repair_start_def using set_repair_runs [of K v 1 k] by simp

lemma repair_done_runs:
  "writable K v \<Longrightarrow> runs (tcp_repair_done K) k (\<lambda>k'. v k' = (v k)\<lparr>tb_repair := False\<rparr>)"
  unfolding tcp_repair_done_def using set_repair_runs [of K v "-1" k] by simp

lemma set_queue_runs:
  "writable K v \<Longrightarrow> tb_repair (v k) \<Longrightarrow> runs (sys K (k_set_queue K q)) k (\<lambda>k'. v k' = (v k)\<lparr>tb_queue := q\<rparr>)"
  by (rule runs_sys [OF writableD(3)])

lemma is_established_runs:
  assumes "readable K v" "est (v (es_k s))"
  shows "runs (tcp_is_established K) s (\<lambda>s'. v (es_k s') = v (es_k s) \<and> es_ex s' = es_ex s \<and>
    es_info s' = \<lparr>tcpi_state = TCP_ESTABLISHED, tcpi_snd_wscale = tb_snd_wscale (v (es_k s)),
       tcpi_rcv_wscale = tb_rcv_wscale (v (es_k s))\<rparr>)"
proof -
  obtain k' where "k_info K (es_k s) = (Some (\<lparr>tcpi_state = tb_state (v (es_k s)), tcpi_snd_wscale = tb_snd_wscale (v (es_k s)),
       tcpi_rcv_wscale = tb_rcv_wscale (v (es_k s))\<rparr>, sizeof_tcp_info_sub), k')" "v k' = v (es_k s)"
    using assms unfolding readable_def reads_def by blast
  then show ?thesis using assms(2) by (simp add: runs_def tcp_is_established_def)
qed

lemma get_queue_len_runs:
  assumes "readable K v" "est (v (es_k s))"
  shows "runs (tcp_get_queue_len K) s (\<lambda>s'. v (es_k s') = v (es_k s) \<and> es_info s' = es_info s \<and>
    es_ex s' = (es_ex s)\<lparr>st_sendq_len := of_nat (length (tb_sent (v (es_k s))) + length (tb_unsent (v (es_k s)))),
      st_unsentq_len := of_nat (length (tb_unsent (v (es_k s)))), st_recvq_len := of_nat (length (tb_recv (v (es_k s))))\<rparr>)"
  unfolding tcp_get_queue_len_def
  apply (rule runs_TRY, rule runs_fetch [where v = v and P = est and f = "\<lambda>b. int (length (tb_sent b) + length (tb_unsent b))"])
  using assms apply (simp_all add: readable_def)
  apply (rule runs_TRY, rule runs_fetch [where v = v and P = est and f = "\<lambda>b. int (length (tb_unsent b))"])
    apply (simp_all add: readable_def)
  apply (rule runs_conseq, rule runs_fetch [where v = v and P = est and f = "\<lambda>b. int (length (tb_recv b))"])
    apply simp_all
  done

lemma get_options_runs:
  assumes "readable K v" "est (v (es_k s))"
  shows "runs (tcp_get_options K) s (\<lambda>s'. v (es_k s') = v (es_k s) \<and> es_info s' = es_info s \<and>
    es_ex s' = (es_ex s)\<lparr>st_mss := tb_mss (v (es_k s)), st_send_wscale := tcpi_snd_wscale (es_info s),
      st_recv_wscale := tcpi_rcv_wscale (es_info s), st_timestamp := tb_timestamp (v (es_k s))\<rparr>)"
proof -
  have "runs (TRY (fetch K (k_maxseg K) (\<lambda>mss ex. ex\<lparr>st_mss := mss, st_send_wscale := tcpi_snd_wscale (es_info s),
             st_recv_wscale := tcpi_rcv_wscale (es_info s)\<rparr>))
          (fetch K (k_timestamp K) (\<lambda>timestamp ex. ex\<lparr>st_timestamp := timestamp\<rparr>))) s
    (\<lambda>s'. v (es_k s') = v (es_k s) \<and> es_info s' = es_info s \<and>
    es_ex s' = (es_ex s)\<lparr>st_mss := tb_mss (v (es_k s)), st_send_wscale := tcpi_snd_wscale (es_info s),
      st_recv_wscale := tcpi_rcv_wscale (es_info s), st_timestamp := tb_timestamp (v (es_k s))\<rparr>)"
    apply (rule runs_TRY, rule runs_fetch [where v = v and P = est and f = tb_mss])
    using assms apply (simp_all add: readable_def)
    apply (rule runs_conseq, rule runs_fetch [where v = v and P = est and f = tb_timestamp])
      apply simp_all
    done
  then show ?thesis by (simp add: runs_def tcp_get_options_def Let_def)
qed

lemma get_window_runs:
  assumes "readable K v" "tb_repair (v (es_k s))"
  shows "runs (tcp_get_window K) s (\<lambda>s'. v (es_k s') = v (es_k s) \<and> es_info s' = es_info s \<and>
    es_ex s' = (es_ex s)\<lparr>st_snd_wl1 := rw_snd_wl1 (tb_window (v (es_k s))), st_snd_wnd := rw_snd_wnd (tb_window (v (es_k s))),
     st_max_window := rw_max_window (tb_window (v (es_k s))), st_rcv_wnd := rw_rcv_wnd (tb_window (v (es_k s))),
     st_rcv_wup := rw_rcv_wup (tb_window (v (es_k s)))\<rparr>)"
  unfolding tcp_get_window_def using assms
  by (intro runs_fetch [where v = v and P = repairing and f = tb_window]) (simp_all add: readable_def)

lemma get_addr_runs:
  assumes "readable K v" "est (v (es_k s))"
  shows "runs (tcp_get_addr K) s (\<lambda>s'. v (es_k s') = v (es_k s) \<and> es_info s' = es_info s \<and>
    es_ex s' = (es_ex s)\<lparr>st_self_addr := fst (tb_self (v (es_k s))), st_self_port := ucast (snd (tb_self (v (es_k s)))),
      st_peer_addr := fst (tb_peer (v (es_k s))), st_peer_port := ucast (snd (tb_peer (v (es_k s))))\<rparr>)"
  unfolding tcp_get_addr_def
  apply (rule runs_TRY, rule runs_fetch [where v = v and P = est and f = tb_self])
  using assms apply (simp_all add: readable_def)
  apply (rule runs_conseq, rule runs_fetch [where v = v and P = est and f = tb_peer])
    apply (simp_all add: case_prod_unfold)
  done

lemma peek_queue_runs:
  assumes "readable K v" "writable K v" "tb_repair (v (es_k s))"
    and "q = (if tb_queue (v (es_k s)) = TCP_SEND_QUEUE then tb_sent (v (es_k s)) @ tb_unsent (v (es_k s)) else tb_recv (v (es_k s)))"
    and "length q < 2 ^ 31"
  shows "runs (peek_queue K qid (of_nat (length q))) s (\<lambda>s'. v (es_k s') = v (es_k s) \<and> es_info s' = es_info s \<and>
    es_ex s' = (if qid = TCP_SEND_QUEUE then (es_ex s)\<lparr>st_sendq := q\<rparr> else (es_ex s)\<lparr>st_recvq := q\<rparr>))"
proof (cases "q = []")
  case True
  then show ?thesis by (simp add: runs_def peek_queue_def Let_def)
next
  case False
  have u: "unat (of_nat (length q) :: u64) = length q" "unat (of_nat (length q) + 1 :: u64) = length q + 1"
    using assms(5) by (simp_all add: unat_word_ariths unat_of_nat take_bit_nat_eq_self)
  then have nz: "of_nat (length q) \<noteq> (0 :: u64)" using False by auto
  obtain k1 where k1: "k_malloc K (of_nat (length q) + 1) (es_k s) = (True, k1)" "v k1 = v (es_k s)"
    using writableD(1) [OF assms(2)] by (auto simp: writes_def)
  let ?n = "of_nat (length q) + 1 :: u64"
  have "tb_repair (v k1)" using assms(3) k1(2) by simp
  then have "\<exists>k2. k_recv_peek K ?n k1 = (Some (take (unat ?n)
      (if tb_queue (v k1) = TCP_SEND_QUEUE then tb_sent (v k1) @ tb_unsent (v k1) else tb_recv (v k1))), k2) \<and> v k2 = v k1"
    using readableD [OF assms(1), of ?n] unfolding reads_def by blast
  then obtain k2 where k2: "k_recv_peek K ?n k1 = (Some (take (unat ?n) q), k2)" "v k2 = v k1"
    unfolding assms(4) k1(2) by blast
  then show ?thesis using nz k1 u by (simp add: runs_def peek_queue_def Let_def)
qed

definition queue_of :: "int \<Rightarrow> tcb \<Rightarrow> byte list" where
  "queue_of qid b = (if qid = TCP_SEND_QUEUE then tb_sent b @ tb_unsent b else tb_recv b)"

lemma get_queue_runs:
  fixes s :: "'k export_state"
  assumes "readable K v" "writable K v" "tb_repair (v (es_k s))" "length (queue_of qid (v (es_k s))) < 2 ^ 31"
    and "(if qid = TCP_SEND_QUEUE then st_sendq_len (es_ex s) else st_recvq_len (es_ex s)) = of_nat (length (queue_of qid (v (es_k s))))"
  shows "runs (tcp_get_queue K qid) s (\<lambda>s'. v (es_k s') = (v (es_k s))\<lparr>tb_queue := qid\<rparr> \<and>
    es_ex s' = (if qid = TCP_SEND_QUEUE
      then (es_ex s)\<lparr>st_seq := tb_snd_seq (v (es_k s)), st_sendq := queue_of qid (v (es_k s))\<rparr>
      else (es_ex s)\<lparr>st_ack := tb_rcv_seq (v (es_k s)), st_recvq := queue_of qid (v (es_k s))\<rparr>))"
proof -
  let ?b = "v (es_k s)" and ?q = "queue_of qid (v (es_k s))"
  have seq: "reads repairing v (k_seq K) (\<lambda>b. if tb_queue b = TCP_SEND_QUEUE then tb_snd_seq b else tb_rcv_seq b)"
    using assms(1) unfolding readable_def by blast
  show ?thesis
    unfolding tcp_get_queue_def
  proof (rule runs_TRY [OF runs_lift [OF set_queue_runs [OF assms(2,3)]]], elim conjE)
    fix s1 :: "'k export_state" assume s1: "v (es_k s1) = ?b\<lparr>tb_queue := qid\<rparr>" "es_ex s1 = es_ex s"
    have r1: "repairing (v (es_k s1))" using s1(1) assms(3) by simp
    show "runs (TRY (fetch K (k_seq K) (\<lambda>seq ex. if qid = TCP_SEND_QUEUE then ex\<lparr>st_seq := seq\<rparr> else ex\<lparr>st_ack := seq\<rparr>))
         (\<lambda>s. peek_queue K qid (if qid = TCP_SEND_QUEUE then st_sendq_len (es_ex s) else st_recvq_len (es_ex s)) s)) s1
      (\<lambda>s'. v (es_k s') = ?b\<lparr>tb_queue := qid\<rparr> \<and> es_ex s' = (if qid = TCP_SEND_QUEUE
        then (es_ex s)\<lparr>st_seq := tb_snd_seq ?b, st_sendq := ?q\<rparr> else (es_ex s)\<lparr>st_ack := tb_rcv_seq ?b, st_recvq := ?q\<rparr>))"
    proof (rule runs_TRY [OF runs_fetch [OF seq r1]], elim conjE)
      fix s2 :: "'k export_state" assume s2: "v (es_k s2) = v (es_k s1)" "es_ex s2 = (if qid = TCP_SEND_QUEUE
          then (es_ex s1)\<lparr>st_seq := if tb_queue (v (es_k s1)) = TCP_SEND_QUEUE then tb_snd_seq (v (es_k s1)) else tb_rcv_seq (v (es_k s1))\<rparr>
          else (es_ex s1)\<lparr>st_ack := if tb_queue (v (es_k s1)) = TCP_SEND_QUEUE then tb_snd_seq (v (es_k s1)) else tb_rcv_seq (v (es_k s1))\<rparr>)"
      have len: "(if qid = TCP_SEND_QUEUE then st_sendq_len (es_ex s2) else st_recvq_len (es_ex s2)) = of_nat (length ?q)"
        using assms(5) by (auto simp: s2(2) s1(2) split: if_splits)
      have r2: "tb_repair (v (es_k s2))" using r1 s2(1) by simp
      have q: "?q = (if tb_queue (v (es_k s2)) = TCP_SEND_QUEUE then tb_sent (v (es_k s2)) @ tb_unsent (v (es_k s2))
          else tb_recv (v (es_k s2)))"
        by (simp add: s2(1) s1(1) queue_of_def)
      show "runs (\<lambda>s. peek_queue K qid (if qid = TCP_SEND_QUEUE then st_sendq_len (es_ex s) else st_recvq_len (es_ex s)) s) s2
          (\<lambda>s'. v (es_k s') = ?b\<lparr>tb_queue := qid\<rparr> \<and> es_ex s' = (if qid = TCP_SEND_QUEUE
        then (es_ex s)\<lparr>st_seq := tb_snd_seq ?b, st_sendq := ?q\<rparr> else (es_ex s)\<lparr>st_ack := tb_rcv_seq ?b, st_recvq := ?q\<rparr>))"
        using runs_conseq [OF peek_queue_runs [OF assms(1,2) r2 q assms(4), of qid]] s1 s2 len
        by (simp add: runs_def)
    qed
  qed
qed

lemma export_runs:
  assumes "readable K v" "writable K v" "est (v k)"
    and "length (tb_sent (v k)) + length (tb_unsent (v k)) < 2 ^ 31" "length (tb_recv (v k)) < 2 ^ 31"
  shows "runs (tcp_export_body K) \<lparr>es_k = k, es_ex = TCPState_clear, es_info = g\<rparr>
    (\<lambda>s'. v (es_k s') = (v k)\<lparr>tb_repair := True, tb_queue := TCP_RECV_QUEUE\<rparr> \<and> es_ex s' = exported (v k))"
proof -
  have sr: "TCP_RECV_QUEUE \<noteq> TCP_SEND_QUEUE" by (simp add: TCP_RECV_QUEUE_def TCP_SEND_QUEUE_def)
  show ?thesis
    unfolding tcp_export_body_def
    apply (rule runs_TRY [OF runs_lift [OF repair_start_runs [OF assms(2)]]], elim conjE, rule runs_on_error)
    apply (rule runs_TRY [OF is_established_runs [OF assms(1)]])
    using assms(3) apply simp
    apply (elim conjE, rule runs_TRY [OF get_queue_len_runs [OF assms(1)]])
    using assms(3) apply simp
    apply (elim conjE, rule runs_TRY [OF get_options_runs [OF assms(1)]])
    using assms(3) apply simp
    apply (elim conjE, rule runs_TRY [OF get_window_runs [OF assms(1)]])
    apply simp
    apply (elim conjE, rule runs_TRY [OF get_addr_runs [OF assms(1)]])
    using assms(3) apply simp
    apply (elim conjE, rule runs_TRY [OF get_queue_runs [OF assms(1,2)]])
    apply simp
    using assms(4) apply (simp add: queue_of_def)
    apply (simp add: queue_of_def)
    apply (elim conjE, rule runs_on_error, rule runs_conseq [OF get_queue_runs [OF assms(1,2)]])
    apply simp
    using assms(5) sr apply (simp add: queue_of_def)
    using sr apply (simp add: queue_of_def)
    using sr apply (simp add: queue_of_def exported_def TCPState_clear_def)
    done
qed

section \<open>Writing a connection\<close>

lemma ucast_of_nat_down: "ucast (of_nat n :: u64) = (of_nat n :: u32)"
  by (simp add: unsigned_of_nat word_of_nat_eq_iff)

lemma send_bytes_runs:
  assumes "sends K v" "est (v k)" "0 < n" "n < 2 ^ 31" "n \<le> length buf"
  shows "runs (send_queue_bytes K buf (of_nat n)) k (\<lambda>k'. v k' = put_bytes (take n buf) (v k))"
proof -
  have "sint (of_nat n :: u32) = int n"
    using assms(4) by (simp add: signed_of_nat signed_take_bit_int_eq_self)
  then show ?thesis
    using send_loop_total [OF assms(1-4), of 0 buf n] assms(3,5) by (simp add: runs_def send_queue_bytes_def)
qed

lemma send_queue_runs:
  assumes "sends K v" "writable K v" "est (v k)" "tb_repair (v k)" "0 < n" "n < 2 ^ 31" "n \<le> length buf"
  shows "runs (send_queue K q buf (of_nat n)) k (\<lambda>k'. v k' = put_bytes (take n buf) ((v k)\<lparr>tb_queue := q\<rparr>))"
  unfolding send_queue_def
proof (rule runs_TRY [OF set_queue_runs [OF assms(2,4)]])
  fix k1 assume k1: "v k1 = (v k)\<lparr>tb_queue := q\<rparr>"
  then have "est (v k1)" using assms(3) by simp
  from send_bytes_runs [OF assms(1) this assms(5-7)]
  show "runs (send_queue_bytes K buf (of_nat n)) k1 (\<lambda>k'. v k' = put_bytes (take n buf) ((v k)\<lparr>tb_queue := q\<rparr>))"
    using k1 by (simp add: runs_def)
qed

lemma set_recv_queue_runs:
  assumes "sends K v" "writable K v" "est (v k)" "tb_repair (v k)"
    and "st_recvq_len ex = of_nat (length (st_recvq ex))" "length (st_recvq ex) < 2 ^ 31"
  shows "runs (tcp_set_queue K TCP_RECV_QUEUE ex) k (\<lambda>k'. \<exists>q. v k' = (v k)\<lparr>tb_queue := q,
    tb_recv := tb_recv (v k) @ st_recvq ex, tb_rcv_seq := tb_rcv_seq (v k) + of_nat (length (st_recvq ex))\<rparr>)"
proof (cases "st_recvq ex = []")
  case True
  then have "st_recvq_len ex = 0" using assms(5) by simp
  then show ?thesis using True by (simp add: tcp_set_queue_def runs_def ok_def exI [of _ "tb_queue (v k)"])
next
  case False
  let ?n = "length (st_recvq ex)"
  have u: "unat (of_nat ?n :: u64) = ?n" using assms(6) by (simp add: unat_of_nat take_bit_nat_eq_self)
  then have nz: "st_recvq_len ex \<noteq> 0" using False assms(5) by auto
  have c: "ucast (st_recvq_len ex) = (of_nat ?n :: u32)" using assms(5) by (simp add: ucast_of_nat_down)
  have tk: "take ?n (c_str (st_recvq ex)) = st_recvq ex" "?n \<le> length (c_str (st_recvq ex))"
    by (simp_all add: c_str_def)
  have "runs (send_queue K TCP_RECV_QUEUE (c_str (st_recvq ex)) (of_nat ?n)) k
      (\<lambda>k'. v k' = put_bytes (take ?n (c_str (st_recvq ex))) ((v k)\<lparr>tb_queue := TCP_RECV_QUEUE\<rparr>))"
    using send_queue_runs [OF assms(1-4) _ assms(6) tk(2)] False by simp
  then show ?thesis
    using nz assms(4) unfolding tk tcp_set_queue_def c
    by (auto simp: runs_def put_bytes_def TCP_RECV_QUEUE_def TCP_SEND_QUEUE_def)
qed

text \<open>The sent part goes out in repair mode, the rest as ordinary data.\<close>

lemma set_send_queue_runs:
  assumes "sends K v" "writable K v" "est (v k)" "tb_repair (v k)"
    and "st_sendq ex = xs @ ys" "length xs + length ys < 2 ^ 31"
    and "st_sendq_len ex = of_nat (length xs + length ys)" "st_unsentq_len ex = of_nat (length ys)"
  shows "runs (tcp_set_queue K TCP_SEND_QUEUE ex) k (\<lambda>k'. \<exists>q. v k' = (v k)\<lparr>tb_queue := q,
    tb_sent := tb_sent (v k) @ xs, tb_unsent := tb_unsent (v k) @ ys,
    tb_snd_seq := tb_snd_seq (v k) + of_nat (length xs + length ys)\<rparr>)"
proof -
  let ?len = "of_nat (length xs) :: u32" and ?ulen = "of_nat (length ys) :: u32"
  have u: "unat ?len = length xs" "unat ?ulen = length ys"
    using assms(6) by (simp_all add: unat_of_nat take_bit_nat_eq_self)
  have uu: "ucast (st_unsentq_len ex) = ?ulen" using assms(8) by (simp add: ucast_of_nat_down)
  have uc: "ucast ?ulen = (of_nat (length ys) :: u64)"
    using assms(6) by (intro word_unat_eq_iff [THEN iffD2]) (simp add: unat_ucast_up unat_of_nat take_bit_nat_eq_self)
  have l: "ucast (st_sendq_len ex - ucast ?ulen) = ?len"
    unfolding uc assms(7) by (simp add: ucast_of_nat_down)
  have z: "?len = 0 \<longleftrightarrow> xs = []" "?ulen = 0 \<longleftrightarrow> ys = []"
    unfolding unat_eq_zero [symmetric] u by simp_all
  define Q1 where "Q1 k' \<longleftrightarrow> (\<exists>q. v k' = (v k)\<lparr>tb_queue := q, tb_sent := tb_sent (v k) @ xs,
    tb_snd_seq := tb_snd_seq (v k) + of_nat (length xs)\<rparr>)" for k'
  have first: "runs (if ?len \<noteq> 0 then send_queue K TCP_SEND_QUEUE (c_str (st_sendq ex)) ?len else ok) k Q1"
  proof (cases "xs = []")
    case True
    then show ?thesis by (simp add: Q1_def exI [of _ "tb_queue (v k)"])
  next
    case False
    have tk: "take (length xs) (c_str (st_sendq ex)) = xs" "length xs \<le> length (c_str (st_sendq ex))"
      by (simp_all add: c_str_def assms(5))
    have "length xs < 2 ^ 31" using assms(6) by simp
    from send_queue_runs [OF assms(1-4) _ this tk(2), of TCP_SEND_QUEUE] False
    have "runs (send_queue K TCP_SEND_QUEUE (c_str (st_sendq ex)) ?len) k
      (\<lambda>k'. v k' = put_bytes xs ((v k)\<lparr>tb_queue := TCP_SEND_QUEUE\<rparr>))" by (simp add: tk)
    then show ?thesis
      using False z assms(4) by (auto simp: Q1_def runs_def put_bytes_def)
  qed
  have second: "runs (if ?ulen \<noteq> 0 then TRY (asserted (tcp_repair_done K))
        (TRY (send_queue_bytes K (drop (unat ?len) (c_str (st_sendq ex))) ?ulen) (asserted (tcp_repair_start K))) else ok) k1
      (\<lambda>k'. \<exists>q. v k' = (v k)\<lparr>tb_queue := q, tb_sent := tb_sent (v k) @ xs, tb_unsent := tb_unsent (v k) @ ys,
        tb_snd_seq := tb_snd_seq (v k) + of_nat (length xs + length ys)\<rparr>)" if q1: "Q1 k1" for k1
  proof -
    obtain q where q: "v k1 = (v k)\<lparr>tb_queue := q, tb_sent := tb_sent (v k) @ xs,
        tb_snd_seq := tb_snd_seq (v k) + of_nat (length xs)\<rparr>" using q1 by (auto simp: Q1_def)
    show ?thesis
    proof (cases "ys = []")
      case True
      then show ?thesis using q by (auto simp: runs_def ok_def intro!: exI [of _ q])
    next
      case False
      let ?buf = "drop (length xs) (c_str (st_sendq ex))"
      have tk: "take (length ys) ?buf = ys" "length ys \<le> length ?buf" by (simp_all add: c_str_def assms(5))
      have ny: "0 < length ys" "length ys < 2 ^ 31" using False assms(6) by simp_all
      have "runs (TRY (asserted (tcp_repair_done K)) (TRY (send_queue_bytes K ?buf ?ulen) (asserted (tcp_repair_start K)))) k1
        (\<lambda>k'. v k' = (put_bytes ys ((v k1)\<lparr>tb_repair := False\<rparr>))\<lparr>tb_repair := True\<rparr>)"
      proof (rule runs_TRY [OF runs_asserted [OF repair_done_runs [OF assms(2)]]])
        fix k2 assume k2: "v k2 = (v k1)\<lparr>tb_repair := False\<rparr>"
        have e2: "est (v k2)" using k2 q assms(3) by simp
        show "runs (TRY (send_queue_bytes K ?buf ?ulen) (asserted (tcp_repair_start K))) k2
          (\<lambda>k'. v k' = (put_bytes ys ((v k1)\<lparr>tb_repair := False\<rparr>))\<lparr>tb_repair := True\<rparr>)"
        proof (rule runs_TRY [OF send_bytes_runs [OF assms(1) e2 ny tk(2)]])
          fix k3 assume "v k3 = put_bytes (take (length ys) ?buf) (v k2)"
          then show "runs (asserted (tcp_repair_start K)) k3
            (\<lambda>k'. v k' = (put_bytes ys ((v k1)\<lparr>tb_repair := False\<rparr>))\<lparr>tb_repair := True\<rparr>)"
            using runs_asserted [OF repair_start_runs [OF assms(2)], of k3] k2 by (simp add: tk)
        qed
      qed
      then show ?thesis
        using False z(2) u(1) q assms(4) by (auto simp: runs_def put_bytes_def intro!: exI [of _ q])
    qed
  qed
  have "tcp_set_queue K TCP_SEND_QUEUE ex = TRY (if ?len \<noteq> 0 then send_queue K TCP_SEND_QUEUE (c_str (st_sendq ex)) ?len else ok)
      (if ?ulen \<noteq> 0 then TRY (asserted (tcp_repair_done K))
        (TRY (send_queue_bytes K (drop (unat ?len) (c_str (st_sendq ex))) ?ulen) (asserted (tcp_repair_start K))) else ok)"
    unfolding tcp_set_queue_def uu Let_def l by (simp add: TCP_RECV_QUEUE_def TCP_SEND_QUEUE_def)
  then show ?thesis using runs_TRY [OF first second] by simp
qed

lemma wscales_pack:
  fixes s r :: "u32" assumes "s < 65536" "r < 65536"
  shows "(s + push_bit 16 r) AND 0xffff = s" "drop_bit 16 (s + push_bit 16 r) = r"
proof -
  have su: "unat s < 65536" "unat r < 65536" using assms by (simp_all add: word_less_nat_alt)
  have p: "unat (push_bit 16 r) = unat r * 65536"
    using su by (simp add: push_bit_eq_mult unat_word_ariths)
  have u: "unat (s + push_bit 16 r) = unat s + unat r * 65536" using su p by (simp add: unat_word_ariths)
  have lt: "unat s + unat r * 65536 < 2 ^ 32" using su by simp
  have m: "(0xffff :: u32) = mask 16" by (simp add: mask_eq_exp_minus_1)
  show "(s + push_bit 16 r) AND 0xffff = s"
    unfolding m take_bit_eq_mask [symmetric]
    by (rule word_unat_eq_iff [THEN iffD2], simp only: unsigned_take_bit_eq u) (simp add: take_bit_eq_mod su)
  show "drop_bit 16 (s + push_bit 16 r) = r"
    by (rule word_unat_eq_iff [THEN iffD2], simp only: unsigned_drop_bit_eq u) (use lt in \<open>simp add: drop_bit_eq_div take_bit_nat_eq_self su\<close>)
qed

lemma set_seq_runs:
  assumes "writable K v" "tb_repair (v k)" "tb_state (v k) = TCP_CLOSE"
  shows "runs (tcp_set_seq K q ex) k (\<lambda>k'. v k' = (if q = TCP_SEND_QUEUE
    then (v k)\<lparr>tb_queue := q, tb_snd_seq := st_seq ex\<rparr> else (v k)\<lparr>tb_queue := q, tb_rcv_seq := st_ack ex\<rparr>))"
  unfolding tcp_set_seq_def
  by (rule runs_TRY [OF set_queue_runs [OF assms(1,2)]], rule runs_conseq, rule runs_sys [OF writableD(4) [OF assms(1)]])
    (use assms(2,3) in auto)

lemma set_addr_runs:
  assumes "writable K v" "tb_repair (v k)" "tb_state (v k) = TCP_CLOSE"
  shows "runs (tcp_set_addr K ex) k (\<lambda>k'. v k' = (v k)\<lparr>tb_self := (st_self_addr ex, ucast (st_self_port ex)),
    tb_peer := (st_peer_addr ex, ucast (st_peer_port ex)), tb_state := TCP_ESTABLISHED\<rparr>)"
  unfolding tcp_set_addr_def
  by (rule runs_TRY [OF runs_sys [OF writableD(5) [OF assms(1)]]], rule assms(3),
      rule runs_conseq, rule runs_sys [OF writableD(6) [OF assms(1)]]) (use assms(2,3) in auto)

lemma set_options_runs:
  assumes "writable K v" "tb_repair (v k)" "est (v k)" "st_send_wscale ex < 65536" "st_recv_wscale ex < 65536"
  shows "runs (tcp_set_options K ex) k (\<lambda>k'. v k' = (v k)\<lparr>tb_mss := st_mss ex, tb_snd_wscale := st_send_wscale ex,
    tb_rcv_wscale := st_recv_wscale ex, tb_timestamp := st_timestamp ex\<rparr>)"
  unfolding tcp_set_options_def
  by (rule runs_TRY [OF runs_sys [OF writableD(7) [OF assms(1)]]], rule conjI, rule assms(2), rule assms(3),
      rule runs_conseq, rule runs_sys [OF writableD(8) [OF assms(1)]])
    (use assms(2) in \<open>auto simp: set_opt_def wscales_pack [OF assms(4,5)]\<close>)

lemma set_window_runs:
  assumes "writable K v" "tb_repair (v k)"
  shows "runs (tcp_set_window K ex) k (\<lambda>k'. v k' = (v k)\<lparr>tb_window := \<lparr>rw_snd_wl1 = st_snd_wl1 ex,
     rw_snd_wnd = st_snd_wnd ex, rw_max_window = st_max_window ex, rw_rcv_wnd = st_rcv_wnd ex, rw_rcv_wup = st_rcv_wup ex\<rparr>\<rparr>)"
  unfolding tcp_set_window_def by (rule runs_sys [OF writableD(9) [OF assms(1)]]) (rule assms(2))

text \<open>The connection that import makes of a message.\<close>

definition imported :: "tcb \<Rightarrow> tcb \<Rightarrow> tcb" where
  "imported b c = b\<lparr>tb_repair := False, tb_queue := tb_queue c,
     tb_snd_seq := tb_snd_seq b + of_nat (length (tb_sent b) + length (tb_unsent b)),
     tb_rcv_seq := tb_rcv_seq b + of_nat (length (tb_recv b))\<rparr>"

lemma ucast_port: "ucast (ucast p :: u32) = p" for p :: u16
  by (simp add: ucast_up_ucast_id is_up)

lemma import_runs:
  assumes "repair_kernel K v" "tb_state (v k) = TCP_CLOSE"
    and "tb_sent (v k) = []" "tb_unsent (v k) = []" "tb_recv (v k) = []" and "est b"
    and "length (tb_sent b) + length (tb_unsent b) < 2 ^ 31" "length (tb_recv b) < 2 ^ 31"
    and "tb_snd_wscale b < 65536" "tb_rcv_wscale b < 65536"
  shows "runs (tcp_import_body K (exported b)) k (\<lambda>k'. v k' = imported b (v k'))"
proof -
  have K: "writable K v" "sends K v" using assms(1) by (simp_all add: repair_kernel_def)
  have sr: "TCP_RECV_QUEUE \<noteq> TCP_SEND_QUEUE" by (simp add: TCP_RECV_QUEUE_def TCP_SEND_QUEUE_def)
  show ?thesis
    unfolding tcp_import_body_def
    apply (rule runs_TRY [OF repair_start_runs [OF K(1)]], rule runs_on_error)
    apply (rule runs_TRY [OF set_seq_runs [OF K(1)]])
    using assms(2) apply simp
    using assms(2) apply simp
    apply (rule runs_TRY [OF set_seq_runs [OF K(1)]])
    using assms(2) apply simp
    using assms(2) apply simp
    apply (rule runs_TRY [OF set_addr_runs [OF K(1)]])
    using assms(2) sr apply simp
    using assms(2) sr apply simp
    apply (rule runs_TRY [OF set_send_queue_runs [OF K(2,1), where xs = "tb_sent b" and ys = "tb_unsent b"]])
    using sr apply simp
    using sr apply simp
    apply (simp add: exported_def)
    using assms(7) apply simp
    apply (simp add: exported_def)
    apply (simp add: exported_def)
    apply (elim exE, rule runs_TRY [OF set_recv_queue_runs [OF K(2,1)]])
    using sr apply simp
    using sr apply simp
    apply (simp add: exported_def)
    using assms(8) apply (simp add: exported_def)
    apply (elim exE, rule runs_TRY [OF set_options_runs [OF K(1)]])
    using sr apply simp
    using sr apply simp
    using assms(9) apply (simp add: exported_def)
    using assms(10) apply (simp add: exported_def)
    apply (rule runs_TRY [OF set_window_runs [OF K(1)]])
    using sr apply simp
    apply (rule runs_conseq [OF repair_done_runs [OF K(1)]])
    using sr assms(2-6) apply (simp add: exported_def imported_def ucast_port)
    done
qed

section \<open>Properties\<close>


text \<open>C31: sending back a queue ends and delivers every byte of it in order, in pieces as small as the
  kernel wants, when the kernel takes at least one byte of any chunk of up to 1024 bytes.\<close>

theorem queue_sent_completely:
  assumes "sends K v" and "est (v k)" and "0 < n" and "n < 2 ^ 31" and "n \<le> length buf"
  shows "\<exists>k'. send_queue_bytes K buf (of_nat n) k = Some (0, k') \<and> v k' = put_bytes (take n buf) (v k)"
  using send_bytes_runs [OF assms] by (simp add: runs_def)

lemma on_error_err1:
  assumes "on_error (err1 K) f k = Some (e, k')" "e \<noteq> 0"
  shows "\<exists>k1. tcp_repair_done K k1 = Some (0, k')"
  using assms unfolding on_error_def err1_def by (simp split: option.splits if_splits prod.splits) blast

lemma on_error_lift_err1:
  assumes "on_error (\<lambda>e. lift_k (err1 K e)) f s = Some (e, s')" "e \<noteq> 0"
  shows "\<exists>k1. tcp_repair_done K k1 = Some (0, es_k s')"
proof -
  obtain e1 s1 where f: "f s = Some (e1, s1)" using assms(1) by (auto simp: on_error_def split: option.splits)
  then have "lift_k (err1 K e1) s1 = Some (e, s')" using assms by (auto simp: on_error_def split: if_splits)
  then have "err1 K e1 (es_k s1) = Some (e, es_k s')" by (auto simp: lift_k_def split: option.splits)
  then have "tcp_repair_done K (es_k s1) = Some (0, es_k s')" by (auto simp: err1_def split: option.splits if_splits)
  then show ?thesis by blast
qed

text \<open>C32: when export or import reports an error, either the socket could not be put into repair mode
  at all, or the last thing done was to take it out of repair mode again.\<close>

theorem failure_leaves_repair_mode:
  assumes "e \<noteq> 0"
  shows "(tcp_export K (Some old) garbage k = Some (e, ex, k') \<longrightarrow>
      tcp_repair_start K k = Some (e, k') \<or> (\<exists>k1. tcp_repair_done K k1 = Some (0, k'))) \<and>
    (tcp_import K (Some ex') k = Some (e, k') \<longrightarrow>
      tcp_repair_start K k = Some (e, k') \<or> (\<exists>k1. tcp_repair_done K k1 = Some (0, k')))"
proof (intro conjI impI)
  assume "tcp_export K (Some old) garbage k = Some (e, ex, k')"
  then obtain s' where s': "tcp_export_body K \<lparr>es_k = k, es_ex = TCPState_clear, es_info = garbage\<rparr> = Some (e, s')" "k' = es_k s'"
    by (auto simp: tcp_export_def split: option.splits)
  obtain e0 k0 where st: "tcp_repair_start K k = Some (e0, k0)"
    using s'(1) by (auto simp: tcp_export_body_def TRY_def lift_k_def split: option.splits)
  show "tcp_repair_start K k = Some (e, k') \<or> (\<exists>k1. tcp_repair_done K k1 = Some (0, k'))"
  proof (cases "e0 = 0")
    case True
    obtain f s0 where "on_error (\<lambda>e. lift_k (err1 K e)) f s0 = Some (e, s')"
      using s'(1) st True
      by (simp add: tcp_export_body_def TRY_def [of "lift_k (tcp_repair_start K)"] lift_k_def [of "tcp_repair_start K"])
    from on_error_lift_err1 [OF this assms] show ?thesis by (simp add: s'(2))
  next
    case False
    then show ?thesis
      using s' st by (simp add: tcp_export_body_def TRY_def lift_k_def) auto
  qed
next
  assume imp: "tcp_import K (Some ex') k = Some (e, k')"
  then obtain e0 k0 where st: "tcp_repair_start K k = Some (e0, k0)"
    by (auto simp: tcp_import_def tcp_import_body_def TRY_def split: option.splits)
  show "tcp_repair_start K k = Some (e, k') \<or> (\<exists>k1. tcp_repair_done K k1 = Some (0, k'))"
  proof (cases "e0 = 0")
    case True
    obtain f where "on_error (err1 K) f k0 = Some (e, k')"
      using imp st True by (simp add: tcp_import_def tcp_import_body_def TRY_def [of "tcp_repair_start K"])
    from on_error_err1 [OF this assms] show ?thesis by blast
  next
    case False
    then show ?thesis
      using imp st by (simp add: tcp_import_def tcp_import_body_def TRY_def)
  qed
qed

section \<open>A kernel\<close>

definition model_kernel :: "tcb tcp_api" where
  "model_kernel = \<lparr>k_errno = \<lambda>_. 22, k_malloc = \<lambda>n b. (True, b),
     k_set_repair = \<lambda>on b. (True, b\<lparr>tb_repair := 0 < on\<rparr>),
     k_info = \<lambda>b. (Some (\<lparr>tcpi_state = tb_state b, tcpi_snd_wscale = tb_snd_wscale b, tcpi_rcv_wscale = tb_rcv_wscale b\<rparr>,
       sizeof_tcp_info_sub), b),
     k_outq = \<lambda>b. (Some (int (length (tb_sent b) + length (tb_unsent b))), b),
     k_outqnsd = \<lambda>b. (Some (int (length (tb_unsent b))), b),
     k_inq = \<lambda>b. (Some (int (length (tb_recv b))), b),
     k_maxseg = \<lambda>b. (Some (tb_mss b), b), k_timestamp = \<lambda>b. (Some (tb_timestamp b), b),
     k_set_options = \<lambda>os b. (True, fold set_opt os b), k_set_timestamp = \<lambda>t b. (True, b\<lparr>tb_timestamp := t\<rparr>),
     k_window = \<lambda>b. (if tb_repair b then Some (tb_window b) else None, b),
     k_set_window = \<lambda>w b. (True, b\<lparr>tb_window := w\<rparr>),
     k_sockname = \<lambda>b. (Some (tb_self b), b), k_peername = \<lambda>b. (Some (tb_peer b), b),
     k_bind = \<lambda>a p b. (True, b\<lparr>tb_self := (a, p)\<rparr>),
     k_connect = \<lambda>a p b. (True, b\<lparr>tb_peer := (a, p), tb_state := TCP_ESTABLISHED\<rparr>),
     k_set_queue = \<lambda>q b. (tb_repair b, if tb_repair b then b\<lparr>tb_queue := q\<rparr> else b),
     k_seq = \<lambda>b. (Some (if tb_queue b = TCP_SEND_QUEUE then tb_snd_seq b else tb_rcv_seq b), b),
     k_set_seq = \<lambda>s b. (True, if tb_queue b = TCP_SEND_QUEUE then b\<lparr>tb_snd_seq := s\<rparr> else b\<lparr>tb_rcv_seq := s\<rparr>),
     k_recv_peek = \<lambda>n b. (Some (take (unat n) (if tb_queue b = TCP_SEND_QUEUE then tb_sent b @ tb_unsent b else tb_recv b)), b),
     k_send = \<lambda>bs b. (int (min 1000 (length bs)), put_bytes (take 1000 bs) b)\<rparr>"

lemma model_sends: "sends model_kernel id"
  by (simp add: sends_def model_kernel_def min_def)

lemma model_repair: "repair_kernel model_kernel id"
  using model_sends unfolding repair_kernel_def readable_def writable_def reads_def writes_def
  by (simp add: model_kernel_def)

definition sample_tcb :: tcb where
  "sample_tcb = \<lparr>tb_repair = False, tb_state = TCP_ESTABLISHED, tb_queue = 0, tb_snd_seq = 100, tb_rcv_seq = 200,
     tb_sent = [1, 2], tb_unsent = [3], tb_recv = [4], tb_self = (1, 80), tb_peer = (2, 4000), tb_mss = 1460,
     tb_snd_wscale = 7, tb_rcv_wscale = 7, tb_timestamp = 5,
     tb_window = \<lparr>rw_snd_wl1 = 1, rw_snd_wnd = 2, rw_max_window = 3, rw_rcv_wnd = 4, rw_rcv_wup = 5\<rparr>\<rparr>"

definition fresh_tcb :: tcb where
  "fresh_tcb = sample_tcb\<lparr>tb_state := TCP_CLOSE, tb_sent := [], tb_unsent := [], tb_recv := []\<rparr>"


theorem queue_sent_completely_witness:
  "\<exists>k'. send_queue_bytes model_kernel (replicate 5000 7) 5000 sample_tcb = Some (0, k') \<and>
    tb_unsent k' = 3 # replicate 5000 7"
  using queue_sent_completely [OF model_sends, of sample_tcb 5000 "replicate 5000 7"]
  by (auto simp: sample_tcb_def put_bytes_def)

theorem failure_leaves_repair_mode_witness:
  "\<exists>e ex k'. e \<noteq> 0 \<and> tcp_export model_kernel (Some TCPState_clear) \<lparr>tcpi_state = 0, tcpi_snd_wscale = 0, tcpi_rcv_wscale = 0\<rparr> fresh_tcb
      = Some (e, ex, k') \<and>
    (tcp_repair_start model_kernel fresh_tcb = Some (e, k') \<or> (\<exists>k1. tcp_repair_done model_kernel k1 = Some (0, k')))"
proof -
  let ?g = "\<lparr>tcpi_state = 0, tcpi_snd_wscale = 0, tcpi_rcv_wscale = 0\<rparr>"
  have "map_option fst (tcp_export model_kernel (Some TCPState_clear) ?g fresh_tcb) = Some 22" by code_simp
  then obtain ex k' where r: "tcp_export model_kernel (Some TCPState_clear) ?g fresh_tcb = Some (22, ex, k')" by auto
  have "(22 :: int) \<noteq> 0" by simp
  from failure_leaves_repair_mode [OF this, of model_kernel TCPState_clear ?g fresh_tcb ex k' TCPState_clear] r
  show ?thesis by (intro exI [of _ 22] exI [of _ ex] exI [of _ k']) simp
qed

end
