(* ===== verification/CString.thy ===== *)
theory CString
  imports Prelude
begin

text \<open>
  The functions of the C library on strings that the code relies on, as the standard defines them:
  \<open>strncmp\<close> (only whether it returns 0), \<open>strtoll\<close> and \<open>atoi\<close>.  A string is the memory from its first
  byte on.
\<close>

text \<open>The bytes of a string literal.\<close>

definition str :: "string \<Rightarrow> byte list" where "str s = map of_char s"

section \<open>Comparison\<close>

fun strncmp_eq :: "nat \<Rightarrow> byte list \<Rightarrow> byte list \<Rightarrow> bool" where
  "strncmp_eq 0 s t = True"
| "strncmp_eq (Suc n) (a # s) (b # t) = (if a \<noteq> b then False else if a = 0 then True else strncmp_eq n s t)"
| "strncmp_eq (Suc n) s t = False"

lemma strncmp_eq_iff:
  "n \<le> length s \<Longrightarrow> n \<le> length t \<Longrightarrow> 0 \<notin> set (take n t) \<Longrightarrow> strncmp_eq n s t \<longleftrightarrow> take n s = take n t"
  by (induction n s t rule: strncmp_eq.induct) auto

section \<open>Numbers\<close>

definition isspace :: "byte \<Rightarrow> bool" where
  "isspace c \<longleftrightarrow> c = 32 \<or> (9 \<le> c \<and> c \<le> 13)"

definition digit_val :: "byte \<Rightarrow> nat" where
  "digit_val c = (if 48 \<le> c \<and> c \<le> 57 then unat c - 48
     else if 97 \<le> c \<and> c \<le> 122 then unat c - 87
     else if 65 \<le> c \<and> c \<le> 90 then unat c - 55 else 99)"

definition digits_value :: "nat \<Rightarrow> byte list \<Rightarrow> int" where
  "digits_value base ds = foldl (\<lambda>a c. a * int base + int (digit_val c)) 0 ds"

definition LLONG_MAX :: int where "LLONG_MAX = 2 ^ 63 - 1"
definition LLONG_MIN :: int where "LLONG_MIN = - (2 ^ 63)"

definition saturate :: "int \<Rightarrow> int" where
  "saturate v = (if v > LLONG_MAX then LLONG_MAX else if v < LLONG_MIN then LLONG_MIN else v)"

text \<open>The part behind blanks and sign, in a given base (0 for the prefix rule of C literals).\<close>

definition num_prefix :: "nat \<Rightarrow> byte list \<Rightarrow> nat \<times> nat" where
  "num_prefix base s =
     (if (base = 0 \<or> base = 16) \<and> 3 \<le> length s \<and> s ! 0 = 48 \<and> (s ! 1 = 120 \<or> s ! 1 = 88) \<and> digit_val (s ! 2) < 16
      then (16, 2)
      else if base = 0 \<and> s \<noteq> [] \<and> s ! 0 = 48 then (8, 0)
      else if base = 0 then (10, 0) else (base, 0))"

text \<open>The value and the number of bytes read; with no digits at all nothing is read.\<close>

definition strtoll :: "nat \<Rightarrow> byte list \<Rightarrow> int \<times> nat" where
  "strtoll base s =
     (let ws = takeWhile isspace s;
          s1 = drop (length ws) s;
          sg = (if s1 \<noteq> [] \<and> (s1 ! 0 = 43 \<or> s1 ! 0 = 45) then 1 else 0);
          neg = (s1 \<noteq> [] \<and> s1 ! 0 = 45);
          s2 = drop sg s1;
          (b, pre) = num_prefix base s2;
          ds = takeWhile (\<lambda>c. digit_val c < b) (drop pre s2)
      in if ds = [] then (0, 0)
         else (saturate (if neg then - digits_value b ds else digits_value b ds),
               length ws + sg + pre + length ds))"

text \<open>\<open>atoi\<close> as in glibc: the value of \<open>strtol\<close> in base 10, cut to an \<open>int\<close>.\<close>

definition atoi :: "byte list \<Rightarrow> int" where
  "atoi s = sint (word_of_int (fst (strtoll 10 s)) :: 32 word)"

section \<open>Decimal numbers\<close>

definition is_digit :: "byte \<Rightarrow> bool" where "is_digit c \<longleftrightarrow> 48 \<le> c \<and> c \<le> 57"

lemma digit_val_digit: "is_digit c \<Longrightarrow> digit_val c = unat c - 48 \<and> digit_val c < 10"
proof -
  assume d: "is_digit c"
  then have "48 \<le> unat c" "unat c \<le> 57" by (simp_all add: is_digit_def word_le_nat_alt)
  then show ?thesis using d by (simp add: digit_val_def is_digit_def)
qed

lemma strtoll_decimal:
  assumes "\<forall>c \<in> set ds. is_digit c" "ds \<noteq> []" "hd ds \<noteq> 48" "digit_val c0 \<ge> 10"
    "digits_value 10 ds \<le> LLONG_MAX"
  shows "strtoll 0 (ds @ c0 # r) = (digits_value 10 ds, length ds)"
proof -
  obtain d ds' where ds: "ds = d # ds'" using assms(2) by (cases ds) auto
  have d: "is_digit d" "d \<noteq> 48" using assms(1,3) ds by auto
  have ns: "\<not> isspace d" "d \<noteq> 43" "d \<noteq> 45"
    using d by (auto simp: is_digit_def isspace_def word_le_nat_alt)
  have pre: "num_prefix 0 (ds @ c0 # r) = (10, 0)" using d ds by (simp add: num_prefix_def)
  have tw: "takeWhile (\<lambda>c. digit_val c < 10) (ds @ c0 # r) = ds"
  proof -
    have "\<And>c. c \<in> set ds \<Longrightarrow> digit_val c < 10" using assms(1) digit_val_digit by blast
    then show ?thesis using assms(4) by (simp add: takeWhile_append2)
  qed
  have "0 \<le> digits_value 10 ds"
  proof -
    have "0 \<le> a \<Longrightarrow> 0 \<le> foldl (\<lambda>a c. a * int 10 + int (digit_val c)) a xs" for a xs
      by (induction xs arbitrary: a) auto
    then show ?thesis by (simp add: digits_value_def)
  qed
  then have sat: "saturate (digits_value 10 ds) = digits_value 10 ds"
    using assms(5) by (simp add: saturate_def LLONG_MIN_def)
  show ?thesis
    using ns pre tw sat assms(2) ds by (simp add: strtoll_def Let_def)
qed

end
