(* ===== verification/Membuf.thy ===== *)
theory Membuf
  imports Prelude
begin

text \<open>
  The growing byte buffer of src/include/membuf.h.  Pointers are 64-bit addresses; the bytes of the
  allocated block are a list.  A block that \<open>malloc\<close> or \<open>realloc\<close> returns is a parameter: its address
  and what its fresh bytes happen to hold.  Writing behind the end of the block is \<open>None\<close>.
\<close>

type_synonym addr = u64
type_synonym block = "addr \<times> (nat \<Rightarrow> byte)"

record membuf =
  mb_begin :: addr
  mb_cur :: addr
  mb_prev :: addr
  mb_end :: addr
  mb_data :: "byte list"

definition membuf_init :: "block \<Rightarrow> u64 \<Rightarrow> membuf" where
  "membuf_init blk initial_size = \<lparr>mb_begin = fst blk, mb_cur = fst blk, mb_prev = fst blk,
     mb_end = fst blk + initial_size, mb_data = map (snd blk) [0..<unat initial_size]\<rparr>"

definition membuf_init_from_mem :: "addr \<Rightarrow> byte list \<Rightarrow> u64 \<Rightarrow> membuf" where
  "membuf_init_from_mem mem bytes mem_size = \<lparr>mb_begin = mem, mb_cur = mem, mb_prev = mem,
     mb_end = mem + mem_size, mb_data = bytes\<rparr>"

definition membuf_avail :: "membuf \<Rightarrow> u64" where
  "membuf_avail buf = mb_end buf - mb_cur buf"

definition membuf_used :: "membuf \<Rightarrow> u64" where
  "membuf_used buf = mb_cur buf - mb_begin buf"

definition membuf_grow :: "block \<Rightarrow> membuf \<Rightarrow> u64 \<Rightarrow> membuf" where
  "membuf_grow blk buf grow_size =
     (let cur_ofs = mb_cur buf - mb_begin buf;
          prev_ofs = mb_prev buf - mb_begin buf;
          new_size = mb_cur buf - mb_begin buf + grow_size;
          begin' = fst blk
      in \<lparr>mb_begin = begin', mb_cur = begin' + cur_ofs, mb_prev = begin' + prev_ofs, mb_end = begin' + new_size,
          mb_data = map (\<lambda>i. if i < length (mb_data buf) then mb_data buf ! i else snd blk i) [0..<unat new_size]\<rparr>)"

definition membuf_reset :: "membuf \<Rightarrow> membuf" where
  "membuf_reset buf = buf\<lparr>mb_cur := mb_begin buf, mb_prev := mb_begin buf\<rparr>"

definition membuf_consume :: "membuf \<Rightarrow> u64 \<Rightarrow> int \<times> membuf" where
  "membuf_consume buf sz =
     (if membuf_avail buf < sz then (-1, buf)
      else (0, buf\<lparr>mb_prev := mb_cur buf, mb_cur := mb_cur buf + sz\<rparr>))"

text \<open>\<open>memcpy(mem->cur, src, n)\<close>.\<close>

definition memcpy_cur :: "membuf \<Rightarrow> byte list \<Rightarrow> membuf option" where
  "memcpy_cur buf src =
     (if unat (membuf_used buf) + length src \<le> length (mb_data buf)
      then Some (buf\<lparr>mb_data := stn (mb_data buf) (unat (membuf_used buf)) src\<rparr>) else None)"

section \<open>Well-formed buffers\<close>

definition mb_ok :: "membuf \<Rightarrow> bool" where
  "mb_ok buf \<longleftrightarrow> mb_prev buf - mb_begin buf \<le> mb_cur buf - mb_begin buf \<and>
     mb_cur buf - mb_begin buf \<le> mb_end buf - mb_begin buf \<and>
     length (mb_data buf) = unat (mb_end buf - mb_begin buf)"

definition used_bytes :: "membuf \<Rightarrow> byte list" where
  "used_bytes buf = take (unat (membuf_used buf)) (mb_data buf)"

lemma mb_ok_init: "mb_ok (membuf_init blk n)"
  by (simp add: mb_ok_def membuf_init_def)

lemma avail_eq: "membuf_avail buf = (mb_end buf - mb_begin buf) - membuf_used buf"
  by (simp add: membuf_avail_def membuf_used_def)

lemma unat_avail:
  assumes "mb_ok buf"
  shows "unat (membuf_avail buf) = length (mb_data buf) - unat (membuf_used buf)"
    "unat (membuf_used buf) \<le> length (mb_data buf)"
  using assms unat_sub [of "membuf_used buf" "mb_end buf - mb_begin buf"]
  by (simp_all only: avail_eq mb_ok_def membuf_used_def word_le_nat_alt)

lemma length_used: "mb_ok buf \<Longrightarrow> length (used_bytes buf) = unat (membuf_used buf)"
  using unat_avail(2) [of buf] by (simp add: used_bytes_def)

lemma reset_ok: "mb_ok buf \<Longrightarrow> mb_ok (membuf_reset buf)"
  by (simp add: mb_ok_def membuf_reset_def)

lemma consume_ok:
  assumes "mb_ok buf" "sz \<le> membuf_avail buf"
  shows "mb_ok (snd (membuf_consume buf sz))"
    "membuf_used (snd (membuf_consume buf sz)) = membuf_used buf + sz"
    "unat (membuf_used buf + sz) = unat (membuf_used buf) + unat sz"
proof -
  have u: "unat (membuf_used buf) + unat sz \<le> unat (mb_end buf - mb_begin buf)"
    using assms unat_avail [OF assms(1)] by (simp add: mb_ok_def word_le_nat_alt)
  also have "\<dots> < 2 ^ 64" using unsigned_less [where 'a = nat, of "mb_end buf - mb_begin buf"] by simp
  finally have n: "unat (membuf_used buf) + unat sz < 2 ^ 64" .
  then show s: "unat (membuf_used buf + sz) = unat (membuf_used buf) + unat sz"
    by (simp add: unat_word_ariths)
  have c: "mb_cur buf + sz - mb_begin buf = membuf_used buf + sz" by (simp add: membuf_used_def)
  show "mb_ok (snd (membuf_consume buf sz))"
    using assms u s by (simp add: mb_ok_def membuf_consume_def c word_le_nat_alt not_less)
      (simp add: membuf_used_def)
  show "membuf_used (snd (membuf_consume buf sz)) = membuf_used buf + sz"
    using assms by (auto simp: membuf_consume_def membuf_used_def)
qed

text \<open>Growing keeps the used bytes, and leaves exactly \<open>grow_size\<close> bytes available.\<close>

lemma grow_ok:
  assumes "mb_ok buf" "unat (membuf_used buf) + unat g < 2 ^ 64"
  shows "mb_ok (membuf_grow blk buf g)" "membuf_avail (membuf_grow blk buf g) = g"
    "membuf_used (membuf_grow blk buf g) = membuf_used buf"
    "used_bytes (membuf_grow blk buf g) = used_bytes buf"
    "mb_begin (membuf_grow blk buf g) = fst blk"
    "mb_prev (membuf_grow blk buf g) - fst blk = mb_prev buf - mb_begin buf"
proof -
  have s: "unat (mb_cur buf - mb_begin buf + g) = unat (mb_cur buf - mb_begin buf) + unat g"
    using assms(2) by (simp add: unat_word_ariths membuf_used_def)
  show "mb_ok (membuf_grow blk buf g)"
    using assms(1) s by (simp add: mb_ok_def membuf_grow_def Let_def word_le_nat_alt)
  show "membuf_avail (membuf_grow blk buf g) = g" "membuf_used (membuf_grow blk buf g) = membuf_used buf"
    "mb_begin (membuf_grow blk buf g) = fst blk"
    "mb_prev (membuf_grow blk buf g) - fst blk = mb_prev buf - mb_begin buf"
    by (simp_all add: membuf_grow_def membuf_avail_def membuf_used_def Let_def)
  have l: "unat (mb_cur buf - mb_begin buf) \<le> length (mb_data buf)"
    using unat_avail(2) [OF assms(1)] by (simp add: membuf_used_def)
  show "used_bytes (membuf_grow blk buf g) = used_bytes buf"
    using s l by (intro nth_equalityI) (auto simp: used_bytes_def membuf_used_def membuf_grow_def Let_def)
qed

text \<open>Growing a buffer keeps every used byte and both offsets and makes exactly the requested number
  of bytes available, not that number in addition to what was available before.\<close>

theorem grow_keeps_contents:
  assumes "mb_ok buf" and "unat (membuf_used buf) + unat g < 2 ^ 64"
  shows "mb_ok (membuf_grow blk buf g) \<and> membuf_avail (membuf_grow blk buf g) = g \<and>
    used_bytes (membuf_grow blk buf g) = used_bytes buf \<and>
    mb_prev (membuf_grow blk buf g) - mb_begin (membuf_grow blk buf g) = mb_prev buf - mb_begin buf"
  using grow_ok [OF assms] by simp

theorem grow_keeps_contents_witness:
  "membuf_avail (membuf_grow (4096, \<lambda>_. 0) (membuf_init (8192, \<lambda>_. 7) 16) 8) = 8"
proof -
  have "unat (membuf_used (membuf_init (8192, \<lambda>_. 7) 16)) = 0" by (simp add: membuf_init_def membuf_used_def)
  then show ?thesis
    using grow_keeps_contents [of "membuf_init (8192, \<lambda>_. 7) 16" 8 "(4096, \<lambda>_. 0)"] by (simp add: mb_ok_init)
qed

end
