(* ===== verification/PicoParser.thy ===== *)
theory PicoParser
  imports Prelude
begin

text \<open>
  The HTTP request, response and header parser of src/extern/picohttpparser.c, built without the
  SSE4.2 branches.  The buffer is the list of the bytes from \<open>buf_start\<close> to \<open>buf_end\<close>, a pointer into
  it is a position, NULL is \<open>None\<close>.  A parsing function returns the next position, or the error code
  it stores in \<open>*ret\<close>; \<open>Oob\<close> stands for a read at or behind \<open>buf_end\<close>, which the lemmas exclude.
\<close>

section \<open>Results\<close>

datatype 'a res = Done 'a | Ret int | Oob

primrec andThen :: "'a res \<Rightarrow> ('a \<Rightarrow> 'b res) \<Rightarrow> 'b res" where
  "andThen (Done x) f = f x"
| "andThen (Ret e) f = Ret e"
| "andThen Oob f = Oob"

lemma andThen_Done [simp]: "andThen m f = Done y \<longleftrightarrow> (\<exists>x. m = Done x \<and> f x = Done y)"
  by (cases m) auto

lemma andThen_Oob [simp]: "andThen m f = Oob \<longleftrightarrow> m = Oob \<or> (\<exists>x. m = Done x \<and> f x = Oob)"
  by (cases m) auto

lemma andThen_Ret [simp]: "andThen m f = Ret e \<longleftrightarrow> m = Ret e \<or> (\<exists>x. m = Done x \<and> f x = Ret e)"
  by (cases m) auto

lemma andThen_cong [fundef_cong]:
  "m = m' \<Longrightarrow> (\<And>x. m' = Done x \<Longrightarrow> f x = g x) \<Longrightarrow> andThen m f = andThen m' g"
  by (cases m') auto

definition rd :: "byte list \<Rightarrow> nat \<Rightarrow> byte res" where
  "rd b i = (if i < length b then Done (b ! i) else Oob)"

definition CHECK_EOF :: "byte list \<Rightarrow> nat \<Rightarrow> unit res" where
  "CHECK_EOF b i = (if i = length b then Ret (-2) else Done ())"

definition EXPECT_CHAR_NO_CHECK :: "byte \<Rightarrow> byte list \<Rightarrow> nat \<Rightarrow> nat res" where
  "EXPECT_CHAR_NO_CHECK ch b i = andThen (rd b i) (\<lambda>c. if c \<noteq> ch then Ret (-1) else Done (i + 1))"

definition EXPECT_CHAR :: "byte \<Rightarrow> byte list \<Rightarrow> nat \<Rightarrow> nat res" where
  "EXPECT_CHAR ch b i = andThen (CHECK_EOF b i) (\<lambda>_. EXPECT_CHAR_NO_CHECK ch b i)"

lemmas basic_defs = rd_def CHECK_EOF_def EXPECT_CHAR_NO_CHECK_def EXPECT_CHAR_def

definition IS_PRINTABLE_ASCII :: "byte \<Rightarrow> bool" where
  "IS_PRINTABLE_ASCII c \<longleftrightarrow> (ucast c :: u32) - 32 < 95"

text \<open>The control characters that end a token in a line: all but the tab, and DEL.\<close>

definition is_ctl :: "byte \<Rightarrow> bool" where
  "is_ctl c \<longleftrightarrow> (c < 32 \<and> c \<noteq> 9) \<or> c = 127"

lemma printable_iff: "IS_PRINTABLE_ASCII c \<longleftrightarrow> 32 \<le> c \<and> c < 127"
proof -
  have wrapped: "y = (if 32 \<le> x then x - 32 else x + 4294967264) \<Longrightarrow> 0 \<le> x \<Longrightarrow> x < 256 \<Longrightarrow>
      y < 95 \<longleftrightarrow> 32 \<le> x \<and> x < 127" for x y :: int
    by (auto split: if_splits)
  have b: "uint c < 256" "0 \<le> uint c" using unsigned_less [where 'a = int, of c] by simp_all
  then have u: "uint (ucast c :: u32) = uint c" by (simp add: unsigned_ucast_eq take_bit_int_eq_self)
  have "uint ((ucast c :: u32) - 32) = (uint c - 32) mod 4294967296"
    using u by (simp add: uint_word_arith_bintrs take_bit_eq_mod)
  moreover have "(uint c - 32) mod 4294967296 = uint c + 4294967264" if "uint c < 32"
    using that b mod_add_self2 [of "uint c - 32" "4294967296 :: int"] by (simp add: mod_pos_pos_trivial)
  ultimately have "uint ((ucast c :: u32) - 32) = (if 32 \<le> uint c then uint c - 32 else uint c + 4294967264)"
    using b by (simp add: mod_pos_pos_trivial)
  then have "uint ((ucast c :: u32) - 32) < 95 \<longleftrightarrow> 32 \<le> uint c \<and> uint c < 127"
    by (rule wrapped [OF _ b(2,1)])
  then show ?thesis by (simp add: IS_PRINTABLE_ASCII_def word_less_def word_le_def)
qed

section \<open>Tokens\<close>

definition findchar_fast :: "byte list \<Rightarrow> nat \<Rightarrow> nat \<times> bool" where
  "findchar_fast b i = (i, False)"

function advance_loop :: "byte list \<Rightarrow> nat \<Rightarrow> nat res" where
  "advance_loop b i =
     andThen (rd b i) (\<lambda>c.
       if c = 32 then Done i
       else if \<not> IS_PRINTABLE_ASCII c \<and> (c < 32 \<or> c = 127) then Ret (-1)
       else if i + 1 = length b then Ret (-2)
       else advance_loop b (i + 1))"
  by pat_completeness auto
termination by (relation "measure (\<lambda>(b, i). length b - i)") (auto simp: rd_def split: if_splits)

declare advance_loop.simps [simp del]

text \<open>ADVANCE_TOKEN: the position of the space, and the token's start and length.\<close>

definition ADVANCE_TOKEN :: "byte list \<Rightarrow> nat \<Rightarrow> (nat \<times> nat \<times> nat) res" where
  "ADVANCE_TOKEN b tok_start =
     (let (i, found2) = findchar_fast b tok_start
      in andThen (if \<not> found2 then CHECK_EOF b i else Done ()) (\<lambda>_.
         andThen (advance_loop b i) (\<lambda>j. Done (j, tok_start, j - tok_start))))"

definition token_char_map :: "nat list" where
  "token_char_map =
    [0,0,0,0,0,0,0,0,0,0,0,0,0,0,0,0,0,0,0,0,0,0,0,0,0,0,0,0,0,0,0,0,
     0,1,0,1,1,1,1,1,0,0,1,1,0,1,1,0,1,1,1,1,1,1,1,1,1,1,0,0,0,0,0,0,
     0,1,1,1,1,1,1,1,1,1,1,1,1,1,1,1,1,1,1,1,1,1,1,1,1,1,1,0,0,0,1,1,
     1,1,1,1,1,1,1,1,1,1,1,1,1,1,1,1,1,1,1,1,1,1,1,1,1,1,1,0,1,0,1,0] @ replicate 128 0"

definition is_token_char :: "byte \<Rightarrow> bool" where
  "is_token_char c \<longleftrightarrow> token_char_map ! unat c \<noteq> 0"

section \<open>The rest of a line\<close>

text \<open>The unrolled loop: eight bytes at a time, left at the first byte that is not printable.\<close>

fun doit :: "nat \<Rightarrow> byte list \<Rightarrow> nat \<Rightarrow> nat \<times> bool" where
  "doit 0 b i = (i, True)"
| "doit (Suc n) b i = (if \<not> IS_PRINTABLE_ASCII (b ! i) then (i, False) else doit n b (i + 1))"

lemma doit_bounds: "doit n b i = (j, ok) \<Longrightarrow> i \<le> j \<and> j \<le> i + n \<and> (\<not> ok \<longrightarrow> j < i + n) \<and> (ok \<longrightarrow> j = i + n)"
  by (induction n arbitrary: i) (force split: if_splits)+

function eol_tail :: "byte list \<Rightarrow> nat \<Rightarrow> nat res" where
  "eol_tail b i =
     andThen (CHECK_EOF b i) (\<lambda>_. andThen (rd b i) (\<lambda>c.
       if \<not> IS_PRINTABLE_ASCII c \<and> (c < 32 \<and> c \<noteq> 9 \<or> c = 127) then Done i
       else eol_tail b (i + 1)))"
  by pat_completeness auto
termination by (relation "measure (\<lambda>(b, i). length b - i)") (auto simp: rd_def split: if_splits)

function eol_fast :: "byte list \<Rightarrow> nat \<Rightarrow> nat res" where
  "eol_fast b i =
     (if length b - i \<ge> 8 then
        let (j, ok) = doit 8 b i
        in if ok then eol_fast b j
           else if (b ! j < 32 \<and> b ! j \<noteq> 9) \<or> b ! j = 127 then Done j
           else eol_fast b (j + 1)
      else eol_tail b i)"
  by pat_completeness auto
termination
  by (relation "measure (\<lambda>(b, i). length b - i)") (auto dest!: doit_bounds [OF sym])

declare eol_tail.simps [simp del] eol_fast.simps [simp del]

text \<open>Next position, start and length of the token.\<close>

definition get_token_to_eol :: "byte list \<Rightarrow> nat \<Rightarrow> (nat \<times> nat \<times> nat) res" where
  "get_token_to_eol b token_start =
     andThen (eol_fast b token_start) (\<lambda>i. andThen (rd b i) (\<lambda>c.
       if c = 13 then
         andThen (EXPECT_CHAR 10 b (i + 1)) (\<lambda>j. Done (j, token_start, j - 2 - token_start))
       else if c = 10 then Done (i + 1, token_start, i - token_start)
       else Ret (-1)))"

section \<open>The check for a complete request\<close>

function complete_loop :: "byte list \<Rightarrow> nat \<Rightarrow> nat \<Rightarrow> nat res" where
  "complete_loop b i ret_cnt =
     andThen (CHECK_EOF b i) (\<lambda>_. andThen (rd b i) (\<lambda>c.
       andThen
         (if c = 13 then andThen (CHECK_EOF b (i + 1)) (\<lambda>_.
            andThen (EXPECT_CHAR 10 b (i + 1)) (\<lambda>j. Done (j, ret_cnt + 1)))
          else if c = 10 then Done (i + 1, ret_cnt + 1)
          else Done (i + 1, 0))
         (\<lambda>(j, ret_cnt). if ret_cnt = 2 then Done j else complete_loop b j ret_cnt)))"
  by pat_completeness auto
termination by (relation "measure (\<lambda>(b, i, r). length b - i)") (auto simp: basic_defs split: if_splits)

declare complete_loop.simps [simp del]

definition is_complete :: "byte list \<Rightarrow> nat \<Rightarrow> nat res" where
  "is_complete b last_len = complete_loop b (if last_len < 3 then 0 else last_len - 3) 0"

section \<open>The version\<close>

definition PARSE_INT :: "byte list \<Rightarrow> nat \<Rightarrow> int \<Rightarrow> (nat \<times> int) res" where
  "PARSE_INT b i mul =
     andThen (rd b i) (\<lambda>c. if c < 48 \<or> 57 < c then Ret (-1) else Done (i + 1, mul * (uint c - 48)))"

text \<open>Three digits; the value is written after each of them, so it is returned with every outcome.\<close>

definition PARSE_INT_3 :: "byte list \<Rightarrow> nat \<Rightarrow> int \<Rightarrow> nat res \<times> int" where
  "PARSE_INT_3 b i val =
     (case PARSE_INT b i 100 of
        Oob \<Rightarrow> (Oob, val)
      | Ret e \<Rightarrow> (Ret e, val)
      | Done (i, x) \<Rightarrow>
          (case PARSE_INT b i 10 of
             Oob \<Rightarrow> (Oob, x)
           | Ret e \<Rightarrow> (Ret e, x)
           | Done (i, y) \<Rightarrow>
               (case PARSE_INT b i 1 of
                  Oob \<Rightarrow> (Oob, x + y)
                | Ret e \<Rightarrow> (Ret e, x + y)
                | Done (i, z) \<Rightarrow> (Done i, x + y + z))))"

definition parse_http_version :: "byte list \<Rightarrow> nat \<Rightarrow> (nat \<times> int) res" where
  "parse_http_version b i =
     (if length b - i < 9 then Ret (-2)
      else
        andThen (EXPECT_CHAR_NO_CHECK 72 b i) (\<lambda>i. andThen (EXPECT_CHAR_NO_CHECK 84 b i) (\<lambda>i.
        andThen (EXPECT_CHAR_NO_CHECK 84 b i) (\<lambda>i. andThen (EXPECT_CHAR_NO_CHECK 80 b i) (\<lambda>i.
        andThen (EXPECT_CHAR_NO_CHECK 47 b i) (\<lambda>i. andThen (EXPECT_CHAR_NO_CHECK 49 b i) (\<lambda>i.
        andThen (EXPECT_CHAR_NO_CHECK 46 b i) (\<lambda>i. PARSE_INT b i 1))))))))"

section \<open>Headers\<close>

record phr_header =
  hd_name :: "nat option" \<comment> \<open>\<open>None\<close> for a continuing line\<close>
  hd_name_len :: nat
  hd_value :: "nat option"
  hd_value_len :: nat

function name_loop :: "byte list \<Rightarrow> nat \<Rightarrow> nat res" where
  "name_loop b i =
     andThen (rd b i) (\<lambda>c.
       if c = 58 then Done i
       else if \<not> is_token_char c then Ret (-1)
       else andThen (CHECK_EOF b (i + 1)) (\<lambda>_. name_loop b (i + 1)))"
  by pat_completeness auto
termination by (relation "measure (\<lambda>(b, i). length b - i)") (auto simp: rd_def split: if_splits)

function skip_blanks :: "byte list \<Rightarrow> nat \<Rightarrow> nat res" where
  "skip_blanks b i =
     andThen (CHECK_EOF b i) (\<lambda>_. andThen (rd b i) (\<lambda>c.
       if \<not> (c = 32 \<or> c = 9) then Done i else skip_blanks b (i + 1)))"
  by pat_completeness auto
termination by (relation "measure (\<lambda>(b, i). length b - i)") (auto simp: rd_def split: if_splits)

declare name_loop.simps [simp del] skip_blanks.simps [simp del]

text \<open>Trailing blanks of a value: the end moves back to behind the last other character.\<close>

fun trim_value :: "byte list \<Rightarrow> nat \<Rightarrow> nat \<Rightarrow> nat" where
  "trim_value b value 0 = 0"
| "trim_value b value (Suc n) =
     (let c = b ! (value + n) in if \<not> (c = 32 \<or> c = 9) then Suc n else trim_value b value n)"

type_synonym hdrs = "phr_header list \<times> nat"

text \<open>The name of a header field; the array entry is written as the code writes it, also when it fails.\<close>

definition parse_name :: "byte list \<Rightarrow> nat \<Rightarrow> hdrs \<Rightarrow> nat res \<times> hdrs" where
  "parse_name b i = (\<lambda>(hs, n).
     let hs = hs[n := (hs ! n)\<lparr>hd_name := Some i\<rparr>];
         (k, found) = findchar_fast b i
     in case andThen (if \<not> found then CHECK_EOF b k else Done ()) (\<lambda>_. name_loop b k) of
          Oob \<Rightarrow> (Oob, hs, n)
        | Ret e \<Rightarrow> (Ret e, hs, n)
        | Done k \<Rightarrow>
            let hs = hs[n := (hs ! n)\<lparr>hd_name_len := k - i\<rparr>]
            in if k - i = 0 then (Ret (-1), hs, n) else (skip_blanks b (k + 1), hs, n))"

text \<open>One header line from position \<open>i\<close>, which is neither at the end nor at an empty line.\<close>

definition parse_header :: "byte list \<Rightarrow> nat \<Rightarrow> byte \<Rightarrow> hdrs \<Rightarrow> nat res \<times> hdrs" where
  "parse_header b i c = (\<lambda>(hs, n).
     let (r, hs, n) =
           (if \<not> (n \<noteq> 0 \<and> (c = 32 \<or> c = 9)) then parse_name b i (hs, n)
            else (Done i, hs[n := (hs ! n)\<lparr>hd_name := None, hd_name_len := 0\<rparr>], n))
     in case andThen r (\<lambda>i. get_token_to_eol b i) of
          Oob \<Rightarrow> (Oob, hs, n)
        | Ret e \<Rightarrow> (Ret e, hs, n)
        | Done (j, value, value_len) \<Rightarrow>
            (Done j, hs[n := (hs ! n)\<lparr>hd_value := Some value,
                 hd_value_len := trim_value b value value_len\<rparr>], n))"

subsection \<open>The scans as positions\<close>

text \<open>The first position from \<open>i\<close> on whose byte satisfies \<open>P\<close>, or the end of the buffer.\<close>

definition scan :: "(byte \<Rightarrow> bool) \<Rightarrow> byte list \<Rightarrow> nat \<Rightarrow> nat" where
  "scan P b i = i + length (takeWhile (\<lambda>c. \<not> P c) (drop i b))"

lemma scan_here: "i < length b \<Longrightarrow> P (b ! i) \<Longrightarrow> scan P b i = i"
  by (simp add: scan_def Cons_nth_drop_Suc [symmetric])

lemma scan_next: "i < length b \<Longrightarrow> \<not> P (b ! i) \<Longrightarrow> scan P b i = scan P b (Suc i)"
  by (simp add: scan_def Cons_nth_drop_Suc [symmetric])

lemma scan_end [simp]: "length b \<le> i \<Longrightarrow> scan P b i = i"
  by (simp add: scan_def)

lemma scan_skip:
  "i \<le> j \<Longrightarrow> j \<le> length b \<Longrightarrow> (\<And>k. i \<le> k \<Longrightarrow> k < j \<Longrightarrow> \<not> P (b ! k)) \<Longrightarrow> scan P b i = scan P b j"
proof (induction "j - i" arbitrary: i)
  case (Suc n)
  then have "scan P b (Suc i) = scan P b j" by (intro Suc.hyps(1)) auto
  then show ?case using Suc.prems Suc.hyps(2) by (subst scan_next) auto
qed simp

lemma scan_bounds: "i \<le> length b \<Longrightarrow> i \<le> scan P b i \<and> scan P b i \<le> length b"
  using length_takeWhile_le [of "\<lambda>c. \<not> P c" "drop i b"] by (simp add: scan_def)

lemma scan_stop:
  assumes "i \<le> length b" "scan P b i < length b"
  shows "P (b ! scan P b i)"
proof -
  have "length (takeWhile (\<lambda>c. \<not> P c) (drop i b)) < length (drop i b)"
    using assms by (simp add: scan_def less_diff_conv add.commute)
  from nth_length_takeWhile [OF this] show ?thesis using assms by (simp add: scan_def)
qed

lemma scan_before: "i \<le> k \<Longrightarrow> k < scan P b i \<Longrightarrow> \<not> P (b ! k)"
proof -
  assume a: "i \<le> k" "k < scan P b i"
  have "takeWhile (\<lambda>c. \<not> P c) (drop i b) ! (k - i) \<in> set (takeWhile (\<lambda>c. \<not> P c) (drop i b))"
    using a by (intro nth_mem) (simp add: scan_def)
  then have "\<not> P (takeWhile (\<lambda>c. \<not> P c) (drop i b) ! (k - i))" by (auto dest: set_takeWhileD)
  moreover have "takeWhile (\<lambda>c. \<not> P c) (drop i b) ! (k - i) = drop i b ! (k - i)"
    using a by (intro takeWhile_nth) (simp add: scan_def)
  moreover have "k < length b"
  proof (cases "i \<le> length b")
    case True
    then show ?thesis using a scan_bounds [OF True, of P] by simp
  qed (use a in simp)
  ultimately show ?thesis using a by simp
qed

lemma scan_eqI:
  assumes "i \<le> j" "j \<le> length b" "\<And>k. i \<le> k \<Longrightarrow> k < j \<Longrightarrow> \<not> P (b ! k)" "j < length b \<Longrightarrow> P (b ! j)"
  shows "scan P b i = j"
  using scan_skip [of i j b P] scan_here [of j b P] assms by (cases "j < length b") auto

lemma ctl_not_printable: "is_ctl c \<Longrightarrow> \<not> IS_PRINTABLE_ASCII c"
  by (auto simp: printable_iff is_ctl_def)

text \<open>The two loops over the rest of a line stop at the first control character.\<close>

definition eol_ref :: "byte list \<Rightarrow> nat \<Rightarrow> nat res" where
  "eol_ref b i = (if scan is_ctl b i < length b then Done (scan is_ctl b i) else Ret (-2))"

lemma eol_tail_ref: "i \<le> length b \<Longrightarrow> eol_tail b i = eol_ref b i"
proof (induction b i rule: eol_tail.induct)
  case (1 b i)
  show ?case
  proof (cases "i < length b")
    case True
    have "\<not> IS_PRINTABLE_ASCII (b ! i) \<and> (b ! i < 32 \<and> b ! i \<noteq> 9 \<or> b ! i = 127) \<longleftrightarrow> is_ctl (b ! i)"
      using ctl_not_printable [of "b ! i"] by (auto simp: is_ctl_def)
    then show ?thesis
      using True "1.IH" [of "()" "b ! i"] scan_here [of i b is_ctl] scan_next [of i b is_ctl]
      by (subst eol_tail.simps) (auto simp: CHECK_EOF_def rd_def eol_ref_def)
  next
    case False
    with 1 show ?thesis by (subst eol_tail.simps) (simp add: CHECK_EOF_def eol_ref_def)
  qed
qed

lemma doit_printable:
  "doit n b i = (j, ok) \<Longrightarrow> (\<forall>k. i \<le> k \<and> k < j \<longrightarrow> IS_PRINTABLE_ASCII (b ! k)) \<and> (\<not> ok \<longrightarrow> \<not> IS_PRINTABLE_ASCII (b ! j))"
proof (induction n arbitrary: i)
  case (Suc n)
  show ?case
  proof (cases "IS_PRINTABLE_ASCII (b ! i)")
    case True
    with Suc.prems have d: "doit n b (i + 1) = (j, ok)" by simp
    show ?thesis
    proof (intro conjI allI impI)
      fix k assume "i \<le> k \<and> k < j"
      then show "IS_PRINTABLE_ASCII (b ! k)" using Suc.IH [OF d] True by (cases "k = i") auto
    qed (use Suc.IH [OF d] in auto)
  qed (use Suc.prems in auto)
qed auto

lemma eol_fast_ref: "i \<le> length b \<Longrightarrow> eol_fast b i = eol_ref b i"
proof (induction b i rule: eol_fast.induct)
  case (1 b i)
  show ?case
  proof (cases "8 \<le> length b - i")
    case False
    with 1(3) show ?thesis by (subst eol_fast.simps) (simp add: eol_tail_ref)
  next
    case True
    obtain j ok where d: "doit 8 b i = (j, ok)" by fastforce
    note bd = doit_bounds [OF d]
    have sk: "scan is_ctl b i = scan is_ctl b j"
      using doit_printable [OF d] bd True ctl_not_printable by (intro scan_skip) auto
    show ?thesis
    proof (cases ok)
      case ok: True
      then have "eol_fast b j = eol_ref b j" using 1(1) [OF True d [symmetric]] bd True by simp
      then show ?thesis using True d ok sk by (subst eol_fast.simps) (simp add: eol_ref_def)
    next
      case False
      then have jl: "j < length b" using bd True by auto
      have c: "b ! j < 32 \<and> b ! j \<noteq> 9 \<or> b ! j = 127 \<longleftrightarrow> is_ctl (b ! j)" by (simp add: is_ctl_def)
      show ?thesis
      proof (cases "is_ctl (b ! j)")
        case True
        then have "eol_fast b i = Done j"
          using \<open>8 \<le> length b - i\<close> d False c by (subst eol_fast.simps) simp
        then show ?thesis using sk scan_here [OF jl, of is_ctl] True jl by (simp add: eol_ref_def)
      next
        case nc: False
        then have "eol_fast b (j + 1) = eol_ref b (j + 1)"
          using 1(2) [OF True d [symmetric] refl False] jl c by simp
        moreover have "eol_fast b i = eol_fast b (j + 1)"
          using \<open>8 \<le> length b - i\<close> d False c nc by (subst eol_fast.simps) auto
        ultimately show ?thesis using sk scan_next [OF jl, of is_ctl] nc by (simp add: eol_ref_def)
      qed
    qed
  qed
qed

lemma get_token_ref:
  assumes "i \<le> length b"
  shows "get_token_to_eol b i =
    (let k = scan is_ctl b i in
     if k = length b then Ret (-2)
     else if b ! k = 13 then
       if k + 1 = length b then Ret (-2)
       else if b ! (k + 1) \<noteq> 10 then Ret (-1) else Done (k + 2, i, k - i)
     else if b ! k = 10 then Done (k + 1, i, k - i)
     else Ret (-1))"
  using scan_bounds [OF assms, of is_ctl]
  by (auto simp: get_token_to_eol_def eol_fast_ref assms eol_ref_def basic_defs Let_def)

lemma name_loop_ref:
  "i < length b \<Longrightarrow> name_loop b i =
    (let k = scan (\<lambda>c. c = 58 \<or> \<not> is_token_char c) b i in
     if k = length b then Ret (-2) else if b ! k = 58 then Done k else Ret (-1))"
proof (induction b i rule: name_loop.induct)
  case (1 b i)
  show ?case
  proof (cases "b ! i = 58 \<or> \<not> is_token_char (b ! i)")
    case True
    then show ?thesis using 1(2)
      by (subst name_loop.simps) (auto simp: basic_defs scan_here Let_def)
  next
    case False
    then show ?thesis
      using 1(2) "1.IH" [of "b ! i" "()"] scan_next [OF 1(2), of "\<lambda>c. c = 58 \<or> \<not> is_token_char c"]
      by (subst name_loop.simps) (auto simp: basic_defs Let_def)
  qed
qed

lemma skip_blanks_ref:
  "i \<le> length b \<Longrightarrow> skip_blanks b i =
    (let k = scan (\<lambda>c. \<not> (c = 32 \<or> c = 9)) b i in if k = length b then Ret (-2) else Done k)"
proof (induction b i rule: skip_blanks.induct)
  case (1 b i)
  show ?case
  proof (cases "i < length b")
    case False
    with 1(2) show ?thesis by (subst skip_blanks.simps) (simp add: basic_defs)
  next
    case True
    then show ?thesis
      using "1.IH" [of "()" "b ! i"] scan_here [OF True, of "\<lambda>c. \<not> (c = 32 \<or> c = 9)"]
        scan_next [OF True, of "\<lambda>c. \<not> (c = 32 \<or> c = 9)"]
      by (subst skip_blanks.simps) (auto simp: basic_defs Let_def)
  qed
qed

lemma advance_loop_ref:
  "i < length b \<Longrightarrow> advance_loop b i =
    (let k = scan (\<lambda>c. c \<le> 32 \<or> c = 127) b i in
     if k = length b then Ret (-2) else if b ! k = 32 then Done k else Ret (-1))"
proof (induction b i rule: advance_loop.induct)
  case (1 b i)
  let ?P = "\<lambda>c :: byte. c \<le> 32 \<or> c = 127"
  have c: "\<not> IS_PRINTABLE_ASCII (b ! i) \<and> (b ! i < 32 \<or> b ! i = 127) \<longleftrightarrow> b ! i < 32 \<or> b ! i = 127"
    by (auto simp: printable_iff)
  show ?case
  proof (cases "?P (b ! i)")
    case True
    then show ?thesis using 1(2) c scan_here [OF 1(2), of ?P]
      by (subst advance_loop.simps) (auto simp: basic_defs Let_def)
  next
    case False
    then have "b ! i \<noteq> 32 \<and> \<not> (b ! i < 32 \<or> b ! i = 127)" by auto
    then show ?thesis
      using 1(2) "1.IH" [of "b ! i"] scan_next [OF 1(2), of ?P] False c
      by (subst advance_loop.simps) (auto simp: basic_defs Let_def)
  qed
qed

subsection \<open>Every header line moves forward\<close>

lemma parse_name_bounds:
  assumes "parse_name b i h = (Done j, h')" "i < length b"
  shows "i < j \<and> j < length b"
proof -
  have n: "i \<le> k \<and> k < length b" if "name_loop b i = Done k" for k
    using that scan_bounds [of i b "\<lambda>c. c = 58 \<or> \<not> is_token_char c"] assms(2)
    by (auto simp: name_loop_ref Let_def split: if_splits)
  have k: "m \<le> k \<and> k < length b" if "skip_blanks b m = Done k" "m \<le> length b" for k m
    using that scan_bounds [OF that(2), of "\<lambda>c. \<not> (c = 32 \<or> c = 9)"]
    by (auto simp: skip_blanks_ref Let_def split: if_splits)
  from assms obtain m where "name_loop b i = Done m" "skip_blanks b (m + 1) = Done j"
    by (cases h) (auto simp: parse_name_def findchar_fast_def CHECK_EOF_def Let_def split: res.splits if_splits)
  with n [of m] k [of "m + 1" j] show ?thesis by simp
qed

lemma get_token_bounds:
  "get_token_to_eol b i = Done (j, v, l) \<Longrightarrow> i \<le> length b \<Longrightarrow> v = i \<and> i + l < j \<and> j \<le> length b"
  using scan_bounds [of i b is_ctl] by (auto simp: get_token_ref Let_def split: if_splits)

lemma parse_header_bounds:
  assumes "parse_header b i c h = (Done j, h')" "i < length b"
  shows "i < j \<and> j \<le> length b"
proof -
  from assms obtain m v l where "get_token_to_eol b m = Done (j, v, l)" "m = i \<or> (\<exists>h''. parse_name b i h = (Done m, h''))"
    by (cases h) (auto simp: parse_header_def Let_def split: res.splits if_splits prod.splits)
  then show ?thesis
    using assms(2) get_token_bounds [of b m j v l] by (auto dest!: parse_name_bounds [where b = b and i = i])
qed

subsection \<open>The loop\<close>

function parse_headers :: "byte list \<Rightarrow> nat \<Rightarrow> nat \<Rightarrow> hdrs \<Rightarrow> nat res \<times> hdrs" where
  "parse_headers b max_headers i h =
     (case andThen (CHECK_EOF b i) (\<lambda>_. rd b i) of
        Oob \<Rightarrow> (Oob, h)
      | Ret e \<Rightarrow> (Ret e, h)
      | Done c \<Rightarrow>
          if c = 13 then (EXPECT_CHAR 10 b (i + 1), h)
          else if c = 10 then (Done (i + 1), h)
          else if snd h = max_headers then (Ret (-1), h)
          else (case parse_header b i c h of
                  (Oob, h) \<Rightarrow> (Oob, h)
                | (Ret e, h) \<Rightarrow> (Ret e, h)
                | (Done j, hs, n) \<Rightarrow> parse_headers b max_headers j (hs, n + 1)))"
  by pat_completeness auto
termination
  by (relation "measure (\<lambda>(b, m, i, h). length b - i)")
    (auto simp: basic_defs split: if_splits dest!: parse_header_bounds [OF sym])

declare parse_headers.simps [simp del]

section \<open>Requests and responses\<close>

record phr_request =
  rq_method :: "nat option"
  rq_method_len :: nat
  rq_path :: "nat option"
  rq_path_len :: nat
  rq_minor :: int
  rq_hdrs :: hdrs

definition parse_request :: "byte list \<Rightarrow> nat \<Rightarrow> phr_request \<Rightarrow> nat res \<times> phr_request" where
  "parse_request b max_headers q =
     (let start = andThen (CHECK_EOF b 0) (\<lambda>_. andThen (rd b 0) (\<lambda>c.
            if c = 13 then EXPECT_CHAR 10 b 1 else if c = 10 then Done 1 else Done 0))
      in case andThen start (ADVANCE_TOKEN b) of
           Oob \<Rightarrow> (Oob, q)
         | Ret e \<Rightarrow> (Ret e, q)
         | Done (i, m, ml) \<Rightarrow>
             let q = q\<lparr>rq_method := Some m, rq_method_len := ml\<rparr>
             in case ADVANCE_TOKEN b (i + 1) of
                  Oob \<Rightarrow> (Oob, q)
                | Ret e \<Rightarrow> (Ret e, q)
                | Done (i, p, pl) \<Rightarrow>
                    let q = q\<lparr>rq_path := Some p, rq_path_len := pl\<rparr>
                    in if rq_method_len q = 0 \<or> rq_path_len q = 0 then (Ret (-1), q)
                       else case parse_http_version b (i + 1) of
                              Oob \<Rightarrow> (Oob, q)
                            | Ret e \<Rightarrow> (Ret e, q)
                            | Done (i, v) \<Rightarrow>
                                let q = q\<lparr>rq_minor := v\<rparr>;
                                    eol = andThen (rd b i) (\<lambda>c.
                                      if c = 13 then EXPECT_CHAR 10 b (i + 1)
                                      else if c = 10 then Done (i + 1) else Ret (-1))
                                in case eol of
                                     Oob \<Rightarrow> (Oob, q)
                                   | Ret e \<Rightarrow> (Ret e, q)
                                   | Done i \<Rightarrow>
                                       let (r, h) = parse_headers b max_headers i (rq_hdrs q)
                                       in (r, q\<lparr>rq_hdrs := h\<rparr>))"

text \<open>The result code: the number of bytes consumed, or the error.\<close>

definition code :: "nat res \<Rightarrow> int option" where
  "code r = (case r of Done n \<Rightarrow> Some (int n) | Ret e \<Rightarrow> Some e | Oob \<Rightarrow> None)"

text \<open>
  The array of \<open>*num_headers\<close> headers is the list \<open>hs\<close>.  The first component is \<open>None\<close> when the
  buffer would be read out of bounds.
\<close>

definition phr_parse_request :: "byte list \<Rightarrow> phr_header list \<Rightarrow> nat \<Rightarrow> nat \<Rightarrow> int option \<times> phr_request" where
  "phr_parse_request b hs max_headers last_len =
     (let q = \<lparr>rq_method = None, rq_method_len = 0, rq_path = None, rq_path_len = 0, rq_minor = -1, rq_hdrs = (hs, 0)\<rparr>;
          full = (let (r, q) = parse_request b max_headers q in (code r, q))
      in if last_len \<noteq> 0 then
           (case is_complete b last_len of Done _ \<Rightarrow> full | Ret e \<Rightarrow> (Some e, q) | Oob \<Rightarrow> (None, q))
         else full)"

record phr_response =
  rs_minor :: int
  rs_status :: int
  rs_msg :: "nat option"
  rs_msg_len :: nat
  rs_hdrs :: hdrs

definition parse_response :: "byte list \<Rightarrow> nat \<Rightarrow> phr_response \<Rightarrow> nat res \<times> phr_response" where
  "parse_response b max_headers q =
     (case parse_http_version b 0 of
        Oob \<Rightarrow> (Oob, q)
      | Ret e \<Rightarrow> (Ret e, q)
      | Done (i, v) \<Rightarrow>
          let q = q\<lparr>rs_minor := v\<rparr>
          in case (case EXPECT_CHAR_NO_CHECK 32 b i of
                      Oob \<Rightarrow> (Oob, rs_status q)
                    | Ret e \<Rightarrow> (Ret e, rs_status q)
                    | Done i \<Rightarrow>
                        if length b - i < 4 then (Ret (-2), rs_status q)
                        else PARSE_INT_3 b i (rs_status q)) of
               (Oob, st) \<Rightarrow> (Oob, q\<lparr>rs_status := st\<rparr>)
             | (Ret e, st) \<Rightarrow> (Ret e, q\<lparr>rs_status := st\<rparr>)
             | (Done i, st) \<Rightarrow>
                 let q = q\<lparr>rs_status := st\<rparr>
                 in case andThen (EXPECT_CHAR_NO_CHECK 32 b i) (get_token_to_eol b) of
                      Oob \<Rightarrow> (Oob, q)
                    | Ret e \<Rightarrow> (Ret e, q)
                    | Done (i, m, ml) \<Rightarrow>
                        let q = q\<lparr>rs_msg := Some m, rs_msg_len := ml\<rparr>;
                            (r, h) = parse_headers b max_headers i (rs_hdrs q)
                        in (r, q\<lparr>rs_hdrs := h\<rparr>))"

definition phr_parse_response :: "byte list \<Rightarrow> phr_header list \<Rightarrow> nat \<Rightarrow> nat \<Rightarrow> int option \<times> phr_response" where
  "phr_parse_response b hs max_headers last_len =
     (let q = \<lparr>rs_minor = -1, rs_status = 0, rs_msg = None, rs_msg_len = 0, rs_hdrs = (hs, 0)\<rparr>;
          full = (let (r, q) = parse_response b max_headers q in (code r, q))
      in if last_len \<noteq> 0 then
           (case is_complete b last_len of Done _ \<Rightarrow> full | Ret e \<Rightarrow> (Some e, q) | Oob \<Rightarrow> (None, q))
         else full)"

definition phr_parse_headers :: "byte list \<Rightarrow> phr_header list \<Rightarrow> nat \<Rightarrow> nat \<Rightarrow> int option \<times> hdrs" where
  "phr_parse_headers b hs max_headers last_len =
     (let full = (let (r, h) = parse_headers b max_headers 0 (hs, 0) in (code r, h))
      in if last_len \<noteq> 0 then
           (case is_complete b last_len of Done _ \<Rightarrow> full | Ret e \<Rightarrow> (Some e, hs, 0) | Oob \<Rightarrow> (None, hs, 0))
         else full)"

end
