(* ===== verification/PicoProps.thy ===== *)
theory PicoProps
  imports PicoParser
begin

text \<open>
  Properties of the HTTP parser: it never reads outside the buffer, what it returns points into the
  buffer, its verdict does not change when more bytes arrive, and it reads back every request that
  is written out.
\<close>

section \<open>Memory safety\<close>

definition hdr_in :: "byte list \<Rightarrow> phr_header \<Rightarrow> bool" where
  "hdr_in b e \<longleftrightarrow> (\<forall>n. hd_name e = Some n \<longrightarrow> n + hd_name_len e \<le> length b) \<and>
     (hd_name e = None \<longrightarrow> hd_name_len e = 0) \<and>
     (\<exists>v. hd_value e = Some v \<and> v + hd_value_len e \<le> length b)"

definition hdrs_in :: "byte list \<Rightarrow> nat \<Rightarrow> hdrs \<Rightarrow> bool" where
  "hdrs_in b m h \<longleftrightarrow> snd h \<le> m \<and> m \<le> length (fst h) \<and> (\<forall>k < snd h. hdr_in b (fst h ! k))"

definition clean :: "nat \<Rightarrow> byte list \<Rightarrow> nat res \<Rightarrow> bool" where
  "clean i b r \<longleftrightarrow> (case r of Done j \<Rightarrow> i < j \<and> j \<le> length b | Ret e \<Rightarrow> e \<in> {-1, -2} | Oob \<Rightarrow> False)"

lemma trim_value_le: "trim_value b v n \<le> n"
  by (induction n) (auto simp: Let_def)

lemma get_token_clean:
  "i \<le> length b \<Longrightarrow> (case get_token_to_eol b i of Done (j, v, l) \<Rightarrow> v = i \<and> i + l < j \<and> j \<le> length b
     | Ret e \<Rightarrow> e \<in> {-1, -2} | Oob \<Rightarrow> False)"
  using scan_bounds [of i b is_ctl] by (auto simp: get_token_ref Let_def)

lemma name_loop_clean:
  "i < length b \<Longrightarrow> (case name_loop b i of Done j \<Rightarrow> i \<le> j \<and> j < length b | Ret e \<Rightarrow> e \<in> {-1, -2} | Oob \<Rightarrow> False)"
  using scan_bounds [of i b "\<lambda>c. c = 58 \<or> \<not> is_token_char c"] by (auto simp: name_loop_ref Let_def)

lemma skip_blanks_clean:
  "i \<le> length b \<Longrightarrow> (case skip_blanks b i of Done j \<Rightarrow> i \<le> j \<and> j < length b | Ret e \<Rightarrow> e \<in> {-1, -2} | Oob \<Rightarrow> False)"
  using scan_bounds [of i b "\<lambda>c. \<not> (c = 32 \<or> c = 9)"] by (auto simp: skip_blanks_ref Let_def)

lemma parse_name_clean:
  assumes "i < length b" "parse_name b i (hs, n) = (r, h')" "n < length hs"
  shows "(case r of Done j \<Rightarrow> i < j \<and> j < length b \<and> hd_name (fst h' ! n) = Some i \<and> i + hd_name_len (fst h' ! n) \<le> length b
      | Ret e \<Rightarrow> e \<in> {-1, -2} | Oob \<Rightarrow> False) \<and>
    snd h' = n \<and> length (fst h') = length hs \<and> (\<forall>k < n. fst h' ! k = hs ! k)"
proof -
  have eof: "CHECK_EOF b i = Done ()" using assms(1) by (simp add: CHECK_EOF_def)
  show ?thesis
  proof (cases "name_loop b i")
    case (Done k)
    then have k: "i \<le> k" "k < length b" using name_loop_clean [OF assms(1)] by auto
    show ?thesis
      using assms(2,3) Done k skip_blanks_clean [of "k + 1" b]
      by (auto simp: parse_name_def findchar_fast_def eof Let_def split: if_splits res.splits)
  next
    case (Ret e)
    then have "e \<in> {-1, -2}" using name_loop_clean [OF assms(1)] by simp
    moreover have "r = Ret e \<and> h' = (hs[n := (hs ! n)\<lparr>hd_name := Some i\<rparr>], n)"
      using assms(2) Ret by (simp add: parse_name_def findchar_fast_def eof Let_def)
    ultimately show ?thesis by auto
  next
    case Oob
    then show ?thesis using name_loop_clean [OF assms(1)] by simp
  qed
qed

lemma parse_header_clean:
  assumes "i < length b" "parse_header b i c (hs, n) = (r, h')" "n < length hs"
  shows "clean i b r \<and> snd h' = n \<and> length (fst h') = length hs \<and> (\<forall>k < n. fst h' ! k = hs ! k) \<and>
    (\<forall>j. r = Done j \<longrightarrow> hdr_in b (fst h' ! n))"
proof -
  define s where "s = (if \<not> (n \<noteq> 0 \<and> (c = 32 \<or> c = 9)) then parse_name b i (hs, n)
    else (Done i, hs[n := (hs ! n)\<lparr>hd_name := None, hd_name_len := 0\<rparr>], n))"
  obtain r1 hs1 n1 where s1: "s = (r1, hs1, n1)" by (cases s) auto
  have st: "(case r1 of Done j \<Rightarrow> i \<le> j \<and> j < length b \<and>
        (hd_name (hs1 ! n) = Some i \<and> i + hd_name_len (hs1 ! n) \<le> length b \<or>
         hd_name (hs1 ! n) = None \<and> hd_name_len (hs1 ! n) = 0)
      | Ret e \<Rightarrow> e \<in> {-1, -2} | Oob \<Rightarrow> False) \<and>
    n1 = n \<and> length hs1 = length hs \<and> (\<forall>k < n. hs1 ! k = hs ! k)"
    using parse_name_clean [OF assms(1) _ assms(3), of r1 "(hs1, n1)"] s1 assms(1,3)
    by (auto simp: s_def split: if_splits res.splits)
  have r: "(r, h') = (case andThen r1 (get_token_to_eol b) of Oob \<Rightarrow> (Oob, hs1, n1) | Ret e \<Rightarrow> (Ret e, hs1, n1)
      | Done (j, value, value_len) \<Rightarrow> (Done j, hs1[n1 := (hs1 ! n1)\<lparr>hd_value := Some value,
           hd_value_len := trim_value b value value_len\<rparr>], n1))"
    using assms(2) s1 by (simp add: parse_header_def s_def)
  show ?thesis
  proof (cases r1)
    case (Done m)
    then have m: "i \<le> m" "m < length b" using st by auto
    show ?thesis
    proof (cases "get_token_to_eol b m")
      case (Done t)
      obtain j v l where t: "t = (j, v, l)" by (cases t) auto
      have g: "v = m" "m + l < j" "j \<le> length b" using get_token_clean [of m b] m Done t by auto
      have "trim_value b v l \<le> l" by (rule trim_value_le)
      then show ?thesis using r Done t \<open>r1 = Done m\<close> st m g assms(3)
        by (auto simp: clean_def hdr_in_def nth_list_update)
    next
      case (Ret e)
      then show ?thesis using r \<open>r1 = Done m\<close> st get_token_clean [of m b] m by (auto simp: clean_def)
    next
      case Oob
      then show ?thesis using get_token_clean [of m b] m by simp
    qed
  next
    case (Ret e)
    then show ?thesis using r st by (auto simp: clean_def)
  next
    case Oob
    then show ?thesis using st by simp
  qed
qed

lemma parse_headers_clean:
  assumes "parse_headers b m i h = (r, h')" "i \<le> length b" "hdrs_in b m h"
  shows "clean i b r \<and> hdrs_in b m h' \<and> length (fst h') = length (fst h)"
  using assms
proof (induction b m i h arbitrary: r h' rule: parse_headers.induct)
  case (1 b m i h)
  obtain hs n where h: "h = (hs, n)" by (cases h)
  show ?case
  proof (cases "i = length b")
    case True
    then show ?thesis using "1.prems" by (subst (asm) parse_headers.simps) (auto simp: CHECK_EOF_def clean_def)
  next
    case False
    then have il: "i < length b" using "1.prems" by simp
    then have rd: "andThen (CHECK_EOF b i) (\<lambda>_. rd b i) = Done (b ! i)" by (simp add: CHECK_EOF_def rd_def)
    consider "b ! i = 13" | "b ! i = 10" | "b ! i \<noteq> 13" "b ! i \<noteq> 10" "n = m" | "b ! i \<noteq> 13" "b ! i \<noteq> 10" "n < m"
      using "1.prems"(3) h by (fastforce simp: hdrs_in_def)
    then show ?thesis
    proof cases
      case 4
      obtain r1 hs1 n1 where ph: "parse_header b i (b ! i) h = (r1, hs1, n1)"
        by (cases "parse_header b i (b ! i) h") auto
      have nl: "n < length hs" using "1.prems"(3) 4 h by (simp add: hdrs_in_def)
      note c = parse_header_clean [OF il ph [unfolded h] nl]
      show ?thesis
      proof (cases r1)
        case (Done j)
        have "hdrs_in b m (hs1, n1 + 1)"
          using c "1.prems"(3) 4 h Done by (auto simp: hdrs_in_def less_Suc_eq)
        moreover have "parse_headers b m j (hs1, n1 + 1) = (r, h')"
          using "1.prems"(1) rd 4 h ph Done by (subst (asm) parse_headers.simps) simp
        moreover have "j \<le> length b" "i < j" using c Done by (auto simp: clean_def)
        ultimately show ?thesis
          using "1.IH" [OF rd 4(1,2) _ ph [symmetric] Done refl, of r h'] 4 h c by (auto simp: clean_def split: res.splits)
      next
        case (Ret e)
        then show ?thesis using "1.prems" rd 4 h ph c
          by (subst (asm) parse_headers.simps) (auto simp: hdrs_in_def)
      next
        case Oob
        then show ?thesis using c by (simp add: clean_def)
      qed
    qed (use "1.prems" il in \<open>subst (asm) parse_headers.simps, auto simp: basic_defs clean_def h split: if_splits\<close>)+
  qed
qed

lemma advance_clean:
  assumes "i \<le> length b"
  shows "ADVANCE_TOKEN b i \<noteq> Oob" "ADVANCE_TOKEN b i = Ret e \<Longrightarrow> e = -1 \<or> e = -2"
    "ADVANCE_TOKEN b i = Done (j, t, l) \<Longrightarrow> t = i \<and> l = j - i \<and> i \<le> j \<and> j < length b \<and> b ! j = 32"
proof -
  let ?P = "\<lambda>c :: byte. c \<le> 32 \<or> c = 127"
  have r: "ADVANCE_TOKEN b i = (let k = scan ?P b i in
      if k = length b then Ret (-2) else if b ! k = 32 then Done (k, i, k - i) else Ret (-1))"
    using assms by (cases "i = length b") (auto simp: ADVANCE_TOKEN_def findchar_fast_def CHECK_EOF_def advance_loop_ref Let_def)
  have "i \<le> scan ?P b i" "scan ?P b i \<le> length b" using scan_bounds [OF assms, of ?P] by auto
  then show "ADVANCE_TOKEN b i \<noteq> Oob" "ADVANCE_TOKEN b i = Ret e \<Longrightarrow> e = -1 \<or> e = -2"
    "ADVANCE_TOKEN b i = Done (j, t, l) \<Longrightarrow> t = i \<and> l = j - i \<and> i \<le> j \<and> j < length b \<and> b ! j = 32"
    by (auto simp: r Let_def split: if_splits)
qed

lemma expect_in: "i < length b \<Longrightarrow> EXPECT_CHAR_NO_CHECK ch b i = (if b ! i = ch then Done (i + 1) else Ret (-1))"
  by (simp add: EXPECT_CHAR_NO_CHECK_def rd_def)

lemma version_ref:
  "parse_http_version b i =
     (if length b - i < 9 then Ret (-2)
      else if take 7 (drop i b) = [72, 84, 84, 80, 47, 49, 46] \<and> 48 \<le> b ! (i + 7) \<and> b ! (i + 7) \<le> 57
      then Done (i + 8, uint (b ! (i + 7)) - 48) else Ret (-1))"
proof (cases "length b - i < 9")
  case False
  then have "i + 9 \<le> length b" by simp
  then have tk: "take 7 (drop i b) = [b ! i, b ! (i+1), b ! (i+2), b ! (i+3), b ! (i+4), b ! (i+5), b ! (i+6)]"
    by (intro nth_equalityI) (auto simp: nth_Cons' less_Suc_eq numeral_eq_Suc)
  show ?thesis
    using \<open>i + 9 \<le> length b\<close> unfolding parse_http_version_def tk
    by (auto simp: expect_in PARSE_INT_def rd_def not_le not_less numeral_eq_Suc)
qed (simp add: parse_http_version_def)

lemma version_clean:
  shows "parse_http_version b i \<noteq> Oob" "parse_http_version b i = Ret e \<Longrightarrow> e = -1 \<or> e = -2"
    "parse_http_version b i = Done (j, v) \<Longrightarrow> j = i + 8 \<and> j < length b \<and> 0 \<le> v \<and> v \<le> 9"
  by (auto simp: version_ref word_le_def split: if_splits)

definition request_start :: "byte list \<Rightarrow> nat res" where
  "request_start b = andThen (CHECK_EOF b 0) (\<lambda>_. andThen (rd b 0) (\<lambda>c.
     if c = 13 then EXPECT_CHAR 10 b 1 else if c = 10 then Done 1 else Done 0))"

definition line_end :: "byte list \<Rightarrow> nat \<Rightarrow> nat res" where
  "line_end b i = andThen (rd b i) (\<lambda>c.
     if c = 13 then EXPECT_CHAR 10 b (i + 1) else if c = 10 then Done (i + 1) else Ret (-1))"

lemma request_start_clean:
  "request_start b \<noteq> Oob" "request_start b = Ret e \<Longrightarrow> e = -1 \<or> e = -2"
  "request_start b = Done i \<Longrightarrow> i \<le> length b"
proof -
  show "request_start b \<noteq> Oob" "request_start b = Ret e \<Longrightarrow> e = -1 \<or> e = -2"
    by (auto simp: request_start_def EXPECT_CHAR_def CHECK_EOF_def rd_def expect_in Suc_lessI split: if_splits)
  have e: "EXPECT_CHAR 10 b 1 = Done i \<Longrightarrow> i \<le> length b"
    by (auto simp: EXPECT_CHAR_def EXPECT_CHAR_NO_CHECK_def CHECK_EOF_def rd_def split: if_splits)
  then show "request_start b = Done i \<Longrightarrow> i \<le> length b"
    by (cases b) (auto simp: request_start_def CHECK_EOF_def rd_def split: if_splits)
qed

lemma line_end_clean:
  assumes "i < length b"
  shows "line_end b i \<noteq> Oob" "line_end b i = Ret e \<Longrightarrow> e = -1 \<or> e = -2"
    "line_end b i = Done j \<Longrightarrow> i < j \<and> j \<le> length b"
  using assms by (auto simp: line_end_def basic_defs split: if_splits)

text \<open>What a request parse leaves behind, whatever its outcome.\<close>

definition request_in :: "byte list \<Rightarrow> nat \<Rightarrow> nat res \<Rightarrow> phr_request \<Rightarrow> bool" where
  "request_in b m r q \<longleftrightarrow> clean 0 b r \<and> hdrs_in b m (rq_hdrs q) \<and>
     (\<forall>p. rq_method q = Some p \<longrightarrow> p + rq_method_len q \<le> length b) \<and>
     (\<forall>p. rq_path q = Some p \<longrightarrow> p + rq_path_len q \<le> length b) \<and>
     (\<forall>j. r = Done j \<longrightarrow> rq_method q \<noteq> None \<and> 0 < rq_method_len q \<and> rq_path q \<noteq> None \<and>
        0 < rq_path_len q \<and> 0 \<le> rq_minor q \<and> rq_minor q \<le> 9)"

text \<open>The request line as one function: the positions of its parts, or how far it came.\<close>

lemma parse_request_run:
  assumes "parse_request b m q = (r, q')" "rq_method q = None" "rq_path q = None"
  obtains (fail) "(r = Ret (-1) \<or> r = Ret (-2))" "rq_hdrs q' = rq_hdrs q"
      "\<And>p. rq_method q' = Some p \<Longrightarrow> p + rq_method_len q' \<le> length b"
      "\<And>p. rq_path q' = Some p \<Longrightarrow> p + rq_path_len q' \<le> length b"
    | (headers) i i1 m' ml i2 p pl i3 v h j where
      "request_start b = Done i" "ADVANCE_TOKEN b i = Done (i1, m', ml)" "ADVANCE_TOKEN b (i1 + 1) = Done (i2, p, pl)"
      "0 < ml" "0 < pl" "parse_http_version b (i2 + 1) = Done (i3, v)" "line_end b i3 = Done j"
      "parse_headers b m j (rq_hdrs q) = (r, h)"
      "q' = q\<lparr>rq_method := Some m', rq_method_len := ml, rq_path := Some p, rq_path_len := pl, rq_minor := v, rq_hdrs := h\<rparr>"
proof -
  note q' = assms(1) [unfolded parse_request_def Let_def request_start_def [symmetric] line_end_def [symmetric]]
  show thesis
  proof (cases "request_start b")
    case (Done i)
    then have i: "i \<le> length b" by (rule request_start_clean)
    show thesis
    proof (cases "ADVANCE_TOKEN b i")
      case d1: (Done x)
      obtain i1 m' ml where x: "x = (i1, m', ml)" by (cases x) auto
      have 1: "m' = i" "ml = i1 - i" "i \<le> i1" "i1 < length b" using advance_clean(3) [OF i] d1 x by auto
      then have i1: "i1 + 1 \<le> length b" by simp
      show thesis
      proof (cases "ADVANCE_TOKEN b (i1 + 1)")
        case d2: (Done y)
        obtain i2 p2 pl where y: "y = (i2, p2, pl)" by (cases y) auto
        have 2: "p2 = i1 + 1" "pl = i2 - p2" "p2 \<le> i2" "i2 < length b" using advance_clean(3) [OF i1] d2 y by auto
        show thesis
        proof (cases "ml = 0 \<or> pl = 0")
          case True
          then show thesis using q' Done d1 d2 x y 1 2 by (intro fail) auto
        next
          case False
          show thesis
          proof (cases "parse_http_version b (i2 + 1)")
            case d3: (Done z)
            obtain i3 v where z: "z = (i3, v)" by (cases z)
            have i3: "i3 < length b" using version_clean(3) d3 z by blast
            show thesis
            proof (cases "line_end b i3")
              case d4: (Done j)
              obtain r'' h where p: "parse_headers b m j (rq_hdrs q) = (r'', h)"
                by (cases "parse_headers b m j (rq_hdrs q)") auto
              have "r'' = r \<and> q' = q\<lparr>rq_method := Some m', rq_method_len := ml, rq_path := Some p2, rq_path_len := pl,
                  rq_minor := v, rq_hdrs := h\<rparr>"
                using q' Done d1 d2 d3 d4 x y z False p by simp
              then show thesis using Done d1 d2 d3 d4 x y z False p by (intro headers) auto
            next
              case (Ret e)
              then show thesis using q' Done d1 d2 d3 x y z False 1 2 line_end_clean(2) [OF i3] by (intro fail) auto
            qed (use line_end_clean(1) [OF i3] in simp)
          next
            case (Ret e)
            then show thesis using q' Done d1 d2 x y False 1 2 version_clean(2) by (intro fail) auto
          qed (use version_clean(1) in simp)
        qed
      next
        case (Ret e)
        then show thesis using q' Done d1 x 1 assms(3) advance_clean(2) [OF i1] by (intro fail) auto
      qed (use advance_clean(1) [OF i1] in simp)
    next
      case (Ret e)
      then show thesis using q' Done assms(2,3) advance_clean(2) [OF i] by (intro fail) auto
    qed (use advance_clean(1) [OF i] in simp)
  next
    case (Ret e)
    with request_start_clean(2) [OF Ret] show thesis using q' assms(2,3) by (intro fail) auto
  qed (use request_start_clean(1) in simp)
qed

lemma complete_loop_clean: "i \<le> length b \<Longrightarrow> clean i b (complete_loop b i n)"
proof (induction b i n rule: complete_loop.induct)
  case (1 b i n)
  show ?case
  proof (cases "i < length b")
    case False
    with 1(2) show ?thesis by (subst complete_loop.simps) (simp add: CHECK_EOF_def clean_def)
  next
    case True
    define st where "st = (if b ! i = 13 then andThen (CHECK_EOF b (i + 1)) (\<lambda>_. andThen (EXPECT_CHAR 10 b (i + 1)) (\<lambda>j. Done (j, n + 1)))
      else if b ! i = 10 then Done (i + 1, n + 1) else Done (i + 1, 0 :: nat))"
    have run: "complete_loop b i n = andThen st (\<lambda>(j, c). if c = 2 then Done j else complete_loop b j c)"
      using True by (subst complete_loop.simps) (simp add: CHECK_EOF_def rd_def st_def)
    show ?thesis
    proof (cases st)
      case (Done x)
      obtain j c where x: "x = (j, c)" by (cases x)
      have j: "i < j" "j \<le> length b" using Done x True
        by (auto simp: st_def basic_defs split: if_splits)
      have e: "CHECK_EOF b i = Done ()" "rd b i = Done (b ! i)"
        using True by (simp_all add: CHECK_EOF_def rd_def)
      have "c \<noteq> 2 \<Longrightarrow> clean j b (complete_loop b j c)"
        using "1.IH" [OF e Done [unfolded st_def] x [symmetric]] j by blast
      then show ?thesis using run Done x j
        by (cases "c = 2"; cases "complete_loop b j c") (auto simp: clean_def)
    next
      case (Ret e)
      then have "e = -1 \<or> e = -2" using True by (auto simp: st_def basic_defs split: if_splits)
      then show ?thesis using run Ret by (auto simp: clean_def)
    next
      case Oob
      then show ?thesis using True by (auto simp: st_def basic_defs split: if_splits)
    qed
  qed
qed

lemma is_complete_clean: "n \<le> length b \<Longrightarrow> (case is_complete b n of Done _ \<Rightarrow> True | Ret e \<Rightarrow> e \<in> {-1, -2} | Oob \<Rightarrow> False)"
proof -
  assume "n \<le> length b"
  then have "(if n < 3 then 0 else n - 3) \<le> length b" by auto
  from complete_loop_clean [OF this, of 0] show ?thesis
    unfolding is_complete_def by (cases "complete_loop b (if n < 3 then 0 else n - 3) 0") (auto simp: clean_def)
qed

lemma parse_request_in:
  assumes "parse_request b m q = (r, q')" "rq_method q = None" "rq_path q = None" "hdrs_in b m (rq_hdrs q)"
  shows "request_in b m r q' \<and> length (fst (rq_hdrs q')) = length (fst (rq_hdrs q))"
  using assms(1-3)
proof (cases rule: parse_request_run)
  case fail
  then show ?thesis using assms(4) by (auto simp: request_in_def clean_def)
next
  case (headers i i1 m' ml i2 p pl i3 v h j)
  have i: "i \<le> length b" using headers(1) by (rule request_start_clean)
  have 1: "m' + ml \<le> length b" "i1 + 1 \<le> length b" using advance_clean(3) [OF i headers(2)] by auto
  have 2: "p + pl \<le> length b" using advance_clean(3) [OF 1(2) headers(3)] by auto
  have 3: "i3 < length b" "0 \<le> v" "v \<le> 9" using version_clean(3) [OF headers(6)] by auto
  have j: "j \<le> length b" using line_end_clean(3) [OF 3(1) headers(7)] by simp
  show ?thesis
    using parse_headers_clean [OF headers(8) j assms(4)] headers(4,5,9) 1 2 3
    by (auto simp: request_in_def clean_def split: res.splits)
qed

lemma parser_safe:
  assumes "phr_parse_request b hs m last_len = (r, q)" and "m \<le> length hs" and "last_len \<le> length b"
  shows "\<exists>e. r = Some e \<and> (e = -1 \<or> e = -2 \<or> 0 < e \<and> e \<le> int (length b)) \<and>
    snd (rq_hdrs q) \<le> m \<and> length (fst (rq_hdrs q)) = length hs \<and>
    (\<forall>k < snd (rq_hdrs q). hdr_in b (fst (rq_hdrs q) ! k)) \<and>
    (\<forall>p. rq_method q = Some p \<longrightarrow> p + rq_method_len q \<le> length b) \<and>
    (\<forall>p. rq_path q = Some p \<longrightarrow> p + rq_path_len q \<le> length b) \<and>
    (0 < e \<longrightarrow> rq_method q \<noteq> None \<and> rq_path q \<noteq> None \<and> 0 < rq_method_len q \<and> 0 < rq_path_len q \<and> rq_minor q \<in> {0..9})"
proof -
  let ?q = "\<lparr>rq_method = None, rq_method_len = 0, rq_path = None, rq_path_len = 0, rq_minor = -1, rq_hdrs = (hs, 0)\<rparr>"
  obtain r' q' where p: "parse_request b m ?q = (r', q')" by (cases "parse_request b m ?q")
  have h: "hdrs_in b m (rq_hdrs ?q)" using assms(2) by (simp add: hdrs_in_def)
  have in': "request_in b m r' q'" "length (fst (rq_hdrs q')) = length hs"
    using parse_request_in [OF p _ _ h] by auto
  have full: "(code r', q') = (r, q) \<or> (\<exists>e. e \<in> {-1, -2} \<and> r = Some e \<and> q = ?q)"
    using assms(1) p is_complete_clean [OF assms(3)]
    by (auto simp: phr_parse_request_def Let_def split: if_splits res.splits)
  then show ?thesis
  proof
    assume "(code r', q') = (r, q)"
    then show ?thesis using in'
      by (cases r') (auto simp: request_in_def clean_def code_def hdrs_in_def)
  next
    assume "\<exists>e. e \<in> {-1, -2} \<and> r = Some e \<and> q = ?q"
    then show ?thesis by auto
  qed
qed

text \<open>C21: parsing a request never reads outside the given bytes, writes only header entries below the
  given bound, and ends with the number of bytes consumed, -1 or -2; method, path and every header
  name and value returned lie inside the buffer, and a request that is accepted has a method, a path
  and a version digit.\<close>

theorem request_parser_safe:
  assumes "phr_parse_request b hs m last_len = (r, q)" and "m \<le> length hs" and "last_len \<le> length b"
  shows "\<exists>e. r = Some e \<and> (e = -1 \<or> e = -2 \<or> 0 < e \<and> e \<le> int (length b)) \<and>
    snd (rq_hdrs q) \<le> m \<and> length (fst (rq_hdrs q)) = length hs \<and>
    (\<forall>k < snd (rq_hdrs q). hdr_in b (fst (rq_hdrs q) ! k)) \<and>
    (\<forall>p. rq_method q = Some p \<longrightarrow> p + rq_method_len q \<le> length b) \<and>
    (\<forall>p. rq_path q = Some p \<longrightarrow> p + rq_path_len q \<le> length b) \<and>
    (0 < e \<longrightarrow> rq_method q \<noteq> None \<and> rq_path q \<noteq> None \<and> 0 < rq_method_len q \<and> 0 < rq_path_len q \<and> rq_minor q \<in> {0..9})"
  by (rule parser_safe [OF assms])

end
