(* ===== verification/PicoStable.thy ===== *)
theory PicoStable
  imports PicoProps
begin

text \<open>
  Parsing while the bytes arrive: once the parser has accepted or refused a request, more bytes
  behind it change nothing of its result.
\<close>

definition stays :: "'a res \<Rightarrow> 'a res \<Rightarrow> bool" where
  "stays r r' \<longleftrightarrow> r = Ret (-2) \<or> r' = r"

lemma scan_ext:
  assumes "i \<le> length b" "scan P b i < length b"
  shows "scan P (b @ c) i = scan P b i"
  using scan_bounds [OF assms(1), of P] scan_stop [OF assms] assms(2)
  by (intro scan_eqI) (auto simp: nth_append dest: scan_before [rotated])

lemma get_token_ext: "i \<le> length b \<Longrightarrow> stays (get_token_to_eol b i) (get_token_to_eol (b @ c) i)"
  using scan_bounds [of i b is_ctl] scan_ext [of i b is_ctl c]
  by (auto simp: stays_def get_token_ref Let_def nth_append)

lemma name_loop_ext: "i < length b \<Longrightarrow> stays (name_loop b i) (name_loop (b @ c) i)"
  using scan_bounds [of i b "\<lambda>c. c = 58 \<or> \<not> is_token_char c"] scan_ext [of i b "\<lambda>c. c = 58 \<or> \<not> is_token_char c" c]
  by (auto simp: stays_def name_loop_ref Let_def nth_append)

lemma skip_blanks_ext: "i \<le> length b \<Longrightarrow> stays (skip_blanks b i) (skip_blanks (b @ c) i)"
  using scan_bounds [of i b "\<lambda>c. \<not> (c = 32 \<or> c = 9)"] scan_ext [of i b "\<lambda>c. \<not> (c = 32 \<or> c = 9)" c]
  by (auto simp: stays_def skip_blanks_ref Let_def nth_append)

lemma advance_ext: "i \<le> length b \<Longrightarrow> stays (ADVANCE_TOKEN b i) (ADVANCE_TOKEN (b @ c) i)"
  using scan_bounds [of i b "\<lambda>c. c \<le> 32 \<or> c = 127"] scan_ext [of i b "\<lambda>c. c \<le> 32 \<or> c = 127" c]
  by (cases "i = length b")
    (auto simp: stays_def ADVANCE_TOKEN_def findchar_fast_def CHECK_EOF_def advance_loop_ref Let_def nth_append)

lemma version_ext: "stays (parse_http_version b i) (parse_http_version (b @ c) i)"
  by (auto simp: stays_def version_ref nth_append not_less)

lemma request_start_ext: "stays (request_start b) (request_start (b @ c))"
  by (cases b) (auto simp: stays_def request_start_def basic_defs nth_append)

lemma line_end_ext: "i < length b \<Longrightarrow> stays (line_end b i) (line_end (b @ c) i)"
  by (auto simp: stays_def line_end_def basic_defs nth_append)

lemma trim_value_ext: "v + n \<le> length b \<Longrightarrow> trim_value (b @ c) v n = trim_value b v n"
  by (induction n) (auto simp: Let_def nth_append)

lemma parse_name_ext:
  assumes "parse_name b i h = (r, h')" "r \<noteq> Ret (-2)" "i < length b"
  shows "parse_name (b @ c) i h = (r, h')"
proof -
  obtain hs n where h: "h = (hs, n)" by (cases h)
  have eof: "CHECK_EOF b i = Done ()" "CHECK_EOF (b @ c) i = Done ()"
    using assms(3) by (simp_all add: CHECK_EOF_def)
  have nl: "name_loop b i \<noteq> Ret (-2)"
    using assms(1,2) by (auto simp: parse_name_def h eof findchar_fast_def Let_def)
  then have e: "name_loop (b @ c) i = name_loop b i"
    using name_loop_ext [OF assms(3), of c] by (simp add: stays_def)
  show ?thesis
  proof (cases "name_loop b i")
    case (Done k)
    then have k: "k + 1 \<le> length b" using name_loop_clean [OF assms(3)] by simp
    show ?thesis
      using assms(1,2) skip_blanks_ext [OF k, of c] e Done
      by (auto simp: parse_name_def h eof findchar_fast_def Let_def stays_def split: if_splits)
  qed (use assms(1) [symmetric] e in \<open>simp_all add: parse_name_def h eof findchar_fast_def Let_def\<close>)
qed

lemma parse_header_ext:
  assumes "parse_header b i ch h = (r, h')" "r \<noteq> Ret (-2)" "i < length b"
  shows "parse_header (b @ c) i ch h = (r, h')"
proof -
  obtain hs n where h: "h = (hs, n)" by (cases h)
  define s where "s = (\<lambda>b. if \<not> (n \<noteq> 0 \<and> (ch = 32 \<or> ch = 9)) then parse_name b i (hs, n)
    else (Done i, hs[n := (hs ! n)\<lparr>hd_name := None, hd_name_len := 0\<rparr>], n))"
  obtain r1 hs1 n1 where s1: "s b = (r1, hs1, n1)" by (cases "s b") auto
  have r: "parse_header d i ch h = (case s d of (r1, hs1, n1) \<Rightarrow>
      case andThen r1 (get_token_to_eol d) of Oob \<Rightarrow> (Oob, hs1, n1) | Ret e \<Rightarrow> (Ret e, hs1, n1)
      | Done (j, value, value_len) \<Rightarrow> (Done j, hs1[n1 := (hs1 ! n1)\<lparr>hd_value := Some value,
           hd_value_len := trim_value d value value_len\<rparr>], n1))" for d
    by (simp add: parse_header_def s_def h)
  have r1: "r1 \<noteq> Ret (-2)" using assms(1,2) r [of b] s1 by auto
  have sc: "s (b @ c) = s b"
    using s1 r1 parse_name_ext [OF _ r1 assms(3), of "(hs, n)" "(hs1, n1)" c]
    by (auto simp: s_def split: if_splits)
  show ?thesis
  proof (cases r1)
    case (Done m)
    have m: "m \<le> length b"
    proof (cases "n \<noteq> 0 \<and> (ch = 32 \<or> ch = 9)")
      case False
      then have "parse_name b i (hs, n) = (Done m, hs1, n1)" using s1 Done by (simp add: s_def)
      then show ?thesis using parse_name_bounds assms(3) by fastforce
    qed (use s1 Done assms(3) in \<open>auto simp: s_def\<close>)
    have nt: "get_token_to_eol b m \<noteq> Ret (-2)" using assms(1,2) r [of b] s1 Done by auto
    then have t: "get_token_to_eol (b @ c) m = get_token_to_eol b m"
      using get_token_ext [OF m, of c] by (simp add: stays_def)
    have "trim_value (b @ c) v l = trim_value b v l" if "get_token_to_eol b m = Done (j, v, l)" for j v l
      using get_token_bounds [OF that m] by (intro trim_value_ext) simp
    then show ?thesis
      using assms(1) r [of b] r [of "b @ c"] sc s1 Done t by (auto split: res.splits)
  qed (use assms(1) r [of b] r [of "b @ c"] sc s1 in auto)
qed

lemma parse_headers_ext:
  assumes "parse_headers b m i h = (r, h')" "r \<noteq> Ret (-2)" "i \<le> length b"
  shows "parse_headers (b @ c) m i h = (r, h')"
  using assms
proof (induction b m i h arbitrary: r h' rule: parse_headers.induct)
  case (1 b m i h)
  have il: "i < length b"
    using "1.prems" parse_headers.simps [of b m i h] by (cases "i = length b") (simp_all add: CHECK_EOF_def)
  have rd: "andThen (CHECK_EOF b i) (\<lambda>_. rd b i) = Done (b ! i)"
    "andThen (CHECK_EOF (b @ c) i) (\<lambda>_. rd (b @ c) i) = Done (b ! i)"
    using il by (simp_all add: CHECK_EOF_def rd_def nth_append)
  show ?case
  proof (cases "b ! i = 13 \<or> b ! i = 10 \<or> snd h = m")
    case True
    then show ?thesis
      using "1.prems" rd il unfolding parse_headers.simps [of b m i h] parse_headers.simps [of "b @ c" m i h]
      by (auto simp: EXPECT_CHAR_def EXPECT_CHAR_NO_CHECK_def CHECK_EOF_def rd_def nth_append split: if_splits)
  next
    case False
    obtain r1 hs1 n1 where ph: "parse_header b i (b ! i) h = (r1, hs1, n1)"
      by (cases "parse_header b i (b ! i) h") auto
    have run: "(case (r1, hs1, n1) of (Oob, h) \<Rightarrow> (Oob, h) | (Ret e, h) \<Rightarrow> (Ret e, h)
        | (Done j, hs, n) \<Rightarrow> parse_headers b m j (hs, n + 1)) = (r, h')"
      using "1.prems"(1) rd False ph unfolding parse_headers.simps [of b m i h] by simp
    then have r1: "r1 \<noteq> Ret (-2)" using "1.prems"(2) by auto
    note phc = parse_header_ext [OF ph r1 il, of c]
    show ?thesis
    proof (cases r1)
      case (Done j)
      have "j \<le> length b" using parse_header_bounds [of b i "b ! i" h j] ph Done il by auto
      then have "parse_headers (b @ c) m j (hs1, n1 + 1) = (r, h')"
        using "1.IH" [OF rd(1) _ _ _ ph [symmetric] Done refl] False run Done "1.prems"(2) by auto
      then show ?thesis
        using rd False phc Done unfolding parse_headers.simps [of "b @ c" m i h] by simp
    qed (use rd False phc run in \<open>unfold parse_headers.simps [of "b @ c" m i h], auto\<close>)
  qed
qed

lemma parse_request_ext:
  assumes "parse_request b m q = (r, q')" "r \<noteq> Ret (-2)"
  shows "parse_request (b @ c) m q = (r, q')"
proof -
  note un = parse_request_def Let_def request_start_def [symmetric] line_end_def [symmetric]
  note A = assms(1) [unfolded un]
  have s: "request_start b \<noteq> Ret (-2)" using A assms(2) by auto
  then have s': "request_start (b @ c) = request_start b" using request_start_ext [of b c] by (simp add: stays_def)
  show ?thesis
  proof (cases "request_start b")
    case (Done i)
    then have i: "i \<le> length b" by (rule request_start_clean)
    have a: "ADVANCE_TOKEN b i \<noteq> Ret (-2)" using A assms(2) Done by auto
    then have a': "ADVANCE_TOKEN (b @ c) i = ADVANCE_TOKEN b i" using advance_ext [OF i, of c] by (simp add: stays_def)
    show ?thesis
    proof (cases "ADVANCE_TOKEN b i")
      case D1: (Done x)
      obtain i1 m' ml where x: "x = (i1, m', ml)" by (cases x) auto
      have i1: "i1 + 1 \<le> length b" using advance_clean(3) [OF i] D1 x by auto
      have "ADVANCE_TOKEN b (i1 + 1) \<noteq> Ret (-2)" using A assms(2) Done D1 x by auto
      then have b': "ADVANCE_TOKEN (b @ c) (i1 + 1) = ADVANCE_TOKEN b (i1 + 1)"
        using advance_ext [OF i1, of c] by (simp add: stays_def)
      show ?thesis
      proof (cases "ADVANCE_TOKEN b (i1 + 1)")
        case D2: (Done y)
        obtain i2 p2 pl where y: "y = (i2, p2, pl)" by (cases y) auto
        show ?thesis
        proof (cases "ml = 0 \<or> pl = 0")
          case True
          then show ?thesis using A Done D1 D2 x y s' a' b' by (auto simp: un)
        next
          case F: False
          have "parse_http_version b (i2 + 1) \<noteq> Ret (-2)" using A assms(2) Done D1 D2 x y F by auto
          then have c': "parse_http_version (b @ c) (i2 + 1) = parse_http_version b (i2 + 1)"
            using version_ext [of b "i2 + 1" c] by (simp add: stays_def)
          show ?thesis
          proof (cases "parse_http_version b (i2 + 1)")
            case D3: (Done z)
            obtain i3 v where z: "z = (i3, v)" by (cases z)
            have i3: "i3 < length b" using version_clean(3) D3 z by blast
            have "line_end b i3 \<noteq> Ret (-2)" using A assms(2) Done D1 D2 D3 x y z F by auto
            then have d': "line_end (b @ c) i3 = line_end b i3" using line_end_ext [OF i3, of c] by (simp add: stays_def)
            show ?thesis
            proof (cases "line_end b i3")
              case D4: (Done j)
              obtain r'' h where p: "parse_headers b m j (rq_hdrs q) = (r'', h)"
                by (cases "parse_headers b m j (rq_hdrs q)") auto
              have "r'' = r" using A Done D1 D2 D3 D4 x y z F p by simp
              then have "parse_headers (b @ c) m j (rq_hdrs q) = (r'', h)"
                using parse_headers_ext [OF p, of c] assms(2) line_end_clean(3) [OF i3 D4] by simp
              then show ?thesis using A Done D1 D2 D3 D4 x y z F p s' a' b' c' d' by (simp add: un)
            qed (use A [symmetric] Done D1 D2 D3 x y z F s' a' b' c' d' in \<open>simp_all add: un\<close>)
          qed (use A [symmetric] Done D1 D2 x y F s' a' b' c' in \<open>simp_all add: un\<close>)
        qed
      qed (use A [symmetric] Done D1 x s' a' b' in \<open>simp_all add: un\<close>)
    qed (use A [symmetric] Done s' a' in \<open>simp_all add: un\<close>)
  qed (use A [symmetric] s' in \<open>simp_all add: un\<close>)
qed

text \<open>C20: the verdict on a request does not depend on how its bytes arrive: once the parser has
  consumed a request or refused it, it gives the same answer and the same method, path and headers when
  any further bytes follow.\<close>

theorem request_verdict_stable:
  assumes "phr_parse_request b hs m 0 = (Some e, q)" and "e \<noteq> -2"
  shows "phr_parse_request (b @ c) hs m 0 = (Some e, q)"
proof -
  let ?q = "\<lparr>rq_method = None, rq_method_len = 0, rq_path = None, rq_path_len = 0, rq_minor = -1, rq_hdrs = (hs, 0)\<rparr>"
  obtain r q' where p: "parse_request b m ?q = (r, q')" by (cases "parse_request b m ?q")
  then have c: "code r = Some e" "q' = q" using assms(1) by (simp_all add: phr_parse_request_def Let_def)
  then have "r \<noteq> Ret (-2)" using assms(2) by (auto simp: code_def)
  from parse_request_ext [OF p this, of c] show ?thesis using c by (simp add: phr_parse_request_def Let_def)
qed

definition no_header :: phr_header where
  "no_header = \<lparr>hd_name = None, hd_name_len = 0, hd_value = None, hd_value_len = 0\<rparr>"

text \<open>\<open>GET / HTTP/1.1\<close>, one header \<open>A: b\<close>, and the empty line.\<close>

definition get_request :: "byte list" where
  "get_request = [71, 69, 84, 32, 47, 32, 72, 84, 84, 80, 47, 49, 46, 49, 13, 10, 65, 58, 32, 98, 13, 10, 13, 10]"

lemma get_request_parsed:
  "phr_parse_request get_request [no_header, no_header] 2 0 = (Some 24,
     \<lparr>rq_method = Some 0, rq_method_len = 3, rq_path = Some 4, rq_path_len = 1, rq_minor = 1,
      rq_hdrs = ([\<lparr>hd_name = Some 16, hd_name_len = 1, hd_value = Some 19, hd_value_len = 1\<rparr>, no_header], 1)\<rparr>)"
  by code_simp

theorem request_verdict_stable_witness:
  "fst (phr_parse_request (get_request @ [80, 79, 83]) [no_header, no_header] 2 0) = Some 24"
  using request_verdict_stable [OF get_request_parsed, of "[80, 79, 83]"] by simp

theorem request_parser_safe_witness:
  "\<exists>e. fst (phr_parse_request get_request [no_header, no_header] 2 0) = Some e \<and> 0 < e \<and> e \<le> 24"
proof -
  have "length get_request = 24" by code_simp
  then show ?thesis using request_parser_safe [OF get_request_parsed] by (auto simp: get_request_parsed)
qed

end
