(* ===== verification/PicoRoundtrip.thy ===== *)
theory PicoRoundtrip
  imports PicoStable
begin

text \<open>
  Requests written out and read back: the text of a request, and that the parser returns exactly its
  parts, whatever bytes follow.
\<close>

section \<open>The text of a request\<close>

record request_text =
  tx_method :: "byte list"
  tx_path :: "byte list"
  tx_minor :: nat
  tx_headers :: "(byte list \<times> byte list) list"

definition http1 :: "byte list" where "http1 = [72, 84, 84, 80, 47, 49, 46]"

definition header_line :: "byte list \<times> byte list \<Rightarrow> byte list" where
  "header_line nv = fst nv @ [58, 32] @ snd nv @ [13, 10]"

definition request_bytes :: "request_text \<Rightarrow> byte list" where
  "request_bytes t = tx_method t @ [32] @ tx_path t @ [32] @ http1 @ [48 + of_nat (tx_minor t), 13, 10] @
     concat (map header_line (tx_headers t)) @ [13, 10]"

definition token_ok :: "byte list \<Rightarrow> bool" where
  "token_ok s \<longleftrightarrow> s \<noteq> [] \<and> (\<forall>c \<in> set s. 32 < c \<and> c \<noteq> 127)"

definition header_ok :: "byte list \<times> byte list \<Rightarrow> bool" where
  "header_ok nv \<longleftrightarrow> fst nv \<noteq> [] \<and> (\<forall>c \<in> set (fst nv). is_token_char c) \<and>
     (\<forall>c \<in> set (snd nv). \<not> is_ctl c) \<and>
     (snd nv \<noteq> [] \<longrightarrow> hd (snd nv) \<notin> {32, 9} \<and> last (snd nv) \<notin> {32, 9})"

definition text_ok :: "request_text \<Rightarrow> bool" where
  "text_ok t \<longleftrightarrow> token_ok (tx_method t) \<and> token_ok (tx_path t) \<and> tx_minor t \<le> 9 \<and>
     (\<forall>nv \<in> set (tx_headers t). header_ok nv)"

section \<open>Scanning a known text\<close>

lemma nth_text:
  assumes "drop i b = t @ c # r"
  shows "i + length t < length b" "b ! (i + length t) = c" "drop (Suc (i + length t)) b = r"
proof -
  have "length (drop i b) = length (t @ c # r)" using assms by simp
  then show l: "i + length t < length b" by simp
  have "drop (length t) (drop i b) = c # r" using assms by simp
  then have d: "drop (i + length t) b = c # r" by (simp add: add.commute)
  then show "drop (Suc (i + length t)) b = r" by (metis drop_Suc drop_drop list.sel(3) tl_drop)
  show "b ! (i + length t) = c" using d l by (metis Cons_nth_drop_Suc list.inject)
qed

lemma scan_text:
  assumes "drop i b = t @ c # r" "\<forall>x \<in> set t. \<not> P x" "P c"
  shows "scan P b i = i + length t"
proof -
  have "takeWhile (\<lambda>x. \<not> P x) (t @ c # r) = t" using assms(2,3) by (simp add: takeWhile_append2)
  then show ?thesis using assms(1) by (simp add: scan_def)
qed

lemma drop_nth:
  "drop i b = c # r \<Longrightarrow> i < length b \<and> b ! i = c \<and> drop (Suc i) b = r"
  by (metis Cons_nth_drop_Suc drop_eq_Nil list.inject list.distinct(1) not_le)

lemma advance_text:
  assumes "drop i b = t @ 32 # r" "token_ok t"
  shows "ADVANCE_TOKEN b i = Done (i + length t, i, length t)" "drop (i + length t + 1) b = r"
proof -
  let ?P = "\<lambda>c :: byte. c \<le> 32 \<or> c = 127"
  have p: "\<forall>x \<in> set t. \<not> ?P x" "?P 32" using assms(2) by (auto simp: token_ok_def)
  note s = scan_text [OF assms(1) p] and n = nth_text [OF assms(1)]
  have il: "i < length b" using n(1) by simp
  have "advance_loop b i = Done (i + length t)"
    unfolding advance_loop_ref [OF il] Let_def s using n(1,2) by simp
  then show "ADVANCE_TOKEN b i = Done (i + length t, i, length t)"
    using il by (simp add: ADVANCE_TOKEN_def findchar_fast_def CHECK_EOF_def)
  show "drop (i + length t + 1) b = r" using n(3) by simp
qed

lemma ctl_cr [simp]: "is_ctl 13" by (simp add: is_ctl_def)

lemma get_token_text:
  assumes "drop i b = v @ 13 # 10 # r" "\<forall>c \<in> set v. \<not> is_ctl c"
  shows "get_token_to_eol b i = Done (i + length v + 2, i, length v)" "drop (i + length v + 2) b = r"
proof -
  note s = scan_text [OF assms(1,2) ctl_cr] nth_text(1,2) [OF assms(1)]
  have d: "drop (Suc (i + length v)) b = 10 # r" using nth_text(3) [OF assms(1)] .
  note n = drop_nth [OF d]
  show "get_token_to_eol b i = Done (i + length v + 2, i, length v)"
    using s n by (simp add: get_token_ref Let_def)
  show "drop (i + length v + 2) b = r" using n by simp
qed

lemma trim_value_text:
  "drop i b = v @ r \<Longrightarrow> v \<noteq> [] \<longrightarrow> last v \<notin> {32, 9} \<Longrightarrow> trim_value b i (length v) = length v"
proof (cases v rule: rev_cases)
  case (snoc w x)
  assume d: "drop i b = v @ r" and l: "v \<noteq> [] \<longrightarrow> last v \<notin> {32, 9}"
  have "drop (length w) (drop i b) = x # r" using d snoc by simp
  then have "drop (i + length w) b = x # r" by (simp add: add.commute)
  then have "b ! (i + length w) = x" by (simp add: drop_nth)
  then show ?thesis using l snoc by (simp add: Let_def)
qed simp

lemma token_not_colon: "is_token_char c \<Longrightarrow> c \<noteq> 58"
  by (auto simp: is_token_char_def token_char_map_def)

text \<open>One header line: the entry written, and the position behind the line.\<close>

lemma parse_header_text:
  assumes d: "drop i b = header_line (nm, v) @ r" and ok: "header_ok (nm, v)" and n: "n < length hs"
    and r: "r \<noteq> []"
  shows "parse_header b i (b ! i) (hs, n) =
    (Done (i + length (header_line (nm, v))),
     hs[n := \<lparr>hd_name = Some i, hd_name_len = length nm, hd_value = Some (i + length nm + 2), hd_value_len = length v\<rparr>], n)"
    and "drop (i + length (header_line (nm, v))) b = r"
proof -
  let ?P = "\<lambda>c. c = 58 \<or> \<not> is_token_char c"
  have d1: "drop i b = nm @ 58 # 32 # v @ 13 # 10 # r" using d by (simp add: header_line_def)
  have nmP: "\<forall>c \<in> set nm. \<not> ?P c" using ok token_not_colon by (auto simp: header_ok_def)
  note s1 = scan_text [OF d1 nmP, simplified] nth_text [OF d1]
  have nmn: "nm \<noteq> []" using ok by (simp add: header_ok_def)
  then have il: "i < length b" using s1(2) by simp
  have "b ! i = hd nm" using d1 nmn drop_nth [of i b "hd nm"] by (cases nm) auto
  then have ci: "b ! i \<noteq> 32 \<and> b ! i \<noteq> 9"
    using nmP nmn by (cases nm) (auto simp: is_token_char_def token_char_map_def)
  have nl: "name_loop b i = Done (i + length nm)"
    using il s1 by (simp add: name_loop_ref Let_def)
  have d2: "drop (Suc (i + length nm)) b = [32] @ (v @ 13 # 10 # r)" using s1(4) by simp
  obtain c1 r1 where c1: "v @ 13 # 10 # r = c1 # r1" "c1 \<noteq> 32" "c1 \<noteq> 9"
    using ok by (cases v) (auto simp: header_ok_def)
  note s2 = scan_text [OF d2 [unfolded c1(1)], of "\<lambda>c. \<not> (c = 32 \<or> c = 9)", simplified]
    nth_text [OF d2 [unfolded c1(1)], simplified]
  have sb: "skip_blanks b (i + length nm + 1) = Done (i + length nm + 2)"
    using s2 c1 by (simp add: skip_blanks_ref Let_def)
  have d3: "drop (i + length nm + 2) b = v @ 13 # 10 # r" using drop_nth [of _ b 32] d2 by simp
  have vc: "\<forall>c \<in> set v. \<not> is_ctl c" using ok by (simp add: header_ok_def)
  note gt = get_token_text [OF d3 vc]
  have tr: "trim_value b (i + length nm + 2) (length v) = length v"
    using trim_value_text [OF d3] ok by (simp add: header_ok_def)
  have ups: "e\<lparr>hd_name := x, hd_name_len := y, hd_value := z, hd_value_len := w\<rparr> =
      \<lparr>hd_name = x, hd_name_len = y, hd_value = z, hd_value_len = w\<rparr>" for e :: phr_header and x y z w
    by (cases e) simp
  show "parse_header b i (b ! i) (hs, n) =
    (Done (i + length (header_line (nm, v))),
     hs[n := \<lparr>hd_name = Some i, hd_name_len = length nm, hd_value = Some (i + length nm + 2), hd_value_len = length v\<rparr>], n)"
    using ci nl sb gt(1) tr n nmn il
    by (simp add: parse_header_def parse_name_def findchar_fast_def CHECK_EOF_def header_line_def Let_def ups)
  show "drop (i + length (header_line (nm, v))) b = r" using gt(2) by (simp add: header_line_def add.assoc)
qed

text \<open>The entry a header line at position \<open>i\<close> gets.\<close>

definition entry :: "nat \<Rightarrow> byte list \<times> byte list \<Rightarrow> phr_header" where
  "entry i nv = \<lparr>hd_name = Some i, hd_name_len = length (fst nv), hd_value = Some (i + length (fst nv) + 2),
     hd_value_len = length (snd nv)\<rparr>"

fun entries :: "nat \<Rightarrow> (byte list \<times> byte list) list \<Rightarrow> phr_header list" where
  "entries i [] = []"
| "entries i (nv # nvs) = entry i nv # entries (i + length (header_line nv)) nvs"

lemma length_entries [simp]: "length (entries i nvs) = length nvs"
  by (induction nvs arbitrary: i) auto

lemma parse_headers_text:
  assumes "drop i b = concat (map header_line nvs) @ [13, 10] @ rest" "\<forall>nv \<in> set nvs. header_ok nv"
    "n + length nvs \<le> m" "m \<le> length hs"
  shows "parse_headers b m i (hs, n) =
    (Done (i + length (concat (map header_line nvs)) + 2),
     take n hs @ entries i nvs @ drop (n + length nvs) hs, n + length nvs)"
  using assms
proof (induction nvs arbitrary: i hs n)
  case Nil
  then have d: "drop i b = 13 # 10 # rest" by simp
  note n1 = drop_nth [OF d]
  have d2: "drop (Suc i) b = 10 # rest" using n1 by simp
  note n2 = drop_nth [OF d2]
  show ?case using n1 n2
    by (subst parse_headers.simps) (simp add: basic_defs)
next
  case (Cons nv nvs)
  obtain nm v where nv: "nv = (nm, v)" by (cases nv)
  have d: "drop i b = header_line (nm, v) @ (concat (map header_line nvs) @ [13, 10] @ rest)"
    using Cons.prems(1) nv by simp
  have ok: "header_ok (nm, v)" and nl: "n < length hs" and nm: "n \<noteq> m"
    using Cons.prems nv by auto
  note ph = parse_header_text [OF d ok nl, simplified]
  have nmn: "nm \<noteq> []" "is_token_char (hd nm)" using ok by (auto simp: header_ok_def)
  have bi: "i < length b" "b ! i = hd nm"
    using d nmn drop_nth [of i b "hd nm"] by (cases nm; auto simp: header_line_def)+
  have c: "b ! i \<noteq> 13 \<and> b ! i \<noteq> 10" using nmn bi by (auto simp: is_token_char_def token_char_map_def)
  let ?hs = "hs[n := entry i (nm, v)]"
  have "parse_headers b m i (hs, n) = parse_headers b m (i + length (header_line (nm, v))) (?hs, n + 1)"
    using bi c nm ph(1) by (subst parse_headers.simps) (simp add: basic_defs entry_def)
  also have "\<dots> = (Done (i + length (header_line (nm, v)) + length (concat (map header_line nvs)) + 2),
     take (n + 1) ?hs @ entries (i + length (header_line (nm, v))) nvs @ drop (n + 1 + length nvs) ?hs, n + 1 + length nvs)"
    by (rule Cons.IH) (use ph(2) Cons.prems nm in auto)
  also have "take (n + 1) ?hs = take n hs @ [entry i (nm, v)]"
    using nl by (simp add: take_Suc_conv_app_nth)
  finally show ?case by (simp add: nv add.assoc)
qed

lemma parse_request_text:
  assumes "text_ok t" and "length (tx_headers t) \<le> m" and "m \<le> length hs"
  shows "phr_parse_request (request_bytes t @ rest) hs m 0 =
    (Some (int (length (request_bytes t))),
     \<lparr>rq_method = Some 0, rq_method_len = length (tx_method t),
      rq_path = Some (length (tx_method t) + 1), rq_path_len = length (tx_path t), rq_minor = int (tx_minor t),
      rq_hdrs = (entries (length (tx_method t) + length (tx_path t) + 12) (tx_headers t) @ drop (length (tx_headers t)) hs,
        length (tx_headers t))\<rparr>)"
proof -
  define b where "b = request_bytes t @ rest"
  let ?m = "length (tx_method t)" and ?p = "length (tx_path t)"
  let ?H = "concat (map header_line (tx_headers t)) @ [13, 10] @ rest"
  let ?c = "48 + of_nat (tx_minor t) :: byte"
  have ok: "token_ok (tx_method t)" "token_ok (tx_path t)" "tx_minor t \<le> 9" "\<forall>nv \<in> set (tx_headers t). header_ok nv"
    using assms(1) by (simp_all add: text_ok_def)
  have "tx_minor t \<in> {0, 1, 2, 3, 4, 5, 6, 7, 8, 9}" using ok(3) by auto
  then have minor: "48 \<le> ?c" "?c \<le> 57" "uint ?c = 48 + int (tx_minor t)" by auto
  have d0: "drop 0 b = tx_method t @ 32 # (tx_path t @ 32 # (http1 @ ?c # (13 # 10 # ?H)))"
    by (simp add: b_def request_bytes_def)
  note a1 = advance_text [OF d0 ok(1)]
  note a2 = advance_text [OF a1(2) ok(2)]
  define k where "k = 0 + ?m + 1 + ?p + 1"
  have dk: "drop k b = http1 @ ?c # (13 # 10 # ?H)" using a2(2) by (simp only: k_def)
  note nk = nth_text [OF dk]
  have l7: "length http1 = 7" by (simp add: http1_def)
  have d8: "drop (k + 8) b = 13 # 10 # ?H" using nk(3) l7 by (simp add: add.commute)
  note n8 = drop_nth [OF d8]
  have d9: "drop (k + 9) b = 10 # ?H" using n8 by (simp add: add.commute)
  note n9 = drop_nth [OF d9]
  have d10: "drop (k + 10) b = ?H" using n9 by (simp add: add.commute)
  have "take 7 (drop k b) = http1" using dk l7 by simp
  then have v: "parse_http_version b k = Done (k + 8, int (tx_minor t))"
  proof -
    have "b ! (k + 7) = ?c" using nk(2) by (simp only: l7)
    moreover have "\<not> length b - k < 9" using n9 by auto
    ultimately show ?thesis
      using minor \<open>take 7 (drop k b) = http1\<close> by (simp add: version_ref http1_def)
  qed
  have "b \<noteq> []" "b ! 0 = hd (tx_method t)" "32 < hd (tx_method t)"
    using ok(1) d0 by (cases "tx_method t"; auto simp: token_ok_def)+
  then have st: "request_start b = Done 0" by (auto simp: request_start_def CHECK_EOF_def rd_def)
  have le: "line_end b (k + 8) = Done (k + 10)" using n8 n9 by (simp add: line_end_def basic_defs add.commute)
  have ph: "parse_headers b m (k + 10) (hs, 0) =
      (Done (k + 10 + length (concat (map header_line (tx_headers t))) + 2),
       entries (k + 10) (tx_headers t) @ drop (length (tx_headers t)) hs, length (tx_headers t))"
    using parse_headers_text [OF d10 ok(4), of 0 m hs] assms(2,3) by simp
  have pos: "?m \<noteq> 0" "?p \<noteq> 0" using ok(1,2) by (simp_all add: token_ok_def)
  have k: "0 + ?m + 1 + ?p + 1 = k" "k = ?m + ?p + 2" by (simp_all add: k_def)
  have "parse_request b m \<lparr>rq_method = None, rq_method_len = 0, rq_path = None, rq_path_len = 0, rq_minor = -1, rq_hdrs = (hs, 0)\<rparr> =
    (Done (k + 10 + length (concat (map header_line (tx_headers t))) + 2),
     \<lparr>rq_method = Some 0, rq_method_len = ?m, rq_path = Some (?m + 1), rq_path_len = ?p, rq_minor = int (tx_minor t),
      rq_hdrs = (entries (k + 10) (tx_headers t) @ drop (length (tx_headers t)) hs, length (tx_headers t))\<rparr>)"
    unfolding parse_request_def Let_def request_start_def [symmetric] line_end_def [symmetric] st
    using a1(1) a2(1) v [folded k(1)] le [unfolded k(1) [symmetric]] ph pos
    by (simp add: k)
  then show ?thesis
    unfolding b_def [symmetric] by (simp add: phr_parse_request_def code_def k(2) request_bytes_def l7 ac_simps)
qed

text \<open>C19: a request written out is read back: for any method, path, version and headers the syntax
  allows, the parser consumes exactly the text of the request, whatever follows it, and reports the
  parts at their places.\<close>

theorem request_roundtrip:
  assumes "text_ok t" and "length (tx_headers t) \<le> m" and "m \<le> length hs"
  shows "phr_parse_request (request_bytes t @ rest) hs m 0 =
    (Some (int (length (request_bytes t))),
     \<lparr>rq_method = Some 0, rq_method_len = length (tx_method t),
      rq_path = Some (length (tx_method t) + 1), rq_path_len = length (tx_path t), rq_minor = int (tx_minor t),
      rq_hdrs = (entries (length (tx_method t) + length (tx_path t) + 12) (tx_headers t) @ drop (length (tx_headers t)) hs,
        length (tx_headers t))\<rparr>)"
  by (rule parse_request_text [OF assms])

theorem request_roundtrip_witness:
  "phr_parse_request (get_request @ [80, 79]) [no_header, no_header] 2 0 = (Some 24,
     \<lparr>rq_method = Some 0, rq_method_len = 3, rq_path = Some 4, rq_path_len = 1, rq_minor = 1,
      rq_hdrs = ([\<lparr>hd_name = Some 16, hd_name_len = 1, hd_value = Some 19, hd_value_len = 1\<rparr>, no_header], 1)\<rparr>)"
proof -
  let ?t = "\<lparr>tx_method = [71, 69, 84], tx_path = [47], tx_minor = 1, tx_headers = [([65], [98])]\<rparr>"
  have "text_ok ?t" "request_bytes ?t = get_request" by code_simp+
  then show ?thesis
    using request_roundtrip [of ?t 2 "[no_header, no_header]" "[80, 79]"]
    by (simp add: get_request_def entry_def)
qed

end
