(* ===== verification/Http.thy ===== *)
theory Http
  imports CString Membuf PicoRoundtrip
begin

text \<open>
  Requests and responses of the server, src/include/http.h and src/http.cpp.  Pointers to the method,
  the path and the headers are addresses into the buffer of the request; NULL is 0.  The parser works
  on positions, so \<open>http_parse_request\<close> converts between the two as the C code does by passing
  pointers into the buffer.
\<close>

section \<open>Headers, requests and responses\<close>

definition HTTP_HEADERS_MAX :: nat where "HTTP_HEADERS_MAX = 16"

record http_header =
  hh_name :: addr
  hh_name_len :: u64
  hh_val :: addr
  hh_val_len :: u64

record http_request =
  hq_mem :: membuf
  hq_minor_version :: int
  hq_method :: addr
  hq_method_len :: u64
  hq_path :: addr
  hq_path_len :: u64
  hq_headers :: "http_header list"
  hq_nheaders :: u64
  hq_body :: addr
  hq_body_len :: u64

text \<open>\<open>'cb\<close> are the callbacks, \<open>'d\<close> the handoff data an application attaches.\<close>

record ('cb, 'd) http_response =
  hr_mem :: membuf
  hr_body_mem :: membuf
  hr_status :: u32
  hr_reason :: "byte list"
  hr_headers :: "http_header list"
  hr_nheaders :: u64
  hr_after_res :: "'cb option"
  hr_handoff_data :: 'd

text \<open>\<open>http_header_reset\<close>.\<close>

definition header_reset :: http_header where
  "header_reset = \<lparr>hh_name = 0, hh_name_len = 0, hh_val = 0, hh_val_len = 0\<rparr>"

definition http_request_init :: "block \<Rightarrow> http_request" where
  "http_request_init blk = \<lparr>hq_mem = membuf_init blk 5000000, hq_minor_version = 0, hq_method = 0,
     hq_method_len = 0, hq_path = 0, hq_path_len = 0, hq_headers = replicate HTTP_HEADERS_MAX header_reset,
     hq_nheaders = of_nat HTTP_HEADERS_MAX, hq_body = 0, hq_body_len = 0\<rparr>"

definition http_request_reset :: "http_request \<Rightarrow> http_request" where
  "http_request_reset req = \<lparr>hq_mem = membuf_reset (hq_mem req), hq_minor_version = 0, hq_method = 0,
     hq_method_len = 0, hq_path = 0, hq_path_len = 0, hq_headers = replicate HTTP_HEADERS_MAX header_reset,
     hq_nheaders = of_nat HTTP_HEADERS_MAX, hq_body = 0, hq_body_len = 0\<rparr>"

definition uninitialized :: "byte list" where
  "uninitialized = [85, 110, 105, 110, 105, 116, 105, 97, 108, 105, 122, 101, 100]"

text \<open>\<open>init\<close> does not set the handoff data; \<open>d\<close> is what the memory held.\<close>

definition http_response_init :: "block \<Rightarrow> block \<Rightarrow> 'd \<Rightarrow> ('cb, 'd) http_response" where
  "http_response_init blk body_blk d = \<lparr>hr_mem = membuf_init blk 4096, hr_body_mem = membuf_init body_blk 5000000,
     hr_status = 0, hr_reason = uninitialized, hr_headers = replicate HTTP_HEADERS_MAX header_reset,
     hr_nheaders = 0, hr_after_res = None, hr_handoff_data = d\<rparr>"

definition http_response_reset :: "('cb, 'd) http_response \<Rightarrow> ('cb, 'd) http_response" where
  "http_response_reset res = res\<lparr>hr_mem := membuf_reset (hr_mem res), hr_body_mem := membuf_reset (hr_body_mem res),
     hr_status := 0, hr_reason := uninitialized, hr_headers := replicate HTTP_HEADERS_MAX header_reset,
     hr_nheaders := 0, hr_after_res := None\<rparr>"

definition http_response_add_header ::
  "('cb, 'd) http_response \<Rightarrow> addr \<Rightarrow> u64 \<Rightarrow> addr \<Rightarrow> u64 \<Rightarrow> int \<times> ('cb, 'd) http_response" where
  "http_response_add_header res name name_len val val_len =
     (if hr_nheaders res = of_nat HTTP_HEADERS_MAX then (- EBUSY, res)
      else
        let h = \<lparr>hh_name = name, hh_name_len = name_len, hh_val = val, hh_val_len = val_len\<rparr>
        in (0, res\<lparr>hr_headers := (hr_headers res)[unat (hr_nheaders res) := h],
                   hr_nheaders := hr_nheaders res + 1\<rparr>))"

section \<open>Parsing\<close>

definition ptr_of :: "membuf \<Rightarrow> nat option \<Rightarrow> addr" where
  "ptr_of mem p = (case p of None \<Rightarrow> 0 | Some k \<Rightarrow> mb_begin mem + of_nat k)"

definition pos_of :: "membuf \<Rightarrow> addr \<Rightarrow> nat option" where
  "pos_of mem a = (if a = 0 then None else Some (unat (a - mb_begin mem)))"

definition to_phr :: "membuf \<Rightarrow> http_header \<Rightarrow> phr_header" where
  "to_phr mem h = \<lparr>hd_name = pos_of mem (hh_name h), hd_name_len = unat (hh_name_len h),
     hd_value = pos_of mem (hh_val h), hd_value_len = unat (hh_val_len h)\<rparr>"

definition of_phr :: "membuf \<Rightarrow> phr_header \<Rightarrow> http_header" where
  "of_phr mem h = \<lparr>hh_name = ptr_of mem (hd_name h), hh_name_len = of_nat (hd_name_len h),
     hh_val = ptr_of mem (hd_value h), hh_val_len = of_nat (hd_value_len h)\<rparr>"

definition http_parse_request :: "http_request \<Rightarrow> int option \<times> http_request" where
  "http_parse_request req =
     (let mem = hq_mem req;
          (r, q) = phr_parse_request (used_bytes mem) (map (to_phr mem) (hq_headers req)) HTTP_HEADERS_MAX
             (unat (mb_prev mem - mb_begin mem))
      in (r, req\<lparr>hq_minor_version := rq_minor q,
               hq_method := ptr_of mem (rq_method q), hq_method_len := of_nat (rq_method_len q),
               hq_path := ptr_of mem (rq_path q), hq_path_len := of_nat (rq_path_len q),
               hq_headers := map (of_phr mem) (fst (rq_hdrs q)), hq_nheaders := of_nat (snd (rq_hdrs q))\<rparr>))"

section \<open>Looking up headers\<close>

text \<open>The memory from an address of the buffer on.\<close>

definition mem_from :: "membuf \<Rightarrow> addr \<Rightarrow> byte list" where
  "mem_from mem a = drop (unat (a - mb_begin mem)) (mb_data mem)"

definition header_matches :: "membuf \<Rightarrow> byte list \<Rightarrow> http_header \<Rightarrow> bool" where
  "header_matches mem name h \<longleftrightarrow>
     strncmp_eq (min (unat (hh_name_len h)) (length name)) (mem_from mem (hh_name h)) name"

fun find_first :: "('a \<Rightarrow> bool) \<Rightarrow> 'a list \<Rightarrow> nat \<Rightarrow> nat option" where
  "find_first P [] i = None"
| "find_first P (x # xs) i = (if P x then Some i else find_first P xs (i + 1))"

text \<open>The index of the header found; \<open>name_len\<close> is the length of the name in all calls.\<close>

definition http_request_find_header :: "http_request \<Rightarrow> byte list \<Rightarrow> nat option" where
  "http_request_find_header req name =
     find_first (header_matches (hq_mem req) name) (take (unat (hq_nheaders req)) (hq_headers req)) 0"

definition content_length :: "byte list" where
  "content_length = [67, 111, 110, 116, 101, 110, 116, 45, 76, 101, 110, 103, 116, 104]"

definition http_request_determine_body_len :: "http_request \<Rightarrow> u64" where
  "http_request_determine_body_len req =
     (case http_request_find_header req content_length of
        None \<Rightarrow> 0
      | Some i \<Rightarrow>
          let h = hq_headers req ! i;
              (ret, n) = strtoll 0 (mem_from (hq_mem req) (hh_val h));
              endptr = hh_val h + of_nat n
          in if endptr \<noteq> hh_val h + hh_val_len h then 0 else word_of_int ret)"

section \<open>Properties\<close>

lemma find_first_Some:
  "find_first P xs i = Some j \<Longrightarrow> i \<le> j \<and> j - i < length xs \<and> P (xs ! (j - i)) \<and> (\<forall>k < j - i. \<not> P (xs ! k))"
proof (induction xs arbitrary: i)
  case (Cons x xs)
  show ?case
  proof (cases "P x")
    case False
    with Cons.prems have "find_first P xs (i + 1) = Some j" by simp
    from Cons.IH [OF this] False show ?thesis
      by (auto simp: nth_Cons')
  qed (use Cons.prems in auto)
qed simp

lemma find_first_None: "find_first P xs i = None \<longleftrightarrow> (\<forall>x \<in> set xs. \<not> P x)"
  by (induction xs arbitrary: i) auto

text \<open>The name of a header.\<close>

definition name_of :: "membuf \<Rightarrow> http_header \<Rightarrow> byte list" where
  "name_of mem h = take (unat (hh_name_len h)) (mem_from mem (hh_name h))"

definition val_of :: "membuf \<Rightarrow> http_header \<Rightarrow> byte list" where
  "val_of mem h = take (unat (hh_val_len h)) (mem_from mem (hh_val h))"

text \<open>The comparison stops at the shorter of the two names.\<close>

lemma header_matches_iff:
  assumes "length (name_of mem h) = unat (hh_name_len h)" "0 \<notin> set name"
  shows "header_matches mem name h \<longleftrightarrow>
    take (length name) (name_of mem h) = take (length (name_of mem h)) name"
proof -
  let ?n = "min (unat (hh_name_len h)) (length name)"
  have l: "?n \<le> length (mem_from mem (hh_name h))" using assms(1) by (simp add: name_of_def min_def split: if_splits)
  have z: "0 \<notin> set (take ?n name)" using assms(2) by (meson in_set_takeD)
  have "header_matches mem name h \<longleftrightarrow> take ?n (mem_from mem (hh_name h)) = take ?n name"
    unfolding header_matches_def by (rule strncmp_eq_iff [OF l _ z]) simp
  also have "take ?n (mem_from mem (hh_name h)) = take (length name) (name_of mem h)"
    by (simp add: name_of_def min.commute)
  also have "take ?n name = take (length (name_of mem h)) name"
    by (simp add: assms(1) min_def)
  finally show ?thesis .
qed

text \<open>Looking up a header returns the first one whose name agrees with the wanted name up to the
  length of the shorter of the two.  So it finds a header of exactly that name unless an earlier one
  matches, but also one whose name is a proper prefix or extension, and any continuing line, whose name
  is empty.\<close>

theorem find_header_first_match:
  assumes "\<forall>h \<in> set (take (unat (hq_nheaders req)) (hq_headers req)). length (name_of (hq_mem req) h) = unat (hh_name_len h)"
    and "0 \<notin> set name"
  shows "(case http_request_find_header req name of
      None \<Rightarrow> \<forall>h \<in> set (take (unat (hq_nheaders req)) (hq_headers req)).
        take (length name) (name_of (hq_mem req) h) \<noteq> take (length (name_of (hq_mem req) h)) name
    | Some i \<Rightarrow> i < unat (hq_nheaders req) \<and> i < length (hq_headers req) \<and>
        (\<forall>k \<le> i. (take (length name) (name_of (hq_mem req) (hq_headers req ! k)) =
            take (length (name_of (hq_mem req) (hq_headers req ! k))) name) \<longleftrightarrow> k = i))"
proof (cases "http_request_find_header req name")
  case None
  then have "\<forall>h \<in> set (take (unat (hq_nheaders req)) (hq_headers req)). \<not> header_matches (hq_mem req) name h"
    by (simp add: http_request_find_header_def find_first_None)
  then show ?thesis using None assms header_matches_iff by simp
next
  case (Some i)
  let ?hs = "take (unat (hq_nheaders req)) (hq_headers req)"
  have f: "i < length ?hs" "header_matches (hq_mem req) name (?hs ! i)"
    "\<forall>k < i. \<not> header_matches (hq_mem req) name (?hs ! k)"
    using find_first_Some [OF Some [unfolded http_request_find_header_def]] by auto
  have m: "header_matches (hq_mem req) name (hq_headers req ! k) \<longleftrightarrow>
      take (length name) (name_of (hq_mem req) (hq_headers req ! k)) = take (length (name_of (hq_mem req) (hq_headers req ! k))) name"
    if "k \<le> i" for k
  proof (rule header_matches_iff [OF _ assms(2)])
    have "?hs ! k \<in> set ?hs" using f(1) that by (intro nth_mem) simp
    then show "length (name_of (hq_mem req) (hq_headers req ! k)) = unat (hh_name_len (hq_headers req ! k))"
      using assms(1) f(1) that by simp
  qed
  have "\<forall>k \<le> i. header_matches (hq_mem req) name (hq_headers req ! k) \<longleftrightarrow> k = i"
    using f by (auto simp: le_less)
  then show ?thesis using Some f(1) m by simp
qed

end
