(* ===== verification/HttpProps.thy ===== *)
theory HttpProps
  imports Http
begin

text \<open>
  A request received into an empty buffer: what the parser reports denotes the parts of the request
  text, and the length of the body is the number the client wrote.
\<close>

section \<open>Positions and addresses\<close>

lemma pos_ptr:
  assumes "k < 2 ^ 64"
  shows "unat (mb_begin mem + of_nat k - mb_begin mem) = k"
  using assms by (simp add: unat_of_nat take_bit_nat_eq_self)

lemma mem_from_ptr: "k < 2 ^ 64 \<Longrightarrow> mem_from mem (mb_begin mem + of_nat k) = drop k (mb_data mem)"
  unfolding mem_from_def by (simp only: pos_ptr)

lemma unat_of_nat64: "k < 2 ^ 64 \<Longrightarrow> unat (of_nat k :: u64) = k"
  by (simp add: unat_of_nat take_bit_nat_eq_self)

lemma used_prefix: "mb_data mem = used_bytes mem @ drop (unat (membuf_used mem)) (mb_data mem)"
  by (simp add: used_bytes_def)

section \<open>The parts of a request text\<close>

lemma entries_slices:
  assumes "drop p b = concat (map header_line nvs) @ r" "i < length nvs"
  shows "\<exists>k r'. entries p nvs ! i = entry k (nvs ! i) \<and> drop k b = header_line (nvs ! i) @ r'"
  using assms
proof (induction nvs arbitrary: p i)
  case (Cons nv nvs)
  show ?case
  proof (cases i)
    case 0
    then show ?thesis using Cons.prems(1) by (intro exI [of _ p]) auto
  next
    case (Suc j)
    have "drop (length (header_line nv)) (drop p b) = concat (map header_line nvs) @ r"
      using Cons.prems(1) by simp
    then have "drop (p + length (header_line nv)) b = concat (map header_line nvs) @ r"
      by (simp add: add.commute)
    from Cons.IH [OF this, of j] show ?thesis using Cons.prems(2) Suc by simp
  qed
qed simp

lemma drop_add: "drop i b = u @ v \<Longrightarrow> drop (i + length u) b = v"
  by (metis append_eq_conv_conj drop_drop add.commute)

lemma entry_denotes:
  assumes "drop k (mb_data mem) = header_line nv @ r" "length (mb_data mem) < 2 ^ 64"
  shows "name_of mem (of_phr mem (entry k nv)) = fst nv" "val_of mem (of_phr mem (entry k nv)) = snd nv"
    "mem_from mem (hh_val (of_phr mem (entry k nv))) = snd nv @ 13 # 10 # r"
    "unat (hh_name_len (of_phr mem (entry k nv))) = length (fst nv)"
    "unat (hh_val_len (of_phr mem (entry k nv))) = length (snd nv)"
proof -
  have "length (drop k (mb_data mem)) = length (header_line nv @ r)" using assms(1) by simp
  then have l: "k + length (header_line nv) \<le> length (mb_data mem)" by (simp add: header_line_def)
  then have b: "k < 2 ^ 64" "k + length (fst nv) + 2 < 2 ^ 64" "length (fst nv) < 2 ^ 64" "length (snd nv) < 2 ^ 64"
    using assms(2) by (simp_all add: header_line_def)
  have d: "drop k (mb_data mem) = (fst nv @ [58, 32]) @ snd nv @ 13 # 10 # r"
    using assms(1) by (simp add: header_line_def)
  have v: "drop (k + length (fst nv) + 2) (mb_data mem) = snd nv @ 13 # 10 # r"
    using drop_add [OF d] by simp
  show n: "unat (hh_name_len (of_phr mem (entry k nv))) = length (fst nv)"
    "unat (hh_val_len (of_phr mem (entry k nv))) = length (snd nv)"
    using b by (simp_all add: of_phr_def entry_def unat_of_nat64)
  show m: "mem_from mem (hh_val (of_phr mem (entry k nv))) = snd nv @ 13 # 10 # r"
    unfolding of_phr_def entry_def ptr_of_def using v mem_from_ptr [OF b(2), of mem] by simp
  show "name_of mem (of_phr mem (entry k nv)) = fst nv"
    using n(1) d mem_from_ptr [OF b(1), of mem] unfolding name_of_def by (simp add: of_phr_def entry_def ptr_of_def)
  show "val_of mem (of_phr mem (entry k nv)) = snd nv" using n(2) m unfolding val_of_def by simp
qed

lemma parse_text:
  assumes "text_ok t" and "length (tx_headers t) \<le> 16" and "length (hq_headers req) = 16"
    and "mb_ok (hq_mem req)" and "mb_prev (hq_mem req) = mb_begin (hq_mem req)"
    and "used_bytes (hq_mem req) = request_bytes t @ rest"
  shows "\<exists>req'. http_parse_request req = (Some (int (length (request_bytes t))), req') \<and> hq_mem req' = hq_mem req \<and>
    take (unat (hq_method_len req')) (mem_from (hq_mem req) (hq_method req')) = tx_method t \<and>
    take (unat (hq_path_len req')) (mem_from (hq_mem req) (hq_path req')) = tx_path t \<and>
    hq_minor_version req' = int (tx_minor t) \<and>
    unat (hq_nheaders req') = length (tx_headers t) \<and> length (hq_headers req') = 16 \<and>
    (\<forall>i < length (tx_headers t). name_of (hq_mem req) (hq_headers req' ! i) = fst (tx_headers t ! i) \<and>
       val_of (hq_mem req) (hq_headers req' ! i) = snd (tx_headers t ! i) \<and>
       unat (hh_name_len (hq_headers req' ! i)) = length (fst (tx_headers t ! i)) \<and>
       unat (hh_val_len (hq_headers req' ! i)) = length (snd (tx_headers t ! i)) \<and>
       (\<exists>r. mem_from (hq_mem req) (hh_val (hq_headers req' ! i)) = snd (tx_headers t ! i) @ 13 # r))"
proof -
  let ?mem = "hq_mem req" and ?m = "length (tx_method t)" and ?p = "length (tx_path t)"
  let ?hs = "map (to_phr ?mem) (hq_headers req)" and ?k = "?m + ?p + 12"
  let ?q = "\<lparr>rq_method = Some 0, rq_method_len = ?m, rq_path = Some (?m + 1), rq_path_len = ?p, rq_minor = int (tx_minor t),
      rq_hdrs = (entries ?k (tx_headers t) @ drop (length (tx_headers t)) ?hs, length (tx_headers t))\<rparr>"
  have p: "phr_parse_request (request_bytes t @ rest) ?hs 16 0 = (Some (int (length (request_bytes t))), ?q)"
    using parse_request_text [OF assms(1), of 16 ?hs rest] assms(2,3) by simp
  define req' where "req' = snd (http_parse_request req)"
  have run: "http_parse_request req = (Some (int (length (request_bytes t))), req')"
    and f: "hq_mem req' = ?mem" "hq_method req' = mb_begin ?mem" "hq_method_len req' = of_nat ?m"
    "hq_path req' = mb_begin ?mem + of_nat (?m + 1)" "hq_path_len req' = of_nat ?p"
    "hq_minor_version req' = int (tx_minor t)" "hq_nheaders req' = of_nat (length (tx_headers t))"
    "hq_headers req' = map (of_phr ?mem) (entries ?k (tx_headers t) @ drop (length (tx_headers t)) ?hs)"
    using p assms(5,6) by (simp_all add: req'_def http_parse_request_def HTTP_HEADERS_MAX_def ptr_of_def Let_def)
  obtain junk where d: "mb_data ?mem = request_bytes t @ junk"
    using used_prefix [of ?mem] assms(6) by (metis append.assoc)
  have "length (mb_data ?mem) < 2 ^ 64"
    using assms(4) unsigned_less [where 'a = nat, of "mb_end ?mem - mb_begin ?mem"] by (simp add: mb_ok_def)
  moreover have "?m + ?p + 12 \<le> length (request_bytes t)" by (simp add: request_bytes_def http1_def)
  ultimately have small: "?m < 2 ^ 64" "?m + 1 < 2 ^ 64" "?p < 2 ^ 64" and ld: "length (mb_data ?mem) < 2 ^ 64"
    using d by auto
  have me: "take (unat (hq_method_len req')) (mem_from ?mem (hq_method req')) = tx_method t"
    unfolding f(2,3) unat_of_nat64 [OF small(1)] mem_from_def using d by (simp add: request_bytes_def)
  have dp: "drop (?m + 1) (mb_data ?mem) = tx_path t @ ([32] @ http1 @ [48 + of_nat (tx_minor t), 13, 10] @
      concat (map header_line (tx_headers t)) @ [13, 10] @ junk)"
    using d by (simp add: request_bytes_def)
  have pa: "take (unat (hq_path_len req')) (mem_from ?mem (hq_path req')) = tx_path t"
    unfolding f(4,5) unat_of_nat64 [OF small(3)] mem_from_ptr [OF small(2)] dp by simp
  have dh: "drop ?k (mb_data ?mem) = concat (map header_line (tx_headers t)) @ ([13, 10] @ junk)"
  proof -
    let ?line = "tx_method t @ [32] @ tx_path t @ [32] @ http1 @ [48 + of_nat (tx_minor t), 13, 10]"
    have "drop 0 (mb_data ?mem) = ?line @ concat (map header_line (tx_headers t)) @ ([13, 10] @ junk)"
      using d by (simp add: request_bytes_def)
    from drop_add [OF this] show ?thesis by (simp add: http1_def numeral_eq_Suc)
  qed
  have n16: "length (tx_headers t) < 2 ^ 64" using assms(2) by simp
  have hd: "name_of ?mem (hq_headers req' ! i) = fst (tx_headers t ! i) \<and>
       val_of ?mem (hq_headers req' ! i) = snd (tx_headers t ! i) \<and>
       unat (hh_name_len (hq_headers req' ! i)) = length (fst (tx_headers t ! i)) \<and>
       unat (hh_val_len (hq_headers req' ! i)) = length (snd (tx_headers t ! i)) \<and>
       (\<exists>r. mem_from ?mem (hh_val (hq_headers req' ! i)) = snd (tx_headers t ! i) @ 13 # r)" if i: "i < length (tx_headers t)" for i
  proof -
    obtain k r where k: "entries ?k (tx_headers t) ! i = entry k (tx_headers t ! i)"
      "drop k (mb_data ?mem) = header_line (tx_headers t ! i) @ r"
      using entries_slices [OF dh i] by blast
    have "hq_headers req' ! i = of_phr ?mem (entry k (tx_headers t ! i))"
      using i k(1) by (simp add: f(8) nth_append)
    then show ?thesis using entry_denotes [OF k(2) ld] by simp
  qed
  have "length (hq_headers req') = 16" using assms(2,3) by (simp add: f(8))
  then show ?thesis
    using run f(1,6) me pa hd by (intro exI [of _ req']) (simp add: f(7) unat_of_nat64 [OF n16])
qed

text \<open>A request the server receives in one read is parsed into what the client wrote: the method,
  path and version denote the text of the request line, there is one entry for every header, and its
  name and value denote the name and value of that header.\<close>

theorem parse_reads_request:
  assumes "text_ok t" and "length (tx_headers t) \<le> 16" and "length (hq_headers req) = 16"
    and "mb_ok (hq_mem req)" and "mb_prev (hq_mem req) = mb_begin (hq_mem req)"
    and "used_bytes (hq_mem req) = request_bytes t @ rest"
  shows "\<exists>req'. http_parse_request req = (Some (int (length (request_bytes t))), req') \<and> hq_mem req' = hq_mem req \<and>
    take (unat (hq_method_len req')) (mem_from (hq_mem req) (hq_method req')) = tx_method t \<and>
    take (unat (hq_path_len req')) (mem_from (hq_mem req) (hq_path req')) = tx_path t \<and>
    hq_minor_version req' = int (tx_minor t) \<and>
    unat (hq_nheaders req') = length (tx_headers t) \<and> length (hq_headers req') = 16 \<and>
    (\<forall>i < length (tx_headers t). name_of (hq_mem req) (hq_headers req' ! i) = fst (tx_headers t ! i) \<and>
       val_of (hq_mem req) (hq_headers req' ! i) = snd (tx_headers t ! i) \<and>
       unat (hh_name_len (hq_headers req' ! i)) = length (fst (tx_headers t ! i)))"
  using parse_text [OF assms] by blast

definition sample_request :: http_request where
  "sample_request = \<lparr>hq_mem = \<lparr>mb_begin = 4096, mb_cur = 4120, mb_prev = 4096, mb_end = 4128,
       mb_data = get_request @ replicate 8 0\<rparr>,
     hq_minor_version = 0, hq_method = 0, hq_method_len = 0, hq_path = 0, hq_path_len = 0,
     hq_headers = replicate 16 header_reset, hq_nheaders = 16, hq_body = 0, hq_body_len = 0\<rparr>"

definition sample_text :: request_text where
  "sample_text = \<lparr>tx_method = [71, 69, 84], tx_path = [47], tx_minor = 1, tx_headers = [([65], [98])]\<rparr>"

theorem parse_reads_request_witness:
  "\<exists>req'. http_parse_request sample_request = (Some 24, req') \<and>
    take (unat (hq_path_len req')) (mem_from (hq_mem sample_request) (hq_path req')) = [47] \<and>
    name_of (hq_mem sample_request) (hq_headers req' ! 0) = [65] \<and>
    val_of (hq_mem sample_request) (hq_headers req' ! 0) = [98]"
proof -
  have c: "text_ok sample_text" "length (tx_headers sample_text) \<le> 16" "length (hq_headers sample_request) = 16"
    "mb_ok (hq_mem sample_request)" "mb_prev (hq_mem sample_request) = mb_begin (hq_mem sample_request)"
    "used_bytes (hq_mem sample_request) = request_bytes sample_text @ []"
    "length (request_bytes sample_text) = 24" "tx_path sample_text = [47]" "tx_headers sample_text = [([65], [98])]"
    by code_simp+
  show ?thesis using parse_reads_request [OF c(1-6)] by (auto simp: c(7-9))
qed

section \<open>The length of the body\<close>

text \<open>When the header found for Content-Length holds a decimal number without a leading zero, in the
  range of the library's number type, and nothing else, the body length is that number.\<close>

theorem body_len_decimal:
  assumes "http_request_find_header req content_length = Some i"
    and "mem_from (hq_mem req) (hh_val (hq_headers req ! i)) = ds @ c0 # r"
    and "hh_val_len (hq_headers req ! i) = of_nat (length ds)"
    and "ds \<noteq> []" and "\<forall>c \<in> set ds. is_digit c" and "hd ds \<noteq> 48" and "10 \<le> digit_val c0"
    and "digits_value 10 ds \<le> LLONG_MAX"
  shows "http_request_determine_body_len req = word_of_int (digits_value 10 ds)"
  using assms strtoll_decimal [OF assms(5,4,6,7,8), of r]
  by (simp add: http_request_determine_body_len_def Let_def)

definition post_request :: http_request where
  "post_request = sample_request\<lparr>hq_mem := \<lparr>mb_begin = 4096, mb_cur = 4118, mb_prev = 4096, mb_end = 4118,
       mb_data = content_length @ [58, 32, 52, 50, 13, 10, 13, 10]\<rparr>,
     hq_headers := \<lparr>hh_name = 4096, hh_name_len = 14, hh_val = 4112, hh_val_len = 2\<rparr> # replicate 15 header_reset,
     hq_nheaders := 1\<rparr>"

theorem body_len_decimal_witness: "http_request_determine_body_len post_request = 42"
proof -
  have c: "http_request_find_header post_request content_length = Some 0"
    "mem_from (hq_mem post_request) (hh_val (hq_headers post_request ! 0)) = [52, 50] @ 13 # [10, 13, 10]"
    "hh_val_len (hq_headers post_request ! 0) = of_nat (length [52, 50 :: byte])"
    "\<forall>c \<in> set [52, 50 :: byte]. is_digit c" "(10 :: nat) \<le> digit_val 13"
    "digits_value 10 [52, 50] = 42" "(42 :: int) \<le> LLONG_MAX"
    by code_simp+
  show ?thesis using body_len_decimal [OF c(1-3) _ c(4)] c(5-7) by simp
qed

text \<open>A leading zero changes the base: a Content-Length of 010 is read as eight bytes, although HTTP
  writes lengths in decimal.\<close>

theorem body_len_octal:
  assumes "http_request_find_header req content_length = Some i"
    and "mem_from (hq_mem req) (hh_val (hq_headers req ! i)) = [48, 49, 48] @ 13 # r"
    and "hh_val_len (hq_headers req ! i) = 3"
  shows "http_request_determine_body_len req = 8"
proof -
  have "strtoll 0 ([48, 49, 48] @ 13 # r) = (8, 3)"
    by (simp add: strtoll_def Let_def isspace_def num_prefix_def digit_val_def digits_value_def saturate_def
        LLONG_MAX_def LLONG_MIN_def)
  then show ?thesis using assms by (simp add: http_request_determine_body_len_def Let_def)
qed

theorem body_len_octal_witness:
  "http_request_determine_body_len (post_request\<lparr>
     hq_mem := (hq_mem post_request)\<lparr>mb_data := content_length @ [58, 32, 48, 49, 48, 13, 10, 10]\<rparr>,
     hq_headers := \<lparr>hh_name = 4096, hh_name_len = 14, hh_val = 4112, hh_val_len = 3\<rparr> # replicate 15 header_reset\<rparr>) = 8"
    (is "http_request_determine_body_len ?req = 8")
proof -
  have c: "http_request_find_header ?req content_length = Some 0"
    "mem_from (hq_mem ?req) (hh_val (hq_headers ?req ! 0)) = [48, 49, 48] @ 13 # [10, 10]"
    "hh_val_len (hq_headers ?req ! 0) = 3"
    by code_simp+
  show ?thesis using body_len_octal [OF c] .
qed

theorem find_header_first_match_witness:
  "http_request_find_header post_request [67, 111] = Some 0 \<and>
    take 2 (name_of (hq_mem post_request) (hq_headers post_request ! 0)) = [67, 111]"
proof -
  have "\<forall>h \<in> set (take (unat (hq_nheaders post_request)) (hq_headers post_request)).
      length (name_of (hq_mem post_request) h) = unat (hh_name_len h)" "(0 :: byte) \<notin> set [67, 111]"
    "http_request_find_header post_request [67, 111] = Some 0"
    by code_simp+
  moreover have "length (name_of (hq_mem post_request) (hq_headers post_request ! 0)) = 14" by code_simp
  ultimately show ?thesis using find_header_first_match [of post_request "[67, 111]"] by (auto simp: numeral_2_eq_2)
qed

end
