(* ===== verification/HttpExport.thy ===== *)
theory HttpExport
  imports HttpProps
begin

text \<open>
  Moving a request to another server, src/http_export.cpp: the buffer is copied and every pointer
  becomes its offset from the start of the buffer, a 64-bit field of the message, so that differences
  wrap around.
\<close>

section \<open>The message\<close>

record HTTPHeader =
  name_ofs :: u64
  name_len :: u64
  val_ofs :: u64
  val_len :: u64

record HTTPReq =
  ex_buf :: "byte list"
  ex_minor_version :: u32
  ex_method_ofs :: u64
  ex_method_len :: u64
  ex_path_ofs :: u64
  ex_path_len :: u64
  ex_body_ofs :: u64
  ex_body_len :: u64
  ex_nheaders :: u64
  ex_headers :: "HTTPHeader list"

definition export_header :: "addr \<Rightarrow> http_header \<Rightarrow> HTTPHeader" where
  "export_header begin' h = \<lparr>name_ofs = hh_name h - begin', name_len = hh_name_len h,
     val_ofs = hh_val h - begin', val_len = hh_val_len h\<rparr>"

definition http_request_export :: "http_request \<Rightarrow> HTTPReq" where
  "http_request_export req =
     (let mem = hq_mem req; b = mb_begin mem
      in \<lparr>ex_buf = take (unat (mb_cur mem - b)) (mb_data mem),
          ex_minor_version = word_of_int (hq_minor_version req),
          ex_method_ofs = hq_method req - b, ex_method_len = hq_method_len req,
          ex_path_ofs = hq_path req - b, ex_path_len = hq_path_len req,
          ex_body_ofs = (if hq_body req \<noteq> 0 then hq_body req - b else 0),
          ex_body_len = (if hq_body req \<noteq> 0 then hq_body_len req else 0),
          ex_nheaders = hq_nheaders req,
          ex_headers = map (export_header b) (take (unat (hq_nheaders req)) (hq_headers req))\<rparr>)"

definition import_header :: "addr \<Rightarrow> HTTPHeader \<Rightarrow> http_header" where
  "import_header begin' h = \<lparr>hh_name = begin' + name_ofs h, hh_name_len = name_len h,
     hh_val = begin' + val_ofs h, hh_val_len = val_len h\<rparr>"

text \<open>
  The result is \<open>None\<close> when the copy runs over the end of the block, when more headers are announced
  than the message holds (the accessor aborts), or when they do not fit the array.
\<close>

definition http_request_import :: "block \<Rightarrow> http_request \<Rightarrow> HTTPReq \<Rightarrow> http_request option" where
  "http_request_import blk req ex =
     (let mem = hq_mem req;
          len = of_nat (length (ex_buf ex));
          mem = (if membuf_avail mem < len then membuf_grow blk mem (len - membuf_avail mem) else mem)
      in case memcpy_cur mem (ex_buf ex) of
           None \<Rightarrow> None
         | Some mem \<Rightarrow>
             let mem = snd (membuf_consume mem len);
                 n = unat (ex_nheaders ex);
                 req = req\<lparr>hq_mem := mem,
                   hq_minor_version := sint (ex_minor_version ex),
                   hq_method := mb_begin mem + ex_method_ofs ex, hq_method_len := ex_method_len ex,
                   hq_path := mb_begin mem + ex_path_ofs ex, hq_path_len := ex_path_len ex,
                   hq_body := (if ex_body_len ex = 0 then 0 else mb_begin mem + ex_body_ofs ex),
                   hq_body_len := ex_body_len ex,
                   hq_nheaders := ex_nheaders ex\<rparr>
             in if length (ex_headers ex) < n \<or> HTTP_HEADERS_MAX < n then None
                else Some (req\<lparr>hq_headers :=
                  map (import_header (mb_begin mem)) (take n (ex_headers ex)) @ drop n (hq_headers req)\<rparr>))"

section \<open>Round trip\<close>

text \<open>Two requests agree when their buffers hold the same bytes and all their pointers lie at the
  same offsets.\<close>

definition same_request :: "http_request \<Rightarrow> http_request \<Rightarrow> bool" where
  "same_request r r' \<longleftrightarrow>
     (let b = mb_begin (hq_mem r); b' = mb_begin (hq_mem r') in
      used_bytes (hq_mem r') = used_bytes (hq_mem r) \<and>
      hq_minor_version r' = hq_minor_version r \<and>
      hq_method r' - b' = hq_method r - b \<and> hq_method_len r' = hq_method_len r \<and>
      hq_path r' - b' = hq_path r - b \<and> hq_path_len r' = hq_path_len r \<and>
      hq_body_len r' = hq_body_len r \<and> (hq_body_len r \<noteq> 0 \<longrightarrow> hq_body r' - b' = hq_body r - b) \<and>
      hq_nheaders r' = hq_nheaders r \<and>
      (\<forall>i < unat (hq_nheaders r).
         hh_name (hq_headers r' ! i) - b' = hh_name (hq_headers r ! i) - b \<and>
         hh_name_len (hq_headers r' ! i) = hh_name_len (hq_headers r ! i) \<and>
         hh_val (hq_headers r' ! i) - b' = hh_val (hq_headers r ! i) - b \<and>
         hh_val_len (hq_headers r' ! i) = hh_val_len (hq_headers r ! i)))"

lemma memcpy_empty:
  assumes "mb_ok mem" "membuf_used mem = 0" "length src \<le> unat (membuf_avail mem)"
  obtains mem' where "memcpy_cur mem src = Some mem'" "mb_begin mem' = mb_begin mem"
    "used_bytes (snd (membuf_consume mem' (of_nat (length src)))) = src"
    "mb_begin (snd (membuf_consume mem' (of_nat (length src)))) = mb_begin mem"
proof -
  let ?m' = "mem\<lparr>mb_data := stn (mb_data mem) 0 src\<rparr>"
  have l: "length src \<le> length (mb_data mem)" using assms unat_avail [OF assms(1)] by simp
  have c: "memcpy_cur mem src = Some ?m'" using l assms(2) by (simp add: memcpy_cur_def)
  have "length src < 2 ^ 64"
    using l unsigned_less [where 'a = nat, of "mb_end mem - mb_begin mem"] assms(1) by (simp add: mb_ok_def)
  then have u: "unat (of_nat (length src) :: u64) = length src" by (rule unat_of_nat64)
  have a: "membuf_avail ?m' = membuf_avail mem" "membuf_used ?m' = 0"
    using assms(2) by (simp_all add: membuf_avail_def membuf_used_def)
  have "\<not> membuf_avail mem < of_nat (length src)" using assms(3) u by (simp add: word_less_nat_alt)
  then have cs: "snd (membuf_consume ?m' (of_nat (length src))) =
      ?m'\<lparr>mb_prev := mb_cur mem, mb_cur := mb_cur mem + of_nat (length src)\<rparr>"
    by (simp add: membuf_consume_def a)
  have "mb_cur mem = mb_begin mem" using assms(2) by (simp add: membuf_used_def)
  then have us: "used_bytes (snd (membuf_consume ?m' (of_nat (length src)))) = src"
    unfolding cs using l u ldn_stn_same [of 0 src "mb_data mem" "length src"]
    by (simp add: used_bytes_def membuf_used_def ldn_def)
  show thesis by (rule that [OF c _ us]) (simp_all add: cs)
qed

lemma export_import:
  assumes "mb_ok (hq_mem req)" and "unat (hq_nheaders req) \<le> 16" and "length (hq_headers req) = 16"
    and "hq_body req = 0 \<longrightarrow> hq_body_len req = 0" and "hq_minor_version req \<in> {0..9}"
    and "mb_ok (hq_mem dst)" and "membuf_used (hq_mem dst) = 0"
    and "membuf_used (hq_mem req) \<le> membuf_avail (hq_mem dst)"
  shows "\<exists>req'. http_request_import blk dst (http_request_export req) = Some req' \<and> same_request req req'"
proof -
  let ?ex = "http_request_export req" and ?n = "unat (hq_nheaders req)"
  have buf: "ex_buf ?ex = used_bytes (hq_mem req)"
    by (simp add: http_request_export_def used_bytes_def membuf_used_def Let_def)
  have len: "length (ex_buf ?ex) = unat (membuf_used (hq_mem req))" using length_used [OF assms(1)] buf by simp
  then have le: "length (ex_buf ?ex) \<le> unat (membuf_avail (hq_mem dst))"
    using assms(8) by (simp add: word_le_nat_alt)
  have ng: "\<not> membuf_avail (hq_mem dst) < of_nat (length (ex_buf ?ex))"
    using assms(8) len by simp
  obtain m where m: "memcpy_cur (hq_mem dst) (ex_buf ?ex) = Some m"
    "used_bytes (snd (membuf_consume m (of_nat (length (ex_buf ?ex))))) = ex_buf ?ex"
    using memcpy_empty [OF assms(6,7) le] by metis
  let ?mem = "snd (membuf_consume m (of_nat (length (ex_buf ?ex))))"
  have hs: "length (ex_headers ?ex) = ?n" "unat (ex_nheaders ?ex) = ?n"
    using assms(2,3) by (simp_all add: http_request_export_def Let_def)
  define req' where "req' = the (http_request_import blk dst ?ex)"
  have imp: "http_request_import blk dst ?ex = Some req'" and mem': "hq_mem req' = ?mem"
    and f: "hq_minor_version req' = sint (ex_minor_version ?ex)"
      "hq_method req' = mb_begin ?mem + ex_method_ofs ?ex" "hq_method_len req' = ex_method_len ?ex"
      "hq_path req' = mb_begin ?mem + ex_path_ofs ?ex" "hq_path_len req' = ex_path_len ?ex"
      "hq_body req' = (if ex_body_len ?ex = 0 then 0 else mb_begin ?mem + ex_body_ofs ?ex)"
      "hq_body_len req' = ex_body_len ?ex" "hq_nheaders req' = ex_nheaders ?ex"
      "hq_headers req' = map (import_header (mb_begin ?mem)) (ex_headers ?ex) @ drop ?n (hq_headers dst)"
    using m ng hs assms(2) by (simp_all add: req'_def http_request_import_def HTTP_HEADERS_MAX_def Let_def)
  have ver: "sint (word_of_int (hq_minor_version req) :: u32) = hq_minor_version req"
    using assms(5) by (simp add: signed_of_int signed_take_bit_int_eq_self)
  have same: "same_request req req'"
  proof -
    have h: "hq_headers req' ! i = import_header (mb_begin ?mem) (export_header (mb_begin (hq_mem req)) (hq_headers req ! i))"
      if "i < ?n" for i
      using that hs(1) assms(2,3) by (simp add: f(9) nth_append) (simp add: http_request_export_def Let_def)
    have e: "ex_minor_version ?ex = word_of_int (hq_minor_version req)"
      "ex_method_ofs ?ex = hq_method req - mb_begin (hq_mem req)" "ex_method_len ?ex = hq_method_len req"
      "ex_path_ofs ?ex = hq_path req - mb_begin (hq_mem req)" "ex_path_len ?ex = hq_path_len req"
      "ex_body_len ?ex = hq_body_len req" "hq_body_len req \<noteq> 0 \<longrightarrow> ex_body_ofs ?ex = hq_body req - mb_begin (hq_mem req)"
      "ex_nheaders ?ex = hq_nheaders req"
      using assms(4) by (auto simp: http_request_export_def Let_def)
    show ?thesis
      unfolding same_request_def Let_def mem' f(1-8) e(1-6,8) ver
      using h e(7) m(2) [unfolded buf] by (simp add: import_header_def export_header_def buf)
  qed
  show ?thesis using imp same by blast
qed

text \<open>C22: a request survives the move to another server: exported, and imported into an empty buffer
  that is large enough, it has the same bytes, the same version, and every pointer of it, to the
  method, the path, the body and each header, at the same place in the new buffer.\<close>

theorem request_export_import:
  assumes "mb_ok (hq_mem req)" and "unat (hq_nheaders req) \<le> 16" and "length (hq_headers req) = 16"
    and "hq_body req = 0 \<longrightarrow> hq_body_len req = 0" and "hq_minor_version req \<in> {0..9}"
    and "mb_ok (hq_mem dst)" and "membuf_used (hq_mem dst) = 0"
    and "membuf_used (hq_mem req) \<le> membuf_avail (hq_mem dst)"
  shows "\<exists>req'. http_request_import blk dst (http_request_export req) = Some req' \<and> same_request req req'"
  by (rule export_import [OF assms])

section \<open>Buffers that must grow\<close>

text \<open>When the receiving buffer has some room but too little, the import writes over the end of the
  block: the buffer is grown by the missing amount, but growing makes that amount available in total,
  not in addition to what there was.\<close>

theorem import_overflows:
  assumes "mb_ok (hq_mem dst)" and "0 < unat (membuf_avail (hq_mem dst))"
    and "unat (membuf_avail (hq_mem dst)) < length (ex_buf ex)"
    and "unat (membuf_used (hq_mem dst)) + length (ex_buf ex) < 2 ^ 64"
  shows "http_request_import blk dst ex = None"
proof -
  let ?mem = "hq_mem dst" and ?len = "of_nat (length (ex_buf ex)) :: u64"
  have u: "unat ?len = length (ex_buf ex)" using assms(4) by (intro unat_of_nat64) simp
  have less: "membuf_avail ?mem < ?len" using assms(3) u by (simp add: word_less_nat_alt)
  then have d: "unat (?len - membuf_avail ?mem) = length (ex_buf ex) - unat (membuf_avail ?mem)"
    using u by (simp add: unat_sub word_le_nat_alt word_less_nat_alt)
  have g: "unat (membuf_used ?mem) + unat (?len - membuf_avail ?mem) < 2 ^ 64" using assms(4) d by simp
  note gr = grow_ok [OF assms(1) g, of blk]
  have "length (mb_data (membuf_grow blk ?mem (?len - membuf_avail ?mem))) =
      unat (membuf_used ?mem) + (length (ex_buf ex) - unat (membuf_avail ?mem))"
    using unat_avail [OF gr(1)] gr(2,3) d by simp
  then have "memcpy_cur (membuf_grow blk ?mem (?len - membuf_avail ?mem)) (ex_buf ex) = None"
    using assms(2,3) gr(3) by (simp add: memcpy_cur_def)
  then show ?thesis using less by (simp add: http_request_import_def Let_def)
qed

text \<open>A continuing header line, whose name is NULL, does not keep its NULL name: in a buffer at
  another address it gets the difference of the two addresses as its name.\<close>

theorem null_name_not_preserved:
  assumes "hh_name h = 0" and "b' \<noteq> b"
  shows "hh_name (import_header b' (export_header b h)) = b' - b \<and> hh_name (import_header b' (export_header b h)) \<noteq> 0"
  using assms by (simp add: import_header_def export_header_def)

theorem null_name_not_preserved_witness:
  "hh_name (import_header 8192 (export_header 4096 header_reset)) \<noteq> 0"
  using null_name_not_preserved [of header_reset 8192 4096] by (simp add: header_reset_def)

definition empty_request :: http_request where
  "empty_request = sample_request\<lparr>hq_mem := membuf_init (65536, \<lambda>_. 0) 32\<rparr>"

theorem request_export_import_witness:
  "\<exists>req'. http_request_import (0, \<lambda>_. 0) empty_request (http_request_export post_request) = Some req' \<and>
    hq_nheaders req' = 1 \<and> used_bytes (hq_mem req') = used_bytes (hq_mem post_request)"
proof -
  have c: "mb_ok (hq_mem post_request)" "unat (hq_nheaders post_request) \<le> 16" "length (hq_headers post_request) = 16"
    "hq_body post_request = 0 \<longrightarrow> hq_body_len post_request = 0" "hq_minor_version post_request \<in> {0..9}"
    "mb_ok (hq_mem empty_request)" "membuf_used (hq_mem empty_request) = 0"
    "membuf_used (hq_mem post_request) \<le> membuf_avail (hq_mem empty_request)" "hq_nheaders post_request = 1"
    by code_simp+
  show ?thesis
    using request_export_import [OF c(1-8), of "(0, \<lambda>_. 0)"] by (auto simp: same_request_def Let_def c(9))
qed

theorem import_overflows_witness:
  "http_request_import (0, \<lambda>_. 0) (sample_request\<lparr>hq_mem := membuf_init (65536, \<lambda>_. 0) 16\<rparr>)
     (http_request_export post_request) = None"
proof -
  have c: "mb_ok (membuf_init (65536, \<lambda>_. 0) 16)" "unat (membuf_avail (membuf_init (65536, \<lambda>_. 0) 16)) = 16"
    "unat (membuf_used (membuf_init (65536, \<lambda>_. 0) 16)) = 0" "length (ex_buf (http_request_export post_request)) = 22"
    by code_simp+
  show ?thesis
    using import_overflows [of "sample_request\<lparr>hq_mem := membuf_init (65536, \<lambda>_. 0) 16\<rparr>"
        "http_request_export post_request" "(0, \<lambda>_. 0)"]
    by (simp add: c)
qed

end
