(* ===== verification/HandoffServer.thy ===== *)
theory HandoffServer
  imports HttpExport PswProto
begin

text \<open>
  The receiving end of the handoff protocol, src/phttp_handoff_server.cpp: frames of a 4-byte length,
  padding up to a multiple of eight, and a serialized message, cut out of the bytes that have arrived.
  The protobuf parser is a parameter; a failed assertion, an access outside the buffer's block and a
  \<open>memmove\<close> of a negative length are \<open>None\<close>.
\<close>

section \<open>The connection\<close>

record ho_conn =
  ho_mem :: membuf

definition http_handoff_client_socket_init :: "block \<Rightarrow> ho_conn" where
  "http_handoff_client_socket_init blk = \<lparr>ho_mem = membuf_init blk 5000000\<rparr>"

text \<open>The buffer libuv may fill: its address and length.\<close>

definition ho_on_alloc :: "block \<Rightarrow> ho_conn \<Rightarrow> (addr \<times> u64) \<times> ho_conn" where
  "ho_on_alloc blk conn =
     (let mem = (if membuf_avail (ho_mem conn) < 1024 then membuf_grow blk (ho_mem conn) 4096 else ho_mem conn)
      in ((mb_cur mem, membuf_avail mem), conn\<lparr>ho_mem := mem\<rparr>))"

section \<open>Cutting out frames\<close>

definition padlen_of :: "u32 \<Rightarrow> u32" where
  "padlen_of buflen = (if buflen mod 8 = 0 then 0 else 8 - buflen mod 8)"

text \<open>\<open>used\<close> and \<open>cursor\<close> are the offsets of \<open>req_mem->cur\<close> and of the cursor in the block.\<close>

function ho_loop ::
  "(byte list \<Rightarrow> 'msg option) \<Rightarrow> byte list \<Rightarrow> nat \<Rightarrow> nat \<Rightarrow> 'msg list \<Rightarrow> (nat \<times> 'msg list) option" where
  "ho_loop parse data used cursor msgs =
     (if cursor \<le> used \<and> used - cursor < 4 then Some (cursor, msgs)
      else if length data < cursor + 4 then None
      else
        let buflen = ntohl (ld32 data cursor);
            padlen = padlen_of buflen
        in if int used - int cursor < uint (buflen + padlen) then Some (cursor, msgs)
           else
             let c = cursor + 4 + unat padlen
             in if length data < c + unat buflen then None
                else case parse (take (unat buflen) (drop c data)) of
                       None \<Rightarrow> None
                     | Some m \<Rightarrow> ho_loop parse data used (c + unat buflen) (msgs @ [m]))"
  by pat_completeness auto
termination by (relation "measure (\<lambda>(p, d, u, c, m). length d - c)") auto

declare ho_loop.simps [simp del]

definition memmove_front :: "membuf \<Rightarrow> nat \<Rightarrow> nat \<Rightarrow> membuf" where
  "memmove_front mem cursor rem =
     mem\<lparr>mb_data := take rem (drop cursor (mb_data mem)) @ drop rem (mb_data mem)\<rparr>"

text \<open>A read of \<open>nread\<close> bytes that libuv has put at the end of the used part.  The result are the
  messages given to \<open>phttp_on_handoff\<close>, or \<open>Inl\<close> when the connection is closed.\<close>

definition ho_on_read ::
  "(byte list \<Rightarrow> 'msg option) \<Rightarrow> int \<Rightarrow> ho_conn \<Rightarrow> (unit + ho_conn \<times> 'msg list) option" where
  "ho_on_read parse nread conn =
     (if nread = 0 then Some (Inr (conn, []))
      else if nread < 0 then Some (Inl ())
      else
        let (error, mem) = membuf_consume (ho_mem conn) (word_of_int nread)
        in if error \<noteq> 0 then None
           else
             let used = unat (membuf_used mem)
             in case ho_loop parse (mb_data mem) used 0 [] of
                  None \<Rightarrow> None
                | Some (cursor, msgs) \<Rightarrow>
                    if used < cursor then None
                    else
                      let rem = used - cursor;
                          mem = membuf_reset (memmove_front mem cursor rem);
                          mem = snd (membuf_consume mem (of_nat rem))
                      in Some (Inr (conn\<lparr>ho_mem := mem\<rparr>, msgs)))"

section \<open>Frames\<close>

text \<open>What the sending end writes (\<open>after_real_close\<close> in src/phttp_hoproto_export2.cpp): the header with
  its padding, which it does not initialize, and the message.\<close>

definition pad_count :: "nat \<Rightarrow> nat" where
  "pad_count n = (if n mod 8 = 0 then 0 else 8 - n mod 8)"

definition ho_frame :: "byte list \<Rightarrow> byte list \<Rightarrow> byte list" where
  "ho_frame junk s = bytes32 (htonl (of_nat (length s))) @ take (pad_count (length s)) junk @ s"

definition frame_ok :: "byte list \<Rightarrow> byte list \<Rightarrow> bool" where
  "frame_ok junk s \<longleftrightarrow> length s + 8 < 2 ^ 32 \<and> pad_count (length s) \<le> length junk"

lemma pad_count_le: "pad_count n < 8"
  by (simp add: pad_count_def)

lemma padlen_nat:
  assumes "n + 8 < 2 ^ 32"
  shows "unat (padlen_of (of_nat n)) = pad_count n" "unat (of_nat n :: u32) = n"
    "uint (of_nat n + padlen_of (of_nat n)) = int (n + pad_count n)"
proof -
  show u: "unat (of_nat n :: u32) = n" using assms by (simp add: unat_of_nat take_bit_nat_eq_self)
  have m: "unat ((of_nat n :: u32) mod 8) = n mod 8" by (simp add: unat_mod u)
  have z: "(of_nat n :: u32) mod 8 = 0 \<longleftrightarrow> n mod 8 = 0"
    by (metis m unat_eq_zero)
  have le: "(of_nat n :: u32) mod 8 \<le> 8" by (simp add: word_le_nat_alt m)
  show p: "unat (padlen_of (of_nat n)) = pad_count n"
    using m z le by (simp add: padlen_of_def pad_count_def unat_sub)
  have "unat (of_nat n + padlen_of (of_nat n)) = n + pad_count n"
    using assms pad_count_le [of n] by (simp add: unat_word_ariths u p)
  then show "uint (of_nat n + padlen_of (of_nat n)) = int (n + pad_count n)"
    by (metis int_nat_eq unat_eq_nat_uint uint_ge_0 nat_0_le)
qed

lemma length_frame: "frame_ok junk s \<Longrightarrow> length (ho_frame junk s) = 4 + pad_count (length s) + length s"
  by (simp add: ho_frame_def frame_ok_def)

lemma frame_header:
  assumes "drop c data = bytes32 (htonl (of_nat n)) @ r"
  shows "ntohl (ld32 data c) = of_nat n"
proof -
  have l: "c \<le> length data" using assms by (metis drop_all append_is_Nil_conv bytes32_def bytes16_def list.distinct(1) nat_le_linear append_Cons)
  have "ld32 (take c data @ drop c data) (length (take c data) + 0) = ld32 (drop c data) 0" by (rule shift_loads)
  then have "ld32 data c = ld32 (drop c data) 0" using l by simp
  then show ?thesis using assms by (simp add: load_append)
qed

text \<open>One whole frame at the cursor: its message is parsed and the cursor moves behind it.\<close>

lemma ho_loop_frame:
  assumes "drop c data = ho_frame junk s @ r" "frame_ok junk s" "c + length (ho_frame junk s) \<le> used"
    "used \<le> length data" "parse s = Some m"
  shows "ho_loop parse data used c msgs = ho_loop parse data used (c + length (ho_frame junk s)) (msgs @ [m])"
proof -
  let ?n = "length s"
  have sm: "?n + 8 < 2 ^ 32" using assms(2) by (simp add: frame_ok_def)
  note pn = padlen_nat [OF sm]
  have h: "ntohl (ld32 data c) = of_nat ?n" by (rule frame_header) (use assms(1) in \<open>simp add: ho_frame_def\<close>)
  have lf: "length (ho_frame junk s) = 4 + pad_count ?n + ?n" by (rule length_frame [OF assms(2)])
  have "drop c data = (bytes32 (htonl (of_nat ?n)) @ take (pad_count ?n) junk) @ s @ r"
    using assms(1) by (simp add: ho_frame_def)
  from drop_add [OF this] have ds: "drop (c + 4 + pad_count ?n) data = s @ r"
    using assms(2) by (simp add: frame_ok_def add.assoc)
  have "\<not> used - c < 4" using assms(3) lf by linarith
  then show ?thesis
    using assms(3-5) lf pn ds
    by (subst ho_loop.simps) (simp add: h Let_def add.assoc)
qed

text \<open>The bytes of the next frame that are already there: fewer than its length word, or at least five
  bytes short of the whole frame.\<close>

definition partial_ok :: "byte list \<Rightarrow> bool" where
  "partial_ok p \<longleftrightarrow> length p < 4 \<or>
     (\<exists>junk s. frame_ok junk s \<and> length p + 4 < length (ho_frame junk s) \<and> p = take (length p) (ho_frame junk s))"

lemma ho_loop_partial:
  assumes "drop c data = p @ r" "partial_ok p" "used = c + length p" "used \<le> length data"
  shows "ho_loop parse data used c msgs = Some (c, msgs)"
proof (cases "length p < 4")
  case True
  then show ?thesis using assms by (subst ho_loop.simps) simp
next
  case False
  then obtain junk s where f: "frame_ok junk s" "length p + 4 < length (ho_frame junk s)"
    "p = take (length p) (ho_frame junk s)"
    using assms(2) by (auto simp: partial_ok_def)
  have sm: "length s + 8 < 2 ^ 32" using f(1) by (simp add: frame_ok_def)
  have "take 4 p = take 4 (ho_frame junk s)" using f(3) False by (metis min.absorb1 not_less take_take)
  then have "take 4 p = bytes32 (htonl (of_nat (length s)))" by (simp add: ho_frame_def)
  then have "p = bytes32 (htonl (of_nat (length s))) @ drop 4 p" by (metis append_take_drop_id)
  then have "drop c data = bytes32 (htonl (of_nat (length s))) @ (drop 4 p @ r)"
    using assms(1) by (metis append.assoc)
  then have h: "ntohl (ld32 data c) = of_nat (length s)" by (rule frame_header)
  show ?thesis
    using assms(3,4) False f(1,2) padlen_nat [OF sm] length_frame [OF f(1)]
    by (subst ho_loop.simps) (simp add: h Let_def)
qed

fun frames_bytes :: "(byte list \<times> byte list) list \<Rightarrow> byte list" where
  "frames_bytes [] = []"
| "frames_bytes (f # fs) = ho_frame (fst f) (snd f) @ frames_bytes fs"

lemma ho_loop_stream:
  assumes "drop c data = frames_bytes fs @ p @ r" "\<forall>f \<in> set fs. frame_ok (fst f) (snd f)"
    "used = c + length (frames_bytes fs) + length p" "used \<le> length data" "partial_ok p"
    "list_all2 (\<lambda>f m. parse (snd f) = Some m) fs ms"
  shows "ho_loop parse data used c msgs = Some (c + length (frames_bytes fs), msgs @ ms)"
  using assms
proof (induction fs arbitrary: c ms msgs)
  case Nil
  then show ?case using ho_loop_partial [of c data p r used parse msgs] by simp
next
  case (Cons f fs)
  obtain m ms' where ms: "ms = m # ms'" "parse (snd f) = Some m" "list_all2 (\<lambda>f m. parse (snd f) = Some m) fs ms'"
    using Cons.prems(6) by (auto simp: list_all2_Cons1)
  have d: "drop c data = ho_frame (fst f) (snd f) @ (frames_bytes fs @ p @ r)" using Cons.prems(1) by simp
  have "ho_loop parse data used c msgs = ho_loop parse data used (c + length (ho_frame (fst f) (snd f))) (msgs @ [m])"
    by (rule ho_loop_frame [OF d]) (use Cons.prems ms in auto)
  also have "\<dots> = Some (c + length (ho_frame (fst f) (snd f)) + length (frames_bytes fs), (msgs @ [m]) @ ms')"
    by (rule Cons.IH [OF drop_add [OF d]]) (use Cons.prems ms in auto)
  finally show ?case by (simp add: ms add.assoc)
qed

section \<open>Reads\<close>

lemma after_read:
  assumes "mb_ok mem" "0 < nread" "int nread \<le> uint (membuf_avail mem)"
  shows "fst (membuf_consume mem (word_of_int (int nread))) = 0"
    "unat (membuf_used (snd (membuf_consume mem (word_of_int (int nread))))) = unat (membuf_used mem) + nread"
    "mb_ok (snd (membuf_consume mem (word_of_int (int nread))))"
    "mb_data (snd (membuf_consume mem (word_of_int (int nread)))) = mb_data mem"
proof -
  let ?n = "of_nat nread :: u64"
  have n: "nread < 2 ^ 64"
    using assms(3) unsigned_less [where 'a = int, of "membuf_avail mem"] by simp
  have le: "?n \<le> membuf_avail mem"
    using assms(3) unat_of_nat64 [OF n] by (simp add: word_le_nat_alt flip: uint_nat) (metis int_nat_eq nat_int nat_le_iff of_nat_le_iff uint_nat)
  note c = consume_ok [OF assms(1) le]
  have w: "word_of_int (int nread) = ?n" by simp
  show "fst (membuf_consume mem (word_of_int (int nread))) = 0"
    "mb_data (snd (membuf_consume mem (word_of_int (int nread)))) = mb_data mem"
    unfolding w using le by (auto simp: membuf_consume_def)
  show "mb_ok (snd (membuf_consume mem (word_of_int (int nread))))"
    "unat (membuf_used (snd (membuf_consume mem (word_of_int (int nread))))) = unat (membuf_used mem) + nread"
    unfolding w using c unat_of_nat64 [OF n] by simp_all
qed

lemma shift_rest:
  assumes "mb_ok mem" "unat (membuf_used mem) = c + n" "c + n \<le> length (mb_data mem)"
  shows "mb_ok (snd (membuf_consume (membuf_reset (memmove_front mem c n)) (of_nat n)))"
    "used_bytes (snd (membuf_consume (membuf_reset (memmove_front mem c n)) (of_nat n))) = take n (drop c (mb_data mem))"
proof -
  let ?m = "membuf_reset (memmove_front mem c n)"
  have d: "mb_data ?m = take n (drop c (mb_data mem)) @ drop n (mb_data mem)"
    and p: "mb_begin ?m = mb_begin mem" "mb_end ?m = mb_end mem" "mb_cur ?m = mb_begin mem"
    by (simp_all add: membuf_reset_def memmove_front_def)
  have l: "length (mb_data ?m) = length (mb_data mem)" using assms(3) by (simp add: d)
  have ok: "mb_ok ?m" using assms(1) l by (simp add: mb_ok_def membuf_reset_def memmove_front_def)
  have u0: "membuf_used ?m = 0" by (simp add: membuf_used_def p)
  have n: "n < 2 ^ 64"
    using assms(1,3) unsigned_less [where 'a = nat, of "mb_end mem - mb_begin mem"] by (simp add: mb_ok_def)
  have le: "of_nat n \<le> membuf_avail ?m"
    using unat_avail(1) [OF ok] u0 l assms(3) unat_of_nat64 [OF n] by (simp add: word_le_nat_alt)
  note c = consume_ok [OF ok le]
  show "mb_ok (snd (membuf_consume ?m (of_nat n)))" by (rule c(1))
  have "mb_data (snd (membuf_consume ?m (of_nat n))) = mb_data ?m" by (simp add: membuf_consume_def)
  then show "used_bytes (snd (membuf_consume ?m (of_nat n))) = take n (drop c (mb_data mem))"
    unfolding used_bytes_def c(2) u0 using unat_of_nat64 [OF n] assms(3) by (simp add: d)
qed

lemma frames_delivered:
  assumes "mb_ok (ho_mem conn)" and "0 < n" and "int n \<le> uint (membuf_avail (ho_mem conn))"
    and "take (unat (membuf_used (ho_mem conn)) + n) (mb_data (ho_mem conn)) = frames_bytes fs @ p"
    and "\<forall>f \<in> set fs. frame_ok (fst f) (snd f)" and "partial_ok p"
    and "list_all2 (\<lambda>f m. parse (snd f) = Some m) fs ms"
  shows "\<exists>conn'. ho_on_read parse (int n) conn = Some (Inr (conn', ms)) \<and> used_bytes (ho_mem conn') = p \<and> mb_ok (ho_mem conn')"
proof -
  let ?mem = "snd (membuf_consume (ho_mem conn) (word_of_int (int n)))"
  let ?u = "unat (membuf_used (ho_mem conn)) + n" and ?c = "length (frames_bytes fs)"
  note a = after_read [OF assms(1-3)]
  have l: "?u \<le> length (mb_data (ho_mem conn))" using unat_avail(2) [OF a(3)] a(2,4) by simp
  then have lu: "?u = ?c + length p"
    using arg_cong [OF assms(4), of length] by simp
  have d: "drop 0 (mb_data (ho_mem conn)) = frames_bytes fs @ p @ drop ?u (mb_data (ho_mem conn))"
    using assms(4) append_take_drop_id [of ?u "mb_data (ho_mem conn)"] by simp
  have run: "ho_loop parse (mb_data (ho_mem conn)) ?u 0 [] = Some (0 + ?c, [] @ ms)"
    by (rule ho_loop_stream [OF d assms(5) _ l assms(6,7)]) (use lu in simp)
  let ?new = "snd (membuf_consume (membuf_reset (memmove_front ?mem ?c (length p))) (of_nat (length p)))"
  have res: "ho_on_read parse (int n) conn = Some (Inr (conn\<lparr>ho_mem := ?new\<rparr>, ms))"
    using a run assms(2) lu by (auto simp: ho_on_read_def Let_def split: prod.splits)
  have "drop ?c (mb_data (ho_mem conn)) = p @ drop ?u (mb_data (ho_mem conn))" using drop_add [OF d] by simp
  then have "take (length p) (drop ?c (mb_data ?mem)) = p" unfolding a(4) by simp
  moreover have "?c + length p \<le> length (mb_data ?mem)" using l lu a(4) by simp
  ultimately show ?thesis
    using res shift_rest [OF a(3), of ?c "length p"] a(2) lu by (intro exI [of _ "conn\<lparr>ho_mem := ?new\<rparr>"]) simp
qed

text \<open>C29: when the bytes that have arrived on a handoff connection are some whole frames and a part of
  the next one that lacks more than its last four bytes, exactly the messages of the whole frames are
  taken over, in order, and the part is kept for the next read.\<close>

theorem handoff_frames_delivered:
  assumes "mb_ok (ho_mem conn)" and "0 < n" and "int n \<le> uint (membuf_avail (ho_mem conn))"
    and "take (unat (membuf_used (ho_mem conn)) + n) (mb_data (ho_mem conn)) = frames_bytes fs @ p"
    and "\<forall>f \<in> set fs. frame_ok (fst f) (snd f)" and "partial_ok p"
    and "list_all2 (\<lambda>f m. parse (snd f) = Some m) fs ms"
  shows "\<exists>conn'. ho_on_read parse (int n) conn = Some (Inr (conn', ms)) \<and> used_bytes (ho_mem conn') = p \<and> mb_ok (ho_mem conn')"
  by (rule frames_delivered [OF assms])

text \<open>A frame of which only the last one to four bytes are missing brings the server down: the check
  for a complete frame leaves out the four bytes of the length word, so the message is cut out with
  bytes that have not arrived, and even when these happen to parse, the number of remaining bytes is
  negative.\<close>

theorem short_frame_crashes:
  assumes "mb_ok (ho_mem conn)" and "0 < n" and "int n \<le> uint (membuf_avail (ho_mem conn))"
    and "take (unat (membuf_used (ho_mem conn)) + n) (mb_data (ho_mem conn)) = p"
    and "frame_ok junk s" and "p = take (length p) (ho_frame junk s)"
    and "length p < length (ho_frame junk s)" and "length (ho_frame junk s) \<le> length p + 4" and "4 \<le> length p"
  shows "ho_on_read parse (int n) conn = None"
proof -
  let ?u = "unat (membuf_used (ho_mem conn)) + n" and ?data = "mb_data (ho_mem conn)"
  note a = after_read [OF assms(1-3)]
  have l: "?u \<le> length ?data" using unat_avail(2) [OF a(3)] a(2,4) by simp
  then have lu: "?u = length p" using arg_cong [OF assms(4), of length] by simp
  have sm: "length s + 8 < 2 ^ 32" using assms(5) by (simp add: frame_ok_def)
  note pn = padlen_nat [OF sm] and lf = length_frame [OF assms(5)]
  have "take 4 p = take 4 (ho_frame junk s)" using assms(6,9) by (metis min.absorb1 take_take)
  then have "take 4 p = bytes32 (htonl (of_nat (length s)))" by (simp add: ho_frame_def)
  then have "p = bytes32 (htonl (of_nat (length s))) @ drop 4 p" by (metis append_take_drop_id)
  moreover have "drop 0 ?data = p @ drop ?u ?data"
    using assms(4) append_take_drop_id [of ?u ?data] by simp
  ultimately have "drop 0 ?data = bytes32 (htonl (of_nat (length s))) @ (drop 4 p @ drop ?u ?data)"
    by (metis append.assoc)
  then have h: "ntohl (ld32 ?data 0) = of_nat (length s)" by (rule frame_header)
  have "(case ho_loop parse ?data ?u 0 [] of None \<Rightarrow> True | Some (c, _) \<Rightarrow> ?u < c)"
  proof -
    let ?e = "4 + pad_count (length s) + length s"
    have e: "?u < ?e" "4 \<le> ?u" using lf lu assms(7,9) by simp_all
    have stop: "(case ho_loop parse ?data ?u ?e ms of None \<Rightarrow> True | Some (c, _) \<Rightarrow> ?u < c)" for ms
    proof -
      have "int ?u - int ?e < uint w" for w :: u32
        using e uint_ge_0 [of w] by linarith
      then show ?thesis using e by (subst ho_loop.simps) (simp add: Let_def)
    qed
    have nb: "\<not> int ?u - int 0 < uint (of_nat (length s) + padlen_of (of_nat (length s)))"
      using pn(3) lf lu assms(8) by simp
    have "\<not> (0 \<le> ?u \<and> ?u - 0 < 4)" "\<not> length ?data < 0 + 4" using e l by simp_all
    then have step: "ho_loop parse ?data ?u 0 [] = (if length ?data < ?e then None
        else case parse (take (length s) (drop (4 + pad_count (length s)) ?data)) of None \<Rightarrow> None
          | Some m \<Rightarrow> ho_loop parse ?data ?u ?e [m])"
      using nb pn(1,2) by (subst ho_loop.simps) (simp add: h Let_def cong: option.case_cong)
    show ?thesis
    proof (cases "parse (take (length s) (drop (4 + pad_count (length s)) ?data))")
      case (Some m)
      then show ?thesis unfolding step using stop [of "[m]"] by simp
    qed (simp add: step)
  qed
  then show ?thesis
    using a assms(2) by (auto simp: ho_on_read_def Let_def split: prod.splits option.splits)
qed

text \<open>A connection with room for 64 bytes that has received the 11 bytes of a frame.\<close>

definition sample_msg :: "byte list" where "sample_msg = [1, 2, 3]"

definition sample_conn :: "byte list \<Rightarrow> ho_conn" where
  "sample_conn bs = \<lparr>ho_mem = \<lparr>mb_begin = 4096, mb_cur = 4096, mb_prev = 4096, mb_end = 4160,
     mb_data = bs @ replicate (64 - length bs) 0\<rparr>\<rparr>"

lemma sample_frame_ok: "frame_ok [9, 9, 9, 9, 9] sample_msg"
  by (simp add: frame_ok_def pad_count_def sample_msg_def)

theorem handoff_frames_delivered_witness:
  "\<exists>conn'. ho_on_read (\<lambda>b. Some b) 13 (sample_conn (ho_frame [9, 9, 9, 9, 9] sample_msg @ [0])) = Some (Inr (conn', [sample_msg])) \<and>
    used_bytes (ho_mem conn') = [0]"
proof -
  let ?c = "sample_conn (ho_frame [9, 9, 9, 9, 9] sample_msg @ [0])"
  have c: "mb_ok (ho_mem ?c)" "int 13 \<le> uint (membuf_avail (ho_mem ?c))"
    "take (unat (membuf_used (ho_mem ?c)) + 13) (mb_data (ho_mem ?c)) = frames_bytes [([9, 9, 9, 9, 9], sample_msg)] @ [0]"
    by code_simp+
  show ?thesis
    using handoff_frames_delivered [OF c(1) _ c(2,3), of "\<lambda>b. Some b" "[sample_msg]"] sample_frame_ok
    by (auto simp: partial_ok_def)
qed

theorem short_frame_crashes_witness:
  "ho_on_read (\<lambda>b. Some b) 11 (sample_conn (take 11 (ho_frame [9, 9, 9, 9, 9] sample_msg))) = None"
proof -
  let ?p = "take 11 (ho_frame [9, 9, 9, 9, 9] sample_msg)"
  have c: "mb_ok (ho_mem (sample_conn ?p))" "int 11 \<le> uint (membuf_avail (ho_mem (sample_conn ?p)))"
    "take (unat (membuf_used (ho_mem (sample_conn ?p))) + 11) (mb_data (ho_mem (sample_conn ?p))) = ?p"
    "?p = take (length ?p) (ho_frame [9, 9, 9, 9, 9] sample_msg)"
    "length ?p < length (ho_frame [9, 9, 9, 9, 9] sample_msg)"
    "length (ho_frame [9, 9, 9, 9, 9] sample_msg) \<le> length ?p + 4" "4 \<le> length ?p"
    by code_simp+
  show ?thesis by (rule short_frame_crashes [OF c(1) _ c(2,3) sample_frame_ok c(4-7), of "\<lambda>b. Some b", simplified])
qed

end
