(* ===== verification/PhttpServer.thy ===== *)
theory PhttpServer
  imports HttpExport
begin

text \<open>
  The connection of a client, src/phttp_server.cpp: bytes are received into the buffer of the request
  until a request is complete, the request handler fills in a response, and the response is written
  out.  The handler, the start of a handoff and the memory that header strings of the response point
  to are parameters.  A failed assertion is \<open>None\<close>.
\<close>

section \<open>The connection\<close>

datatype http_state = HTTP_PARSING_HEADER | HTTP_RECEIVING_BODY

record ('cb, 'd) client_socket =
  hc_state :: http_state
  hc_req :: http_request
  hc_res :: "('cb, 'd) http_response"
  hc_imported :: bool

datatype 'cb action = Close | Start_handoff | Write "byte list" | After_res 'cb

type_synonym ('cb, 'd) handler = "http_request \<Rightarrow> ('cb, 'd) http_response \<Rightarrow> int \<times> http_request \<times> ('cb, 'd) http_response"

definition http_client_socket_init ::
  "block \<Rightarrow> block \<Rightarrow> block \<Rightarrow> 'd \<Rightarrow> ('cb, 'd) client_socket" where
  "http_client_socket_init b1 b2 b3 d = \<lparr>hc_state = HTTP_PARSING_HEADER, hc_req = http_request_init b1,
     hc_res = http_response_init b2 b3 d, hc_imported = False\<rparr>"

definition phttp_on_alloc :: "block \<Rightarrow> ('cb, 'd) client_socket \<Rightarrow> (addr \<times> u64) \<times> ('cb, 'd) client_socket" where
  "phttp_on_alloc blk hcs =
     (let mem = hq_mem (hc_req hcs);
          mem = (if membuf_avail mem < 1024 then membuf_grow blk mem 4096 else mem)
      in ((mb_cur mem, membuf_avail mem), hcs\<lparr>hc_req := (hc_req hcs)\<lparr>hq_mem := mem\<rparr>\<rparr>))"

section \<open>Sending a response\<close>

function dec :: "nat \<Rightarrow> byte list" where
  "dec n = (if n < 10 then [48 + of_nat n] else dec (n div 10) @ [48 + of_nat (n mod 10)])"
  by pat_completeness auto
termination by (relation "measure id") auto

declare dec.simps [simp del]

text \<open>\<open>snprintf\<close> of a text without format errors, with the assertion that follows every call.\<close>

definition mem_print :: "membuf \<Rightarrow> byte list \<Rightarrow> membuf option" where
  "mem_print mem s =
     (if s \<noteq> [] \<and> length s < unat (membuf_avail mem) then
        (case memcpy_cur mem (s @ [0]) of
           None \<Rightarrow> None
         | Some mem \<Rightarrow> Some (snd (membuf_consume mem (of_nat (length s)))))
      else None)"

definition http11 :: "byte list" where "http11 = [72, 84, 84, 80, 47, 49, 46, 49, 32]"
definition crlf :: "byte list" where "crlf = [13, 10]"

definition server_line :: "byte list" where
  "server_line = [83, 101, 114, 118, 101, 114, 58, 32, 80, 114, 105, 115, 109, 13, 10]"

text \<open>\<open>%.*s\<close>: at most so many bytes, up to a zero byte.  \<open>peek\<close> is the memory at an address.\<close>

definition str_at :: "(addr \<Rightarrow> byte list) \<Rightarrow> addr \<Rightarrow> u64 \<Rightarrow> byte list" where
  "str_at peek a n = takeWhile (\<lambda>c. c \<noteq> 0) (take (unat n) (peek a))"

definition header_text :: "(addr \<Rightarrow> byte list) \<Rightarrow> http_header \<Rightarrow> byte list" where
  "header_text peek h = str_at peek (hh_name h) (hh_name_len h) @ [58, 32] @ str_at peek (hh_val h) (hh_val_len h) @ crlf"

definition INT_MAX :: int where "INT_MAX = 2147483647"

fun print_headers :: "(addr \<Rightarrow> byte list) \<Rightarrow> http_header list \<Rightarrow> membuf \<Rightarrow> membuf option" where
  "print_headers peek [] mem = Some mem"
| "print_headers peek (h # hs) mem =
     (if uint (hh_name_len h) \<le> INT_MAX \<and> uint (hh_val_len h) \<le> INT_MAX then
        (case mem_print mem (header_text peek h) of
           None \<Rightarrow> None
         | Some mem \<Rightarrow> print_headers peek hs mem)
      else None)"

definition phttp_send_http_res ::
  "(addr \<Rightarrow> byte list) \<Rightarrow> bool \<Rightarrow> ('cb, 'd) http_response \<Rightarrow> (('cb, 'd) http_response \<times> byte list) option" where
  "phttp_send_http_res peek continue_res res =
     (let body_mem = hr_body_mem res;
          head = (if continue_res
            then mem_print (hr_mem res) (http11 @ dec (unat (hr_status res)) @ [32] @ hr_reason res @ crlf)
            else
              (case mem_print (hr_mem res) (http11 @ dec (unat (hr_status res)) @ [32] @ hr_reason res @ crlf @ server_line) of
                 None \<Rightarrow> None
               | Some mem \<Rightarrow>
                   (case mem_print mem (content_length @ [58, 32] @ dec (unat (membuf_used body_mem)) @ crlf) of
                      None \<Rightarrow> None
                    | Some mem \<Rightarrow> print_headers peek (take (unat (hr_nheaders res)) (hr_headers res)) mem)))
      in case head of
           None \<Rightarrow> None
         | Some mem \<Rightarrow>
             if \<not> membuf_avail mem > 2 then None
             else
               (case memcpy_cur mem crlf of
                  None \<Rightarrow> None
                | Some mem \<Rightarrow>
                    let mem = snd (membuf_consume mem 2);
                        bufs = used_bytes mem @ (if membuf_used body_mem \<noteq> 0 then used_bytes body_mem else [])
                    in Some (res\<lparr>hr_mem := mem\<rparr>, bufs)))"

definition after_send_http_res :: "('cb, 'd) client_socket \<Rightarrow> ('cb, 'd) client_socket \<times> 'cb action list" where
  "after_send_http_res hcs =
     (let out = (case hr_after_res (hc_res hcs) of Some f \<Rightarrow> [After_res f] | None \<Rightarrow> [])
      in (hcs\<lparr>hc_req := http_request_reset (hc_req hcs), hc_res := http_response_reset (hc_res hcs)\<rparr>, out))"

definition after_send_continue_res :: "('cb, 'd) client_socket \<Rightarrow> ('cb, 'd) client_socket" where
  "after_send_continue_res hcs = hcs\<lparr>hc_res := http_response_reset (hc_res hcs)\<rparr>"

section \<open>Receiving\<close>

definition internal_error :: "byte list" where
  "internal_error = [73, 110, 116, 101, 114, 110, 97, 108, 32, 83, 101, 114, 118, 101, 114, 32, 69, 114, 114, 111, 114]"

text \<open>The part of \<open>phttp_on_read\<close> behind the switch: a complete request is handled and answered, or
  handed off when the handler answers with the status 600.\<close>

definition handle_request ::
  "(addr \<Rightarrow> byte list) \<Rightarrow> ('cb, 'd) handler \<Rightarrow> int \<Rightarrow> ('cb, 'd) client_socket \<Rightarrow>
   (('cb, 'd) client_socket \<times> 'cb action list) option" where
  "handle_request peek request_handler handoff_error hcs =
     (let (error, req, res) = request_handler (hc_req hcs) (hc_res hcs)
      in if error \<noteq> 0 then None
         else
           let hcs = hcs\<lparr>hc_req := req, hc_res := res\<rparr>
           in if hr_status res = 600 \<and> handoff_error = 0 then Some (hcs, [Start_handoff])
              else
                let res = (if hr_status res = 600 then res\<lparr>hr_status := 500, hr_reason := internal_error\<rparr> else res)
                in case phttp_send_http_res peek False res of
                     None \<Rightarrow> None
                   | Some (res, bytes) \<Rightarrow> Some (hcs\<lparr>hc_res := res\<rparr>, [Write bytes]))"

definition receive_body ::
  "(addr \<Rightarrow> byte list) \<Rightarrow> ('cb, 'd) handler \<Rightarrow> int \<Rightarrow> ('cb, 'd) client_socket \<Rightarrow>
   (('cb, 'd) client_socket \<times> 'cb action list) option" where
  "receive_body peek request_handler handoff_error hcs =
     (let req = hc_req hcs; got = mb_cur (hq_mem req) - hq_body req
      in if got = hq_body_len req then
           handle_request peek request_handler handoff_error (hcs\<lparr>hc_state := HTTP_PARSING_HEADER\<rparr>)
         else if got > hq_body_len req then Some (hcs, [Close])
         else Some (hcs, []))"

definition phttp_on_read ::
  "(addr \<Rightarrow> byte list) \<Rightarrow> ('cb, 'd) handler \<Rightarrow> int \<Rightarrow> int \<Rightarrow> ('cb, 'd) client_socket \<Rightarrow>
   (('cb, 'd) client_socket \<times> 'cb action list) option" where
  "phttp_on_read peek request_handler handoff_error nread hcs =
     (if nread = 0 then Some (hcs, [])
      else if nread < 0 then Some (hcs, [Close])
      else
        let (error, mem) = membuf_consume (hq_mem (hc_req hcs)) (word_of_int nread);
            hcs = hcs\<lparr>hc_req := (hc_req hcs)\<lparr>hq_mem := mem\<rparr>\<rparr>
        in if error \<noteq> 0 then None
           else
             case hc_state hcs of
               HTTP_PARSING_HEADER \<Rightarrow>
                 (let (r, req) = http_parse_request (hc_req hcs); hcs = hcs\<lparr>hc_req := req\<rparr>
                  in case r of
                       None \<Rightarrow> None
                     | Some nparsed \<Rightarrow>
                         if nparsed = -1 then Some (hcs, [Close])
                         else if nparsed = -2 then Some (hcs, [])
                         else
                           let body_len = http_request_determine_body_len req
                           in if body_len = 0 then handle_request peek request_handler handoff_error hcs
                              else
                                let req = req\<lparr>hq_body := mb_prev mem + word_of_int nparsed, hq_body_len := body_len\<rparr>
                                in receive_body peek request_handler handoff_error
                                     (hcs\<lparr>hc_req := req, hc_state := HTTP_RECEIVING_BODY\<rparr>))
             | HTTP_RECEIVING_BODY \<Rightarrow> receive_body peek request_handler handoff_error hcs)"

section \<open>The bytes of a response\<close>

lemma take_stn_append:
  assumes "i + length bs \<le> length p" "n \<le> length bs"
  shows "take (i + n) (stn p i bs) = take i p @ take n bs"
proof (rule nth_equalityI)
  show "length (take (i + n) (stn p i bs)) = length (take i p @ take n bs)" using assms by simp
next
  fix j assume "j < length (take (i + n) (stn p i bs))"
  then have j: "j < i + n" by simp
  show "take (i + n) (stn p i bs) ! j = (take i p @ take n bs) ! j"
  proof (cases "j < i")
    case True
    then show ?thesis using j assms by (simp add: nth_append nth_stn)
  next
    case False
    then have "stn p i bs ! (i + (j - i)) = bs ! (j - i)"
      using j assms by (intro nth_stn_in) auto
    then show ?thesis using False j assms by (simp add: nth_append)
  qed
qed

text \<open>Bytes copied to the write position, of which the first \<open>k\<close> are consumed, are appended.\<close>

lemma memcpy_append:
  assumes "mb_ok mem" "length src \<le> unat (membuf_avail mem)" "k \<le> length src"
  obtains m where "memcpy_cur mem src = Some m" "mb_ok (snd (membuf_consume m (of_nat k)))"
    "used_bytes (snd (membuf_consume m (of_nat k))) = used_bytes mem @ take k src"
    "unat (membuf_avail (snd (membuf_consume m (of_nat k)))) = unat (membuf_avail mem) - k"
proof -
  let ?u = "unat (membuf_used mem)" and ?n = "of_nat k :: u64"
  have fit: "?u + length src \<le> length (mb_data mem)" using assms(2) unat_avail [OF assms(1)] by simp
  let ?m = "mem\<lparr>mb_data := stn (mb_data mem) ?u src\<rparr>"
  have c: "memcpy_cur mem src = Some ?m" using fit by (simp add: memcpy_cur_def)
  have ok: "mb_ok ?m" using assms(1) by (simp add: mb_ok_def)
  have av: "membuf_avail ?m = membuf_avail mem" "membuf_used ?m = membuf_used mem"
    by (simp_all add: membuf_avail_def membuf_used_def)
  have n: "unat ?n = k"
    using assms(2,3) unsigned_less [where 'a = nat, of "membuf_avail mem"] by (intro unat_of_nat64) simp
  have le: "?n \<le> membuf_avail ?m" using assms(2,3) n av by (simp add: word_le_nat_alt)
  note c1 = consume_ok [OF ok le]
  let ?m' = "snd (membuf_consume ?m ?n)"
  have d: "mb_data ?m' = stn (mb_data mem) ?u src" by (simp add: membuf_consume_def)
  have u': "unat (membuf_used ?m') = ?u + k" using c1(2,3) n av by simp
  have "used_bytes ?m' = used_bytes mem @ take k src"
    unfolding used_bytes_def u' d using take_stn_append [OF fit assms(3)] .
  moreover have "unat (membuf_avail ?m') = unat (membuf_avail mem) - k"
    using unat_avail(1) [OF c1(1)] unat_avail(1) [OF assms(1)] u' d by simp
  ultimately show thesis using that c c1(1) by blast
qed

lemma mem_print_used:
  assumes "mb_ok mem" "s \<noteq> []" "length s < unat (membuf_avail mem)"
  obtains mem' where "mem_print mem s = Some mem'" "mb_ok mem'" "used_bytes mem' = used_bytes mem @ s"
    "unat (membuf_avail mem') = unat (membuf_avail mem) - length s"
proof -
  have "length (s @ [0]) \<le> unat (membuf_avail mem)" "length s \<le> length (s @ [0])" using assms(3) by simp_all
  from memcpy_append [OF assms(1) this] obtain m where m: "memcpy_cur mem (s @ [0]) = Some m"
    "mb_ok (snd (membuf_consume m (of_nat (length s))))"
    "used_bytes (snd (membuf_consume m (of_nat (length s)))) = used_bytes mem @ s"
    "unat (membuf_avail (snd (membuf_consume m (of_nat (length s))))) = unat (membuf_avail mem) - length s" by auto
  show thesis by (rule that [OF _ m(2-4)]) (simp add: mem_print_def assms(2,3) m(1))
qed

lemma print_headers_used:
  assumes "mb_ok mem" "length (concat (map (header_text peek) hs)) < unat (membuf_avail mem)"
    "\<forall>h \<in> set hs. uint (hh_name_len h) \<le> INT_MAX \<and> uint (hh_val_len h) \<le> INT_MAX"
  shows "\<exists>mem'. print_headers peek hs mem = Some mem' \<and> mb_ok mem' \<and>
    used_bytes mem' = used_bytes mem @ concat (map (header_text peek) hs) \<and>
    unat (membuf_avail mem') = unat (membuf_avail mem) - length (concat (map (header_text peek) hs))"
  using assms
proof (induction hs arbitrary: mem)
  case (Cons h hs)
  have ne: "header_text peek h \<noteq> []" by (simp add: header_text_def)
  have "length (header_text peek h) < unat (membuf_avail mem)" using Cons.prems(2) by simp
  from mem_print_used [OF Cons.prems(1) ne this] obtain m where m: "mem_print mem (header_text peek h) = Some m"
    "mb_ok m" "used_bytes m = used_bytes mem @ header_text peek h"
    "unat (membuf_avail m) = unat (membuf_avail mem) - length (header_text peek h)" by metis
  have "length (concat (map (header_text peek) hs)) < unat (membuf_avail m)" using Cons.prems(2) m(4) by simp
  from Cons.IH [OF m(2) this] show ?case using Cons.prems(3) m by auto
qed simp

definition response_head :: "(addr \<Rightarrow> byte list) \<Rightarrow> ('cb, 'd) http_response \<Rightarrow> byte list" where
  "response_head peek res = http11 @ dec (unat (hr_status res)) @ [32] @ hr_reason res @ crlf @ server_line @
     content_length @ [58, 32] @ dec (length (used_bytes (hr_body_mem res))) @ crlf @
     concat (map (header_text peek) (take (unat (hr_nheaders res)) (hr_headers res))) @ crlf"

lemma response_sent:
  assumes "mb_ok (hr_mem res)" and "membuf_used (hr_mem res) = 0" and "mb_ok (hr_body_mem res)"
    and "\<forall>h \<in> set (take (unat (hr_nheaders res)) (hr_headers res)). uint (hh_name_len h) \<le> INT_MAX \<and> uint (hh_val_len h) \<le> INT_MAX"
    and "length (response_head peek res) < unat (membuf_avail (hr_mem res))"
  shows "\<exists>res'. phttp_send_http_res peek False res = Some (res', response_head peek res @ used_bytes (hr_body_mem res))"
proof -
  let ?l1 = "http11 @ dec (unat (hr_status res)) @ [32] @ hr_reason res @ crlf @ server_line"
  let ?l2 = "content_length @ [58, 32] @ dec (unat (membuf_used (hr_body_mem res))) @ crlf"
  let ?hs = "take (unat (hr_nheaders res)) (hr_headers res)"
  let ?l3 = "concat (map (header_text peek) ?hs)"
  have bl: "length (used_bytes (hr_body_mem res)) = unat (membuf_used (hr_body_mem res))"
    by (rule length_used [OF assms(3)])
  have len: "length ?l1 + length ?l2 + length ?l3 + 2 < unat (membuf_avail (hr_mem res))"
    using assms(5) by (simp add: response_head_def bl crlf_def)
  have u0: "used_bytes (hr_mem res) = []" by (simp add: used_bytes_def assms(2))
  have ne1: "?l1 \<noteq> []" "?l2 \<noteq> []" by (simp_all add: http11_def content_length_def)
  have f1: "length ?l1 < unat (membuf_avail (hr_mem res))" using len by linarith
  obtain m1 where m1: "mem_print (hr_mem res) ?l1 = Some m1" "mb_ok m1" "used_bytes m1 = ?l1"
    "unat (membuf_avail m1) = unat (membuf_avail (hr_mem res)) - length ?l1"
    using mem_print_used [OF assms(1) ne1(1) f1] u0 by (metis append_Nil)
  have f2: "length ?l2 < unat (membuf_avail m1)" using len m1(4) by linarith
  obtain m2 where m2: "mem_print m1 ?l2 = Some m2" "mb_ok m2" "used_bytes m2 = ?l1 @ ?l2"
    "unat (membuf_avail m2) = unat (membuf_avail m1) - length ?l2"
    using mem_print_used [OF m1(2) ne1(2) f2] m1(3) by metis
  have f3: "length ?l3 < unat (membuf_avail m2)" using len m1(4) m2(4) by linarith
  obtain m3 where m3: "print_headers peek ?hs m2 = Some m3" "mb_ok m3" "used_bytes m3 = (?l1 @ ?l2) @ ?l3"
    "unat (membuf_avail m3) = unat (membuf_avail m2) - length ?l3"
    using print_headers_used [OF m2(2) f3 assms(4)] m2(3) by metis
  have a3: "2 < unat (membuf_avail m3)" using len m1(4) m2(4) m3(4) by linarith
  have gt: "membuf_avail m3 > 2" using a3 by (simp add: word_less_nat_alt)
  obtain m4 where m4: "memcpy_cur m3 crlf = Some m4" "used_bytes (snd (membuf_consume m4 2)) = used_bytes m3 @ crlf"
    using memcpy_append [OF m3(2), of crlf 2] a3 by (auto simp: crlf_def)
  have e: "(if membuf_used (hr_body_mem res) \<noteq> 0 then used_bytes (hr_body_mem res) else []) = used_bytes (hr_body_mem res)"
    by (simp add: used_bytes_def)
  have "phttp_send_http_res peek False res = Some (res\<lparr>hr_mem := snd (membuf_consume m4 2)\<rparr>,
      used_bytes (snd (membuf_consume m4 2)) @ used_bytes (hr_body_mem res))"
    unfolding phttp_send_http_res_def Let_def e using m1(1) m2(1) m3(1) gt m4(1) by simp
  then show ?thesis unfolding m4(2) m3(3) by (simp add: response_head_def bl)
qed

text \<open>C28: the bytes sent for a response are the status line, the server line, a Content-Length that is the
  number of body bytes, one line for every header the application added, an empty line and the body,
  provided the head fits into its buffer.\<close>

theorem response_on_the_wire:
  assumes "mb_ok (hr_mem res)" and "membuf_used (hr_mem res) = 0" and "mb_ok (hr_body_mem res)"
    and "\<forall>h \<in> set (take (unat (hr_nheaders res)) (hr_headers res)). uint (hh_name_len h) \<le> INT_MAX \<and> uint (hh_val_len h) \<le> INT_MAX"
    and "length (response_head peek res) < unat (membuf_avail (hr_mem res))"
  shows "\<exists>res'. phttp_send_http_res peek False res = Some (res', response_head peek res @ used_bytes (hr_body_mem res))"
  by (rule response_sent [OF assms])

end
