(* ===== verification/Split.thy ===== *)
theory Split
  imports Main
begin

text \<open>
  The three functions named \<open>split\<close> that cut host names and back end lists at a delimiter: the one
  of the switch daemon and of the proxies, the one of the option parser, which leaves out empty
  pieces, and the one of the switch client, which works with two signed positions.  The reference
  is \<open>parts\<close>, all the pieces between delimiters.
\<close>

fun parts :: "'c \<Rightarrow> 'c list \<Rightarrow> 'c list list" where
  "parts d [] = [[]]"
| "parts d (c # cs) = (if c = d then [] # parts d cs else (c # hd (parts d cs)) # tl (parts d cs))"

lemma parts_not_Nil [simp]: "parts d s \<noteq> []"
  by (cases s) auto

lemma parts_prefix: "d \<notin> set a \<Longrightarrow> parts d (a @ s) = (a @ hd (parts d s)) # tl (parts d s)"
  by (induction a) auto

lemma parts_cut: "d \<notin> set a \<Longrightarrow> parts d (a @ d # s) = a # parts d s"
  by (simp add: parts_prefix)

lemma parts_one: "d \<notin> set a \<Longrightarrow> parts d a = [a]"
  using parts_prefix [of d a "[]"] by simp

section \<open>The daemon and the proxies\<close>

fun split_loop :: "'c \<Rightarrow> 'c list \<Rightarrow> 'c list list \<Rightarrow> 'c list \<Rightarrow> 'c list list" where
  "split_loop del [] result subStr = result @ [subStr]"
| "split_loop del (c # cs) result subStr =
     (if c = del then split_loop del cs (result @ [subStr]) []
      else split_loop del cs result (subStr @ [c]))"

definition split :: "'c list \<Rightarrow> 'c \<Rightarrow> 'c list list" where
  "split str del = split_loop del str [] []"

lemma split_loop_parts: "split_loop d s r a = r @ (a @ hd (parts d s)) # tl (parts d s)"
  by (induction s arbitrary: r a) auto

lemma split_parts: "split s d = parts d s"
  by (simp add: split_def split_loop_parts)

section \<open>The option parser\<close>

fun split_items :: "'c \<Rightarrow> 'c list \<Rightarrow> 'c list list \<Rightarrow> 'c list \<Rightarrow> 'c list list" where
  "split_items delim [] elems item = (if item \<noteq> [] then elems @ [item] else elems)"
| "split_items delim (ch # s) elems item =
     (if ch = delim then split_items delim s (if item \<noteq> [] then elems @ [item] else elems) []
      else split_items delim s elems (item @ [ch]))"

definition split_nonempty :: "'c list \<Rightarrow> 'c \<Rightarrow> 'c list list" where
  "split_nonempty s delim = split_items delim s [] []"

lemma split_items_parts:
  "split_items d s r a = r @ filter (\<lambda>p. p \<noteq> []) ((a @ hd (parts d s)) # tl (parts d s))"
proof (induction s arbitrary: r a)
  case (Cons c s)
  then show ?case by (cases "parts d s") auto
qed simp

lemma split_nonempty_parts: "split_nonempty s d = filter (\<lambda>p. p \<noteq> []) (parts d s)"
  by (simp add: split_nonempty_def split_items_parts)

section \<open>The switch client\<close>

text \<open>
  \<open>find_first_of\<close> answers \<open>npos\<close>, which is -1 once stored in the signed \<open>last\<close>; the substring
  constructor takes \<open>last - first\<close> as an unsigned length and so cuts to the end of the string when
  it is negative.  The fuel bounds the iterations; \<open>length str + 2\<close> is enough.
\<close>

definition find_first_of :: "'c list \<Rightarrow> 'c \<Rightarrow> nat \<Rightarrow> int" where
  "find_first_of str del pos =
     (let rest = takeWhile (\<lambda>c. c \<noteq> del) (drop pos str)
      in if pos + length rest < length str then int (pos + length rest) else -1)"

definition sub_str :: "'c list \<Rightarrow> int \<Rightarrow> int \<Rightarrow> 'c list" where
  "sub_str str first len =
     (if len < 0 then drop (nat first) str else take (nat len) (drop (nat first) str))"

fun client_split_loop :: "nat \<Rightarrow> 'c list \<Rightarrow> 'c \<Rightarrow> int \<Rightarrow> int \<Rightarrow> 'c list list \<Rightarrow> 'c list list option" where
  "client_split_loop 0 str del first' last' result = None"
| "client_split_loop (Suc n) str del first' last' result =
     (if first' < int (length str) then
        let subStr = sub_str str first' (last' - first');
            result = result @ [subStr];
            first' = last' + 1;
            last' = find_first_of str del (nat first');
            last' = (if last' = -1 then int (length str) else last')
        in client_split_loop n str del first' last' result
      else Some result)"

definition client_split :: "'c list \<Rightarrow> 'c \<Rightarrow> 'c list list option" where
  "client_split str del = client_split_loop (length str + 2) str del 0 (find_first_of str del 0) []"

text \<open>What the loop collects from a proper position on: the pieces, without a last empty one.\<close>

definition trim :: "'c list list \<Rightarrow> 'c list list" where
  "trim ps = (if last ps = [] then butlast ps else ps)"

lemma trim_simps: "ps \<noteq> [] \<Longrightarrow> trim (p # ps) = p # trim ps" "p \<noteq> [] \<Longrightarrow> trim [p] = [p]" "trim [[]] = []"
  by (simp_all add: trim_def)

definition next_del :: "'c list \<Rightarrow> 'c \<Rightarrow> nat \<Rightarrow> nat" where
  "next_del str d i = i + length (takeWhile (\<lambda>c. c \<noteq> d) (drop i str))"

lemma next_del_bounds: "i \<le> length s \<Longrightarrow> i \<le> next_del s d i \<and> next_del s d i \<le> length s"
  using length_takeWhile_le [of "\<lambda>c. c \<noteq> d" "drop i s"] by (simp add: next_del_def)

lemma parts_next:
  assumes "i \<le> length s"
  shows "parts d (drop i s) =
    (if next_del s d i < length s
     then take (next_del s d i - i) (drop i s) # parts d (drop (next_del s d i + 1) s)
     else [drop i s])"
proof -
  let ?a = "takeWhile (\<lambda>c. c \<noteq> d) (drop i s)" and ?b = "dropWhile (\<lambda>c. c \<noteq> d) (drop i s)"
  have d: "d \<notin> set ?a" using set_takeWhileD by fastforce
  have ab: "?a @ ?b = drop i s" by simp
  have tk: "take (length ?a) (drop i s) = ?a"
    by (metis append_eq_conv_conj takeWhile_dropWhile_id)
  have dp: "?b = drop (next_del s d i) s"
    unfolding next_del_def by (metis add.commute drop_drop dropWhile_eq_drop)
  show ?thesis
  proof (cases "next_del s d i < length s")
    case True
    then have ne: "?b \<noteq> []" using dp by simp
    then have "hd ?b = d" using hd_dropWhile [OF ne] by simp
    then have "?b = d # drop (next_del s d i + 1) s"
      using ne dp True by (simp add: Cons_nth_drop_Suc [symmetric])
    then have "parts d (drop i s) = ?a # parts d (drop (next_del s d i + 1) s)"
      using parts_cut [OF d] ab by metis
    then show ?thesis using True tk by (simp add: next_del_def)
  next
    case False
    then have "?b = []" using dp by simp
    then have "?a = drop i s" using ab by simp
    then have "parts d (drop i s) = [drop i s]" using parts_one [OF d] by metis
    then show ?thesis using False by simp
  qed
qed

lemma find_next: "find_first_of s d i = (if next_del s d i < length s then int (next_del s d i) else -1)"
  by (simp add: find_first_of_def next_del_def Let_def)

lemma client_loop_end: "int (length s) \<le> i \<Longrightarrow> 0 < n \<Longrightarrow> client_split_loop n s d i l r = Some r"
  by (cases n) auto

lemma client_loop_trim:
  assumes "i \<le> length s" "length s + 1 < n + i"
  shows "client_split_loop n s d (int i) (int (next_del s d i)) r = Some (r @ trim (parts d (drop i s)))"
  using assms
proof (induction n arbitrary: i r)
  case (Suc n)
  show ?case
  proof (cases "i < length s")
    case False
    with Suc.prems show ?thesis by (simp add: trim_simps)
  next
    case True
    let ?j = "next_del s d i"
    have j: "i \<le> ?j" "?j \<le> length s" using next_del_bounds [of i s d] True by auto
    have cut: "sub_str s (int i) (int ?j - int i) = take (?j - i) (drop i s)"
      using j by (simp add: sub_str_def nat_diff_distrib)
    show ?thesis
    proof (cases "?j < length s")
      case True
      have nxt: "(if find_first_of s d (?j + 1) = -1 then int (length s) else find_first_of s d (?j + 1))
          = int (next_del s d (?j + 1))"
        using True next_del_bounds [of "?j + 1" s d] by (auto simp: find_next simp del: One_nat_def add_Suc_right)
      have "client_split_loop (Suc n) s d (int i) (int ?j) r =
          client_split_loop n s d (int (?j + 1)) (int (next_del s d (?j + 1))) (r @ [take (?j - i) (drop i s)])"
        unfolding client_split_loop.simps Let_def nxt [symmetric] using \<open>i < length s\<close> cut
        by (simp add: nat_add_distrib add.commute)
      also have "\<dots> = Some ((r @ [take (?j - i) (drop i s)]) @ trim (parts d (drop (?j + 1) s)))"
        by (rule Suc.IH) (use Suc.prems True j in auto)
      finally show ?thesis using True j parts_next [of i s d] by (simp add: trim_simps)
    next
      case False
      then have jl: "?j = length s" using j by simp
      then show ?thesis
        using \<open>i < length s\<close> cut Suc.prems parts_next [of i s d]
        by (simp add: Let_def client_loop_end trim_simps)
    qed
  qed
qed simp

lemma client_split_parts:
  "client_split s d = Some (if s = [] then [] else if d \<in> set s then trim (parts d s) else [s, s])"
proof -
  have next0: "next_del s d 0 < length s \<longleftrightarrow> d \<in> set s"
  proof
    assume l: "next_del s d 0 < length s"
    show "d \<in> set s"
    proof (rule ccontr)
      assume "d \<notin> set s"
      then have "takeWhile (\<lambda>c. c \<noteq> d) s = s" by (auto simp: takeWhile_eq_all_conv)
      then have "length (takeWhile (\<lambda>c. c \<noteq> d) s) = length s" by (rule arg_cong)
      then show False using l by (simp add: next_del_def)
    qed
  next
    assume "d \<in> set s"
    then have "takeWhile (\<lambda>c. c \<noteq> d) s \<noteq> s" by (auto simp: takeWhile_eq_all_conv)
    then have "length (takeWhile (\<lambda>c. c \<noteq> d) s) \<noteq> length s"
      using takeWhile_dropWhile_id [of "\<lambda>c. c \<noteq> d" s] by (metis append_Nil2 length_0_conv length_append add_cancel_right_right)
    then show "next_del s d 0 < length s"
      using length_takeWhile_le [of "\<lambda>c. c \<noteq> d" s] by (simp add: next_del_def)
  qed
  show ?thesis
  proof (cases "d \<in> set s")
    case True
    then show ?thesis
      using client_loop_trim [of 0 s "length s + 2" d "[]"] next0
      by (auto simp: client_split_def find_next)
  next
    case False
    then have f: "find_first_of s d 0 = -1" and t: "parts d s = [s]" and nd: "next_del s d 0 = length s"
      using next0 next_del_bounds [of 0 s d] by (auto simp: find_next parts_one)
    show ?thesis
    proof (cases "s = []")
      case True
      then show ?thesis by (simp add: client_split_def client_loop_end)
    next
      case False
      have "client_split s d = client_split_loop (length s + 1) s d (int 0) (int (next_del s d 0)) [s]"
        using False f nd by (simp add: client_split_def sub_str_def Let_def)
      also have "\<dots> = Some ([s] @ trim (parts d (drop 0 s)))"
      proof -
        have "0 < length s" using False by simp
        then show ?thesis
          using nd client_loop_end [of s "int (length s) + 1" "length s" d] by (simp add: Let_def sub_str_def t trim_simps)
      qed
      finally show ?thesis using False \<open>d \<notin> set s\<close> t by (simp add: trim_simps)
    qed
  qed
qed

text \<open>The three functions agree with the pieces between delimiters as follows: the daemon and the
  proxies get all pieces, the option parser the non-empty ones; the switch client never runs out of
  iterations and loses a last empty piece, and without any delimiter it returns the string twice.\<close>

theorem splits_agree:
  "split s d = parts d s \<and> split_nonempty s d = filter (\<lambda>p. p \<noteq> []) (parts d s) \<and>
   client_split s d = Some (if s = [] then []
     else if parts d s = [s] then [s, s]
     else if last (parts d s) = [] then butlast (parts d s) else parts d s)"
proof -
  have "parts d s = [s] \<longleftrightarrow> d \<notin> set s"
  proof
    assume p: "parts d s = [s]"
    show "d \<notin> set s"
    proof
      assume "d \<in> set s"
      then obtain a b where "s = a @ d # b" "d \<notin> set a" by (meson split_list_first)
      then show False using p parts_cut [of d a b] by simp
    qed
  qed (rule parts_one)
  then show ?thesis by (auto simp: split_parts split_nonempty_parts client_split_parts trim_def)
qed

text \<open>A host written as address and port, with one colon between them, is cut into the two.\<close>

theorem host_port_cut:
  assumes "d \<notin> set host" and "d \<notin> set port" and "port \<noteq> []"
  shows "split (host @ d # port) d = [host, port] \<and> client_split (host @ d # port) d = Some [host, port]"
  using assms by (simp add: split_parts client_split_parts parts_cut parts_one trim_def)

theorem host_port_cut_witness:
  "client_split ''172.16.10.10:18080'' CHR '':'' = Some [''172.16.10.10'', ''18080'']"
  using host_port_cut [of "CHR '':''" "''172.16.10.10''" "''18080''"] by simp

end
