(* ===== verification/SwitchClient.thy ===== *)
theory SwitchClient
  imports SwitchConfigTheorems Split
begin

text \<open>
  The client side of the configuration protocol, prism_switch_client.cpp: a task sends one request
  in a datagram, repeats it every 100 ms, and ends with the first datagram that arrives.  The event
  loop is a sequence of inputs; as libuv documents, a stopped timer does not fire and a closed handle
  gets no callback.  The outputs are the datagrams sent and the user callbacks called.
\<close>

section \<open>Tasks\<close>

record ('cb, 'd) psw_config_req =
  cq_sbuf :: "byte list"
  cq_user_cb :: "'cb option"
  cq_user_data :: 'd
  cq_timer_active :: bool
  cq_retry_count :: u32
  cq_closing :: bool

datatype ('cb, 'd) client_out = Datagram "byte list" | User_cb 'cb "byte list" 'd

definition sbuf_len :: "byte \<Rightarrow> nat option" where
  "sbuf_len type =
     (if type = PSW_REQ_ADD then Some sizeof_add_req
      else if type = PSW_REQ_DELETE then Some sizeof_delete_req
      else if type = PSW_REQ_CHOWN then Some sizeof_chown_req
      else if type = PSW_REQ_LOCK then Some sizeof_lock_req
      else if type = PSW_REQ_UNLOCK then Some sizeof_lock_req
      else None)"

text \<open>The request is the memory \<open>req\<close> points to.  \<open>error\<close> is the result of the first send.\<close>

definition queue_task ::
  "byte list \<Rightarrow> 'cb option \<Rightarrow> 'd \<Rightarrow> int \<Rightarrow> int \<times> (('cb, 'd) psw_config_req \<times> ('cb, 'd) client_out list) option" where
  "queue_task req cb data error =
     (case sbuf_len (ld8 req 0) of
        None \<Rightarrow> (- EINVAL, None)
      | Some len \<Rightarrow>
          let conf_req = \<lparr>cq_sbuf = ldn len req 0, cq_user_cb = cb, cq_user_data = data,
                cq_timer_active = True, cq_retry_count = 0, cq_closing = False\<rparr>
          in (error, Some (conf_req, [Datagram (cq_sbuf conf_req)])))"

definition retry_send ::
  "('cb, 'd) psw_config_req \<Rightarrow> ('cb, 'd) psw_config_req \<times> ('cb, 'd) client_out list" where
  "retry_send conf_req =
     (conf_req\<lparr>cq_retry_count := cq_retry_count conf_req + 1\<rparr>, [Datagram (cq_sbuf conf_req)])"

definition on_recv ::
  "byte list \<Rightarrow> ('cb, 'd) psw_config_req \<Rightarrow> ('cb, 'd) psw_config_req \<times> ('cb, 'd) client_out list" where
  "on_recv buf req =
     (let out = (case cq_user_cb req of Some cb \<Rightarrow> [User_cb cb buf (cq_user_data req)] | None \<Rightarrow> [])
      in (req\<lparr>cq_timer_active := False, cq_sbuf := [], cq_closing := True\<rparr>, out))"

section \<open>The event loop\<close>

datatype client_in = Timer | Reply "byte list"

definition client_step ::
  "client_in \<Rightarrow> ('cb, 'd) psw_config_req \<Rightarrow> ('cb, 'd) psw_config_req \<times> ('cb, 'd) client_out list" where
  "client_step i req =
     (case i of
        Timer \<Rightarrow> if cq_timer_active req then retry_send req else (req, [])
      | Reply buf \<Rightarrow> if cq_closing req then (req, []) else on_recv buf req)"

fun client_run ::
  "client_in list \<Rightarrow> ('cb, 'd) psw_config_req \<Rightarrow> ('cb, 'd) psw_config_req \<times> ('cb, 'd) client_out list" where
  "client_run [] req = (req, [])"
| "client_run (i # is) req =
     (let (req, out) = client_step i req; (req, out') = client_run is req in (req, out @ out'))"

text \<open>A run of a task from the call that queues it.\<close>

definition task_run :: "byte list \<Rightarrow> 'cb option \<Rightarrow> 'd \<Rightarrow> client_in list \<Rightarrow> ('cb, 'd) client_out list" where
  "task_run req cb data is =
     (case snd (queue_task req cb data 0) of
        None \<Rightarrow> []
      | Some (conf_req, out) \<Rightarrow> out @ snd (client_run is conf_req))"

lemma client_run_closed:
  "cq_closing req \<Longrightarrow> \<not> cq_timer_active req \<Longrightarrow> client_run is req = (req, [])"
  by (induction "is") (auto simp: client_step_def split: client_in.splits)

fun first_reply :: "client_in list \<Rightarrow> nat \<times> byte list option" where
  "first_reply [] = (0, None)"
| "first_reply (Timer # is) = (let (n, r) = first_reply is in (Suc n, r))"
| "first_reply (Reply b # is) = (0, Some b)"

lemma client_run_open:
  assumes "cq_timer_active req" "\<not> cq_closing req"
  shows "snd (client_run is req) =
    (let (n, r) = first_reply is in replicate n (Datagram (cq_sbuf req)) @
       (case (r, cq_user_cb req) of (Some b, Some cb) \<Rightarrow> [User_cb cb b (cq_user_data req)] | _ \<Rightarrow> []))"
  using assms
proof (induction "is" arbitrary: req rule: first_reply.induct)
  case (2 "is")
  have "cq_user_data (fst (retry_send req)) = cq_user_data req" by (simp add: retry_send_def)
  with "2.IH" [of "fst (retry_send req)"] "2.prems" show ?case
    by (auto simp: client_step_def retry_send_def Let_def split: prod.splits option.splits)
next
  case (3 b "is")
  then show ?case
    by (simp add: client_step_def on_recv_def client_run_closed Let_def split: option.splits)
qed simp

section \<open>Requests as the servers build them\<close>

datatype psw_req =
    Req_add psw_add_req | Req_delete psw_delete_req | Req_chown psw_chown_req | Req_lock psw_lock_req

fun req_bytes :: "psw_req \<Rightarrow> byte list" where
  "req_bytes (Req_add r) = add_req_bytes r"
| "req_bytes (Req_delete r) = delete_req_bytes r"
| "req_bytes (Req_chown r) = chown_req_bytes r"
| "req_bytes (Req_lock r) = lock_req_bytes r"

fun wf_req :: "psw_req \<Rightarrow> bool" where
  "wf_req (Req_add r) \<longleftrightarrow> ar_type r = PSW_REQ_ADD \<and> length (ar_owner_mac r) = 6"
| "wf_req (Req_delete r) \<longleftrightarrow> dr_type r = PSW_REQ_DELETE"
| "wf_req (Req_chown r) \<longleftrightarrow> cr_type r = PSW_REQ_CHOWN \<and> length (cr_owner_mac r) = 6"
| "wf_req (Req_lock r) \<longleftrightarrow> lr_type r = PSW_REQ_LOCK \<or> lr_type r = PSW_REQ_UNLOCK"

fun cmd_of_req :: "psw_req \<Rightarrow> psw_cmd" where
  "cmd_of_req (Req_add r) = add_cmd r"
| "cmd_of_req (Req_delete r) = delete_cmd r"
| "cmd_of_req (Req_chown r) = chown_cmd r"
| "cmd_of_req (Req_lock r) = (if lr_type r = PSW_REQ_LOCK then Lock (lock_key r) else Unlock (lock_key r))"

lemma req_type:
  "ld8 (add_req_bytes r1 @ post) 0 = ar_type r1" "ld8 (delete_req_bytes r2 @ post) 0 = dr_type r2"
  "ld8 (chown_req_bytes r3 @ post) 0 = cr_type r3" "ld8 (lock_req_bytes r4 @ post) 0 = lr_type r4"
  by (simp_all add: wire_layouts ld8_def)

lemma req_sbuf: "wf_req q \<Longrightarrow> sbuf_len (ld8 (req_bytes q @ post) 0) = Some (length (req_bytes q))"
  by (cases q) (auto simp: req_type sbuf_len_def psw_req_defs add_req.enc_length chown_req.enc_length
      delete_req.enc_length lock_req.enc_length)

lemma cmd_at_req:
  assumes "wf_req q" "length pre = 42"
  shows "cmd_at (pre @ req_bytes q @ post) 42 = Some (cmd_of_req q)"
proof -
  have ty: "ld8 (pre @ b) 42 = ld8 b 0" for b
    using shift_loads(1) [of pre b 0] assms(2) by simp
  show ?thesis
    using assms
    by (cases q) (auto simp: cmd_at_def ty req_type psw_req_defs sizeof_req_defs add_req.enc_length
        chown_req.enc_length delete_req.enc_length lock_req.enc_length add_req.dec_at_header
        chown_req.dec_at_header delete_req.dec_at_header lock_req.dec_at_header)
qed

section \<open>Properties\<close>

text \<open>C18: whatever a server asks for arrives: the task the client queues for a well-formed request
  sends exactly the bytes of the request structure, and the switch reads the frame that carries such a
  datagram as the command the server meant; retransmissions carry the same command.\<close>

theorem client_requests_reach_switch:
  assumes "wf_req q" and "length pre = 42"
    and "Datagram d \<in> set (task_run (req_bytes q @ rest) cb data is)"
  shows "d = req_bytes q \<and> cmd_at (pre @ d @ post) 42 = Some (cmd_of_req q)"
proof -
  have "Datagram d \<in> set (task_run (req_bytes q @ rest) cb data is) \<Longrightarrow> d = req_bytes q"
    using req_sbuf [OF assms(1), of rest]
    by (auto simp: task_run_def queue_task_def client_run_open Let_def ldn_def
        split: prod.splits option.splits)
  with assms show ?thesis by (simp add: cmd_at_req)
qed

theorem client_requests_reach_switch_witness:
  "cmd_at (replicate 42 0 @ lock_req_bytes \<lparr>lr_type = 3, lr_status = 0, lr_peer_addr = 17436844, lr_peer_port = 16540\<rparr>) 42
    = Some (Lock sample_key)"
  using client_requests_reach_switch [of
      "Req_lock \<lparr>lr_type = 3, lr_status = 0, lr_peer_addr = 17436844, lr_peer_port = 16540\<rparr>"
      "replicate 42 0" _ "[]" None "()" "[]" "[]"]
    req_sbuf [of "Req_lock \<lparr>lr_type = 3, lr_status = 0, lr_peer_addr = 17436844, lr_peer_port = 16540\<rparr>" "[]"]
  by (simp add: psw_req_defs task_run_def queue_task_def lock_key_def sample_key_def Let_def ldn_def)

text \<open>A task sends its request once and then once per timer tick until the first reply arrives;
  that reply is handed to the callback, once, and nothing is sent and no callback called after it.\<close>

theorem task_sends_until_first_reply:
  assumes "sbuf_len (ld8 req 0) = Some len"
  shows "task_run req cb data is =
    (let (n, r) = first_reply is in replicate (Suc n) (Datagram (ldn len req 0)) @
       (case (r, cb) of (Some b, Some f) \<Rightarrow> [User_cb f b data] | _ \<Rightarrow> []))"
  using assms by (auto simp: task_run_def queue_task_def client_run_open Let_def split: prod.splits option.splits)

theorem task_sends_until_first_reply_witness:
  "task_run (lock_req_bytes \<lparr>lr_type = 3, lr_status = 0, lr_peer_addr = 1, lr_peer_port = 2\<rparr>) (Some CHR ''f'') ()
      [Timer, Timer, Reply [3], Timer, Reply [4]] =
    replicate 3 (Datagram [3, 0, 0, 1, 0, 0, 0, 2, 0]) @ [User_cb CHR ''f'' [3] ()]"
proof -
  have "sbuf_len (ld8 (lock_req_bytes \<lparr>lr_type = 3, lr_status = 0, lr_peer_addr = 1, lr_peer_port = 2\<rparr>) 0) = Some 9"
    "ldn 9 (lock_req_bytes \<lparr>lr_type = 3, lr_status = 0, lr_peer_addr = 1, lr_peer_port = 2\<rparr>) 0 = [3, 0, 0, 1, 0, 0, 0, 2, 0]"
    by code_simp+
  then show ?thesis
    by (simp add: task_sends_until_first_reply numeral_eq_Suc)
qed

end
