(* ===== verification/HandoffExport.thy ===== *)
theory HandoffExport
  imports TcpExportProps HandoffServer PhttpServer SwitchClient
begin

text \<open>
  Giving a connection away, src/phttp_hoproto_export2.cpp, src/tls_export.cpp and
  src/phttp_hoproto_close2.cpp: the switch is asked to lock the flow, the protocol states are exported,
  the socket is closed, and when the kernel has destroyed it the states are sent to the new owner.
  The callbacks the code registers with libuv, the switch client and the socket monitor are the
  pending callbacks of the state; their effects are listed in order.  The TLS library, protobuf and
  the kernel are parameters; a failed assertion is \<open>None\<close>.
\<close>

section \<open>Connections\<close>

record http_server_socket =
  hss_addr :: u32
  hss_port :: u32
  hss_mac :: "byte list"

record HTTPHandoffReq =
  hm_tcp :: TCPState
  hm_tls :: "byte list option"
  hm_http :: HTTPReq

record ('cb, 'd, 'tls) conn =
  cn_hcs :: "('cb, 'd) client_socket"
  cn_tls :: "'tls option"
  cn_peer_addr :: u32
  cn_peer_port :: u32
  cn_server :: http_server_socket
  cn_export :: "HTTPHandoffReq option"

text \<open>What the code calls: the kernel, the TLS library, protobuf, and the bytes \<open>malloc\<close> leaves in
  the padding.  \<open>tls_unmake_ktls\<close> stores the sequence numbers of the kernel in the context, and
  \<open>tls_export_context\<close> gives the number it returns and what it wrote.\<close>

record ('k, 'tls) ho_env =
  he_tcp :: "'k tcp_api"
  he_info :: tcp_info_sub
  he_tls_unmake :: "'tls \<Rightarrow> 'k \<Rightarrow> int \<times> 'tls \<times> 'k"
  he_calloc_ok :: bool
  he_tls_context :: "'tls \<Rightarrow> (int \<times> byte list) option"
  he_serialize :: "HTTPHandoffReq \<Rightarrow> byte list option"
  he_junk :: "byte list"

section \<open>Exporting all states\<close>

definition tls_export :: "('k, 'tls) ho_env \<Rightarrow> 'tls \<Rightarrow> (int \<times> byte list option) option" where
  "tls_export E tls =
     (if \<not> he_calloc_ok E then Some (- ENOMEM, None)
      else
        case he_tls_context E tls of
          None \<Rightarrow> None
        | Some (ret, written) \<Rightarrow>
            let buf = take 0xFFFF (written @ replicate 0xFFFF 0)
            in if ret = 0 then Some (- EINVAL, None)
               else if ret < 0 \<or> 0xFFFF < ret then None
               else Some (0, Some (take (nat ret) buf)))"

definition export_tls :: "('k, 'tls) ho_env \<Rightarrow> 'tls \<Rightarrow> 'k \<Rightarrow> (byte list \<times> 'k) option" where
  "export_tls E tls k =
     (let (error, tls, k) = he_tls_unmake E tls k
      in if error \<noteq> 0 then None
         else case tls_export E tls of
                Some (error, Some buf) \<Rightarrow> if error = 0 then Some (buf, k) else None
              | _ \<Rightarrow> None)"

definition export_all ::
  "('k, 'tls) ho_env \<Rightarrow> ('cb, 'd, 'tls) conn \<Rightarrow> 'k \<Rightarrow> (HTTPHandoffReq \<times> 'k) option" where
  "export_all E c k =
     (case tcp_export (he_tcp E) (Some TCPState_clear) (he_info E) k of
        Some (error, Some tcp, k) \<Rightarrow>
          if error \<noteq> 0 then None
          else
            let http = http_request_export (hc_req (cn_hcs c))
            in (case cn_tls c of
                  None \<Rightarrow> Some (\<lparr>hm_tcp = tcp, hm_tls = None, hm_http = http\<rparr>, k)
                | Some tls \<Rightarrow>
                    (case export_tls E tls k of
                       None \<Rightarrow> None
                     | Some (buf, k) \<Rightarrow> Some (\<lparr>hm_tcp = tcp, hm_tls = Some buf, hm_http = http\<rparr>, k)))
      | _ \<Rightarrow> None)"

text \<open>The frame: \<open>htonl\<close> of the length, padding, the message.\<close>

definition ho_header :: "byte list \<Rightarrow> byte list \<Rightarrow> byte list" where
  "ho_header junk s =
     (let padlen = (if length s mod 8 = 0 then 0 else 8 - length s mod 8)
      in bytes32 (htonl (of_nat (length s))) @ take padlen junk)"

section \<open>Callbacks\<close>

datatype cb_id =
    After_configure_switch | After_close | After_real_close | Handoff_done | After_close_tcp_monitor
  | After_close_imported | After_real_close_imported | After_close_plain

datatype 'd effect =
    Read_stop | Task psw_req | Close_client | Wait_close | Send_frame 'd "byte list" | Close_monitor | Free_conn
  | Read_start | Response "byte list"

record ('k, 'cb, 'd, 'tls) source =
  sr_conn :: "('cb, 'd, 'tls) conn"
  sr_k :: 'k
  sr_pending :: "cb_id list"
  sr_out :: "'d effect list"

definition emit :: "'d effect \<Rightarrow> cb_id list \<Rightarrow> ('k, 'cb, 'd, 'tls) source \<Rightarrow> ('k, 'cb, 'd, 'tls) source" where
  "emit x cbs s = s\<lparr>sr_out := sr_out s @ [x], sr_pending := sr_pending s @ cbs\<rparr>"

definition lock_request :: "('cb, 'd, 'tls) conn \<Rightarrow> psw_req" where
  "lock_request c = Req_lock \<lparr>lr_type = PSW_REQ_LOCK, lr_status = 0, lr_peer_addr = cn_peer_addr c,
     lr_peer_port = ucast (cn_peer_port c)\<rparr>"

definition add_request :: "('cb, 'd, 'tls) conn \<Rightarrow> psw_req" where
  "add_request c = (let hss = cn_server c in
     Req_add \<lparr>ar_type = PSW_REQ_ADD, ar_status = 0, ar_peer_addr = cn_peer_addr c, ar_peer_port = ucast (cn_peer_port c),
       ar_virtual_addr = hss_addr hss, ar_virtual_port = ucast (hss_port hss),
       ar_owner_addr = hss_addr hss, ar_owner_port = ucast (hss_port hss), ar_owner_mac = hss_mac hss, ar_lock = 1\<rparr>)"

definition phttp_start_handoff ::
  "int \<Rightarrow> int \<Rightarrow> ('k, 'cb, 'd, 'tls) source \<Rightarrow> (int \<times> ('k, 'cb, 'd, 'tls) source) option" where
  "phttp_start_handoff stop_error queue_error s =
     (if stop_error \<noteq> 0 then None
      else
        let s = emit Read_stop [] s;
            req = (if hc_imported (cn_hcs (sr_conn s)) then lock_request (sr_conn s) else add_request (sr_conn s))
        in if queue_error \<noteq> 0 then Some (queue_error, s)
           else Some (0, emit (Task req) [After_configure_switch] s))"

definition after_configure_switch ::
  "('k, 'tls) ho_env \<Rightarrow> u16 \<Rightarrow> ('k, 'cb, 'd, 'tls) source \<Rightarrow> ('k, 'cb, 'd, 'tls) source option" where
  "after_configure_switch E status s =
     (if status \<noteq> 0 then None
      else
        case export_all E (sr_conn s) (sr_k s) of
          None \<Rightarrow> None
        | Some (ho_req, k) \<Rightarrow>
            Some (emit Close_client [After_close] (s\<lparr>sr_k := k, sr_conn := (sr_conn s)\<lparr>cn_export := Some ho_req\<rparr>\<rparr>)))"

definition after_close :: "int \<Rightarrow> ('k, 'cb, 'd, 'tls) source \<Rightarrow> ('k, 'cb, 'd, 'tls) source option" where
  "after_close error s = (if error \<noteq> 0 then None else Some (emit Wait_close [After_real_close] s))"

definition after_real_close ::
  "('k, 'tls) ho_env \<Rightarrow> int \<Rightarrow> ('k, 'cb, 'd, 'tls) source \<Rightarrow> ('k, 'cb, 'd, 'tls) source option" where
  "after_real_close E error s =
     (case cn_export (sr_conn s) of
        None \<Rightarrow> None
      | Some ho_req \<Rightarrow>
          (case he_serialize E ho_req of
             None \<Rightarrow> None
           | Some serialized_data \<Rightarrow>
               if error \<noteq> 0 then None
               else Some (emit (Send_frame (hr_handoff_data (hc_res (cn_hcs (sr_conn s))))
                       (ho_header (he_junk E) serialized_data @ serialized_data)) [Handoff_done] s)))"

definition handoff_done :: "int \<Rightarrow> ('k, 'cb, 'd, 'tls) source \<Rightarrow> ('k, 'cb, 'd, 'tls) source option" where
  "handoff_done status s = (if status \<noteq> 0 then None else Some (emit Close_monitor [After_close_tcp_monitor] s))"

definition after_close_tcp_monitor :: "('k, 'cb, 'd, 'tls) source \<Rightarrow> ('k, 'cb, 'd, 'tls) source" where
  "after_close_tcp_monitor s = emit Free_conn [] s"

text \<open>Closing: the rule of an imported connection is deleted once the kernel has destroyed the socket.\<close>

definition delete_request :: "('cb, 'd, 'tls) conn \<Rightarrow> psw_req" where
  "delete_request c = Req_delete \<lparr>dr_type = PSW_REQ_DELETE, dr_status = 0, dr_peer_addr = cn_peer_addr c,
     dr_peer_port = ucast (cn_peer_port c)\<rparr>"

definition after_real_close_imported :: "int \<Rightarrow> ('k, 'cb, 'd, 'tls) source \<Rightarrow> ('k, 'cb, 'd, 'tls) source option" where
  "after_real_close_imported error s =
     (if error \<noteq> 0 then None
      else Some (emit Close_monitor [After_close_tcp_monitor] (emit (Task (delete_request (sr_conn s))) [] s)))"

definition after_close_imported :: "int \<Rightarrow> ('k, 'cb, 'd, 'tls) source \<Rightarrow> ('k, 'cb, 'd, 'tls) source option" where
  "after_close_imported error s = (if error \<noteq> 0 then None else Some (emit Wait_close [After_real_close_imported] s))"

definition after_close_plain :: "('k, 'cb, 'd, 'tls) source \<Rightarrow> ('k, 'cb, 'd, 'tls) source" where
  "after_close_plain s = emit Close_monitor [After_close_tcp_monitor] s"

definition phttp_start_close :: "('k, 'cb, 'd, 'tls) source \<Rightarrow> int \<times> ('k, 'cb, 'd, 'tls) source" where
  "phttp_start_close s =
     (0, emit Close_client (if hc_imported (cn_hcs (sr_conn s)) then [After_close_imported] else [After_close_plain]) s)"

section \<open>The order of a handoff\<close>

text \<open>A callback runs when it is pending, once; the kernel changes on its own.\<close>

definition called :: "cb_id \<Rightarrow> ('k, 'cb, 'd, 'tls) source \<Rightarrow> ('k, 'cb, 'd, 'tls) source" where
  "called cb s = s\<lparr>sr_pending := remove1 cb (sr_pending s)\<rparr>"

inductive source_step ::
  "('k, 'tls) ho_env \<Rightarrow> ('k, 'cb, 'd, 'tls) source \<Rightarrow> ('k, 'cb, 'd, 'tls) source \<Rightarrow> bool" for E where
  configured: "After_configure_switch \<in> set (sr_pending s) \<Longrightarrow>
    after_configure_switch E status (called After_configure_switch s) = Some s' \<Longrightarrow> source_step E s s'"
| closed: "After_close \<in> set (sr_pending s) \<Longrightarrow>
    after_close error (called After_close s) = Some s' \<Longrightarrow> source_step E s s'"
| destroyed: "After_real_close \<in> set (sr_pending s) \<Longrightarrow>
    after_real_close E error (called After_real_close s) = Some s' \<Longrightarrow> source_step E s s'"
| written: "Handoff_done \<in> set (sr_pending s) \<Longrightarrow>
    handoff_done status' (called Handoff_done s) = Some s' \<Longrightarrow> source_step E s s'"
| monitor_closed: "After_close_tcp_monitor \<in> set (sr_pending s) \<Longrightarrow>
    source_step E s (after_close_tcp_monitor (called After_close_tcp_monitor s))"
| kernel: "source_step E s (s\<lparr>sr_k := k\<rparr>)"

inductive source_reach ::
  "('k, 'tls) ho_env \<Rightarrow> ('k, 'cb, 'd, 'tls) source \<Rightarrow> ('k, 'cb, 'd, 'tls) source \<Rightarrow> bool" for E s0 where
  start: "phttp_start_handoff 0 0 s0 = Some (0, s) \<Longrightarrow> source_reach E s0 s"
| step: "source_reach E s0 s \<Longrightarrow> source_step E s s' \<Longrightarrow> source_reach E s0 s'"

definition handoff_request :: "('cb, 'd, 'tls) conn \<Rightarrow> psw_req" where
  "handoff_request c = (if hc_imported (cn_hcs c) then lock_request c else add_request c)"

definition handoff_trace :: "('cb, 'd, 'tls) conn \<Rightarrow> byte list \<Rightarrow> 'd effect list" where
  "handoff_trace c frame = [Read_stop, Task (handoff_request c), Close_client, Wait_close,
     Send_frame (hr_handoff_data (hc_res (cn_hcs c))) frame, Close_monitor, Free_conn]"

definition exported_frame :: "('k, 'tls) ho_env \<Rightarrow> ('cb, 'd, 'tls) conn \<Rightarrow> HTTPHandoffReq \<Rightarrow> byte list \<Rightarrow> bool" where
  "exported_frame E c msg frame \<longleftrightarrow> (\<exists>k k' ser. export_all E c k = Some (msg, k') \<and> he_serialize E msg = Some ser \<and>
     frame = ho_frame (he_junk E) ser)"

text \<open>The stages of a handoff: what has been done, what is pending, and what is known.\<close>

definition stage :: "('k, 'tls) ho_env \<Rightarrow> ('cb, 'd, 'tls) conn \<Rightarrow> nat \<Rightarrow> ('k, 'cb, 'd, 'tls) source \<Rightarrow> bool" where
  "stage E c n s \<longleftrightarrow> (\<exists>frame msg. sr_out s = take n (handoff_trace c frame) \<and>
     (n = 2 \<and> sr_pending s = [After_configure_switch] \<and> sr_conn s = c \<or>
      n \<in> {3, 4} \<and> sr_pending s = [if n = 3 then After_close else After_real_close] \<and>
        sr_conn s = c\<lparr>cn_export := Some msg\<rparr> \<and> (\<exists>k k'. export_all E c k = Some (msg, k')) \<or>
      n \<in> {5, 6, 7} \<and> sr_pending s = (if n = 5 then [Handoff_done] else if n = 6 then [After_close_tcp_monitor] else []) \<and>
        exported_frame E c msg frame))"

lemma frame_bytes: "ho_header junk ser @ ser = ho_frame junk ser"
  by (simp add: ho_header_def ho_frame_def pad_count_def Let_def)

lemma stage_start:
  assumes "phttp_start_handoff 0 0 s0 = Some (0, s)" "sr_pending s0 = []" "sr_out s0 = []"
  shows "stage E (sr_conn s0) 2 s"
  using assms by (auto simp: phttp_start_handoff_def stage_def emit_def handoff_trace_def handoff_request_def Let_def)

lemma stage_step:
  assumes "source_step E s s'" "stage E c n s"
  shows "stage E c n s' \<or> stage E c (Suc n) s'"
  using assms
proof (induction rule: source_step.induct)
  case (configured s status s')
  then have n: "n = 2" "sr_pending s = [After_configure_switch]" "sr_conn s = c"
    by (auto simp: stage_def split: if_splits)
  obtain msg k' where "export_all E c (sr_k s) = Some (msg, k')"
    "s' = emit Close_client [After_close] ((called After_configure_switch s)\<lparr>sr_k := k', sr_conn := c\<lparr>cn_export := Some msg\<rparr>\<rparr>)"
    using configured(2) n(3) by (auto simp: after_configure_switch_def called_def split: if_splits option.splits)
  then have "stage E c 3 s'" using configured(3) n
    by (auto simp: stage_def emit_def called_def handoff_trace_def)
  then show ?case using n(1) by simp
next
  case (closed s error s')
  then have n: "n = 3" by (auto simp: stage_def split: if_splits)
  then obtain msg where m: "sr_conn s = c\<lparr>cn_export := Some msg\<rparr>" "\<exists>k k'. export_all E c k = Some (msg, k')"
    "sr_pending s = [After_close]" "sr_out s = take 3 (handoff_trace c [])"
    using closed(3) by (auto simp: stage_def handoff_trace_def)
  moreover have "s' = emit Wait_close [After_real_close] (called After_close s)"
    using closed(2) by (simp add: after_close_def split: if_splits)
  ultimately have "stage E c 4 s'" unfolding stage_def
    by (intro exI [of _ "[]"] exI [of _ msg]) (simp add: emit_def called_def handoff_trace_def)
  then show ?case using n by simp
next
  case (destroyed s error s')
  then have n: "n = 4" by (auto simp: stage_def split: if_splits)
  then obtain msg where m: "sr_conn s = c\<lparr>cn_export := Some msg\<rparr>" "\<exists>k k'. export_all E c k = Some (msg, k')"
    "sr_pending s = [After_real_close]" "sr_out s = take 4 (handoff_trace c [])"
    using destroyed(3) by (auto simp: stage_def handoff_trace_def)
  obtain ser where ser: "he_serialize E msg = Some ser"
    "s' = emit (Send_frame (hr_handoff_data (hc_res (cn_hcs c))) (ho_frame (he_junk E) ser)) [Handoff_done] (called After_real_close s)"
    using destroyed(2) m(1) by (auto simp: after_real_close_def called_def frame_bytes split: option.splits if_splits)
  then have "exported_frame E c msg (ho_frame (he_junk E) ser)" using m(2) by (auto simp: exported_frame_def)
  then have "stage E c 5 s'" using m ser(2)
    by (auto simp: stage_def emit_def called_def handoff_trace_def intro!: exI [of _ "ho_frame (he_junk E) ser"])
  then show ?case using n by simp
next
  case (written s status' s')
  then have n: "n = 5" by (auto simp: stage_def split: if_splits)
  then have "stage E c 6 s'" using written(2,3)
    by (auto simp: handoff_done_def stage_def emit_def called_def handoff_trace_def split: if_splits)
  then show ?case using n by simp
next
  case (monitor_closed s)
  then have n: "n = 6" by (auto simp: stage_def split: if_splits)
  then have "stage E c 7 (after_close_tcp_monitor (called After_close_tcp_monitor s))" using monitor_closed(2)
    by (auto simp: after_close_tcp_monitor_def stage_def emit_def called_def handoff_trace_def)
  then show ?case using n by simp
next
  case (kernel s k)
  then show ?case by (simp add: stage_def)
qed

lemma stage_reach:
  assumes "source_reach E s0 s" "sr_pending s0 = []" "sr_out s0 = []"
  shows "\<exists>n. stage E (sr_conn s0) n s"
  using assms by (induction rule: source_reach.induct) (auto intro: stage_start dest: stage_step)


end
