(* ===== verification/HandoffImport.thy ===== *)
theory HandoffImport
  imports HandoffExport
begin

text \<open>
  Taking a connection over, src/phttp_hoproto_import2.cpp: the request is imported and handled; when
  the handler answers it, the connection is rebuilt, the switch is asked to make this server the owner
  of the flow, and then the response is sent; when the handler hands off again, the states are
  forwarded.  A failed assertion is \<open>None\<close>.
\<close>

section \<open>Rebuilding a connection\<close>

text \<open>The library calls: \<open>ie_socket\<close> is what \<open>socket\<close> returns, the errors are those of \<open>uv_tcp_init\<close>,
  \<open>uv_tcp_open\<close>, \<open>uv_tcp_nodelay\<close> and \<open>uv_tcp_monitor_init\<close>.\<close>

record ('k, 'tls) imp_env =
  ie_tcp :: "'k tcp_api"
  ie_uv_init :: int
  ie_socket :: int
  ie_uv_open :: int
  ie_uv_nodelay :: int
  ie_monitor_init :: int
  ie_tls_create :: "'tls option"
  ie_tls_import :: "'tls \<Rightarrow> byte list \<Rightarrow> (int \<times> 'tls) option"
  ie_make_exportable :: "'tls \<Rightarrow> 'tls"
  ie_make_ktls :: "'tls \<Rightarrow> 'k \<Rightarrow> (int \<times> 'k) option"
  ie_serialize :: "HTTPHandoffReq \<Rightarrow> byte list option"
  ie_junk :: "byte list"

definition import_tcp :: "('k, 'tls) imp_env \<Rightarrow> TCPState \<Rightarrow> 'k \<Rightarrow> 'k option" where
  "import_tcp I tcp_state k =
     (if ie_uv_init I \<noteq> 0 \<or> ie_socket I = -1 then None
      else
        case tcp_import (ie_tcp I) (Some tcp_state) k of
          None \<Rightarrow> None
        | Some (error, k) \<Rightarrow>
            if error \<noteq> 0 \<or> ie_uv_open I \<noteq> 0 \<or> ie_uv_nodelay I \<noteq> 0 then None else Some k)"

definition tls_import :: "('k, 'tls) imp_env \<Rightarrow> 'tls \<Rightarrow> byte list \<Rightarrow> (int \<times> 'tls) option" where
  "tls_import I tls ex =
     (case ie_tls_import I tls ex of
        None \<Rightarrow> None
      | Some (ret, tls) \<Rightarrow> Some (if ret < 0 then (- EINVAL, tls) else (0, ie_make_exportable I tls)))"

definition import_tls :: "('k, 'tls) imp_env \<Rightarrow> byte list \<Rightarrow> 'k \<Rightarrow> ('tls \<times> 'k) option" where
  "import_tls I tls_state k =
     (case ie_tls_create I of
        None \<Rightarrow> None
      | Some tls \<Rightarrow>
          (case tls_import I tls tls_state of
             None \<Rightarrow> None
           | Some (error, tls) \<Rightarrow>
               if error \<noteq> 0 then None
               else
                 let tls = ie_make_exportable I tls
                 in case ie_make_ktls I tls k of
                      None \<Rightarrow> None
                    | Some (error, k) \<Rightarrow> if error \<noteq> 0 then None else Some (tls, k)))"

text \<open>\<open>hcs\<close> is the uninitialized memory of the new client socket.\<close>

definition continue_import ::
  "('k, 'tls) imp_env \<Rightarrow> ('cb, 'd, 'tls) conn \<Rightarrow> HTTPHandoffReq \<Rightarrow> 'k \<Rightarrow> (('cb, 'd, 'tls) conn \<times> 'k) option" where
  "continue_import I hcs ho_req k =
     (let hcs = hcs\<lparr>cn_hcs := (cn_hcs hcs)\<lparr>hc_state := HTTP_PARSING_HEADER, hc_imported := True\<rparr>, cn_tls := None\<rparr>;
          hcs = hcs\<lparr>cn_peer_addr := st_peer_addr (hm_tcp ho_req), cn_peer_port := st_peer_port (hm_tcp ho_req)\<rparr>
      in case import_tcp I (hm_tcp ho_req) k of
           None \<Rightarrow> None
         | Some k \<Rightarrow>
             if ie_monitor_init I \<noteq> 0 then None
             else
               case hm_tls ho_req of
                 None \<Rightarrow> Some (hcs, k)
               | Some tls_state \<Rightarrow>
                   (case import_tls I tls_state k of
                      None \<Rightarrow> None
                    | Some (tls, k) \<Rightarrow> Some (hcs\<lparr>cn_tls := Some tls\<rparr>, k)))"

definition chown_request :: "('cb, 'd, 'tls) conn \<Rightarrow> psw_req" where
  "chown_request c = (let hss = cn_server c in
     Req_chown \<lparr>cr_type = PSW_REQ_CHOWN, cr_status = 0, cr_peer_addr = cn_peer_addr c, cr_peer_port = ucast (cn_peer_port c),
       cr_owner_addr = hss_addr hss, cr_owner_port = ucast (hss_port hss), cr_owner_mac = hss_mac hss, cr_unlock = 1\<rparr>)"

definition start_change_owner :: "int \<Rightarrow> ('cb, 'd, 'tls) conn \<Rightarrow> int \<times> 'd effect list" where
  "start_change_owner queue_error c = (queue_error, if queue_error = 0 then [Task (chown_request c)] else [])"

definition after_change_owner ::
  "(addr \<Rightarrow> byte list) \<Rightarrow> u16 \<Rightarrow> int \<Rightarrow> ('cb, 'd, 'tls) conn \<Rightarrow> (('cb, 'd, 'tls) conn \<times> 'd effect list) option" where
  "after_change_owner peek status read_error c =
     (if status \<noteq> 0 \<or> read_error \<noteq> 0 then None
      else
        case phttp_send_http_res peek False (hc_res (cn_hcs c)) of
          None \<Rightarrow> None
        | Some (res, bytes) \<Rightarrow> Some (c\<lparr>cn_hcs := (cn_hcs c)\<lparr>hc_res := res\<rparr>\<rparr>, [Read_start, Response bytes]))"

section \<open>Forwarding\<close>

definition forward_proto_states ::
  "('k, 'tls) imp_env \<Rightarrow> int \<Rightarrow> ('cb, 'd) http_response \<Rightarrow> HTTPHandoffReq \<Rightarrow> 'd effect list option" where
  "forward_proto_states I error res ho_req =
     (case ie_serialize I ho_req of
        None \<Rightarrow> None
      | Some serialized_data \<Rightarrow>
          if error \<noteq> 0 then None
          else Some [Send_frame (hr_handoff_data res) (ho_header (ie_junk I) serialized_data @ serialized_data)])"

text \<open>When the frame is written, everything allocated for it is freed.\<close>

definition forward_done :: "int \<Rightarrow> 'd effect list option" where
  "forward_done status = (if status \<noteq> 0 then None else Some [])"

section \<open>A handoff message\<close>

datatype ('k, 'cb, 'd, 'tls) handed =
    Imported "('cb, 'd, 'tls) conn" 'k "'d effect list" | Forwarded "'d effect list"

type_synonym ('cb, 'd) ho_handler =
  "http_request \<Rightarrow> ('cb, 'd) http_response \<Rightarrow> bool \<Rightarrow> int \<times> http_request \<times> ('cb, 'd) http_response"

text \<open>The last part of \<open>phttp_on_handoff\<close>: what the handler answered decides.\<close>

definition take_over ::
  "('k, 'tls) imp_env \<Rightarrow> http_server_socket \<Rightarrow> ('cb, 'd, 'tls) conn \<Rightarrow> int \<Rightarrow> int \<Rightarrow> HTTPHandoffReq \<Rightarrow>
   http_request \<Rightarrow> ('cb, 'd) http_response \<Rightarrow> 'k \<Rightarrow> ('k, 'cb, 'd, 'tls) handed option" where
  "take_over I hss hcs queue_error write_error ho_req req res k =
     (if hr_status res \<le> 500 then
        let ho_req = ho_req\<lparr>hm_tcp := (hm_tcp ho_req)\<lparr>st_self_addr := hss_addr hss, st_self_port := hss_port hss\<rparr>\<rparr>
        in case continue_import I hcs ho_req k of
             None \<Rightarrow> None
           | Some (c, k) \<Rightarrow>
               let c = c\<lparr>cn_hcs := (cn_hcs c)\<lparr>hc_req := req, hc_res := res\<rparr>, cn_server := hss\<rparr>;
                   (error, out) = start_change_owner queue_error c
               in if error \<noteq> 0 then None else Some (Imported c k out)
      else if hr_status res \<noteq> 600 then None
      else map_option Forwarded (forward_proto_states I write_error res ho_req))"

definition phttp_on_handoff ::
  "('k, 'tls) imp_env \<Rightarrow> http_server_socket \<Rightarrow> ('cb, 'd) ho_handler \<Rightarrow> block \<Rightarrow> block \<Rightarrow> block \<Rightarrow> block \<Rightarrow> 'd \<Rightarrow>
   ('cb, 'd, 'tls) conn \<Rightarrow> int \<Rightarrow> int \<Rightarrow> HTTPHandoffReq \<Rightarrow> 'k \<Rightarrow> ('k, 'cb, 'd, 'tls) handed option" where
  "phttp_on_handoff I hss request_handler b1 b2 b3 b4 d hcs queue_error write_error ho_req k =
     (case http_request_import b2 (http_request_init b1) (hm_http ho_req) of
        None \<Rightarrow> None
      | Some req \<Rightarrow>
          let res = http_response_init b3 b4 d;
              (error, req, res) = request_handler req res True
          in if error \<noteq> 0 then None
             else take_over I hss hcs queue_error write_error ho_req req res k)"

end
