(* ===== verification/PhttpServed.thy ===== *)
theory PhttpServed
  imports PhttpServer
begin

text \<open>
  What the connection of src/phttp_server.cpp does with the bytes it receives: a request that arrives
  in one read is handled with the parts and the body the client wrote; one with a body whose headers
  took two reads is not.
\<close>

section \<open>Decimal numbers\<close>

lemma dec_digits: "\<forall>c \<in> set (dec n). is_digit c"
proof (induction n rule: dec.induct)
  case (1 n)
  have d: "is_digit (48 + of_nat k)" if k: "k < 10" for k
  proof -
    have "k \<in> {0, 1, 2, 3, 4, 5, 6, 7, 8, 9}" using k by auto
    then show ?thesis by (auto simp: is_digit_def)
  qed
  show ?case
  proof (cases "n < 10")
    case True
    then show ?thesis using d [of n] by (simp add: dec.simps [of n])
  next
    case False
    then show ?thesis using 1 d [of "n mod 10"] by (subst dec.simps) auto
  qed
qed

lemma dec_not_Nil [simp]: "dec n \<noteq> []"
  by (subst dec.simps) simp

lemma digit_val_dec: "k < 10 \<Longrightarrow> digit_val (48 + of_nat k) = k"
proof -
  assume "k < 10"
  then have "k \<in> {0, 1, 2, 3, 4, 5, 6, 7, 8, 9}" by auto
  then show ?thesis by (auto simp: digit_val_def)
qed

lemma digits_value_snoc: "digits_value b (xs @ [c]) = digits_value b xs * int b + int (digit_val c)"
  by (simp add: digits_value_def)

lemma digits_value_dec: "digits_value 10 (dec n) = int n"
proof (induction n rule: dec.induct)
  case (1 n)
  show ?case
  proof (cases "n < 10")
    case True
    then show ?thesis using digit_val_dec [of n] by (simp add: dec.simps [of n] digits_value_def)
  next
    case False
    have "digits_value 10 (dec n) = int (n div 10) * 10 + int (n mod 10)"
      using 1 [OF False] digit_val_dec [of "n mod 10"] False by (subst dec.simps) (simp add: digits_value_snoc)
    also have "\<dots> = int (n div 10 * 10 + n mod 10)" by (simp only: of_nat_add of_nat_mult of_nat_numeral)
    finally show ?thesis by (simp only: div_mult_mod_eq)
  qed
qed

lemma hd_dec: "0 < n \<Longrightarrow> hd (dec n) \<noteq> 48"
proof (induction n rule: dec.induct)
  case (1 n)
  show ?case
  proof (cases "n < 10")
    case True
    have "n \<in> {1, 2, 3, 4, 5, 6, 7, 8, 9}" using True 1 by auto
    then have "48 + of_nat n \<noteq> (48 :: byte)" by auto
    then show ?thesis using True by (subst dec.simps) simp
  next
    case False
    then show ?thesis using 1 by (subst dec.simps) (simp add: div_greater_zero_iff)
  qed
qed

section \<open>The declared body\<close>

definition agrees :: "byte list \<Rightarrow> byte list \<Rightarrow> bool" where
  "agrees name n \<longleftrightarrow> take (length name) n = take (length n) name"

text \<open>The client announces a body by a Content-Length header in decimal, the first header whose name agrees.\<close>

definition body_declared :: "request_text \<Rightarrow> byte list \<Rightarrow> bool" where
  "body_declared t body \<longleftrightarrow>
     (if body = [] then \<forall>h \<in> set (tx_headers t). \<not> agrees content_length (fst h)
      else int (length body) \<le> LLONG_MAX \<and>
        (\<exists>i < length (tx_headers t). tx_headers t ! i = (content_length, dec (length body)) \<and>
           (\<forall>k < i. \<not> agrees content_length (fst (tx_headers t ! k)))))"

lemma find_first_at:
  "i < length xs \<Longrightarrow> P (xs ! i) \<Longrightarrow> \<forall>k < i. \<not> P (xs ! k) \<Longrightarrow> find_first P xs s = Some (s + i)"
proof (induction xs arbitrary: i s)
  case (Cons x xs)
  show ?case
  proof (cases i)
    case 0
    then show ?thesis using Cons.prems by simp
  next
    case (Suc j)
    have "\<not> P x" using Cons.prems(3) Suc by auto
    moreover have "\<forall>k < j. \<not> P (xs ! k)"
    proof (intro allI impI)
      fix k assume "k < j"
      then show "\<not> P (xs ! k)" using Cons.prems(3) Suc by (auto dest: spec [of _ "Suc k"])
    qed
    ultimately show ?thesis using Cons.IH [of j "s + 1"] Cons.prems(1,2) Suc by simp
  qed
qed simp

lemma body_len_text:
  assumes "body_declared t body" "unat (hq_nheaders req) = length (tx_headers t)" "length (tx_headers t) \<le> length (hq_headers req)"
    "\<And>i. i < length (tx_headers t) \<Longrightarrow> name_of (hq_mem req) (hq_headers req ! i) = fst (tx_headers t ! i) \<and>
       unat (hh_name_len (hq_headers req ! i)) = length (fst (tx_headers t ! i)) \<and>
       unat (hh_val_len (hq_headers req ! i)) = length (snd (tx_headers t ! i)) \<and>
       (\<exists>r. mem_from (hq_mem req) (hh_val (hq_headers req ! i)) = snd (tx_headers t ! i) @ 13 # r)"
  shows "http_request_determine_body_len req = of_nat (length body)"
proof -
  let ?hs = "take (unat (hq_nheaders req)) (hq_headers req)" and ?P = "header_matches (hq_mem req) content_length"
  have len: "length ?hs = length (tx_headers t)" using assms(2,3) by simp
  have nth: "?hs ! i = hq_headers req ! i" if "i < length (tx_headers t)" for i using that assms(2) by simp
  have z: "(0 :: byte) \<notin> set content_length" by (simp add: content_length_def)
  have m: "?P (?hs ! i) \<longleftrightarrow> agrees content_length (fst (tx_headers t ! i))" if i: "i < length (tx_headers t)" for i
    using header_matches_iff [OF _ z, of "hq_mem req" "hq_headers req ! i"] assms(4) [OF i] nth [OF i]
    by (simp add: agrees_def)
  show ?thesis
  proof (cases "body = []")
    case True
    then have "\<forall>h \<in> set (tx_headers t). \<not> agrees content_length (fst h)" using assms(1) by (simp add: body_declared_def)
    then have "\<forall>h \<in> set ?hs. \<not> ?P h" using m len by (metis in_set_conv_nth nth_mem)
    then have "http_request_find_header req content_length = None"
      by (simp add: http_request_find_header_def find_first_None)
    then show ?thesis using True by (simp add: http_request_determine_body_len_def)
  next
    case False
    then obtain i where i: "i < length (tx_headers t)" "tx_headers t ! i = (content_length, dec (length body))"
      "\<forall>k < i. \<not> agrees content_length (fst (tx_headers t ! k))" and lim: "int (length body) \<le> LLONG_MAX"
      using assms(1) by (auto simp: body_declared_def)
    have "?P (?hs ! i)" using m [OF i(1)] i(2) by (simp add: agrees_def)
    moreover have "\<forall>k < i. \<not> ?P (?hs ! k)" using m i(1,3) by simp
    ultimately have f: "http_request_find_header req content_length = Some i"
      unfolding http_request_find_header_def
      using find_first_at [of i ?hs ?P 0, unfolded len, OF i(1)] by simp
    obtain r where r: "mem_from (hq_mem req) (hh_val (hq_headers req ! i)) = dec (length body) @ 13 # r"
      "unat (hh_val_len (hq_headers req ! i)) = length (dec (length body))"
      using assms(4) [OF i(1)] i(2) by auto
    have "0 < length body" using False by simp
    from hd_dec [OF this] have "strtoll 0 (dec (length body) @ 13 # r) = (int (length body), length (dec (length body)))"
      using strtoll_decimal [of "dec (length body)" 13 r] dec_digits lim
      by (simp add: digits_value_dec digit_val_def)
    moreover have "hh_val_len (hq_headers req ! i) = of_nat (length (dec (length body)))"
      using arg_cong [OF r(2), of "of_nat :: nat \<Rightarrow> u64"] by simp
    ultimately show ?thesis using f r(1) by (simp add: http_request_determine_body_len_def)
  qed
qed

section \<open>Requests that arrive in one read\<close>

text \<open>The buffer of the request after the bytes of one read are consumed, when it was empty before.\<close>

lemma first_read:
  assumes "mb_ok mem" "membuf_used mem = 0" "memcpy_cur mem bytes = Some m" "length bytes \<le> unat (membuf_avail mem)"
  defines "m' \<equiv> snd (membuf_consume m (of_nat (length bytes)))"
  shows "membuf_consume m (of_nat (length bytes)) = (0, m')" "mb_ok m'" "used_bytes m' = bytes"
    "mb_prev m' = mb_begin m'" "mb_cur m' = mb_begin m' + of_nat (length bytes)" "length bytes < 2 ^ 64"
proof -
  obtain m2 where m2: "memcpy_cur mem bytes = Some m2" "mb_ok (snd (membuf_consume m2 (of_nat (length bytes))))"
    "used_bytes (snd (membuf_consume m2 (of_nat (length bytes)))) = used_bytes mem @ take (length bytes) bytes"
    using memcpy_append [OF assms(1,4), of "length bytes"] by auto
  have "used_bytes mem = []" using assms(2) by (simp add: used_bytes_def)
  then show "mb_ok m'" "used_bytes m' = bytes" using m2 assms(3) by (simp_all add: m'_def)
  show l: "length bytes < 2 ^ 64"
    using assms(4) unsigned_less [where 'a = nat, of "membuf_avail mem"] by simp
  have m: "m = mem\<lparr>mb_data := stn (mb_data mem) (unat (membuf_used mem)) bytes\<rparr>"
    using assms(3) by (simp add: memcpy_cur_def split: if_splits)
  have "\<not> membuf_avail m < of_nat (length bytes)"
    using assms(4) unat_of_nat64 [OF l] m by (simp add: membuf_avail_def word_less_nat_alt)
  moreover have "mb_cur m = mb_begin m" using assms(2) m by (simp add: membuf_used_def)
  ultimately show "membuf_consume m (of_nat (length bytes)) = (0, m')"
    "mb_prev m' = mb_begin m'" "mb_cur m' = mb_begin m' + of_nat (length bytes)"
    by (simp_all add: m'_def membuf_consume_def)
qed

text \<open>C27: a request that arrives complete in one read, with or without a body, is given to the request
  handler: method, path, version and headers denote the parts of the request text and the body denotes
  the announced bytes behind it; the connection is ready for the next request.\<close>

theorem request_served:
  assumes "text_ok t" and "length (tx_headers t) \<le> 16" and "body_declared t body"
    and "length (hq_headers (hc_req hcs)) = 16" and "mb_ok (hq_mem (hc_req hcs))"
    and "membuf_used (hq_mem (hc_req hcs)) = 0" and "hc_state hcs = HTTP_PARSING_HEADER"
    and "length (request_bytes t @ body) \<le> unat (membuf_avail (hq_mem (hc_req hcs)))"
    and "memcpy_cur (hq_mem (hc_req hcs)) (request_bytes t @ body) = Some m"
  shows "\<exists>hcs'. phttp_on_read peek handler handoff_error (int (length (request_bytes t @ body)))
      (hcs\<lparr>hc_req := (hc_req hcs)\<lparr>hq_mem := m\<rparr>\<rparr>) = handle_request peek handler handoff_error hcs' \<and>
    hc_state hcs' = HTTP_PARSING_HEADER \<and> hc_res hcs' = hc_res hcs \<and>
    (let req = hc_req hcs'; mem = hq_mem req in
      take (unat (hq_method_len req)) (mem_from mem (hq_method req)) = tx_method t \<and>
      take (unat (hq_path_len req)) (mem_from mem (hq_path req)) = tx_path t \<and>
      hq_minor_version req = int (tx_minor t) \<and> unat (hq_nheaders req) = length (tx_headers t) \<and>
      (\<forall>i < length (tx_headers t). name_of mem (hq_headers req ! i) = fst (tx_headers t ! i) \<and>
         val_of mem (hq_headers req ! i) = snd (tx_headers t ! i)) \<and>
      (body \<noteq> [] \<longrightarrow> take (unat (hq_body_len req)) (mem_from mem (hq_body req)) = body))"
proof -
  let ?bs = "request_bytes t @ body" and ?req = "hc_req hcs"
  define m' where "m' = snd (membuf_consume m (of_nat (length ?bs)))"
  note rd = first_read [OF assms(5,6,9,8), folded m'_def]
  have ne: "?bs \<noteq> []" by (simp add: request_bytes_def)
  have ok: "mb_ok (hq_mem (?req\<lparr>hq_mem := m'\<rparr>))" "length (hq_headers (?req\<lparr>hq_mem := m'\<rparr>)) = 16"
    "mb_prev (hq_mem (?req\<lparr>hq_mem := m'\<rparr>)) = mb_begin (hq_mem (?req\<lparr>hq_mem := m'\<rparr>))"
    "used_bytes (hq_mem (?req\<lparr>hq_mem := m'\<rparr>)) = request_bytes t @ body"
    using rd assms(4) by simp_all
  obtain req' where p: "http_parse_request (?req\<lparr>hq_mem := m'\<rparr>) = (Some (int (length (request_bytes t))), req')"
    "hq_mem req' = m'" "take (unat (hq_method_len req')) (mem_from m' (hq_method req')) = tx_method t"
    "take (unat (hq_path_len req')) (mem_from m' (hq_path req')) = tx_path t"
    "hq_minor_version req' = int (tx_minor t)" "unat (hq_nheaders req') = length (tx_headers t)" "length (hq_headers req') = 16"
    and h: "\<forall>i < length (tx_headers t). name_of m' (hq_headers req' ! i) = fst (tx_headers t ! i) \<and>
       val_of m' (hq_headers req' ! i) = snd (tx_headers t ! i) \<and>
       unat (hh_name_len (hq_headers req' ! i)) = length (fst (tx_headers t ! i)) \<and>
       unat (hh_val_len (hq_headers req' ! i)) = length (snd (tx_headers t ! i)) \<and>
       (\<exists>r. mem_from m' (hh_val (hq_headers req' ! i)) = snd (tx_headers t ! i) @ 13 # r)"
    using parse_text [OF assms(1,2) ok(2,1,3,4)] by auto
  have bl: "http_request_determine_body_len req' = of_nat (length body)"
    by (rule body_len_text [OF assms(3) p(6)]) (use h p(2,7) assms(2) in auto)
  have nn: "\<not> int (length ?bs) \<le> 0" using ne by (cases ?bs) auto
  have small: "length body < 2 ^ 64" "length (request_bytes t) < 2 ^ 64" using rd(6) by simp_all
  show ?thesis
  proof (cases "body = []")
    case True
    then have b0: "http_request_determine_body_len req' = 0" using bl by simp
    have "phttp_on_read peek handler handoff_error (int (length ?bs)) (hcs\<lparr>hc_req := ?req\<lparr>hq_mem := m\<rparr>\<rparr>) =
        handle_request peek handler handoff_error (hcs\<lparr>hc_req := req'\<rparr>)"
      using nn rd(1) p(1) b0 assms(7) True by (simp add: phttp_on_read_def Let_def)
    then show ?thesis using True assms(7) p h by (intro exI [of _ "hcs\<lparr>hc_req := req'\<rparr>"]) (simp add: Let_def)
  next
    case False
    then have nz: "of_nat (length body) \<noteq> (0 :: u64)" using small(1) unat_of_nat64 by fastforce
    let ?b = "mb_prev m' + word_of_int (int (length (request_bytes t)))"
    let ?r = "req'\<lparr>hq_body := ?b, hq_body_len := of_nat (length body)\<rparr>"
    let ?hcs = "hcs\<lparr>hc_req := ?r\<rparr>"
    have got: "mb_cur m' - ?b = of_nat (length body)" by (simp add: rd(4,5))
    have st: "hcs\<lparr>hc_req := ?r, hc_state := HTTP_PARSING_HEADER\<rparr> = ?hcs" using assms(7) by simp
    have "phttp_on_read peek handler handoff_error (int (length ?bs)) (hcs\<lparr>hc_req := ?req\<lparr>hq_mem := m\<rparr>\<rparr>) =
        handle_request peek handler handoff_error (hcs\<lparr>hc_req := ?r, hc_state := HTTP_PARSING_HEADER\<rparr>)"
      using nn rd(1) p(1,2) bl nz assms(7) got by (simp add: phttp_on_read_def receive_body_def Let_def)
    moreover have "take (unat (of_nat (length body) :: u64)) (mem_from m' ?b) = body"
    proof -
      have "mb_data m' = request_bytes t @ body @ drop (unat (membuf_used m')) (mb_data m')"
        using used_prefix [of m'] rd(3) by simp
      then have "drop (length (request_bytes t)) (mb_data m') = body @ drop (unat (membuf_used m')) (mb_data m')"
        by (metis append_eq_conv_conj)
      then show ?thesis
        using mem_from_ptr [OF small(2), of m'] unat_of_nat64 [OF small(1)] by (simp add: rd(4))
    qed
    ultimately show ?thesis using assms(7) p h unfolding st
      by (intro exI [of _ ?hcs]) (simp add: Let_def)
  qed
qed

section \<open>Requests whose headers take two reads\<close>

lemma sub_wraps: "x < y \<Longrightarrow> x < x - y" for x y :: u64
  using unsigned_less [where 'a = nat, of y] by (simp add: word_less_nat_alt unat_sub_if_size word_size)

text \<open>A request with a body whose headers were completed by a later read is never handled, although
  every byte of it is there: the body is looked for as far behind the end of the headers as bytes were
  received before the last read.  So the connection waits for that many more bytes, or, when they are
  more than the body is long, closes.\<close>

theorem split_request_not_handled:
  assumes "hc_state hcs = HTTP_PARSING_HEADER" and "mb_ok (hq_mem (hc_req hcs))"
    and "0 < unat (membuf_used (hq_mem (hc_req hcs)))"
    and "0 < k" and "k \<le> unat (membuf_avail (hq_mem (hc_req hcs)))"
    and "http_parse_request ((hc_req hcs)\<lparr>hq_mem := snd (membuf_consume (hq_mem (hc_req hcs)) (of_nat k))\<rparr>) = (Some (int n), req')"
    and "http_request_determine_body_len req' = of_nat len" and "0 < len"
    and "unat (membuf_used (hq_mem (hc_req hcs))) + k = n + len"
  shows "\<exists>hcs'. phttp_on_read peek handler handoff_error (int k) hcs =
      Some (hcs', if unat (membuf_used (hq_mem (hc_req hcs))) \<le> len then [] else [Close]) \<and>
    hc_state hcs' = HTTP_RECEIVING_BODY"
proof -
  let ?mem = "hq_mem (hc_req hcs)" and ?w = "of_nat k :: u64"
  let ?u = "unat (membuf_used ?mem)" 
  define m where "m = snd (membuf_consume ?mem ?w)"
  have lim: "unat (membuf_avail ?mem) < 2 ^ 64" "unat (mb_end ?mem - mb_begin ?mem) < 2 ^ 64"
    using unsigned_less [where 'a = nat, of "membuf_avail ?mem"] unsigned_less [where 'a = nat, of "mb_end ?mem - mb_begin ?mem"]
    by simp_all
  have uw: "unat ?w = k" using lim assms(5) by (intro unat_of_nat64) simp
  then have "\<not> membuf_avail ?mem < ?w" using assms(5) by (simp add: word_less_nat_alt)
  then have con: "membuf_consume ?mem (word_of_int (int k)) = (0, m)" and mm: "mb_prev m = mb_cur ?mem"
    "mb_cur m = mb_cur ?mem + ?w"
    by (simp_all add: m_def membuf_consume_def)
  have tot: "n + len < 2 ^ 64"
    using unat_avail [OF assms(2)] assms(2,5,9) lim(2) by (simp add: mb_ok_def)
  then have small: "len < 2 ^ 64" "unat (of_nat len :: u64) = len" using unat_of_nat64 [of len] by simp_all
  then have nz: "of_nat len \<noteq> (0 :: u64)" using assms(8) by auto
  have pm: "hq_mem req' = m" using assms(6) by (auto simp: m_def http_parse_request_def Let_def split: prod.splits)
  let ?got = "mb_cur m - (mb_prev m + word_of_int (int n))"
  have "of_nat (?u + k) = (of_nat (n + len) :: u64)" using assms(9) by simp
  then have "membuf_used ?mem + ?w = of_nat n + of_nat len" by simp
  then have "?got = of_nat len - membuf_used ?mem" using mm by (simp add: algebra_simps)
  then have got: "?got = of_nat len - membuf_used ?mem" .
  have ne: "?got \<noteq> of_nat len" using got assms(3) by auto
  have gt: "?got > of_nat len \<longleftrightarrow> \<not> ?u \<le> len"
  proof (cases "?u \<le> len")
    case True
    then have "unat ?got = len - ?u" using got small by (simp add: unat_sub word_le_nat_alt)
    then show ?thesis using True small by (simp add: word_less_nat_alt)
  next
    case False
    then have "of_nat len < membuf_used ?mem" using small by (simp add: word_less_nat_alt)
    then show ?thesis using sub_wraps got False by simp
  qed
  let ?r = "req'\<lparr>hq_body := mb_prev m + word_of_int (int n), hq_body_len := of_nat len\<rparr>"
  have "phttp_on_read peek handler handoff_error (int k) hcs =
      Some (hcs\<lparr>hc_req := ?r, hc_state := HTTP_RECEIVING_BODY\<rparr>, if ?u \<le> len then [] else [Close])"
    using assms(1,4,7) assms(6) [folded m_def] con pm nz ne gt unfolding phttp_on_read_def receive_body_def Let_def by simp
  then show ?thesis by auto
qed

section \<open>Samples\<close>

definition post_text :: request_text where
  "post_text = \<lparr>tx_method = [80, 79, 83, 84], tx_path = [47], tx_minor = 1, tx_headers = [(content_length, [50])]\<rparr>"

definition sample_hcs :: "nat \<Rightarrow> byte list \<Rightarrow> (unit, unit) client_socket" where
  "sample_hcs used data = \<lparr>hc_state = HTTP_PARSING_HEADER,
     hc_req = sample_request\<lparr>hq_mem := \<lparr>mb_begin = 4096, mb_cur = 4096 + of_nat used, mb_prev = 4096,
       mb_end = 4096 + of_nat (length data), mb_data = data\<rparr>\<rparr>,
     hc_res = \<lparr>hr_mem = membuf_init (8192, \<lambda>_. 0) 128, hr_body_mem = membuf_init (16384, \<lambda>_. 0) 8, hr_status = 200,
       hr_reason = [79, 75], hr_headers = \<lparr>hh_name = 1, hh_name_len = 1, hh_val = 1, hh_val_len = 1\<rparr> # replicate 15 header_reset,
       hr_nheaders = 1, hr_after_res = None, hr_handoff_data = ()\<rparr>,
     hc_imported = False\<rparr>"

definition post_bytes :: "byte list" where "post_bytes = request_bytes post_text @ [104, 105]"

lemma sample_declared: "body_declared post_text [104, 105]"
proof -
  have "dec (Suc (Suc 0)) = [50]" by (subst dec.simps) simp
  then show ?thesis by (simp add: body_declared_def post_text_def LLONG_MAX_def exI [of _ 0])
qed

theorem request_served_witness:
  "\<exists>m hcs'. memcpy_cur (hq_mem (hc_req (sample_hcs 0 (replicate 64 0)))) post_bytes = Some m \<and>
    phttp_on_read (\<lambda>_. []) (\<lambda>req res. (0, req, res)) 0 40
      ((sample_hcs 0 (replicate 64 0))\<lparr>hc_req := (hc_req (sample_hcs 0 (replicate 64 0)))\<lparr>hq_mem := m\<rparr>\<rparr>) =
      handle_request (\<lambda>_. []) (\<lambda>req res. (0, req, res)) 0 hcs' \<and>
    take (unat (hq_body_len (hc_req hcs'))) (mem_from (hq_mem (hc_req hcs')) (hq_body (hc_req hcs'))) = [104, 105]"
proof -
  let ?h = "sample_hcs 0 (replicate 64 0)"
  have c: "text_ok post_text" "length (tx_headers post_text) \<le> 16" "length (hq_headers (hc_req ?h)) = 16"
    "mb_ok (hq_mem (hc_req ?h))" "membuf_used (hq_mem (hc_req ?h)) = 0" "hc_state ?h = HTTP_PARSING_HEADER"
    "length (request_bytes post_text @ [104, 105]) \<le> unat (membuf_avail (hq_mem (hc_req ?h)))"
    "memcpy_cur (hq_mem (hc_req ?h)) (request_bytes post_text @ [104, 105]) \<noteq> None"
    "length post_bytes = 40"
    by code_simp+
  obtain m where m: "memcpy_cur (hq_mem (hc_req ?h)) (request_bytes post_text @ [104, 105]) = Some m" using c(8) by blast
  show ?thesis
    using request_served [OF c(1,2) sample_declared c(3-7) m, of "\<lambda>_. []" "\<lambda>req res. (0, req, res)" 0] m
    unfolding Let_def post_bytes_def [symmetric] by (auto simp: c(9))
qed

theorem split_request_not_handled_witness:
  "\<exists>hcs'. phttp_on_read (\<lambda>_. []) (\<lambda>req res. (0, req, res)) 0 30 (sample_hcs 10 post_bytes) = Some (hcs', [Close])"
proof -
  let ?h = "sample_hcs 10 post_bytes"
  let ?p = "http_parse_request ((hc_req ?h)\<lparr>hq_mem := snd (membuf_consume (hq_mem (hc_req ?h)) (of_nat 30))\<rparr>)"
  have c: "hc_state ?h = HTTP_PARSING_HEADER" "mb_ok (hq_mem (hc_req ?h))" "unat (membuf_used (hq_mem (hc_req ?h))) = 10"
    "unat (membuf_avail (hq_mem (hc_req ?h))) = 30" "fst ?p = Some (int 38)"
    "http_request_determine_body_len (snd ?p) = of_nat 2"
    by code_simp+
  have p: "?p = (Some (int 38), snd ?p)" using c(5) by (metis prod.collapse)
  show ?thesis
    using split_request_not_handled [OF c(1,2) _ _ _ p c(6), of "\<lambda>_. []" "\<lambda>req res. (0, req, res)" 0] c(3,4) by auto
qed

theorem response_on_the_wire_witness:
  "\<exists>res'. phttp_send_http_res (\<lambda>a. [65]) False (hc_res (sample_hcs 0 [])) =
    Some (res', response_head (\<lambda>a. [65]) (hc_res (sample_hcs 0 [])))"
proof -
  let ?r = "hc_res (sample_hcs 0 [])"
  have c: "mb_ok (hr_mem ?r)" "membuf_used (hr_mem ?r) = 0" "mb_ok (hr_body_mem ?r)"
    "\<forall>h \<in> set (take (unat (hr_nheaders ?r)) (hr_headers ?r)). uint (hh_name_len h) \<le> INT_MAX \<and> uint (hh_val_len h) \<le> INT_MAX"
    "length (response_head (\<lambda>a. [65]) ?r) < unat (membuf_avail (hr_mem ?r))" "used_bytes (hr_body_mem ?r) = []"
    by code_simp+
  show ?thesis using response_on_the_wire [OF c(1-5)] c(6) by simp
qed

end
