(* ===== verification/HandoffProps.thy ===== *)
theory HandoffProps
  imports HandoffImport PhttpServed
begin

text \<open>
  A handoff as a whole: what the source writes is what the destination handles, and what the two ask of
  the switch moves the flow.
\<close>

section \<open>The request at the destination\<close>

lemma init_used [simp]: "membuf_used (membuf_init b n) = 0"
  by (simp add: membuf_init_def membuf_used_def)

lemma init_avail [simp]: "membuf_avail (membuf_init b n) = n"
  by (simp add: membuf_init_def membuf_avail_def)

definition exportable :: "http_request \<Rightarrow> bool" where
  "exportable req \<longleftrightarrow> mb_ok (hq_mem req) \<and> unat (hq_nheaders req) \<le> 16 \<and> length (hq_headers req) = 16 \<and>
     (hq_body req = 0 \<longrightarrow> hq_body_len req = 0) \<and> hq_minor_version req \<in> {0..9} \<and>
     membuf_used (hq_mem req) \<le> 5000000"

lemma import_into_fresh:
  assumes "exportable req"
  obtains req' where "http_request_import b2 (http_request_init b1) (http_request_export req) = Some req'"
    "same_request req req'"
proof -
  have m: "hq_mem (http_request_init b1) = membuf_init b1 5000000" by (simp add: http_request_init_def)
  have "\<exists>req'. http_request_import b2 (http_request_init b1) (http_request_export req) = Some req' \<and> same_request req req'"
    using assms by (intro export_import) (simp_all add: exportable_def m mb_ok_init)
  then show thesis using that by blast
qed

text \<open>C34: the request reaches the new owner: when the frame of a handoff arrives at the handoff server,
  the message in it is taken over, and the handler there is called with a request that has the same
  bytes, the same version, and every pointer at the same place as the request of the source.\<close>

theorem request_handed_over:
  assumes "source_reach E s0 s" and "sr_pending s0 = []" and "sr_out s0 = []"
    and "Send_frame d frame \<in> set (sr_out s)" and "exportable (hc_req (cn_hcs (sr_conn s0)))"
    and "\<forall>m ser. he_serialize E m = Some ser \<longrightarrow> parse ser = Some m \<and> frame_ok (he_junk E) ser"
    and "mb_ok (ho_mem hc)" and "membuf_used (ho_mem hc) = 0"
    and "int (length frame) \<le> uint (membuf_avail (ho_mem hc))"
    and "take (length frame) (mb_data (ho_mem hc)) = frame"
  shows "\<exists>hc' msg req'. ho_on_read parse (int (length frame)) hc = Some (Inr (hc', [msg])) \<and>
    same_request (hc_req (cn_hcs (sr_conn s0))) req' \<and>
    phttp_on_handoff I hss handler b1 b2 b3 b4 dd hcs qe we msg k =
      (let (error, req, res) = handler req' (http_response_init b3 b4 dd) True
       in if error \<noteq> 0 then None else take_over I hss hcs qe we msg req res k)"
proof -
  obtain n where "stage E (sr_conn s0) n s" using stage_reach [OF assms(1-3)] by blast
  then obtain msg where "exported_frame E (sr_conn s0) msg frame"
    using assms(4) by (auto simp: stage_def handoff_trace_def)
  then obtain ser k0 k1 where f: "frame = ho_frame (he_junk E) ser" "he_serialize E msg = Some ser"
    "export_all E (sr_conn s0) k0 = Some (msg, k1)" by (auto simp: exported_frame_def)
  have p: "parse ser = Some msg" "frame_ok (he_junk E) ser" using assms(6) f(2) by simp_all
  have "hm_http msg = http_request_export (hc_req (cn_hcs (sr_conn s0)))"
    using f(3) by (auto simp: export_all_def Let_def split: option.splits if_splits)
  then obtain req' where r: "http_request_import b2 (http_request_init b1) (hm_http msg) = Some req'"
    "same_request (hc_req (cn_hcs (sr_conn s0))) req'"
    using import_into_fresh [OF assms(5)] by metis
  have "0 < length frame" using length_frame [OF p(2)] f(1) by simp
  then have "\<exists>hc'. ho_on_read parse (int (length frame)) hc = Some (Inr (hc', [msg])) \<and> used_bytes (ho_mem hc') = [] \<and> mb_ok (ho_mem hc')"
    using assms(7-10) f(1) p
    by (intro frames_delivered [where fs = "[(he_junk E, ser)]"]) (simp_all add: partial_ok_def)
  then show ?thesis using r by (auto simp: phttp_on_handoff_def)
qed

section \<open>The flow at the switch\<close>

definition flow_key :: "('cb, 'd, 'tls) conn \<Rightarrow> prism_key" where
  "flow_key c = \<lparr>key_addr = cn_peer_addr c, key_port = ucast (ucast (cn_peer_port c) :: u16)\<rparr>"

definition flow_rule :: "http_server_socket \<Rightarrow> http_server_socket \<Rightarrow> byte \<Rightarrow> prism_value" where
  "flow_rule v own l = \<lparr>virtual_addr = hss_addr v, virtual_port = ucast (hss_port v), owner_addr = hss_addr own,
     owner_port = ucast (hss_port own), owner_mac = hss_mac own, locked = l\<rparr>"

lemma import_tcp_conn:
  assumes "continue_import I hcs ho_req k = Some (c, k')"
  shows "hc_imported (cn_hcs c) \<and> cn_peer_addr c = st_peer_addr (hm_tcp ho_req) \<and> cn_peer_port c = st_peer_port (hm_tcp ho_req)"
  using assms by (auto simp: continue_import_def Let_def split: option.splits if_splits)

lemma take_over_conn:
  assumes "take_over I hss hcs qe we ho_req req res k = Some (Imported c k' out)"
  shows "out = [Task (chown_request c)] \<and> cn_server c = hss \<and> hc_imported (cn_hcs c) \<and>
    cn_peer_addr c = st_peer_addr (hm_tcp ho_req) \<and> cn_peer_port c = st_peer_port (hm_tcp ho_req) \<and>
    hc_req (cn_hcs c) = req \<and> hc_res (cn_hcs c) = res"
  using assms import_tcp_conn
  by (fastforce simp: take_over_def start_change_owner_def Let_def split: option.splits if_splits prod.splits)

text \<open>A connection carried from one server to the next: the first handoff adds a locked rule for the
  flow, whose virtual end point is the first server; taking over makes the new server the owner and
  unlocks the flow; handing off again from there locks that rule and changes nothing else; and closing
  the connection deletes it and leaves no trace.\<close>

theorem flow_follows_connection:
  assumes "\<not> hc_imported (cn_hcs c)" and "R (flow_key c) = None"
    and "export_all E c k = Some (msg, k1)"
    and "st_peer_addr (hm_tcp msg) = cn_peer_addr c" and "st_peer_port (hm_tcp msg) = cn_peer_port c"
    and "take_over I hss hcs qe we msg req res k2 = Some (Imported c' k3 out)"
  shows "exec_cmd (cmd_of_req (handoff_request c)) R = R(flow_key c \<mapsto> flow_rule (cn_server c) (cn_server c) 1) \<and>
    (\<exists>r. out = [Task r] \<and> exec_cmd (cmd_of_req r) (R(flow_key c \<mapsto> flow_rule (cn_server c) (cn_server c) 1)) =
       R(flow_key c \<mapsto> flow_rule (cn_server c) hss 0)) \<and>
    exec_cmd (cmd_of_req (handoff_request c')) (R(flow_key c \<mapsto> flow_rule (cn_server c) hss 0)) =
      R(flow_key c \<mapsto> flow_rule (cn_server c) hss 1) \<and>
    exec_cmd (cmd_of_req (delete_request c')) (R(flow_key c \<mapsto> flow_rule (cn_server c) hss 0)) = R"
proof -
  note t = take_over_conn [OF assms(6)]
  have key: "flow_key c' = flow_key c" using t assms(4,5) by (simp add: flow_key_def)
  have R: "R(flow_key c := None) = R" using assms(2) by (simp add: fun_upd_idem)
  have ch: "cmd_of_req (chown_request c') = Chown (flow_key c) (hss_addr hss) (ucast (hss_port hss)) (hss_mac hss) True"
    using t key by (simp add: chown_request_def chown_cmd_def flow_key_def Let_def)
  have lk: "cmd_of_req (handoff_request c') = Lock (flow_key c)" "cmd_of_req (delete_request c') = Delete (flow_key c)"
    using t key by (simp_all add: handoff_request_def lock_request_def delete_request_def delete_cmd_def lock_key_def flow_key_def)
  have ad: "cmd_of_req (handoff_request c) = Add (flow_key c) (flow_rule (cn_server c) (cn_server c) 1)"
    using assms(1) by (simp add: handoff_request_def add_request_def add_cmd_def flow_key_def flow_rule_def Let_def)
  have "exec_cmd (cmd_of_req (chown_request c')) (R(flow_key c \<mapsto> flow_rule (cn_server c) (cn_server c) 1)) =
       R(flow_key c \<mapsto> flow_rule (cn_server c) hss 0)"
    unfolding ch by (simp add: flow_rule_def toggle_unlock_def)
  then show ?thesis
    unfolding ad lk using t R by (simp add: flow_rule_def toggle_lock_def)
qed

text \<open>A handler at the new owner that answers with a status between 501 and 599 brings the server
  down.\<close>

theorem server_error_status_aborts:
  assumes "500 < hr_status res" and "hr_status res \<noteq> 600"
  shows "take_over I hss hcs qe we ho_req req res k = None"
  using assms by (auto simp: take_over_def not_le [symmetric])

section \<open>A handoff gets through\<close>

definition before :: "('cb, 'd, 'tls) conn \<Rightarrow> 'k \<Rightarrow> ('k, 'cb, 'd, 'tls) source" where
  "before c k = \<lparr>sr_conn = c, sr_k = k, sr_pending = [], sr_out = []\<rparr>"

lemma handoff_completes:
  fixes c :: "('cb, 'd, 'tls) conn" and k :: 'k
  assumes "export_all E c k = Some (msg, k1)" and "he_serialize E msg = Some ser"
  shows "\<exists>s. source_reach E (before c k) s \<and> sr_pending s = [] \<and>
    sr_out s = handoff_trace c (ho_frame (he_junk E) ser)"
proof -
  let ?fr = "ho_frame (he_junk E) ser" and ?c1 = "c\<lparr>cn_export := Some msg\<rparr>"
  define st where "st c' k' p n = \<lparr>sr_conn = c', sr_k = k', sr_pending = p, sr_out = take n (handoff_trace c ?fr)\<rparr>"
    for c' :: "('cb, 'd, 'tls) conn" and k' :: 'k and p n
  note d = st_def emit_def called_def handoff_trace_def
  have 1: "source_reach E (before c k) (st c k [After_configure_switch] 2)"
    by (rule source_reach.start) (simp add: phttp_start_handoff_def before_def d handoff_request_def Let_def)
  have 2: "source_step E (st c k [After_configure_switch] 2) (st ?c1 k1 [After_close] 3)"
    by (rule source_step.configured [where status = 0]) (simp_all add: after_configure_switch_def d assms(1))
  have 3: "source_step E (st ?c1 k1 [After_close] 3) (st ?c1 k1 [After_real_close] 4)"
    by (rule source_step.closed [where error = 0]) (simp_all add: after_close_def d)
  have 4: "source_step E (st ?c1 k1 [After_real_close] 4) (st ?c1 k1 [Handoff_done] 5)"
    by (rule source_step.destroyed [where error = 0]) (simp_all add: after_real_close_def d assms(2) frame_bytes)
  have 5: "source_step E (st ?c1 k1 [Handoff_done] 5) (st ?c1 k1 [After_close_tcp_monitor] 6)"
    by (rule source_step.written [where status' = 0]) (simp_all add: handoff_done_def d)
  have 6: "source_step E (st ?c1 k1 [After_close_tcp_monitor] 6) (st ?c1 k1 [] 7)"
    using source_step.monitor_closed [of "st ?c1 k1 [After_close_tcp_monitor] 6" E]
    by (simp add: after_close_tcp_monitor_def d)
  have "source_reach E (before c k) (st ?c1 k1 [] 7)"
    by (rule source_reach.step [OF source_reach.step [OF source_reach.step [OF source_reach.step [OF source_reach.step [OF 1 2] 3] 4] 5] 6])
  then show ?thesis by (intro exI [of _ "st ?c1 k1 [] 7"]) (simp add: d)
qed

text \<open>C35: a handoff whose states can be exported and serialized can always be brought to its end: every
  callback becomes pending in its turn, and at the end the states have been sent and the connection is
  freed.\<close>

theorem handoff_finishes:
  assumes "export_all E c k = Some (msg, k1)" and "he_serialize E msg = Some ser"
  shows "\<exists>s. source_reach E (before c k) s \<and> sr_pending s = [] \<and>
    sr_out s = handoff_trace c (ho_frame (he_junk E) ser)"
  by (rule handoff_completes [OF assms])

section \<open>Samples\<close>

definition sample_conn0 :: "(unit, unit, unit) conn" where
  "sample_conn0 = \<lparr>cn_hcs = (sample_hcs 0 [])\<lparr>hc_req := post_request\<rparr>, cn_tls = None, cn_peer_addr = 2, cn_peer_port = 4000,
     cn_server = \<lparr>hss_addr = 1, hss_port = 80, hss_mac = [2, 0, 0, 0, 0, 1]\<rparr>, cn_export = None\<rparr>"

definition sample_env0 :: "(tcb, unit) ho_env" where
  "sample_env0 = \<lparr>he_tcp = model_kernel, he_info = \<lparr>tcpi_state = 0, tcpi_snd_wscale = 0, tcpi_rcv_wscale = 0\<rparr>,
     he_tls_unmake = \<lambda>t k. (0, t, k), he_calloc_ok = True, he_tls_context = \<lambda>_. Some (1, [0]),
     he_serialize = \<lambda>_. None, he_junk = replicate 7 0\<rparr>"

definition sample_message :: HTTPHandoffReq where
  "sample_message = fst (the (export_all sample_env0 sample_conn0 sample_tcb))"

definition sample_ho_env :: "(tcb, unit) ho_env" where
  "sample_ho_env = sample_env0\<lparr>he_serialize := \<lambda>m. if m = sample_message then Some [1, 2, 3] else None\<rparr>"

lemma export_all_serialize: "export_all (E\<lparr>he_serialize := f\<rparr>) c k = export_all E c k"
proof -
  have t: "tls_export (E\<lparr>he_serialize := f\<rparr>) = tls_export E" by (intro ext) (simp add: tls_export_def)
  have x: "export_tls (E\<lparr>he_serialize := f\<rparr>) = export_tls E" by (intro ext) (unfold export_tls_def t, simp)
  show ?thesis unfolding export_all_def x by simp
qed

lemma sample_exported: "\<exists>k. export_all sample_ho_env sample_conn0 sample_tcb = Some (sample_message, k)"
proof -
  have e: "export_all sample_ho_env sample_conn0 sample_tcb = export_all sample_env0 sample_conn0 sample_tcb"
    by (simp add: sample_ho_env_def export_all_serialize)
  have "export_all sample_env0 sample_conn0 sample_tcb \<noteq> None" by code_simp
  then show ?thesis unfolding e by (auto simp: sample_message_def)
qed

lemma sample_serialized: "he_serialize sample_ho_env sample_message = Some [1, 2, 3]"
  "he_junk sample_ho_env = replicate 7 0"
  by (simp_all add: sample_ho_env_def sample_env0_def)

definition sample_frame :: "byte list" where "sample_frame = ho_frame (replicate 7 0) [1, 2, 3]"

theorem handoff_finishes_witness:
  "\<exists>s. source_reach sample_ho_env (before sample_conn0 sample_tcb) s \<and> Send_frame () sample_frame \<in> set (sr_out s)"
proof -
  obtain k where "export_all sample_ho_env sample_conn0 sample_tcb = Some (sample_message, k)" using sample_exported by blast
  from handoff_finishes [OF this sample_serialized(1)] show ?thesis
    by (auto simp: handoff_trace_def sample_frame_def sample_serialized)
qed

lemma sample_sent:
  obtains s where "source_reach sample_ho_env (before sample_conn0 sample_tcb) s" "Send_frame () sample_frame \<in> set (sr_out s)"
proof -
  obtain k where "export_all sample_ho_env sample_conn0 sample_tcb = Some (sample_message, k)" using sample_exported by blast
  from handoff_completes [OF this sample_serialized(1)] that show thesis
    by (auto simp: handoff_trace_def sample_frame_def sample_serialized)
qed


lemma sample_exportable: "exportable (hc_req (cn_hcs sample_conn0))"
  unfolding exportable_def by code_simp

definition sample_imp :: "(tcb, unit) imp_env" where
  "sample_imp = \<lparr>ie_tcp = model_kernel, ie_uv_init = 0, ie_socket = 7, ie_uv_open = 0, ie_uv_nodelay = 0, ie_monitor_init = 0,
     ie_tls_create = None, ie_tls_import = \<lambda>t _. Some (0, t), ie_make_exportable = \<lambda>t. t, ie_make_ktls = \<lambda>_ k. Some (0, k),
     ie_serialize = \<lambda>_. None, ie_junk = []\<rparr>"

theorem request_handed_over_witness:
  "\<exists>hc' msg req'. ho_on_read (\<lambda>_. Some sample_message) 12 (sample_conn sample_frame) = Some (Inr (hc', [msg])) \<and>
    same_request (hc_req (cn_hcs sample_conn0)) req'"
proof -
  obtain s where s: "source_reach sample_ho_env (before sample_conn0 sample_tcb) s" "Send_frame () sample_frame \<in> set (sr_out s)"
    by (rule sample_sent)
  have p: "\<forall>m ser. he_serialize sample_ho_env m = Some ser \<longrightarrow>
      (\<lambda>_ :: byte list. Some sample_message) ser = Some m \<and> frame_ok (he_junk sample_ho_env) ser"
    by (auto simp: sample_ho_env_def sample_env0_def frame_ok_def pad_count_def)
  have c: "mb_ok (ho_mem (sample_conn sample_frame))" "membuf_used (ho_mem (sample_conn sample_frame)) = 0"
    "int (length sample_frame) \<le> uint (membuf_avail (ho_mem (sample_conn sample_frame)))"
    "take (length sample_frame) (mb_data (ho_mem (sample_conn sample_frame))) = sample_frame" "length sample_frame = 12"
    by code_simp+
  have b: "sr_conn (before sample_conn0 sample_tcb) = sample_conn0" "sr_pending (before sample_conn0 sample_tcb) = []"
    "sr_out (before sample_conn0 sample_tcb) = []" by (simp_all add: before_def)
  have len: "int 12 = 12" by simp
  show ?thesis
    using request_handed_over [OF s(1) b(2,3) s(2) _ p c(1-4), where I = sample_imp and hcs = sample_conn0 and k = fresh_tcb
        and handler = "\<lambda>req res _. (0, req, res)" and dd = "()" and hss = "cn_server sample_conn0"] sample_exportable
    unfolding b c(5) len by blast
qed

definition server_b :: http_server_socket where "server_b = \<lparr>hss_addr = 3, hss_port = 80, hss_mac = [2, 0, 0, 0, 0, 3]\<rparr>"

lemma sample_takes_over:
  fixes res :: "(unit, unit) http_response"
  assumes "hr_status res \<le> 500"
  shows "\<exists>c' k3 out. take_over sample_imp server_b sample_conn0 0 0 sample_message req res fresh_tcb = Some (Imported c' k3 out)"
proof -
  let ?b = "sample_tcb\<lparr>tb_self := (3, 80)\<rparr>"
  have m: "hm_tcp sample_message = exported sample_tcb" "hm_tls sample_message = None" by code_simp+
  have x: "(exported sample_tcb)\<lparr>st_self_addr := 3, st_self_port := 80\<rparr> = exported ?b"
    by (simp add: exported_def)
  obtain k3 where "tcp_import_body model_kernel (exported ?b) fresh_tcb = Some (0, k3)"
    using import_runs [OF model_repair, of fresh_tcb ?b] by (auto simp: runs_def fresh_tcb_def sample_tcb_def)
  then show ?thesis
    using m x assms by (auto simp: take_over_def continue_import_def import_tcp_def tcp_import_def sample_imp_def server_b_def
        start_change_owner_def Let_def)
qed

theorem flow_follows_connection_witness:
  "\<exists>r. exec_cmd (cmd_of_req r) [flow_key sample_conn0 \<mapsto> flow_rule (cn_server sample_conn0) (cn_server sample_conn0) 1] =
    [flow_key sample_conn0 \<mapsto> flow_rule (cn_server sample_conn0) server_b 0]"
proof -
  have "hr_status (hc_res (sample_hcs 0 []) :: (unit, unit) http_response) \<le> 500" by (simp add: sample_hcs_def http_response_init_def)
  then obtain c' k3 out where t: "take_over sample_imp server_b sample_conn0 0 0 sample_message post_request
      (hc_res (sample_hcs 0 [])) fresh_tcb = Some (Imported c' k3 out)" using sample_takes_over by blast
  obtain k1 where e: "export_all sample_ho_env sample_conn0 sample_tcb = Some (sample_message, k1)" using sample_exported by blast
  have c: "\<not> hc_imported (cn_hcs sample_conn0)" "st_peer_addr (hm_tcp sample_message) = cn_peer_addr sample_conn0"
    "st_peer_port (hm_tcp sample_message) = cn_peer_port sample_conn0" by code_simp+
  show ?thesis
    using flow_follows_connection [OF c(1) _ e c(2,3) t, of Map.empty] by auto
qed

end
