(* ===== verification/HandoffSystem.thy ===== *)
theory HandoffSystem
  imports HandoffProps
begin

text \<open>
  A handoff with all its parties: the source, the switch, the destination and whatever else changes other
  rules of the switch, in any interleaving.  The network delivers every request to the switch and every
  frame once; a request that reaches the switch twice can undo a lock.
\<close>

section \<open>The system\<close>

datatype ('cb, 'd, 'tls) dest =
    Waiting
  | Chown_sent "('cb, 'd, 'tls) conn" psw_req
  | Chown_done "('cb, 'd, 'tls) conn"
  | Serving "('cb, 'd, 'tls) conn" "'d effect list"

record ('k, 'cb, 'd, 'tls) handoff_system =
  sy_rules :: rules
  sy_configured :: bool
  sy_source :: "('k, 'cb, 'd, 'tls) source"
  sy_dest :: "('cb, 'd, 'tls) dest"

text \<open>The destination: its library functions, its end point, its handler and the memory it is given.\<close>

record ('k, 'cb, 'd, 'tls) destination =
  ds_env :: "('k, 'tls) imp_env"
  ds_server :: http_server_socket
  ds_handler :: "('cb, 'd) ho_handler"
  ds_blocks :: "nat \<Rightarrow> block"
  ds_data :: 'd
  ds_conn :: "('cb, 'd, 'tls) conn"
  ds_peek :: "addr \<Rightarrow> byte list"
  ds_parse :: "byte list \<Rightarrow> HTTPHandoffReq option"

definition switch_executes :: "psw_req \<Rightarrow> rules \<Rightarrow> rules" where
  "switch_executes r R = (let c = cmd_of_req r in if refusal c R = None then exec_cmd c R else R)"

definition dest_handles ::
  "('k, 'cb, 'd, 'tls) destination \<Rightarrow> HTTPHandoffReq \<Rightarrow> 'k \<Rightarrow> ('k, 'cb, 'd, 'tls) handed option" where
  "dest_handles D msg k = phttp_on_handoff (ds_env D) (ds_server D) (ds_handler D) (ds_blocks D 0) (ds_blocks D 1)
     (ds_blocks D 2) (ds_blocks D 3) (ds_data D) (ds_conn D) 0 0 msg k"

text \<open>The callback that waits for the switch runs only when the switch has executed the request.\<close>

inductive system_step ::
  "('k, 'tls) ho_env \<Rightarrow> ('k, 'cb, 'd, 'tls) destination \<Rightarrow> prism_key \<Rightarrow> ('k, 'cb, 'd, 'tls) handoff_system \<Rightarrow>
   ('k, 'cb, 'd, 'tls) handoff_system \<Rightarrow> bool" for E D f where
  switch_locks: "\<not> sy_configured y \<Longrightarrow> Task r \<in> set (sr_out (sy_source y)) \<Longrightarrow>
    system_step E D f y (y\<lparr>sy_rules := switch_executes r (sy_rules y), sy_configured := True\<rparr>)"
| source: "source_step E (sy_source y) s' \<Longrightarrow>
    sy_configured y \<or> sr_pending s' = sr_pending (sy_source y) \<Longrightarrow>
    system_step E D f y (y\<lparr>sy_source := s'\<rparr>)"
| delivered: "sy_dest y = Waiting \<Longrightarrow> Send_frame d (ho_frame (he_junk E) ser) \<in> set (sr_out (sy_source y)) \<Longrightarrow>
    frame_ok (he_junk E) ser \<Longrightarrow> ds_parse D ser = Some msg \<Longrightarrow>
    dest_handles D msg k = Some (Imported c k' [Task r]) \<Longrightarrow>
    system_step E D f y (y\<lparr>sy_dest := Chown_sent c r\<rparr>)"
| switch_chowns: "sy_dest y = Chown_sent c r \<Longrightarrow>
    system_step E D f y (y\<lparr>sy_rules := switch_executes r (sy_rules y), sy_dest := Chown_done c\<rparr>)"
| served: "sy_dest y = Chown_done c \<Longrightarrow> after_change_owner (ds_peek D) 0 0 c = Some (c', out) \<Longrightarrow>
    system_step E D f y (y\<lparr>sy_dest := Serving c' out\<rparr>)"
| others: "R f = sy_rules y f \<Longrightarrow> system_step E D f y (y\<lparr>sy_rules := R\<rparr>)"

text \<open>The flow of a connection that was accepted here has no rule yet; one that was taken over has a rule that
  names this server as its owner and is not locked.\<close>

definition owned :: "('cb, 'd, 'tls) conn \<Rightarrow> rules \<Rightarrow> bool" where
  "owned c R \<longleftrightarrow> (if hc_imported (cn_hcs c) then
     (case R (flow_key c) of None \<Rightarrow> False | Some v \<Rightarrow> locked v = 0 \<and> owner_addr v = hss_addr (cn_server c) \<and>
        owner_port v = ucast (hss_port (cn_server c)) \<and> owner_mac v = hss_mac (cn_server c))
     else R (flow_key c) = None)"

inductive system_reach ::
  "('k, 'tls) ho_env \<Rightarrow> ('k, 'cb, 'd, 'tls) destination \<Rightarrow> rules \<Rightarrow> ('cb, 'd, 'tls) conn \<Rightarrow> 'k \<Rightarrow>
   ('k, 'cb, 'd, 'tls) handoff_system \<Rightarrow> bool" for E D R0 c k where
  start: "phttp_start_handoff 0 0 (before c k) = Some (0, s) \<Longrightarrow>
    system_reach E D R0 c k \<lparr>sy_rules = R0, sy_configured = False, sy_source = s, sy_dest = Waiting\<rparr>"
| step: "system_reach E D R0 c k y \<Longrightarrow> system_step E D (flow_key c) y y' \<Longrightarrow> system_reach E D R0 c k y'"

section \<open>Frames denote one message\<close>

lemma ho_frame_inj:
  assumes "ho_frame junk s = ho_frame junk t" "frame_ok junk s" "frame_ok junk t"
  shows "s = t"
proof -
  have "ntohl (ld32 (ho_frame junk s) 0) = of_nat (length s)" "ntohl (ld32 (ho_frame junk t) 0) = of_nat (length t)"
    by (rule frame_header, simp add: ho_frame_def)+
  then have "(of_nat (length s) :: u32) = of_nat (length t)" using assms(1) by simp
  then have l: "length s = length t"
    using assms(2,3) by (simp add: frame_ok_def) (metis padlen_nat(2) frame_ok_def assms(2,3))
  then show ?thesis using assms by (simp add: ho_frame_def)
qed

section \<open>The rule of the flow\<close>

definition locked_rule :: "('cb, 'd, 'tls) conn \<Rightarrow> rules \<Rightarrow> prism_value" where
  "locked_rule c R0 = (if hc_imported (cn_hcs c) then (the (R0 (flow_key c)))\<lparr>locked := 1\<rparr>
     else flow_rule (cn_server c) (cn_server c) 1)"

definition given_to :: "http_server_socket \<Rightarrow> prism_value \<Rightarrow> prism_value" where
  "given_to hss v = v\<lparr>owner_addr := hss_addr hss, owner_port := ucast (hss_port hss), owner_mac := hss_mac hss, locked := 0\<rparr>"

lemma lock_executed:
  assumes "owned c R0" "R (flow_key c) = R0 (flow_key c)"
  shows "switch_executes (handoff_request c) R (flow_key c) = Some (locked_rule c R0)"
proof (cases "hc_imported (cn_hcs c)")
  case True
  then obtain v where v: "R0 (flow_key c) = Some v" "locked v = 0" using assms(1) by (auto simp: owned_def split: option.splits)
  have "cmd_of_req (handoff_request c) = Lock (flow_key c)"
    using True by (simp add: handoff_request_def lock_request_def lock_key_def flow_key_def)
  then show ?thesis using True v assms(2) by (simp add: switch_executes_def locked_rule_def toggle_lock_def)
next
  case False
  then have "cmd_of_req (handoff_request c) = Add (flow_key c) (flow_rule (cn_server c) (cn_server c) 1)"
    by (simp add: handoff_request_def add_request_def add_cmd_def flow_key_def flow_rule_def Let_def)
  then show ?thesis using False assms by (simp add: switch_executes_def locked_rule_def owned_def)
qed

lemma chown_executed:
  assumes "R (flow_key c) = Some v" "locked v = 1" "flow_key c' = flow_key c" "cn_server c' = hss"
  shows "switch_executes (chown_request c') R (flow_key c) = Some (given_to hss v)"
proof -
  have "cmd_of_req (chown_request c') = Chown (flow_key c) (hss_addr hss) (ucast (hss_port hss)) (hss_mac hss) True"
    using assms(3,4) by (simp add: chown_request_def chown_cmd_def flow_key_def Let_def)
  then show ?thesis using assms(1,2) by (simp add: switch_executes_def given_to_def toggle_unlock_def)
qed

section \<open>The invariant\<close>

text \<open>What the destination has taken over: the handler has answered the request of the source.\<close>

definition handled_by ::
  "('k, 'cb, 'd, 'tls) destination \<Rightarrow> ('cb, 'd, 'tls) conn \<Rightarrow> ('cb, 'd, 'tls) conn \<Rightarrow> bool" where
  "handled_by D c c' \<longleftrightarrow> cn_server c' = ds_server D \<and> flow_key c' = flow_key c \<and> hc_imported (cn_hcs c') \<and>
     (\<exists>req. same_request (hc_req (cn_hcs c)) req \<and>
       ds_handler D req (http_response_init (ds_blocks D 2) (ds_blocks D 3) (ds_data D)) True =
         (0, hc_req (cn_hcs c'), hc_res (cn_hcs c')))"

text \<open>The kernel reports the peer that the socket had when it was accepted.\<close>

definition peer_known :: "('k, 'tls) ho_env \<Rightarrow> ('cb, 'd, 'tls) conn \<Rightarrow> bool" where
  "peer_known E c \<longleftrightarrow> (\<forall>k msg k'. export_all E c k = Some (msg, k') \<longrightarrow> he_serialize E msg \<noteq> None \<longrightarrow>
     st_peer_addr (hm_tcp msg) = cn_peer_addr c \<and> st_peer_port (hm_tcp msg) = cn_peer_port c)"

definition protobuf_ok :: "('k, 'tls) ho_env \<Rightarrow> ('k, 'cb, 'd, 'tls) destination \<Rightarrow> bool" where
  "protobuf_ok E D \<longleftrightarrow> (\<forall>m ser. he_serialize E m = Some ser \<longrightarrow> ds_parse D ser = Some m \<and> frame_ok (he_junk E) ser)"

lemma exported_http: "export_all E c k = Some (msg, k') \<Longrightarrow> hm_http msg = http_request_export (hc_req (cn_hcs c))"
  by (auto simp: export_all_def Let_def split: option.splits if_splits)

lemma dest_handled:
  assumes "dest_handles D msg k = Some (Imported c' k' [Task r])" "exported_frame E c msg frame" "peer_known E c"
    "exportable (hc_req (cn_hcs c))"
  shows "handled_by D c c' \<and> r = chown_request c'"
proof -
  obtain k0 k1 where x: "export_all E c k0 = Some (msg, k1)" "he_serialize E msg \<noteq> None"
    using assms(2) by (auto simp: exported_frame_def)
  have p: "st_peer_addr (hm_tcp msg) = cn_peer_addr c" "st_peer_port (hm_tcp msg) = cn_peer_port c"
    using assms(3) x by (auto simp: peer_known_def)
  have h: "hm_http msg = http_request_export (hc_req (cn_hcs c))" by (rule exported_http [OF x(1)])
  obtain req where r: "http_request_import (ds_blocks D 1) (http_request_init (ds_blocks D 0)) (hm_http msg) = Some req"
    "same_request (hc_req (cn_hcs c)) req" unfolding h by (rule import_into_fresh [OF assms(4)])
  obtain e req1 res1 where e: "ds_handler D req (http_response_init (ds_blocks D 2) (ds_blocks D 3) (ds_data D)) True = (e, req1, res1)"
    by (metis prod_cases3)
  then have t: "e = 0" "take_over (ds_env D) (ds_server D) (ds_conn D) 0 0 msg req1 res1 k = Some (Imported c' k' [Task r])"
    using assms(1) r(1) by (auto simp: dest_handles_def phttp_on_handoff_def Let_def split: if_splits)
  from take_over_conn [OF t(2)] show ?thesis using r(2) e t(1) p by (auto simp: handled_by_def flow_key_def)
qed

lemma stage_task: "stage E c n s \<Longrightarrow> Task r \<in> set (sr_out s) \<Longrightarrow> r = handoff_request c"
  by (auto simp: stage_def handoff_trace_def)

lemma stage_frame: "stage E c n s \<Longrightarrow> Send_frame d frame \<in> set (sr_out s) \<Longrightarrow> 5 \<le> n \<and> (\<exists>msg. exported_frame E c msg frame)"
  by (auto simp: stage_def handoff_trace_def)

lemma stage_waits: "stage E c n s \<Longrightarrow> stage E c n' s' \<Longrightarrow> sr_pending s' = sr_pending s \<Longrightarrow> n = 2 \<Longrightarrow> n' = 2"
  by (auto simp: stage_def split: if_splits)

definition system_inv ::
  "('k, 'tls) ho_env \<Rightarrow> ('k, 'cb, 'd, 'tls) destination \<Rightarrow> rules \<Rightarrow> ('cb, 'd, 'tls) conn \<Rightarrow>
   ('k, 'cb, 'd, 'tls) handoff_system \<Rightarrow> bool" where
  "system_inv E D R0 c y \<longleftrightarrow> (\<exists>n. stage E c n (sy_source y) \<and>
     (let rule = sy_rules y (flow_key c); lr = locked_rule c R0 in
      if \<not> sy_configured y then n = 2 \<and> rule = R0 (flow_key c) \<and> sy_dest y = Waiting
      else
        (case sy_dest y of
           Waiting \<Rightarrow> rule = Some lr
         | Chown_sent c' r \<Rightarrow> rule = Some lr \<and> 5 \<le> n \<and> handled_by D c c' \<and> r = chown_request c'
         | Chown_done c' \<Rightarrow> rule = Some (given_to (ds_server D) lr) \<and> 5 \<le> n \<and> handled_by D c c'
         | Serving c'' out \<Rightarrow> rule = Some (given_to (ds_server D) lr) \<and> 5 \<le> n \<and>
             (\<exists>c'. handled_by D c c' \<and> after_change_owner (ds_peek D) 0 0 c' = Some (c'', out)))))"

lemma locked_rule_locked: "locked (locked_rule c R0) = 1"
  by (simp add: locked_rule_def flow_rule_def)

lemma system_inv_step:
  assumes "system_step E D f y y'" "f = flow_key c" "system_inv E D R0 c y" "owned c R0" "exportable (hc_req (cn_hcs c))"
    "peer_known E c" "protobuf_ok E D"
  shows "system_inv E D R0 c y'"
  using assms(1-3)
proof (induction rule: system_step.induct)
  case (switch_locks y r)
  then obtain n where n: "stage E c n (sy_source y)" "n = 2" "sy_rules y (flow_key c) = R0 (flow_key c)" "sy_dest y = Waiting"
    by (auto simp: system_inv_def)
  then have "r = handoff_request c" using stage_task switch_locks(2) by blast
  then show ?case using n lock_executed [OF assms(4), of "sy_rules y"] by (auto simp: system_inv_def)
next
  case (source y s')
  show ?case
  proof (cases "sy_configured y")
    case True
    obtain m where m: "stage E c m (sy_source y)" "case sy_dest y of Waiting \<Rightarrow> True | _ \<Rightarrow> 5 \<le> m"
      using source(4) True by (fastforce simp: system_inv_def Let_def split: dest.splits)
    obtain m' where m': "stage E c m' s'" "m' = m \<or> m' = Suc m" using stage_step [OF source(1) m(1)] by blast
    then have "case sy_dest y of Waiting \<Rightarrow> True | _ \<Rightarrow> 5 \<le> m'" using m(2) by (auto split: dest.splits)
    then show ?thesis using source(4) True m'(1)
      by (auto simp: system_inv_def Let_def split: dest.splits intro!: exI [of _ m'])
  next
    case False
    then have p: "sr_pending s' = sr_pending (sy_source y)" using source(2) by simp
    have two: "stage E c 2 (sy_source y)" using source(4) False by (auto simp: system_inv_def)
    then obtain m where m: "stage E c m s'" using stage_step [OF source(1)] by blast
    then have "stage E c 2 s'" using stage_waits [OF two m p] by simp
    then show ?thesis using source(4) False by (auto simp: system_inv_def)
  qed
next
  case (delivered y d ser msg k c' k' r)
  then obtain n where n: "stage E c n (sy_source y)" by (auto simp: system_inv_def)
  from stage_frame [OF n delivered(2)] obtain m0 where m0: "5 \<le> n" "exported_frame E c m0 (ho_frame (he_junk E) ser)" by blast
  then obtain ser0 where s0: "he_serialize E m0 = Some ser0" "ho_frame (he_junk E) ser = ho_frame (he_junk E) ser0"
    by (auto simp: exported_frame_def)
  then have "ser0 = ser" "ds_parse D ser0 = Some m0"
    using ho_frame_inj [OF s0(2) delivered(3)] assms(7) by (auto simp: protobuf_ok_def)
  then have "msg = m0" using delivered(4) by simp
  then have "handled_by D c c' \<and> r = chown_request c'" using dest_handled [OF delivered(5) _ assms(6,5)] m0(2) by blast
  moreover have "sy_configured y"
  proof (rule ccontr)
    assume "\<not> sy_configured y"
    then have "stage E c 2 (sy_source y)" using delivered(7) by (auto simp: system_inv_def)
    from stage_frame [OF this delivered(2)] show False by simp
  qed
  ultimately show ?case using n m0(1) delivered(1,7) by (auto simp: system_inv_def)
next
  case (switch_chowns y c' r)
  then obtain n where n: "stage E c n (sy_source y)" "sy_configured y" "sy_rules y (flow_key c) = Some (locked_rule c R0)" "5 \<le> n"
    "handled_by D c c'" "r = chown_request c'" by (auto simp: system_inv_def Let_def split: if_splits)
  have "switch_executes r (sy_rules y) (flow_key c) = Some (given_to (ds_server D) (locked_rule c R0))"
    unfolding n(6) by (rule chown_executed [where R = "sy_rules y", OF n(3) locked_rule_locked]) (use n(5) in \<open>simp_all add: handled_by_def\<close>)
  then show ?case using n by (auto simp: system_inv_def)
next
  case (served y c' c'' out)
  then show ?case by (auto simp: system_inv_def Let_def split: if_splits)
next
  case (others R y)
  then show ?case by (cases "sy_configured y") (simp_all add: system_inv_def Let_def cong: dest.case_cong)
qed

lemma system_reach_inv:
  assumes "system_reach E D R0 c k y" "owned c R0" "exportable (hc_req (cn_hcs c))" "peer_known E c" "protobuf_ok E D"
  shows "system_inv E D R0 c y"
  using assms(1)
proof (induction rule: system_reach.induct)
  case (start s)
  have "stage E c 2 s" using stage_start [OF start, of E] by (simp add: before_def)
  then show ?case by (auto simp: system_inv_def)
next
  case (step y y')
  then show ?case using system_inv_step [OF step(2) refl step(3) assms(2-5)] by blast
qed

section \<open>The handoff\<close>

lemma closing_rule:
  assumes "system_inv E D R0 c y" "Close_client \<in> set (sr_out (sy_source y))"
  shows "\<exists>v. sy_rules y (flow_key c) = Some v \<and>
      (case sy_dest y of
         Waiting \<Rightarrow> locked v = 1
       | Chown_sent c' r \<Rightarrow> locked v = 1
       | _ \<Rightarrow> locked v = 0 \<and> owner_addr v = hss_addr (ds_server D) \<and> owner_port v = ucast (hss_port (ds_server D)) \<and>
           owner_mac v = hss_mac (ds_server D)) \<and>
      virtual_addr v = virtual_addr (locked_rule c R0) \<and> virtual_port v = virtual_port (locked_rule c R0)"
proof -
  have "sy_configured y"
    using assms by (auto simp: system_inv_def stage_def handoff_trace_def Let_def split: if_splits)
  then show ?thesis
    using assms(1) by (cases "sy_dest y") (auto simp: system_inv_def Let_def given_to_def locked_rule_locked)
qed


section \<open>A sample\<close>

text \<open>Every run of the source is one of the system in which the switch has locked the flow.\<close>

lemma run_of_system:
  assumes "source_reach E (before c k) s"
  shows "\<exists>R. system_reach E D R0 c k \<lparr>sy_rules = R, sy_configured = True, sy_source = s, sy_dest = Waiting\<rparr>"
  using assms
proof (induction rule: source_reach.induct)
  case (start s)
  have t: "Task (handoff_request c) \<in> set (sr_out s)"
    using start by (auto simp: phttp_start_handoff_def emit_def handoff_request_def before_def Let_def)
  have "system_step E D (flow_key c) \<lparr>sy_rules = R0, sy_configured = False, sy_source = s, sy_dest = Waiting\<rparr>
      \<lparr>sy_rules = switch_executes (handoff_request c) R0, sy_configured = True, sy_source = s, sy_dest = Waiting\<rparr>"
    using system_step.switch_locks [of "\<lparr>sy_rules = R0, sy_configured = False, sy_source = s, sy_dest = Waiting\<rparr>"] t by simp
  then show ?case using system_reach.step [OF system_reach.start [OF start]] by blast
next
  case (step s s')
  then obtain R where R: "system_reach E D R0 c k \<lparr>sy_rules = R, sy_configured = True, sy_source = s, sy_dest = Waiting\<rparr>" by blast
  have "system_step E D (flow_key c) \<lparr>sy_rules = R, sy_configured = True, sy_source = s, sy_dest = Waiting\<rparr>
      \<lparr>sy_rules = R, sy_configured = True, sy_source = s', sy_dest = Waiting\<rparr>"
    using system_step.source [of E "\<lparr>sy_rules = R, sy_configured = True, sy_source = s, sy_dest = Waiting\<rparr>" s'] step(2) by simp
  then show ?case using system_reach.step [OF R] by blast
qed

definition sample_dest :: "(tcb, unit, unit, unit) destination" where
  "sample_dest = \<lparr>ds_env = sample_imp, ds_server = server_b, ds_handler = \<lambda>req res _. (0, req, res),
     ds_blocks = \<lambda>_. (65536, \<lambda>_. 0), ds_data = (), ds_conn = sample_conn0, ds_peek = \<lambda>_. [], ds_parse = \<lambda>_. Some sample_message\<rparr>"

lemma sample_laws: "owned sample_conn0 Map.empty" "peer_known sample_ho_env sample_conn0" "protobuf_ok sample_ho_env sample_dest"
proof -
  show "owned sample_conn0 Map.empty" by (simp add: owned_def sample_conn0_def sample_hcs_def)
  show "protobuf_ok sample_ho_env sample_dest"
    by (auto simp: protobuf_ok_def sample_ho_env_def sample_env0_def sample_dest_def frame_ok_def pad_count_def)
  have "st_peer_addr (hm_tcp sample_message) = cn_peer_addr sample_conn0 \<and> st_peer_port (hm_tcp sample_message) = cn_peer_port sample_conn0"
    by code_simp
  then show "peer_known sample_ho_env sample_conn0"
    by (auto simp: peer_known_def sample_ho_env_def)
qed

text \<open>The sample handler answers at once, with the status and the reason of an untouched response.\<close>

lemma sample_dest_handles:
  "\<exists>c' k' r. dest_handles sample_dest sample_message fresh_tcb = Some (Imported c' k' [Task r])"
proof -
  let ?res = "http_response_init (65536, \<lambda>_. 0) (65536, \<lambda>_. 0) () :: (unit, unit) http_response"
  have h: "hm_http sample_message = http_request_export (hc_req (cn_hcs sample_conn0))"
    using sample_exported by (auto dest: exported_http)
  obtain req where r: "http_request_import (65536, \<lambda>_. 0) (http_request_init (65536, \<lambda>_. 0)) (hm_http sample_message) = Some req"
    unfolding h by (rule import_into_fresh [OF sample_exportable])
  have "hr_status ?res \<le> 500" by (simp add: http_response_init_def)
  then obtain c' k' out where t: "take_over sample_imp server_b sample_conn0 0 0 sample_message req ?res fresh_tcb =
      Some (Imported c' k' out)" using sample_takes_over by blast
  moreover have "out = [Task (chown_request c')]" using take_over_conn [OF t] by blast
  ultimately show ?thesis using r by (simp add: dest_handles_def phttp_on_handoff_def sample_dest_def)
qed

lemma sample_answers:
  assumes "handled_by sample_dest sample_conn0 c"
  shows "\<exists>c' out. after_change_owner (\<lambda>_. []) 0 0 c = Some (c', out)"
proof -
  let ?r = "http_response_init (65536, \<lambda>_. 0) (65536, \<lambda>_. 0) () :: (unit, unit) http_response"
  have c: "hc_res (cn_hcs c) = ?r" using assms by (auto simp: handled_by_def sample_dest_def)
  have u: "used_bytes (hr_body_mem ?r) = []" "hr_nheaders ?r = 0" "hr_status ?r = 0"
    by (simp_all add: http_response_init_def used_bytes_def membuf_used_def membuf_init_def)
  have "length (response_head (\<lambda>_. []) ?r) = length (http11 @ dec 0 @ [32] @ uninitialized @ crlf @ server_line @ content_length @
      [58, 32] @ dec 0 @ crlf @ crlf)"
    by (simp add: response_head_def u) (simp add: http_response_init_def)
  also have "\<dots> < 4096" by code_simp
  finally have len: "length (response_head (\<lambda>_. []) ?r) < unat (membuf_avail (hr_mem ?r))"
    by (simp add: http_response_init_def membuf_avail_def membuf_init_def)
  have m: "mb_ok (hr_mem ?r)" "mb_ok (hr_body_mem ?r)"
    by (simp_all only: http_response_init_def http_response.select_convs mb_ok_init)
  have f: "membuf_used (hr_mem ?r) = 0"
    "\<forall>h \<in> set (take (unat (hr_nheaders ?r)) (hr_headers ?r)). uint (hh_name_len h) \<le> INT_MAX \<and> uint (hh_val_len h) \<le> INT_MAX"
    by (simp_all add: u) (simp add: http_response_init_def membuf_used_def membuf_init_def)
  from response_sent [OF m(1) f(1) m(2) f(2) len] show ?thesis by (auto simp: after_change_owner_def c)
qed

lemma sent_after_close:
  assumes "source_reach E (before c k) s" "Send_frame d frame \<in> set (sr_out s)"
  shows "Close_client \<in> set (sr_out s)"
proof -
  obtain n where n: "stage E c n s" using stage_reach [OF assms(1)] by (auto simp: before_def)
  have "5 \<le> n" using stage_frame [OF n assms(2)] by simp
  then show ?thesis using n by (auto simp: stage_def handoff_trace_def in_set_conv_nth intro!: exI [of _ 2])
qed

lemma sample_runs:
  "\<exists>y c' out. system_reach sample_ho_env sample_dest Map.empty sample_conn0 sample_tcb y \<and>
    Close_client \<in> set (sr_out (sy_source y)) \<and> sy_dest y = Serving c' out"
proof -
  obtain s where s: "source_reach sample_ho_env (before sample_conn0 sample_tcb) s" "Send_frame () sample_frame \<in> set (sr_out s)"
    by (rule sample_sent)
  obtain R where R: "system_reach sample_ho_env sample_dest Map.empty sample_conn0 sample_tcb
      \<lparr>sy_rules = R, sy_configured = True, sy_source = s, sy_dest = Waiting\<rparr>"
    using run_of_system [OF s(1)] by blast
  obtain c1 k1 r where d: "dest_handles sample_dest sample_message fresh_tcb = Some (Imported c1 k1 [Task r])"
    using sample_dest_handles by blast
  have p: "frame_ok (he_junk sample_ho_env) [1, 2, 3]" "ds_parse sample_dest [1, 2, 3] = Some sample_message"
    "Send_frame () (ho_frame (he_junk sample_ho_env) [1, 2, 3]) \<in> set (sr_out s)"
    using s(2) by (simp_all add: frame_ok_def pad_count_def sample_serialized sample_dest_def sample_frame_def)
  let ?y = "\<lambda>R d. \<lparr>sy_rules = R, sy_configured = True, sy_source = s, sy_dest = d\<rparr>"
  have 1: "system_reach sample_ho_env sample_dest Map.empty sample_conn0 sample_tcb (?y R (Chown_sent c1 r))"
    using system_reach.step [OF R system_step.delivered [OF _ _ p(1,2) d]] p(3) by simp
  have inv: "system_inv sample_ho_env sample_dest Map.empty sample_conn0 (?y R (Chown_sent c1 r))"
    by (rule system_reach_inv [OF 1 sample_laws(1) sample_exportable sample_laws(2,3)])
  then have h: "handled_by sample_dest sample_conn0 c1" by (auto simp: system_inv_def)
  have 2: "system_reach sample_ho_env sample_dest Map.empty sample_conn0 sample_tcb (?y (switch_executes r R) (Chown_done c1))"
    using system_reach.step [OF 1 system_step.switch_chowns [of "?y R (Chown_sent c1 r)"]] by simp
  obtain c2 out where "after_change_owner (ds_peek sample_dest) 0 0 c1 = Some (c2, out)"
    using sample_answers [OF h] by (auto simp: sample_dest_def)
  then have 3: "system_reach sample_ho_env sample_dest Map.empty sample_conn0 sample_tcb (?y (switch_executes r R) (Serving c2 out))"
    using system_reach.step [OF 2 system_step.served [of "?y (switch_executes r R) (Chown_done c1)" c1]] by simp
  have "Close_client \<in> set (sr_out s)" by (rule sent_after_close [OF s])
  then show ?thesis using 3 by fastforce
qed


end
