(* ===== verification/HandoffWire.thy ===== *)
theory HandoffWire
  imports HandoffSystem SwitchConfigTheorems
begin

text \<open>
  The handoff on the wire: the rules are those of the switch program, which is driven by frames.  Frames with
  the requests of the two servers may arrive between any other frames.  Every run is one of the system with
  abstract rules, so that what the program does with the segments of the flow follows.
\<close>

section \<open>Requests in frames\<close>

fun cmd_key :: "psw_cmd \<Rightarrow> prism_key" where
  "cmd_key (Add k v) = k"
| "cmd_key (Delete k) = k"
| "cmd_key (Chown k a p m u) = k"
| "cmd_key (Lock k) = k"
| "cmd_key (Unlock k) = k"

text \<open>A rule can be added when the table has room for it.\<close>

definition room :: "('p, 'l) switch_env \<Rightarrow> ('p, 'l) switch \<Rightarrow> psw_cmd \<Rightarrow> bool" where
  "room W s c \<longleftrightarrow> (case c of Add k v \<Rightarrow> fst (bt_update (prism_tab W) (sw_prism s) k v) = 0 | Delete k \<Rightarrow> False | _ \<Rightarrow> True)"

lemma config_frame_adds:
  assumes "bpf_hash (prism_tab W)" "config_frame W (xm_pkt xm)" "cmd_at (xm_pkt xm) 42 = Some (Add k v)"
    "sw_rules W s k = None" "fst (bt_update (prism_tab W) (sw_prism s) k v) = 0"
  shows "sw_rules W (snd (snd (vale_lookup W xm s))) = (sw_rules W s)(k \<mapsto> v)"
  using assms
  by (auto simp: vale_lookup_config configure_switch_def Let_def req_base_at_def cmd_at_def add_cmd_def delete_cmd_def chown_cmd_def
      config_handle_add_req_def sw_rules_def psw_req_defs split: if_splits prod.splits option.splits
      dest: bpf_hash.update_ok [OF assms(1)])

lemma frame_executes:
  assumes "bpf_hash_prealloc (prism_tab W)" "config_frame W (xm_pkt xm)" "cmd_at (xm_pkt xm) 42 = Some (cmd_of_req r)"
    "room W s (cmd_of_req r)"
  shows "sw_rules W (snd (snd (vale_lookup W xm s))) = switch_executes r (sw_rules W s)"
proof (cases "refusal (cmd_of_req r) (sw_rules W s)")
  case None
  have h: "bpf_hash (prism_tab W)" using assms(1) by (simp add: bpf_hash_prealloc_def)
  have "sw_rules W (snd (snd (vale_lookup W xm s))) = exec_cmd (cmd_of_req r) (sw_rules W s)"
  proof (cases "replaces (cmd_of_req r)")
    case True
    then show ?thesis by (intro config_frame_replaces assms(1-3) None)
  next
    case False
    then obtain k v where c: "cmd_of_req r = Add k v"
      using assms(4) by (cases "cmd_of_req r") (simp_all add: replaces_def room_def)
    have n: "sw_rules W s k = None" using None unfolding c by (simp split: if_splits)
    have u: "fst (bt_update (prism_tab W) (sw_prism s) k v) = 0" using assms(4) unfolding c by (simp add: room_def)
    show ?thesis
      unfolding c exec_cmd.simps by (rule config_frame_adds [OF h assms(2) assms(3) [unfolded c] n u])
  qed
  also have "\<dots> = switch_executes r (sw_rules W s)" unfolding switch_executes_def Let_def by (simp only: None simp_thms if_True)
  finally show ?thesis .
next
  case (Some err)
  have "bpf_hash (prism_tab W)" using assms(1) by (simp add: bpf_hash_prealloc_def)
  from config_frame_cmd [OF this assms(2,3), of s] obtain e where
    "outcome (cmd_of_req r) (sw_rules W s) e (sw_rules W (snd (snd (vale_lookup W xm s))))" by (metis snd_conv)
  then have "sw_rules W (snd (snd (vale_lookup W xm s))) = sw_rules W s" by (simp only: outcome_def Some option.case)
  then show ?thesis by (simp only: switch_executes_def Let_def Some option.distinct if_False)
qed

lemma exec_cmd_other: "cmd_key c \<noteq> f \<Longrightarrow> exec_cmd c R f = R f"
  by (cases c) (auto split: option.splits)

lemma other_frame:
  assumes "bpf_hash (prism_tab W)"
    "\<And>c. config_frame W (xm_pkt xm) \<Longrightarrow> cmd_at (xm_pkt xm) 42 = Some c \<Longrightarrow> cmd_key c \<noteq> f"
  shows "sw_rules W (snd (snd (vale_lookup W xm s))) f = sw_rules W s f"
proof (cases "config_frame W (xm_pkt xm)")
  case False
  then show ?thesis by (simp add: sw_rules_def data_frame_prism)
next
  case True
  show ?thesis
  proof (cases "cmd_at (xm_pkt xm) 42")
    case None
    with True show ?thesis by (simp add: config_frame_no_cmd)
  next
    case (Some c)
    from config_frame_cmd [OF assms(1) True Some, of s] obtain e where
      "outcome c (sw_rules W s) e (sw_rules W (snd (snd (vale_lookup W xm s))))" by (metis snd_conv)
    then show ?thesis using assms(2) [OF True Some] by (auto dest!: outcome_rules simp: exec_cmd_other)
  qed
qed

section \<open>The system with the switch program\<close>

record ('p, 'l, 'k, 'cb, 'd, 'tls) wire_system =
  wr_switch :: "('p, 'l) switch"
  wr_configured :: bool
  wr_source :: "('k, 'cb, 'd, 'tls) source"
  wr_dest :: "('cb, 'd, 'tls) dest"

definition system_of ::
  "('p, 'l) switch_env \<Rightarrow> ('p, 'l, 'k, 'cb, 'd, 'tls) wire_system \<Rightarrow> ('k, 'cb, 'd, 'tls) handoff_system" where
  "system_of W w = \<lparr>sy_rules = sw_rules W (wr_switch w), sy_configured = wr_configured w, sy_source = wr_source w,
     sy_dest = wr_dest w\<rparr>"

text \<open>A frame to the configuration end point with the bytes that a task of the switch client sends for a request.\<close>

definition carries :: "('p, 'l) switch_env \<Rightarrow> psw_req \<Rightarrow> byte list \<Rightarrow> bool" where
  "carries W r p \<longleftrightarrow> config_frame W p \<and> wf_req r \<and> (\<exists>pre post. p = pre @ req_bytes r @ post \<and> length pre = 42)"

definition after_frame :: "('p, 'l) switch_env \<Rightarrow> xdp_md \<Rightarrow> ('p, 'l) switch \<Rightarrow> ('p, 'l) switch" where
  "after_frame W xm s = snd (snd (vale_lookup W xm s))"

inductive wire_step ::
  "('p, 'l) switch_env \<Rightarrow> ('k, 'tls) ho_env \<Rightarrow> ('k, 'cb, 'd, 'tls) destination \<Rightarrow> prism_key \<Rightarrow>
   ('p, 'l, 'k, 'cb, 'd, 'tls) wire_system \<Rightarrow> ('p, 'l, 'k, 'cb, 'd, 'tls) wire_system \<Rightarrow> bool" for W E D f where
  frame_locks: "\<not> wr_configured w \<Longrightarrow> Task r \<in> set (sr_out (wr_source w)) \<Longrightarrow> carries W r (xm_pkt xm) \<Longrightarrow>
    room W (wr_switch w) (cmd_of_req r) \<Longrightarrow>
    wire_step W E D f w (w\<lparr>wr_switch := after_frame W xm (wr_switch w), wr_configured := True\<rparr>)"
| frame_chowns: "wr_dest w = Chown_sent c r \<Longrightarrow> carries W r (xm_pkt xm) \<Longrightarrow> room W (wr_switch w) (cmd_of_req r) \<Longrightarrow>
    wire_step W E D f w (w\<lparr>wr_switch := after_frame W xm (wr_switch w), wr_dest := Chown_done c\<rparr>)"
| frame_passes: "(\<forall>c. config_frame W (xm_pkt xm) \<longrightarrow> cmd_at (xm_pkt xm) 42 = Some c \<longrightarrow> cmd_key c \<noteq> f) \<Longrightarrow>
    wire_step W E D f w (w\<lparr>wr_switch := after_frame W xm (wr_switch w)\<rparr>)"
| source_moves: "source_step E (wr_source w) s' \<Longrightarrow> wr_configured w \<or> sr_pending s' = sr_pending (wr_source w) \<Longrightarrow>
    wire_step W E D f w (w\<lparr>wr_source := s'\<rparr>)"
| states_arrive: "wr_dest w = Waiting \<Longrightarrow> Send_frame d (ho_frame (he_junk E) ser) \<in> set (sr_out (wr_source w)) \<Longrightarrow>
    frame_ok (he_junk E) ser \<Longrightarrow> ds_parse D ser = Some msg \<Longrightarrow> dest_handles D msg k = Some (Imported c k' [Task r]) \<Longrightarrow>
    wire_step W E D f w (w\<lparr>wr_dest := Chown_sent c r\<rparr>)"
| dest_answers: "wr_dest w = Chown_done c \<Longrightarrow> after_change_owner (ds_peek D) 0 0 c = Some (c', out) \<Longrightarrow>
    wire_step W E D f w (w\<lparr>wr_dest := Serving c' out\<rparr>)"

inductive wire_reach ::
  "('p, 'l) switch_env \<Rightarrow> ('k, 'tls) ho_env \<Rightarrow> ('k, 'cb, 'd, 'tls) destination \<Rightarrow> ('p, 'l) switch \<Rightarrow> ('cb, 'd, 'tls) conn \<Rightarrow>
   'k \<Rightarrow> ('p, 'l, 'k, 'cb, 'd, 'tls) wire_system \<Rightarrow> bool" for W E D s0 c k where
  start: "phttp_start_handoff 0 0 (before c k) = Some (0, s) \<Longrightarrow>
    wire_reach W E D s0 c k \<lparr>wr_switch = s0, wr_configured = False, wr_source = s, wr_dest = Waiting\<rparr>"
| step: "wire_reach W E D s0 c k w \<Longrightarrow> wire_step W E D (flow_key c) w w' \<Longrightarrow> wire_reach W E D s0 c k w'"

section \<open>Simulation\<close>

lemma carries_cmd: "carries W r p \<Longrightarrow> config_frame W p \<and> cmd_at p 42 = Some (cmd_of_req r)"
  by (auto simp: carries_def cmd_at_req)

lemma wire_step_simulates:
  assumes "wire_step W E D f w w'" "bpf_hash_prealloc (prism_tab W)"
  shows "system_step E D f (system_of W w) (system_of W w')"
  using assms(1)
proof (induction rule: wire_step.induct)
  case (frame_locks w r xm)
  have "sw_rules W (after_frame W xm (wr_switch w)) = switch_executes r (sw_rules W (wr_switch w))"
    unfolding after_frame_def using frame_locks carries_cmd by (blast intro: frame_executes [OF assms(2)])
  then show ?case using system_step.switch_locks [of "system_of W w" r] frame_locks by (simp add: system_of_def)
next
  case (frame_chowns w c r xm)
  have "sw_rules W (after_frame W xm (wr_switch w)) = switch_executes r (sw_rules W (wr_switch w))"
    unfolding after_frame_def using frame_chowns carries_cmd by (blast intro: frame_executes [OF assms(2)])
  then show ?case using system_step.switch_chowns [of "system_of W w" c r] frame_chowns by (simp add: system_of_def)
next
  case (frame_passes xm w)
  have "bpf_hash (prism_tab W)" using assms(2) by (simp add: bpf_hash_prealloc_def)
  then have "sw_rules W (after_frame W xm (wr_switch w)) f = sw_rules W (wr_switch w) f"
    unfolding after_frame_def using frame_passes by (blast intro: other_frame)
  then show ?case
    using system_step.others [of "sw_rules W (after_frame W xm (wr_switch w))" f "system_of W w"] by (simp add: system_of_def)
next
  case (source_moves w s')
  then show ?case using system_step.source [of E "system_of W w" s'] by (simp add: system_of_def)
next
  case (states_arrive w d ser msg k c k' r)
  then show ?case using system_step.delivered [of "system_of W w" d E ser D msg k c k' r f] by (simp add: system_of_def)
next
  case (dest_answers w c c' out)
  then show ?case using system_step.served [of "system_of W w" c D c' out] by (simp add: system_of_def)
qed

lemma wire_reach_simulates:
  assumes "wire_reach W E D s0 c k w" "bpf_hash_prealloc (prism_tab W)"
  shows "system_reach E D (sw_rules W s0) c k (system_of W w)"
  using assms(1)
proof (induction rule: wire_reach.induct)
  case (start s)
  then show ?case using system_reach.start [OF start] by (simp add: system_of_def)
next
  case (step w w')
  show ?case by (rule system_reach.step [OF step(3) wire_step_simulates [OF step(2) assms(2)]])
qed

section \<open>The segments of the flow\<close>

text \<open>What the switch does with a segment of a flow that has a rule.\<close>

lemma segment_in:
  assumes "tcp_frame (xm_pkt xm)" "sw_rules W s (out_key (xm_pkt xm)) = None" "sw_rules W s (in_key (xm_pkt xm)) = Some v"
    "locked v = 0" "length (owner_mac v) = 6"
  shows "\<exists>q. vale_lookup W xm s = l2_forward W q (ingress_ifindex xm) s \<and> eth_dst (eth_at q 0) = owner_mac v \<and>
    ip_dst (ip_at q 14) = owner_addr v \<and> tcp_dst (tcp_at q 34) = owner_port v \<and> drop 54 q = drop 54 (xm_pkt xm) \<and>
    (whole_segment (xm_pkt xm) \<longrightarrow> tcp_csum_ok q = tcp_csum_ok (xm_pkt xm))"
proof -
  have len: "54 \<le> length (xm_pkt xm)" using assms(1) by (simp add: tcp_frame_def)
  show ?thesis
    using assms(2-4) rewrite_in_headers [OF len assms(5)] rewrite_in_csums(2) [OF _ assms(5)]
    by (intro exI [of _ "rewrite_in v (xm_pkt xm)"]) (simp add: vale_lookup_tcp [OF assms(1)] Let_def)
qed

lemma segment_out:
  assumes "tcp_frame (xm_pkt xm)" "sw_rules W s (out_key (xm_pkt xm)) = Some v" "locked v = 0"
  shows "\<exists>q. vale_lookup W xm s = l2_forward W q (ingress_ifindex xm) s \<and> ip_src (ip_at q 14) = virtual_addr v \<and>
    tcp_src (tcp_at q 34) = virtual_port v \<and> drop 54 q = drop 54 (xm_pkt xm) \<and>
    (whole_segment (xm_pkt xm) \<longrightarrow> tcp_csum_ok q = tcp_csum_ok (xm_pkt xm))"
proof -
  have len: "54 \<le> length (xm_pkt xm)" using assms(1) by (simp add: tcp_frame_def)
  show ?thesis
    using assms(2,3) rewrite_out_headers [OF len] rewrite_out_csums(2)
    by (intro exI [of _ "rewrite_out v (xm_pkt xm)"]) (simp add: vale_lookup_tcp [OF assms(1)] Let_def)
qed


section \<open>A sample\<close>

definition sample_add_frame :: xdp_md where
  "sample_add_frame = from_port 2 (take 42 lock_frame @ req_bytes (handoff_request sample_conn0) @ [])"

definition from_client :: "byte list" where
  "from_client = [2, 0, 0, 0, 0, 1, 2, 0, 0, 0, 0, 9, 8, 0, 69, 0, 0, 43, 18, 52, 64, 0, 64, 6, 0, 0,
     2, 0, 0, 0, 1, 0, 0, 0, 160, 15, 80, 0, 0, 0, 3, 232, 0, 0, 7, 208, 80, 24, 250, 240, 0, 0, 0, 0, 71, 69, 84]"

lemma sample_carries: "carries sample_env (handoff_request sample_conn0) (xm_pkt sample_add_frame)"
proof -
  have c: "config_frame sample_env (xm_pkt sample_add_frame)" "wf_req (handoff_request sample_conn0)" "length (take 42 lock_frame) = 42"
    by code_simp+
  have "xm_pkt sample_add_frame = take 42 lock_frame @ req_bytes (handoff_request sample_conn0) @ []"
    by (simp add: sample_add_frame_def from_port_def)
  with c show ?thesis unfolding carries_def by blast
qed

lemma run_on_wire:
  assumes "source_reach sample_ho_env (before sample_conn0 sample_tcb) s"
  shows "wire_reach sample_env sample_ho_env sample_dest (sample_switch []) sample_conn0 sample_tcb
    \<lparr>wr_switch = after_frame sample_env sample_add_frame (sample_switch []), wr_configured = True, wr_source = s, wr_dest = Waiting\<rparr>"
  using assms
proof (induction rule: source_reach.induct)
  case (start s)
  let ?w = "\<lparr>wr_switch = sample_switch [], wr_configured = False, wr_source = s, wr_dest = Waiting :: (unit, unit, unit) dest\<rparr>"
  have t: "Task (handoff_request sample_conn0) \<in> set (sr_out s)"
    using start by (auto simp: phttp_start_handoff_def emit_def handoff_request_def before_def Let_def)
  have r: "room sample_env (sample_switch []) (cmd_of_req (handoff_request sample_conn0))" by code_simp
  show ?case
    using wire_reach.step [OF wire_reach.start [OF start] wire_step.frame_locks [of ?w, OF _ _ sample_carries]] t r by simp
next
  case (step s s')
  let ?w = "\<lparr>wr_switch = after_frame sample_env sample_add_frame (sample_switch []), wr_configured = True, wr_source = s,
    wr_dest = Waiting :: (unit, unit, unit) dest\<rparr>"
  show ?case using wire_reach.step [OF step(3) wire_step.source_moves [of _ ?w s']] step(2) by simp
qed


end
