(* ===== verification/TcpFrame.thy ===== *)
theory TcpFrame
  imports TcpExportProps
begin

text \<open>
  What exporting and importing a connection leaves alone: a view \<open>w\<close> of the socket that no system call on
  the TCP state changes is the same afterwards, whatever the calls return.
\<close>

named_theorems keep

definition keeps :: "('s \<Rightarrow> 'x) \<Rightarrow> 's step \<Rightarrow> bool" where
  "keeps w f \<longleftrightarrow> (\<forall>s e s'. f s = Some (e, s') \<longrightarrow> w s' = w s)"

definition call_keeps :: "('k \<Rightarrow> 'x) \<Rightarrow> ('k \<Rightarrow> 'r \<times> 'k) \<Rightarrow> bool" where
  "call_keeps w call \<longleftrightarrow> (\<forall>k. w (snd (call k)) = w k)"

definition tcp_keeps :: "'k tcp_api \<Rightarrow> ('k \<Rightarrow> 'x) \<Rightarrow> bool" where
  "tcp_keeps K w \<longleftrightarrow>
     (\<forall>n. call_keeps w (k_malloc K n)) \<and> (\<forall>on. call_keeps w (k_set_repair K on)) \<and>
     call_keeps w (k_info K) \<and> call_keeps w (k_outq K) \<and> call_keeps w (k_outqnsd K) \<and> call_keeps w (k_inq K) \<and>
     call_keeps w (k_maxseg K) \<and> call_keeps w (k_timestamp K) \<and> (\<forall>os. call_keeps w (k_set_options K os)) \<and>
     (\<forall>t. call_keeps w (k_set_timestamp K t)) \<and> call_keeps w (k_window K) \<and> (\<forall>x. call_keeps w (k_set_window K x)) \<and>
     call_keeps w (k_sockname K) \<and> call_keeps w (k_peername K) \<and> (\<forall>a p. call_keeps w (k_bind K a p)) \<and>
     (\<forall>a p. call_keeps w (k_connect K a p)) \<and> (\<forall>q. call_keeps w (k_set_queue K q)) \<and> call_keeps w (k_seq K) \<and>
     (\<forall>s. call_keeps w (k_set_seq K s)) \<and> (\<forall>n. call_keeps w (k_recv_peek K n)) \<and> (\<forall>bs. call_keeps w (k_send K bs))"

lemma call_kept: "call_keeps w call \<Longrightarrow> call k = (r, k') \<Longrightarrow> w k' = w k"
  by (metis call_keeps_def snd_conv)

section \<open>Combinators\<close>

lemma keeps_TRY [keep]: "keeps w f \<Longrightarrow> keeps w g \<Longrightarrow> keeps w (TRY f g)"
  by (fastforce simp: keeps_def TRY_def split: option.splits prod.splits if_splits)

lemma keeps_on_error [keep]: "keeps w f \<Longrightarrow> (\<And>e. keeps w (h e)) \<Longrightarrow> keeps w (on_error h f)"
  by (fastforce simp: keeps_def on_error_def split: option.splits prod.splits if_splits)

lemma keeps_ok [keep]: "keeps w ok"
  by (simp add: keeps_def ok_def)

lemma keeps_sys [keep]: "call_keeps w call \<Longrightarrow> keeps w (sys K call)"
  by (auto simp: keeps_def sys_def call_keeps_def Let_def split: prod.splits) (metis snd_conv)+

lemma keeps_asserted [keep]: "keeps w f \<Longrightarrow> keeps w (asserted f)"
  by (fastforce simp: keeps_def asserted_def split: option.splits prod.splits if_splits)

lemma keeps_if [keep]: "(b \<Longrightarrow> keeps w f) \<Longrightarrow> (\<not> b \<Longrightarrow> keeps w g) \<Longrightarrow> keeps w (if b then f else g)"
  by simp

text \<open>The steps of an export work on the kernel and on the message; the view is that of the kernel.\<close>

abbreviation ekeeps :: "('k \<Rightarrow> 'x) \<Rightarrow> 'k estep \<Rightarrow> bool" where
  "ekeeps w \<equiv> keeps (\<lambda>s. w (es_k s))"

lemma keeps_lift_k [keep]: "keeps w f \<Longrightarrow> ekeeps w (lift_k f)"
  by (auto simp: keeps_def lift_k_def split: option.splits prod.splits)

lemma keeps_fetch [keep]: "call_keeps w call \<Longrightarrow> ekeeps w (fetch K call store)"
  by (auto simp: keeps_def fetch_def dest: call_kept split: option.splits prod.splits)

lemma keeps_err2 [keep]: "keeps w (err2 e)"
  by (simp add: keeps_def err2_def)

section \<open>Export and import\<close>

lemma kept_calls [keep]:
  assumes "tcp_keeps K w"
  shows "call_keeps w (k_malloc K n)" "call_keeps w (k_set_repair K on)" "call_keeps w (k_outq K)"
    "call_keeps w (k_outqnsd K)" "call_keeps w (k_inq K)" "call_keeps w (k_maxseg K)" "call_keeps w (k_timestamp K)"
    "call_keeps w (k_set_options K os)" "call_keeps w (k_set_timestamp K t)" "call_keeps w (k_window K)"
    "call_keeps w (k_set_window K x)" "call_keeps w (k_sockname K)" "call_keeps w (k_peername K)" "call_keeps w (k_bind K a p)"
    "call_keeps w (k_connect K a p)" "call_keeps w (k_set_queue K q)" "call_keeps w (k_seq K)" "call_keeps w (k_set_seq K sq)"
  using assms by (simp_all add: tcp_keeps_def)

lemma keeps_repair [keep]:
  assumes "tcp_keeps K w"
  shows "keeps w (tcp_repair_start K)" "keeps w (tcp_repair_done K)" "keeps w (err1 K e)"
proof -
  show s: "keeps w (tcp_repair_start K)" "keeps w (tcp_repair_done K)"
    unfolding tcp_repair_start_def tcp_repair_done_def by (intro keep assms)+
  show "keeps w (err1 K e)"
    using s(2) by (fastforce simp: keeps_def err1_def split: option.splits prod.splits if_splits)
qed

lemma keeps_established [keep]:
  assumes "tcp_keeps K w"
  shows "ekeeps w (tcp_is_established K)"
proof -
  have "call_keeps w (k_info K)" using assms by (simp add: tcp_keeps_def)
  then show ?thesis
    by (auto simp: keeps_def tcp_is_established_def Let_def dest: call_kept split: option.splits prod.splits if_splits)
qed

lemma keeps_peek [keep]:
  assumes "tcp_keeps K w"
  shows "ekeeps w (\<lambda>s. peek_queue K qid (f s) s)"
proof -
  have c: "call_keeps w (k_malloc K n)" "call_keeps w (k_recv_peek K n)" for n using assms by (simp_all add: tcp_keeps_def)
  show ?thesis
    by (auto simp: keeps_def peek_queue_def Let_def dest!: call_kept [OF c(1)] call_kept [OF c(2)]
      split: option.splits prod.splits if_splits bool.splits)
qed

lemma keeps_get_options [keep]:
  assumes "tcp_keeps K w"
  shows "ekeeps w (tcp_get_options K)"
  unfolding keeps_def tcp_get_options_def Let_def
  using keeps_TRY [OF keeps_fetch keeps_fetch, OF kept_calls(6,7), OF assms assms] unfolding keeps_def by metis

lemma export_keeps:
  assumes "tcp_keeps K w"
  shows "ekeeps w (tcp_export_body K)"
  unfolding tcp_export_body_def tcp_get_queue_len_def tcp_get_window_def tcp_get_addr_def tcp_get_queue_def
  by (intro keep assms)

lemma tcp_export_keeps:
  assumes "tcp_keeps K w" "tcp_export K ex garbage k = Some (e, ex', k')"
  shows "w k' = w k"
  using assms(2) export_keeps [OF assms(1)] unfolding tcp_export_def keeps_def
  by (fastforce split: if_splits option.splits prod.splits)

lemma send_loop_keeps:
  fixes K :: "'k tcp_api"
  assumes "tcp_keeps K w" "send_loop K buf off len max_chunk k = Some (e, k')"
  shows "w k' = w k"
proof -
  have send: "k_send K bs k = (r, k') \<Longrightarrow> w k' = w k" for bs r k k'
    using assms(1) by (auto simp: tcp_keeps_def dest: call_kept)
  have "w (snd y) = w k" if "send_loop K buf off len max_chunk k = Some y" for y
  proof (rule send_loop.raw_induct [where P = "\<lambda>K' buf off len max_chunk k y. K' = K \<longrightarrow> w (snd y) = w k", OF _ that, THEN mp, OF _ refl])
    fix loop :: "'k tcp_api \<Rightarrow> byte list \<Rightarrow> int \<Rightarrow> u32 \<Rightarrow> int \<Rightarrow> 'k \<Rightarrow> (int \<times> 'k) option" and K' buf off len max_chunk k y
    assume ih: "\<And>K' buf off len max_chunk k y. loop K' buf off len max_chunk k = Some y \<Longrightarrow> K' = K \<longrightarrow> w (snd y) = w k"
      and r: "(let chunk = sint len; chunk = if max_chunk < chunk then max_chunk else chunk
        in if chunk < 0 \<or> off < 0 \<or> int (length buf) < off + chunk then None
           else let (ret, k) = k_send K' (take (nat chunk) (drop (nat off) buf)) k
                in if ret \<le> 0
                   then if 1024 < max_chunk then if len = 0 then Some (0, k) else loop K' buf off len (max_chunk div 2) k
                        else Some (k_errno K' k, k)
                   else let off = off + ret; len = len - word_of_int ret
                        in if len = 0 then Some (0, k) else loop K' buf off len max_chunk k) = Some y"
    have "w (snd y) = w k" if "K' = K"
    proof -
      obtain ret k1 where s: "k_send K (take (nat (if max_chunk < sint len then max_chunk else sint len)) (drop (nat off) buf)) k = (ret, k1)"
        by fastforce
      have "w (snd y) = w k1" using r ih s that by (auto simp: Let_def split: if_splits)
      then show ?thesis using send [OF s] by simp
    qed
    then show "K' = K \<longrightarrow> w (snd y) = w k" by blast
  qed
  then show ?thesis using assms(2) by fastforce
qed

lemma import_keeps:
  assumes "tcp_keeps K w"
  shows "keeps w (tcp_import K ex)"
proof -
  have b: "keeps w (send_queue_bytes K buf len)" for buf len
    using send_loop_keeps [OF assms] by (auto simp: keeps_def send_queue_bytes_def)
  then have q: "keeps w (send_queue K qid buf len)" for qid buf len
    unfolding send_queue_def by (intro keep assms b)
  have t: "keeps w (tcp_set_queue K qid x)" for qid x
    unfolding tcp_set_queue_def Let_def using q b assms by (auto intro!: keep simp: keeps_def [of w "\<lambda>k. Some (EINVAL, k)"])
  have "keeps w (tcp_import_body K x)" for x
    unfolding tcp_import_body_def tcp_set_seq_def tcp_set_addr_def tcp_set_options_def tcp_set_window_def
    by (intro keep assms t)
  then show ?thesis by (cases ex) (simp_all add: tcp_import_def keeps_def)
qed

end
