(* ===== verification/TlsContext.thy ===== *)
theory TlsContext
  imports PswProto "HOL-Library.Monad_Syntax"
begin

text \<open>
  The TLS state that travels with a connection, src/extern/tlse.c as it is built here (without TLS 1.3,
  with ChaCha20 and re-exportable contexts): building packets, creating the ciphers, \<open>tls_export_context\<close>,
  \<open>tls_import_context2\<close>, and moving keys and sequence numbers between a context and the kernel.
  LibTomCrypt and the kernel are parameters.  Pointers into buffers are positions; a read outside the
  memory of a buffer is a result of its own.  Allocation succeeds.
\<close>

section \<open>Contexts\<close>

record chacha_ctx =
  cc_input :: "u32 list"
  cc_ks :: "byte list"
  cc_unused :: byte

text \<open>The unions of local and remote cipher state; \<open>created\<close> says which member is valid.\<close>

datatype ('cbc, 'gcm) cipher_ctx =
    No_cipher | Cbc_ctx 'cbc 'cbc | Gcm_ctx 'gcm 'gcm | Chacha_ctx chacha_ctx chacha_ctx

text \<open>The first bytes of the MAC unions are also the initialization vectors of the AEAD ciphers.\<close>

record ('cbc, 'gcm) TLSCipher =
  ci_ctx :: "('cbc, 'gcm) cipher_ctx"
  ci_local_mac :: "byte list"
  ci_remote_mac :: "byte list"
  ci_created :: byte

record ('cbc, 'gcm) TLSContext =
  tx_cipher :: u16
  tx_version :: u16
  tx_is_server :: byte
  tx_master_key :: "byte list"
  tx_cipher_spec_set :: byte
  tx_crypto :: "('cbc, 'gcm) TLSCipher"
  tx_message_buffer :: "byte list"
  tx_remote_seq :: u64
  tx_local_seq :: u64
  tx_status :: byte
  tx_critical_error :: byte
  tx_tls_buffer :: "byte list"
  tx_app_buffer :: "byte list"
  tx_is_child :: byte
  tx_exportable :: byte
  tx_keys :: "byte list option"
  tx_keys_size :: byte
  tx_dtls :: byte
  tx_epoch_local :: u16
  tx_epoch_remote :: u16

definition tls_create_context :: "byte \<Rightarrow> u16 \<Rightarrow> ('cbc, 'gcm) TLSContext" where
  "tls_create_context is_server version = \<lparr>tx_cipher = 0, tx_version = version, tx_is_server = is_server,
     tx_master_key = [], tx_cipher_spec_set = 0,
     tx_crypto = \<lparr>ci_ctx = No_cipher, ci_local_mac = replicate 48 0, ci_remote_mac = replicate 48 0, ci_created = 0\<rparr>,
     tx_message_buffer = [], tx_remote_seq = 0, tx_local_seq = 0, tx_status = 0, tx_critical_error = 0,
     tx_tls_buffer = [], tx_app_buffer = [], tx_is_child = 0, tx_exportable = 0, tx_keys = None, tx_keys_size = 0,
     tx_dtls = (if version = 0xFEFC \<or> version = 0xFEFD \<or> version = 0xFEFF then 1 else 0),
     tx_epoch_local = 0, tx_epoch_remote = 0\<rparr>"

definition tls_make_exportable :: "('cbc, 'gcm) TLSContext \<Rightarrow> byte \<Rightarrow> ('cbc, 'gcm) TLSContext" where
  "tls_make_exportable context flag =
     (let context = context\<lparr>tx_exportable := flag\<rparr>
      in if flag = 0 then context\<lparr>tx_keys := None, tx_keys_size := 0\<rparr> else context)"

section \<open>Cipher suites\<close>

definition tls_is_aead :: "u16 \<Rightarrow> nat" where
  "tls_is_aead cipher =
     (if cipher \<in> set [0x009C, 0x009D, 0x009E, 0x009F, 0xC02F, 0xC030, 0xC02B, 0xC02C, 0x1301, 0x1302] then 1
      else if cipher \<in> set [0xCCA8, 0xCCA9, 0xCCAA, 0x1303] then 2 else 0)"

definition tls_mac_length :: "u16 \<Rightarrow> nat" where
  "tls_mac_length cipher =
     (if cipher \<in> set [0x002F, 0x0035, 0x0033, 0x0039, 0xC013, 0xC014, 0xC009, 0xC00A] then 20
      else if cipher \<in> set [0x003C, 0x003D, 0x009C, 0x0067, 0x006B, 0x009E, 0xC027, 0xC02F, 0xC023, 0xC02B, 0xCCA8,
        0xCCA9, 0xCCAA] then 32
      else if cipher \<in> set [0x009D, 0x009F, 0xC030, 0xC024, 0xC02C] then 48 else 0)"

section \<open>Creating the ciphers\<close>

text \<open>LibTomCrypt: starting a cipher from an initialization vector and a key gives a result and a state;
  \<open>stale\<close> is what a ChaCha20 state holds that is laid over the state of another cipher.\<close>

record ('cbc, 'gcm) tomcrypt =
  gcm_init :: "byte list \<Rightarrow> int \<times> 'gcm"
  cbc_start :: "byte list \<Rightarrow> byte list \<Rightarrow> int \<times> 'cbc"
  cbc_getiv :: "'cbc \<Rightarrow> byte list"
  stale :: chacha_ctx

definition chacha_keysetup :: "chacha_ctx \<Rightarrow> byte list \<Rightarrow> nat \<Rightarrow> chacha_ctx" where
  "chacha_keysetup x k kbits =
     (let k' = (if kbits = 256 then 16 else 0);
          c1 = (if kbits = 256 then 0x3320646e else 0x3120646e);
          c2 = (if kbits = 256 then 0x79622d32 else 0x79622d36)
      in x\<lparr>cc_input := [0x61707865, c1, c2, 0x6b206574, ld32 k 0, ld32 k 4, ld32 k 8, ld32 k 12,
             ld32 k k', ld32 k (k' + 4), ld32 k (k' + 8), ld32 k (k' + 12)] @ drop 12 (cc_input x)\<rparr>)"

text \<open>\<open>None\<close> is the null pointer; no caller passes one for the counter.\<close>

definition chacha_ivsetup_96bitnonce :: "chacha_ctx \<Rightarrow> byte list option \<Rightarrow> u32 \<Rightarrow> chacha_ctx" where
  "chacha_ivsetup_96bitnonce x iv counter =
     (let input = (cc_input x)[12 := counter]
      in case iv of
           None \<Rightarrow> x\<lparr>cc_input := input\<rparr>
         | Some iv \<Rightarrow> x\<lparr>cc_input := take 13 input @ [ld32 iv 0, ld32 iv 4, ld32 iv 8]\<rparr>)"

fun chacha_before :: "('cbc, 'gcm) tomcrypt \<Rightarrow> ('cbc, 'gcm) cipher_ctx \<Rightarrow> chacha_ctx \<times> chacha_ctx" where
  "chacha_before A (Chacha_ctx l r) = (l, r)"
| "chacha_before A No_cipher =
     (\<lparr>cc_input = replicate 16 0, cc_ks = replicate 64 0, cc_unused = 0\<rparr>, \<lparr>cc_input = replicate 16 0, cc_ks = replicate 64 0, cc_unused = 0\<rparr>)"
| "chacha_before A _ = (stale A, stale A)"

definition tls_crypto_create ::
  "('cbc, 'gcm) tomcrypt \<Rightarrow> u16 \<Rightarrow> ('cbc, 'gcm) TLSCipher \<Rightarrow> nat \<Rightarrow> byte list \<Rightarrow> byte list \<Rightarrow> byte list \<Rightarrow> byte list \<Rightarrow>
   int \<times> ('cbc, 'gcm) TLSCipher" where
  "tls_crypto_create A cipher crypto key_length localkey localiv remotekey remoteiv =
     (let crypto = crypto\<lparr>ci_created := 0\<rparr>
      in if tls_is_aead cipher = 2 then
           let (l, r) = chacha_before A (ci_ctx crypto);
               l = chacha_ivsetup_96bitnonce (chacha_keysetup l localkey (key_length * 8)) (Some localiv) 1;
               r = chacha_ivsetup_96bitnonce (chacha_keysetup r remotekey (key_length * 8)) (Some remoteiv) 1
           in (0, crypto\<lparr>ci_ctx := Chacha_ctx l r, ci_created := 3\<rparr>)
         else if tls_is_aead cipher \<noteq> 0 then
           let (res1, l) = gcm_init A (take key_length localkey);
               (res2, r) = gcm_init A (take key_length remotekey);
               crypto = crypto\<lparr>ci_ctx := Gcm_ctx l r\<rparr>
           in if res1 \<noteq> 0 \<or> res2 \<noteq> 0 then (- 1, crypto) else (0, crypto\<lparr>ci_created := 2\<rparr>)
         else
           let (res1, l) = cbc_start A (take 16 localiv) (take key_length localkey);
               (res2, r) = cbc_start A (take 16 remoteiv) (take key_length remotekey);
               crypto = crypto\<lparr>ci_ctx := Cbc_ctx l r\<rparr>
           in if res1 \<noteq> 0 \<or> res2 \<noteq> 0 then (- 1, crypto) else (0, crypto\<lparr>ci_created := 1\<rparr>))"

end
