(* ===== verification/TlsExport.thy ===== *)
theory TlsExport
  imports TlsContext
begin

text \<open>
  Exporting and importing a TLS context: the packet builder, \<open>tls_export_context\<close> and
  \<open>tls_import_context2\<close> of src/extern/tlse.c.
\<close>

section \<open>Packets\<close>

definition bytes64 :: "u64 \<Rightarrow> byte list" where
  "bytes64 x = bytes32 (ucast x) @ bytes32 (ucast (drop_bit 32 x))"

definition ld64 :: "byte list \<Rightarrow> nat \<Rightarrow> u64" where
  "ld64 p i = ucast (ld32 p i) OR push_bit 32 (ucast (ld32 p (i + 4)))"

definition bswap64 :: "u64 \<Rightarrow> u64" where
  "bswap64 x = push_bit 32 (ucast (bswap32 (ucast x))) OR ucast (bswap32 (ucast (drop_bit 32 x)))"

abbreviation (input) htonll :: "u64 \<Rightarrow> u64" where "htonll \<equiv> bswap64"
abbreviation (input) ntohll :: "u64 \<Rightarrow> u64" where "ntohll \<equiv> bswap64"

record tls_packet =
  pk_buf :: "byte list"
  pk_size :: u32

definition TLS_SERIALIZED_OBJECT :: byte where "TLS_SERIALIZED_OBJECT = 0xFE"

text \<open>The length in the header is filled in by \<open>tls_packet_update\<close>; until then it holds anything.\<close>

definition tls_create_packet :: "byte \<Rightarrow> u16 \<Rightarrow> tls_packet" where
  "tls_create_packet type version = \<lparr>pk_buf = [type] @ bytes16 (htons version) @ [0, 0], pk_size = 0xFFF\<rparr>"

definition tls_packet_append :: "byte list \<Rightarrow> tls_packet \<Rightarrow> tls_packet option" where
  "tls_packet_append bs packet =
     (if bs = [] then Some packet
      else
        let new_len = of_nat (length (pk_buf packet)) + of_nat (length bs);
            size = (if new_len > pk_size packet then (new_len div 0xFFF + 1) * 0xFFF else pk_size packet)
        in if length (pk_buf packet) + length bs \<le> unat size then Some \<lparr>pk_buf = pk_buf packet @ bs, pk_size = size\<rparr>
           else None)"

definition tls_packet_uint8 :: "byte \<Rightarrow> byte list" where "tls_packet_uint8 i = [i]"
definition tls_packet_uint16 :: "u16 \<Rightarrow> byte list" where "tls_packet_uint16 i = bytes16 (htons i)"
definition tls_packet_uint32 :: "u32 \<Rightarrow> byte list" where "tls_packet_uint32 i = bytes32 (htonl i)"

text \<open>One call of \<open>tls_packet_append\<close> or of a function above it for every item.\<close>

fun tls_packet_appends :: "byte list list \<Rightarrow> tls_packet \<Rightarrow> tls_packet option" where
  "tls_packet_appends [] packet = Some packet"
| "tls_packet_appends (bs # bss) packet = Option.bind (tls_packet_append bs packet) (tls_packet_appends bss)"

definition tls_packet_update :: "tls_packet \<Rightarrow> tls_packet" where
  "tls_packet_update packet =
     packet\<lparr>pk_buf := st16 (pk_buf packet) 3 (htons (of_nat (length (pk_buf packet)) - 5))\<rparr>"

section \<open>Exporting\<close>

definition export_ivs :: "('cbc, 'gcm) tomcrypt \<Rightarrow> ('cbc, 'gcm) TLSCipher \<Rightarrow> byte list list option" where
  "export_ivs A crypto =
     (if ci_created crypto = 2 then
        Some [tls_packet_uint8 4, take 4 (ci_local_mac crypto), take 4 (ci_remote_mac crypto)]
      else if ci_created crypto = 3 then
        Some [tls_packet_uint8 12, take 12 (ci_local_mac crypto), take 12 (ci_remote_mac crypto)]
      else
        (case ci_ctx crypto of
           Cbc_ctx l r \<Rightarrow> Some [tls_packet_uint8 16, cbc_getiv A l, cbc_getiv A r]
         | _ \<Rightarrow> None))"

definition export_keys :: "('cbc, 'gcm) TLSContext \<Rightarrow> byte list list option" where
  "export_keys context =
     (case tx_keys context of
        None \<Rightarrow> None
      | Some keys \<Rightarrow>
          if length keys < unat (tx_keys_size context) then None
          else Some [tls_packet_uint8 (tx_keys_size context), take (unat (tx_keys_size context)) keys])"

definition export_macs :: "('cbc, 'gcm) TLSContext \<Rightarrow> byte list list option" where
  "export_macs context =
     (let crypto = tx_crypto context
      in if ci_created crypto = 2 then Some [tls_packet_uint8 0]
         else if ci_created crypto = 3 then
           (case ci_ctx crypto of
              Chacha_ctx l r \<Rightarrow>
                Some ([tls_packet_uint8 0] @ map tls_packet_uint32 (take 16 (cc_input l)) @ map tls_packet_uint32 (take 16 (cc_input r)) @
                  [take 64 (cc_ks l), take 64 (cc_ks r)])
            | _ \<Rightarrow> None)
         else
           let n = tls_mac_length (tx_cipher context)
           in Some [tls_packet_uint8 (of_nat n), take n (ci_local_mac crypto), take n (ci_remote_mac crypto)])"

definition export_buffer :: "byte list \<Rightarrow> byte list list" where
  "export_buffer buf = [tls_packet_uint32 (of_nat (length buf)), buf]"

definition export_tail :: "('cbc, 'gcm) TLSContext \<Rightarrow> bool \<Rightarrow> byte list list" where
  "export_tail context small_version =
     (if small_version then [tls_packet_uint16 0]
      else [tls_packet_uint16 (of_nat (length (tx_master_key context))), tx_master_key context]) @
     [bytes64 (htonll (tx_local_seq context)), bytes64 (htonll (tx_remote_seq context))] @
     export_buffer (tx_tls_buffer context) @ export_buffer (tx_message_buffer context) @
     export_buffer (tx_app_buffer context) @ [tls_packet_uint8 (tx_dtls context)] @
     (if tx_dtls context \<noteq> 0 then [tls_packet_uint16 (tx_epoch_local context), tls_packet_uint16 (tx_epoch_remote context)]
      else [])"

definition exportable_context :: "('cbc, 'gcm) TLSContext \<Rightarrow> bool" where
  "exportable_context context \<longleftrightarrow> tx_critical_error context = 0 \<and> tx_status context = 0xFF \<and> tx_exportable context \<noteq> 0 \<and>
     tx_keys context \<noteq> None \<and> tx_keys_size context \<noteq> 0 \<and> ci_created (tx_crypto context) \<noteq> 0"

text \<open>The result and what is copied to the buffer of \<open>buf_len\<close> bytes.\<close>

definition tls_export_context ::
  "('cbc, 'gcm) tomcrypt \<Rightarrow> ('cbc, 'gcm) TLSContext \<Rightarrow> u32 \<Rightarrow> bool \<Rightarrow> (int \<times> byte list) option" where
  "tls_export_context A context buf_len small_version =
     (if \<not> exportable_context context then Some (0, [])
      else
        do {
          ivs \<leftarrow> export_ivs A (tx_crypto context);
          keys \<leftarrow> export_keys context;
          macs \<leftarrow> export_macs context;
          packet \<leftarrow> tls_packet_appends
            ([tls_packet_uint8 1, tls_packet_uint8 (tx_status context), tls_packet_uint16 (tx_cipher context),
              tls_packet_uint8 (if tx_is_child context \<noteq> 0 then 2 else tx_is_server context)] @
             ivs @ keys @ macs @ export_tail context small_version)
            (tls_create_packet TLS_SERIALIZED_OBJECT (tx_version context));
          let packet = tls_packet_update packet;
              size = length (pk_buf packet)
          in if buf_len \<noteq> 0 \<and> unat buf_len < size then Some (sint buf_len - sint (of_nat size :: u32), [])
             else Some (sint (of_nat size :: u32), if buf_len = 0 then [] else pk_buf packet)
        })"

section \<open>Importing\<close>

text \<open>What a step leads to: memory outside the buffer is read, -1 is returned, or the next position.\<close>

datatype ('cbc, 'gcm) imp =
    Outside | Failed "('cbc, 'gcm) TLSContext" | Go int "('cbc, 'gcm) TLSContext"

primrec imp_then ::
  "('cbc, 'gcm) imp \<Rightarrow> (int \<Rightarrow> ('cbc, 'gcm) TLSContext \<Rightarrow> ('cbc, 'gcm) imp) \<Rightarrow> ('cbc, 'gcm) imp" where
  "imp_then Outside f = Outside"
| "imp_then (Failed c) f = Failed c"
| "imp_then (Go pos c) f = f pos c"

definition sub_mem :: "byte list \<Rightarrow> int \<Rightarrow> nat \<Rightarrow> byte list option" where
  "sub_mem mem pos n = (if pos < 0 \<or> int (length mem) < pos + int n then None else Some (take n (drop (nat pos) mem)))"

definition TLS_IMPORT_CHECK_SIZE2 :: "int \<Rightarrow> int \<Rightarrow> u32 \<Rightarrow> bool" where
  "TLS_IMPORT_CHECK_SIZE2 buf_pos sz buf_size \<longleftrightarrow> \<not> (sz > sint buf_size - buf_pos \<or> buf_pos > sint buf_size)"

text \<open>A 32-bit length and the bytes it announces.  The length is compared as a signed number.\<close>

definition import_len ::
  "byte list \<Rightarrow> u32 \<Rightarrow> int \<Rightarrow> ('cbc, 'gcm) TLSContext \<Rightarrow> (u32 \<Rightarrow> int \<Rightarrow> ('cbc, 'gcm) imp) \<Rightarrow> ('cbc, 'gcm) imp" where
  "import_len mem buf_len pos c f =
     (if \<not> TLS_IMPORT_CHECK_SIZE2 pos 4 buf_len then Failed c
      else case sub_mem mem pos 4 of None \<Rightarrow> Outside | Some b \<Rightarrow> f (ntohl (ld32 b 0)) (pos + 4))"

definition import_bytes ::
  "byte list \<Rightarrow> u32 \<Rightarrow> (byte list \<Rightarrow> ('cbc, 'gcm) TLSContext \<Rightarrow> ('cbc, 'gcm) TLSContext) \<Rightarrow> u32 \<Rightarrow> int \<Rightarrow>
   ('cbc, 'gcm) TLSContext \<Rightarrow> ('cbc, 'gcm) imp" where
  "import_bytes mem buf_len upd len pos c =
     (if \<not> TLS_IMPORT_CHECK_SIZE2 pos (sint len) buf_len then Failed c
      else if len = 0 then Go pos c
      else case sub_mem mem pos (unat len) of None \<Rightarrow> Outside | Some b \<Rightarrow> Go (pos + int (unat len)) (upd b c))"

text \<open>A fixed part of the buffer.\<close>

definition import_fixed ::
  "byte list \<Rightarrow> nat \<Rightarrow> int \<Rightarrow> (byte list \<Rightarrow> int \<Rightarrow> ('cbc, 'gcm) imp) \<Rightarrow> ('cbc, 'gcm) imp" where
  "import_fixed mem n pos f = (case sub_mem mem pos n of None \<Rightarrow> Outside | Some b \<Rightarrow> f b (pos + int n))"

definition overwrite :: "byte list \<Rightarrow> byte list \<Rightarrow> byte list" where
  "overwrite array bs = bs @ drop (length bs) array"

definition import_head ::
  "byte list \<Rightarrow> u32 \<Rightarrow> (byte list \<Rightarrow> byte list \<Rightarrow> int \<Rightarrow> ('cbc, 'gcm) TLSContext \<Rightarrow> ('cbc, 'gcm) imp) \<Rightarrow> ('cbc, 'gcm) TLSContext \<Rightarrow>
   ('cbc, 'gcm) imp" where
  "import_head mem buf_len f context =
     (if buf_len < 64 then Failed context
      else import_fixed mem 11 0 (\<lambda>head pos.
        if ld8 head 0 \<noteq> TLS_SERIALIZED_OBJECT \<or> ld8 head 5 \<noteq> 1 then Failed context
        else
          let context = context\<lparr>tx_version := ntohs (ld16 head 1)\<rparr>
          in if (ucast (ntohs (ld16 head 3)) :: u32) \<noteq> buf_len - 5 then Failed context
             else
               let context = context\<lparr>tx_status := ld8 head 6, tx_cipher := ntohs (ld16 head 7)\<rparr>;
                   server = ld8 head 9;
                   context = (if server = 2 then context\<lparr>tx_is_server := 1, tx_is_child := 1\<rparr> else context\<lparr>tx_is_server := server\<rparr>);
                   iv_len = unat (ld8 head 10)
               in if iv_len > 16 then Failed context
                  else import_fixed mem iv_len pos (\<lambda>local_iv pos.
                    import_fixed mem iv_len pos (\<lambda>remote_iv pos. f local_iv remote_iv pos context))))"

definition set_aead_ivs :: "byte list \<Rightarrow> byte list \<Rightarrow> ('cbc, 'gcm) TLSContext \<Rightarrow> ('cbc, 'gcm) TLSContext" where
  "set_aead_ivs local_iv remote_iv context =
     (let n = (if tls_is_aead (tx_cipher context) = 2 then 12 else 4); crypto = tx_crypto context
      in if tls_is_aead (tx_cipher context) = 0 then context
         else context\<lparr>tx_crypto := crypto\<lparr>ci_local_mac := overwrite (ci_local_mac crypto) (take n local_iv),
                ci_remote_mac := overwrite (ci_remote_mac crypto) (take n remote_iv)\<rparr>\<rparr>)"

text \<open>The arrays on the stack hold what was there before beyond the bytes copied into them.\<close>

definition import_keys ::
  "('cbc, 'gcm) tomcrypt \<Rightarrow> (nat \<Rightarrow> byte list) \<Rightarrow> byte list \<Rightarrow> u32 \<Rightarrow> byte list \<Rightarrow> byte list \<Rightarrow> int \<Rightarrow> ('cbc, 'gcm) TLSContext \<Rightarrow>
   ('cbc, 'gcm) imp" where
  "import_keys A stack mem buf_len local_iv remote_iv pos context =
     import_fixed mem 1 pos (\<lambda>b pos.
       let key_lengths = unat (ld8 b 0)
       in if \<not> TLS_IMPORT_CHECK_SIZE2 pos (int key_lengths) buf_len then Failed context
          else import_fixed mem key_lengths pos (\<lambda>keys pos.
            let temp = overwrite (stack 0) keys;
                context = set_aead_ivs local_iv remote_iv
                  (context\<lparr>tx_exportable := 1, tx_keys := Some keys, tx_keys_size := of_nat key_lengths\<rparr>);
                half = key_lengths div 2;
                liv = overwrite (stack 1) local_iv;
                riv = overwrite (stack 2) remote_iv;
                (error, crypto) = (if tx_is_server context \<noteq> 0
                  then tls_crypto_create A (tx_cipher context) (tx_crypto context) half temp liv (drop half temp) riv
                  else tls_crypto_create A (tx_cipher context) (tx_crypto context) half (drop half temp) riv temp liv);
                context = context\<lparr>tx_crypto := crypto\<rparr>
            in if error \<noteq> 0 then Failed context else Go pos context))"

definition import_chacha :: "byte list \<Rightarrow> ('cbc, 'gcm) TLSContext \<Rightarrow> ('cbc, 'gcm) TLSContext" where
  "import_chacha b context =
     (case ci_ctx (tx_crypto context) of
        Chacha_ctx l r \<Rightarrow>
          context\<lparr>tx_crypto := (tx_crypto context)\<lparr>ci_ctx :=
            Chacha_ctx (l\<lparr>cc_input := map (\<lambda>i. ntohl (ld32 b (4 * i))) [0..<16], cc_ks := take 64 (drop 128 b)\<rparr>)
              (r\<lparr>cc_input := map (\<lambda>i. ntohl (ld32 b (64 + 4 * i))) [0..<16], cc_ks := take 64 (drop 192 b)\<rparr>)\<rparr>\<rparr>
      | _ \<Rightarrow> context)"

definition import_macs ::
  "byte list \<Rightarrow> u32 \<Rightarrow> int \<Rightarrow> ('cbc, 'gcm) TLSContext \<Rightarrow> ('cbc, 'gcm) imp" where
  "import_macs mem buf_len pos context =
     import_fixed mem 1 pos (\<lambda>b pos.
       let n = unat (ld8 b 0)
       in if n > 48 then Failed context
          else if n \<noteq> 0 then
            if \<not> TLS_IMPORT_CHECK_SIZE2 pos (int n) buf_len then Failed context
            else import_fixed mem n pos (\<lambda>mac pos.
              let crypto = tx_crypto context;
                  context = context\<lparr>tx_crypto := crypto\<lparr>ci_local_mac := overwrite (ci_local_mac crypto) mac\<rparr>\<rparr>
              in if \<not> TLS_IMPORT_CHECK_SIZE2 pos (int n) buf_len then Failed context
                 else import_fixed mem n pos (\<lambda>mac pos.
                   let crypto = tx_crypto context
                   in Go pos (context\<lparr>tx_crypto := crypto\<lparr>ci_remote_mac := overwrite (ci_remote_mac crypto) mac\<rparr>\<rparr>)))
          else if tls_is_aead (tx_cipher context) = 2 then
            if \<not> TLS_IMPORT_CHECK_SIZE2 pos 256 buf_len then Failed context
            else import_fixed mem 256 pos (\<lambda>b pos. Go pos (import_chacha b context))
          else Go pos context)"

definition import_master_key ::
  "byte list \<Rightarrow> u32 \<Rightarrow> int \<Rightarrow> ('cbc, 'gcm) TLSContext \<Rightarrow> ('cbc, 'gcm) imp" where
  "import_master_key mem buf_len pos context =
     (if \<not> TLS_IMPORT_CHECK_SIZE2 pos 2 buf_len then Failed context
      else import_fixed mem 2 pos (\<lambda>b pos.
        let n = unat (ntohs (ld16 b 0))
        in if n = 0 then Go pos context
           else if \<not> TLS_IMPORT_CHECK_SIZE2 pos (int n) buf_len then Failed context
           else import_fixed mem n pos (\<lambda>key pos. Go pos (context\<lparr>tx_master_key := key\<rparr>))))"

definition import_seqs ::
  "byte list \<Rightarrow> u32 \<Rightarrow> int \<Rightarrow> ('cbc, 'gcm) TLSContext \<Rightarrow> ('cbc, 'gcm) imp" where
  "import_seqs mem buf_len pos context =
     (if \<not> TLS_IMPORT_CHECK_SIZE2 pos 16 buf_len then Failed context
      else import_fixed mem 16 pos (\<lambda>b pos.
        Go pos (context\<lparr>tx_local_seq := ntohll (ld64 b 0), tx_remote_seq := ntohll (ld64 b 8)\<rparr>)))"

definition import_dtls ::
  "byte list \<Rightarrow> u32 \<Rightarrow> int \<Rightarrow> ('cbc, 'gcm) TLSContext \<Rightarrow> ('cbc, 'gcm) imp" where
  "import_dtls mem buf_len pos context =
     (if \<not> TLS_IMPORT_CHECK_SIZE2 pos 1 buf_len then Failed context
      else import_fixed mem 1 pos (\<lambda>b pos.
        let context = context\<lparr>tx_dtls := ld8 b 0\<rparr>
        in if ld8 b 0 = 0 then Go pos context
           else if \<not> TLS_IMPORT_CHECK_SIZE2 pos 4 buf_len then Failed context
           else import_fixed mem 4 pos (\<lambda>b pos.
             Go pos (context\<lparr>tx_epoch_local := ntohs (ld16 b 0), tx_epoch_remote := ntohs (ld16 b 2)\<rparr>))))"

definition import_tail ::
  "byte list \<Rightarrow> u32 \<Rightarrow> int \<Rightarrow> ('cbc, 'gcm) TLSContext \<Rightarrow> ('cbc, 'gcm) imp" where
  "import_tail mem buf_len pos c =
     imp_then (import_master_key mem buf_len pos c) (\<lambda>pos c.
     imp_then (import_seqs mem buf_len pos c) (\<lambda>pos c.
     imp_then (import_len mem buf_len pos c (\<lambda>n pos.
       import_bytes mem buf_len (\<lambda>b. tx_tls_buffer_update (\<lambda>_. b)) n pos c)) (\<lambda>pos c.
     imp_then (import_len mem buf_len pos c (\<lambda>n pos.
       import_bytes mem buf_len (\<lambda>b. tx_message_buffer_update (\<lambda>_. b)) n pos c)) (\<lambda>pos c.
     imp_then (import_len mem buf_len pos c (\<lambda>n pos.
       import_bytes mem buf_len (\<lambda>b. tx_app_buffer_update (\<lambda>_. b)) n pos (c\<lparr>tx_cipher_spec_set := 1\<rparr>)))
     (import_dtls mem buf_len)))))"

definition tls_import_context2 ::
  "('cbc, 'gcm) tomcrypt \<Rightarrow> (nat \<Rightarrow> byte list) \<Rightarrow> byte list \<Rightarrow> u32 \<Rightarrow> ('cbc, 'gcm) TLSContext \<Rightarrow> ('cbc, 'gcm) imp" where
  "tls_import_context2 A stack mem buf_len context =
     import_head mem buf_len (\<lambda>local_iv remote_iv pos c.
       imp_then (import_keys A stack mem buf_len local_iv remote_iv pos c) (\<lambda>pos c.
       imp_then (import_macs mem buf_len pos c) (import_tail mem buf_len))) context"

text \<open>The body of \<open>tls_import_context\<close> repeats that of \<open>tls_import_context2\<close> on a context of its own, which is
  destroyed where the other returns -1; \<open>Some None\<close> is \<open>NULL\<close>.\<close>

definition tls_import_context ::
  "('cbc, 'gcm) tomcrypt \<Rightarrow> (nat \<Rightarrow> byte list) \<Rightarrow> byte list \<Rightarrow> u32 \<Rightarrow> ('cbc, 'gcm) TLSContext option option" where
  "tls_import_context A stack mem buf_len =
     (case tls_import_context2 A stack mem buf_len (tls_create_context 0 0x0303) of
        Outside \<Rightarrow> None | Failed c \<Rightarrow> Some None | Go pos c \<Rightarrow> Some (Some c))"

end
