(* ===== verification/TlsProps.thy ===== *)
theory TlsProps
  imports TlsExport
begin

text \<open>
  What arrives of an exported TLS context, and which memory the import reads.
\<close>

section \<open>Numbers in packets\<close>

lemma length_packet_numbers [simp]:
  "length (tls_packet_uint8 x) = 1" "length (tls_packet_uint16 y) = 2" "length (tls_packet_uint32 z) = 4" "length (bytes64 w) = 8"
  by (simp_all add: tls_packet_uint8_def tls_packet_uint16_def tls_packet_uint32_def bytes64_def)

lemma ld_packet_numbers [simp]:
  "ld8 (tls_packet_uint8 x) 0 = x" "bswap16 (ld16 (tls_packet_uint16 y) 0) = y" "bswap32 (ld32 (tls_packet_uint32 z) 0) = z"
  by (simp_all add: tls_packet_uint8_def tls_packet_uint16_def tls_packet_uint32_def ld8_def)

lemma ld64_bytes64: "ld64 (bytes64 x) 0 = x"
proof -
  have "ld32 (bytes64 x) 0 = ucast x" by (simp add: bytes64_def ld32_append_left)
  moreover have "ld32 (bytes64 x) 4 = ucast (drop_bit 32 x)" by (simp add: bytes64_def ld32_append_right)
  ultimately show ?thesis
    unfolding ld64_def by simp (rule bit_word_eqI, auto simp: bit_simps dest: bit_imp_le_length)
qed

lemma ld64_append_left: "i + 8 \<le> length a \<Longrightarrow> ld64 (a @ b) i = ld64 a i"
  by (simp add: ld64_def ld32_append_left)

lemma ld64_append_right: "length a \<le> i \<Longrightarrow> ld64 (a @ b) i = ld64 b (i - length a)"
  by (simp add: ld64_def ld32_append_right)

lemma bswap64_bswap64 [simp]: "bswap64 (bswap64 x) = x"
proof -
  have "(ucast (bswap64 x) :: u32) = bswap32 (ucast (drop_bit 32 x))"
    "(ucast (drop_bit 32 (bswap64 x)) :: u32) = bswap32 (ucast x)"
    unfolding bswap64_def by (rule bit_word_eqI, auto simp: bit_simps dest: bit_imp_le_length)+
  then show ?thesis
    unfolding bswap64_def [of "bswap64 x"] by simp (rule bit_word_eqI, auto simp: bit_simps dest: bit_imp_le_length)
qed

section \<open>Packets\<close>

lemma appends_buf: "tls_packet_appends bss p = Some p' \<Longrightarrow> pk_buf p' = pk_buf p @ concat bss"
proof (induction bss arbitrary: p)
  case (Cons bs bss)
  then obtain q where q: "tls_packet_append bs p = Some q" "tls_packet_appends bss q = Some p'"
    by (auto simp: bind_eq_Some_conv)
  then have "pk_buf q = pk_buf p @ bs" by (auto simp: tls_packet_append_def Let_def split: if_splits)
  then show ?case using Cons.IH [OF q(2)] by simp
qed simp

lemma append_succeeds:
  assumes "length (pk_buf p) + length bs < 2 ^ 31" "length (pk_buf p) \<le> unat (pk_size p)"
  shows "\<exists>q. tls_packet_append bs p = Some q \<and> pk_buf q = pk_buf p @ bs \<and> length (pk_buf q) \<le> unat (pk_size q)"
proof -
  let ?n = "length (pk_buf p) + length bs"
  have n: "unat (of_nat ?n :: u32) = ?n" using assms(1) by (simp add: unat_of_nat take_bit_nat_eq_self del: of_nat_add)
  have u: "unat ((of_nat ?n div 0xFFF + 1) * 0xFFF :: u32) = (?n div 0xFFF + 1) * 0xFFF"
  proof -
    have d: "unat (of_nat ?n div 0xFFF :: u32) = ?n div 0xFFF" by (simp add: unat_div n del: of_nat_add)
    have "?n div 0xFFF \<le> 2 ^ 31 div 0xFFF" using assms(1) by (intro div_le_mono) simp
    then have b: "(?n div 0xFFF + 1) * 0xFFF < 2 ^ 32" by simp
    have "unat (of_nat ?n div 0xFFF + 1 :: u32) = ?n div 0xFFF + 1"
      using b d by (subst unat_add_lem [THEN iffD1]) (simp_all del: of_nat_add)
    then show ?thesis using b by (subst unat_mult_lem [THEN iffD1]) (simp_all del: of_nat_add)
  qed
  have le: "?n \<le> (?n div 0xFFF + 1) * 0xFFF"
    by (rule less_imp_le, rule order.strict_trans2 [OF dividend_less_div_times [where n = 4095]]) simp_all
  show ?thesis
  proof (cases "bs = []")
    case True
    then show ?thesis using assms by (simp add: tls_packet_append_def)
  next
    case False
    show ?thesis
    proof (cases "(of_nat ?n :: u32) > pk_size p")
      case True
      then show ?thesis
        using False u le by (simp add: tls_packet_append_def Let_def)
    next
      case le2: False
      then have "?n \<le> unat (pk_size p)" using n by (simp add: word_less_nat_alt del: of_nat_add)
      then show ?thesis
        using False le2 by (simp add: tls_packet_append_def Let_def)
    qed
  qed
qed

lemma appends_succeed:
  "length (pk_buf p) + length (concat bss) < 2 ^ 31 \<Longrightarrow> length (pk_buf p) \<le> unat (pk_size p) \<Longrightarrow>
     \<exists>p'. tls_packet_appends bss p = Some p'"
proof (induction bss arbitrary: p)
  case (Cons bs bss)
  have "length (pk_buf p) + length bs < 2 ^ 31" using Cons.prems(1) by simp
  from append_succeeds [OF this Cons.prems(2)] obtain q where q: "tls_packet_append bs p = Some q" "pk_buf q = pk_buf p @ bs"
    "length (pk_buf q) \<le> unat (pk_size q)" by blast
  then show ?case using Cons by simp
qed simp

section \<open>Reading what was written\<close>

text \<open>At position \<open>p\<close> the memory of a buffer of \<open>n\<close> bytes, which ends with a terminator, goes on with \<open>rest\<close>.\<close>

definition at :: "byte list \<Rightarrow> nat \<Rightarrow> nat \<Rightarrow> byte list \<Rightarrow> bool" where
  "at mem n p rest \<longleftrightarrow> drop p mem = rest @ [0] \<and> length mem = Suc n \<and> p + length rest = n \<and> n < 2 ^ 31"

lemma at_next: "at mem n p (b @ r) \<Longrightarrow> at mem n (p + length b) r"
  using drop_drop [of "length b" p mem] by (auto simp: at_def add.commute)

lemma fixed_at: "at mem n p (b @ r) \<Longrightarrow> length b = l \<Longrightarrow> import_fixed mem l (int p) f = f b (int (p + l))"
  by (simp add: import_fixed_def sub_mem_def at_def)

lemma check_at:
  assumes "at mem n p (b @ r)" "i \<le> int (length b)"
  shows "TLS_IMPORT_CHECK_SIZE2 (int p) i (of_nat n)"
proof -
  have "sint (of_nat n :: u32) = int n"
    using assms(1) by (simp add: at_def signed_of_nat signed_take_bit_int_eq_self)
  then show ?thesis using assms by (simp add: TLS_IMPORT_CHECK_SIZE2_def at_def)
qed

lemma buffer_at:
  assumes "at mem n p (concat (export_buffer buf) @ r)"
  shows "import_len mem (of_nat n) (int p) c (\<lambda>l pos. import_bytes mem (of_nat n) upd l pos c') =
      Go (int (p + 4 + length buf)) (if buf = [] then c' else upd buf c')" "at mem n (p + 4 + length buf) r"
proof -
  have a: "at mem n p (tls_packet_uint32 (of_nat (length buf)) @ buf @ r)"
    using assms by (simp add: export_buffer_def)
  have a': "at mem n (p + 4) (buf @ r)" using at_next [OF a] by simp
  show "at mem n (p + 4 + length buf) r" using at_next [OF a'] .
  have len: "length buf < 2 ^ 31" using a' by (simp add: at_def)
  then have u: "unat (of_nat (length buf) :: u32) = length buf" "sint (of_nat (length buf) :: u32) = int (length buf)"
    by (simp_all add: unat_of_nat take_bit_nat_eq_self signed_of_nat signed_take_bit_int_eq_self)
  have z: "(of_nat (length buf) :: u32) = 0 \<longleftrightarrow> buf = []"
  proof
    assume "(of_nat (length buf) :: u32) = 0"
    then have "unat (of_nat (length buf) :: u32) = 0" by (rule ssubst) simp
    then show "buf = []" unfolding u(1) by simp
  qed simp
  have c1: "TLS_IMPORT_CHECK_SIZE2 (int p) 4 (of_nat n)" by (rule check_at [OF a]) simp
  have c2: "TLS_IMPORT_CHECK_SIZE2 (int p + 4) (int (length buf)) (of_nat n)" using check_at [OF a', of "int (length buf)"] by simp
  have s1: "sub_mem mem (int p) 4 = Some (tls_packet_uint32 (of_nat (length buf)))" using a by (simp add: sub_mem_def at_def)
  have s2: "sub_mem mem (int p + 4) (length buf) = Some buf" using a' by (simp add: sub_mem_def at_def nat_add_distrib)
  show "import_len mem (of_nat n) (int p) c (\<lambda>l pos. import_bytes mem (of_nat n) upd l pos c') =
      Go (int (p + 4 + length buf)) (if buf = [] then c' else upd buf c')"
    by (simp add: import_len_def import_bytes_def c1 c2 s1 s2 u z)
qed

lemma master_at:
  assumes "at mem n p ((if small then [0, 0] else tls_packet_uint16 (of_nat (length key)) @ key) @ r)"
    "length key < 2 ^ 16"
  shows "\<exists>q. import_master_key mem (of_nat n) (int p) c = Go (int q) (if small \<or> key = [] then c else c\<lparr>tx_master_key := key\<rparr>) \<and>
    at mem n q r"
proof -
  let ?k = "if small then [] else key"
  have z: "tls_packet_uint16 0 = [0, 0]" by (simp add: tls_packet_uint16_def bytes16_def bswap16_def)
  have a: "at mem n p (tls_packet_uint16 (of_nat (length ?k)) @ ?k @ r)"
    using assms(1) z by (simp split: if_splits)
  have a': "at mem n (p + 2) (?k @ r)" using at_next [OF a] by simp
  have u: "unat (of_nat (length ?k) :: u16) = length ?k"
    using assms(2) by (simp add: unat_of_nat take_bit_nat_eq_self)
  have c1: "TLS_IMPORT_CHECK_SIZE2 (int p) 2 (of_nat n)" by (rule check_at [OF a]) simp
  have c2: "TLS_IMPORT_CHECK_SIZE2 (int (p + 2)) (int (length ?k)) (of_nat n)" by (rule check_at [OF a']) simp
  have f1: "import_fixed mem 2 (int p) f = f (tls_packet_uint16 (of_nat (length ?k))) (int (p + 2))" for f :: "byte list \<Rightarrow> int \<Rightarrow> ('a, 'b) imp"
    by (rule fixed_at [OF a]) simp
  have f2: "import_fixed mem (length ?k) (int (p + 2)) f = f ?k (int (p + 2 + length ?k))" for f :: "byte list \<Rightarrow> int \<Rightarrow> ('a, 'b) imp"
    by (rule fixed_at [OF a']) simp
  have "import_master_key mem (of_nat n) (int p) c =
      Go (int (p + 2 + length ?k)) (if ?k = [] then c else c\<lparr>tx_master_key := ?k\<rparr>)"
    unfolding import_master_key_def f1 Let_def ld_packet_numbers u using c1 c2 f2 by simp
  moreover have "at mem n (p + 2 + length ?k) r" by (rule at_next [OF a'])
  ultimately show ?thesis by (intro exI [of _ "p + 2 + length ?k"]) (simp split: if_splits)
qed

lemma seqs_at:
  assumes "at mem n p (bytes64 (htonll a) @ bytes64 (htonll b) @ r)"
  shows "import_seqs mem (of_nat n) (int p) c = Go (int (p + 16)) (c\<lparr>tx_local_seq := a, tx_remote_seq := b\<rparr>)"
    "at mem n (p + 16) r"
proof -
  let ?b = "bytes64 (htonll a) @ bytes64 (htonll b)"
  have a: "at mem n p (?b @ r)" using assms by simp
  show "at mem n (p + 16) r" using at_next [OF a] by simp
  have l: "ld64 ?b 0 = htonll a" "ld64 ?b 8 = htonll b"
    by (simp_all add: ld64_append_left ld64_append_right ld64_bytes64)
  have "import_fixed mem 16 (int p) f = f ?b (int (p + 16))" for f :: "byte list \<Rightarrow> int \<Rightarrow> ('a, 'b) imp"
    by (rule fixed_at [OF a]) simp
  then show "import_seqs mem (of_nat n) (int p) c = Go (int (p + 16)) (c\<lparr>tx_local_seq := a, tx_remote_seq := b\<rparr>)"
    using check_at [OF a, of 16] by (simp add: import_seqs_def l)
qed

lemma dtls_at:
  assumes "at mem n p (tls_packet_uint8 d @ (if d \<noteq> 0 then tls_packet_uint16 e1 @ tls_packet_uint16 e2 else []))"
  shows "\<exists>q. import_dtls mem (of_nat n) (int p) c =
    Go q (if d = 0 then c\<lparr>tx_dtls := 0\<rparr> else c\<lparr>tx_dtls := d, tx_epoch_local := e1, tx_epoch_remote := e2\<rparr>)"
proof -
  let ?e = "if d \<noteq> 0 then tls_packet_uint16 e1 @ tls_packet_uint16 e2 else []"
  have f1: "import_fixed mem 1 (int p) f = f (tls_packet_uint8 d) (int (p + 1))" for f :: "byte list \<Rightarrow> int \<Rightarrow> ('a, 'b) imp"
    by (rule fixed_at [OF assms]) simp
  have c1: "TLS_IMPORT_CHECK_SIZE2 (int p) 1 (of_nat n)" by (rule check_at [OF assms]) simp
  show ?thesis
  proof (cases "d = 0")
    case True
    then show ?thesis unfolding import_dtls_def f1 Let_def ld_packet_numbers by (simp add: c1)
  next
    case False
    have a': "at mem n (p + 1) ((tls_packet_uint16 e1 @ tls_packet_uint16 e2) @ [])" using at_next [OF assms] False by simp
    have f2: "import_fixed mem 4 (int (p + 1)) f = f (tls_packet_uint16 e1 @ tls_packet_uint16 e2) (int (p + 1 + 4))" for f :: "byte list \<Rightarrow> int \<Rightarrow> ('a, 'b) imp"
      by (rule fixed_at [OF a']) simp
    have c2: "TLS_IMPORT_CHECK_SIZE2 (int (p + 1)) 4 (of_nat n)" by (rule check_at [OF a']) simp
    have l: "bswap16 (ld16 (tls_packet_uint16 e1 @ tls_packet_uint16 e2) 0) = e1"
      "bswap16 (ld16 (tls_packet_uint16 e1 @ tls_packet_uint16 e2) 2) = e2"
      by (simp_all add: ld16_append_left ld16_append_right)
    show ?thesis using False c2 unfolding import_dtls_def f1 Let_def ld_packet_numbers by (simp add: c1 f2 [simplified] l)
  qed
qed

section \<open>The bytes of an exported context\<close>

lemma st16_head: "st16 ([a] @ bytes16 b @ [x, y] @ r) 3 v = [a] @ bytes16 b @ bytes16 v @ r"
  by (simp add: st16_def bytes16_def)

definition server_byte :: "('cbc, 'gcm) TLSContext \<Rightarrow> byte" where
  "server_byte c = (if tx_is_child c \<noteq> 0 then 2 else tx_is_server c)"

lemma export_bytes:
  assumes "tls_export_context A c buf_len small = Some (m, bytes)" "bytes \<noteq> []" "buf_len = 0xFFFF"
  shows "\<exists>ivs keys macs. export_ivs A (tx_crypto c) = Some ivs \<and> export_keys c = Some keys \<and> export_macs c = Some macs \<and>
    bytes = (([TLS_SERIALIZED_OBJECT] @ tls_packet_uint16 (tx_version c) @ tls_packet_uint16 (of_nat (length bytes) - 5) @
      tls_packet_uint8 1 @ tls_packet_uint8 (tx_status c) @ tls_packet_uint16 (tx_cipher c) @ tls_packet_uint8 (server_byte c)) @
      concat ivs) @ concat keys @ concat macs @ concat (export_tail c small) \<and>
    length bytes \<le> 0xFFFF \<and> m = int (length bytes)"
proof -
  let ?pre = "[tls_packet_uint8 1, tls_packet_uint8 (tx_status c), tls_packet_uint16 (tx_cipher c), tls_packet_uint8 (server_byte c)]"
  let ?p0 = "tls_create_packet TLS_SERIALIZED_OBJECT (tx_version c)"
  obtain ivs keys macs p where x: "export_ivs A (tx_crypto c) = Some ivs" "export_keys c = Some keys" "export_macs c = Some macs"
    "tls_packet_appends (?pre @ ivs @ keys @ macs @ export_tail c small) ?p0 = Some p"
    and r: "(let packet = tls_packet_update p; size = length (pk_buf packet)
      in if buf_len \<noteq> 0 \<and> unat buf_len < size then Some (sint buf_len - sint (of_nat size :: u32), [])
         else Some (sint (of_nat size :: u32), if buf_len = 0 then [] else pk_buf packet)) = Some (m, bytes)"
    using assms by (auto simp: tls_export_context_def server_byte_def bind_eq_Some_conv split: if_splits)
  let ?all = "concat (?pre @ ivs @ keys @ macs @ export_tail c small)"
  have buf: "pk_buf p = [TLS_SERIALIZED_OBJECT] @ bytes16 (htons (tx_version c)) @ [0, 0] @ ?all"
    using appends_buf [OF x(4)] by (simp add: tls_create_packet_def)
  have up: "pk_buf (tls_packet_update p) = [TLS_SERIALIZED_OBJECT] @ bytes16 (htons (tx_version c)) @
      bytes16 (htons (of_nat (length (pk_buf p)) - 5)) @ ?all"
  proof -
    have "pk_buf (tls_packet_update p) = st16 (pk_buf p) 3 (htons (of_nat (length (pk_buf p)) - 5))"
      by (simp add: tls_packet_update_def)
    then show ?thesis by (simp only: buf st16_head)
  qed
  have lp: "length (pk_buf (tls_packet_update p)) = length (pk_buf p)" by (simp add: tls_packet_update_def)
  have fit: "length (pk_buf p) \<le> 0xFFFF"
  proof (rule ccontr)
    assume "\<not> length (pk_buf p) \<le> 0xFFFF"
    then have "bytes = []" using r assms(3) lp by (simp add: Let_def)
    then show False using assms(2) by simp
  qed
  then have b: "bytes = pk_buf (tls_packet_update p)" "m = int (length (pk_buf p))"
    using r assms(3) lp by (auto simp: Let_def signed_of_nat signed_take_bit_int_eq_self)
  then show ?thesis
    using x fit lp up by (intro exI [of _ ivs] exI [of _ keys] exI [of _ macs]) (simp add: tls_packet_uint16_def)
qed

section \<open>Reading the parts of a context\<close>

definition head_bytes :: "u16 \<Rightarrow> u16 \<Rightarrow> byte \<Rightarrow> u16 \<Rightarrow> byte \<Rightarrow> nat \<Rightarrow> byte list" where
  "head_bytes v l st ci sb k = [TLS_SERIALIZED_OBJECT] @ tls_packet_uint16 v @ tls_packet_uint16 l @ tls_packet_uint8 1 @
     tls_packet_uint8 st @ tls_packet_uint16 ci @ tls_packet_uint8 sb @ tls_packet_uint8 (of_nat k)"

lemma head_fields:
  "length (head_bytes v l st ci sb k) = 11" "ld8 (head_bytes v l st ci sb k) 0 = TLS_SERIALIZED_OBJECT"
  "bswap16 (ld16 (head_bytes v l st ci sb k) 1) = v" "bswap16 (ld16 (head_bytes v l st ci sb k) 3) = l"
  "ld8 (head_bytes v l st ci sb k) 5 = 1" "ld8 (head_bytes v l st ci sb k) 6 = st"
  "bswap16 (ld16 (head_bytes v l st ci sb k) 7) = ci" "ld8 (head_bytes v l st ci sb k) 9 = sb"
  "ld8 (head_bytes v l st ci sb k) 10 = of_nat k"
proof -
  have t: "ld16 (a @ tls_packet_uint16 x @ b) (length a) = bswap16 x" for a x b
    using shift_loads(2) [of a "tls_packet_uint16 x @ b" 0]
    by (simp add: ld16_append_left) (metis bswap16_bswap16 ld_packet_numbers(2))
  have o: "ld8 (a @ tls_packet_uint8 x @ b) (length a) = x" for a x b
    using shift_loads(1) [of a "tls_packet_uint8 x @ b" 0] by (simp add: tls_packet_uint8_def ld8_def)
  show "length (head_bytes v l st ci sb k) = 11" "ld8 (head_bytes v l st ci sb k) 0 = TLS_SERIALIZED_OBJECT"
    by (simp_all add: head_bytes_def ld8_def)
  show "bswap16 (ld16 (head_bytes v l st ci sb k) 1) = v"
    using t [of "[TLS_SERIALIZED_OBJECT]" v] by (simp add: head_bytes_def)
  show "bswap16 (ld16 (head_bytes v l st ci sb k) 3) = l"
    using t [of "[TLS_SERIALIZED_OBJECT] @ tls_packet_uint16 v" l] by (simp add: head_bytes_def)
  show "ld8 (head_bytes v l st ci sb k) 5 = 1"
    using o [of "[TLS_SERIALIZED_OBJECT] @ tls_packet_uint16 v @ tls_packet_uint16 l" 1] by (simp add: head_bytes_def)
  show "ld8 (head_bytes v l st ci sb k) 6 = st"
    using o [of "[TLS_SERIALIZED_OBJECT] @ tls_packet_uint16 v @ tls_packet_uint16 l @ tls_packet_uint8 1" st] by (simp add: head_bytes_def)
  show "bswap16 (ld16 (head_bytes v l st ci sb k) 7) = ci"
    using t [of "[TLS_SERIALIZED_OBJECT] @ tls_packet_uint16 v @ tls_packet_uint16 l @ tls_packet_uint8 1 @ tls_packet_uint8 st" ci]
    by (simp add: head_bytes_def)
  show "ld8 (head_bytes v l st ci sb k) 9 = sb"
    using o [of "[TLS_SERIALIZED_OBJECT] @ tls_packet_uint16 v @ tls_packet_uint16 l @ tls_packet_uint8 1 @ tls_packet_uint8 st @ tls_packet_uint16 ci" sb]
    by (simp add: head_bytes_def)
  show "ld8 (head_bytes v l st ci sb k) 10 = of_nat k"
    using o [of "[TLS_SERIALIZED_OBJECT] @ tls_packet_uint16 v @ tls_packet_uint16 l @ tls_packet_uint8 1 @ tls_packet_uint8 st @ tls_packet_uint16 ci @ tls_packet_uint8 sb" "of_nat k" "[]"]
    by (simp add: head_bytes_def)
qed

definition headed :: "u16 \<Rightarrow> byte \<Rightarrow> u16 \<Rightarrow> byte \<Rightarrow> ('cbc, 'gcm) TLSContext \<Rightarrow> ('cbc, 'gcm) TLSContext" where
  "headed v st ci sb c = (let c = c\<lparr>tx_version := v, tx_status := st, tx_cipher := ci\<rparr>
     in if sb = 2 then c\<lparr>tx_is_server := 1, tx_is_child := 1\<rparr> else c\<lparr>tx_is_server := sb\<rparr>)"

lemma head_at:
  assumes "at mem n 0 (head_bytes v (of_nat n - 5) st ci sb k @ l @ r @ rest)" "64 \<le> n" "n \<le> 0xFFFF" "k \<le> 16"
    "length l = k" "length r = k"
  shows "import_head mem (of_nat n) f c = f l r (int (11 + k + k)) (headed v st ci sb c)" "at mem n (11 + k + k) rest"
proof -
  let ?h = "head_bytes v (of_nat n - 5) st ci sb k"
  have a1: "at mem n (0 + 11) (l @ r @ rest)" using at_next [OF assms(1)] by (simp add: head_fields)
  have a2: "at mem n (11 + k) (r @ rest)" using at_next [OF a1] assms(5) by simp
  show "at mem n (11 + k + k) rest" using at_next [OF a2] assms(6) by simp
  have f1: "import_fixed mem 11 0 g = g ?h 11" for g :: "byte list \<Rightarrow> int \<Rightarrow> ('a, 'b) imp"
    using fixed_at [OF assms(1), of 11 g] by (simp add: head_fields)
  have f2: "import_fixed mem k 11 g = g l (int (11 + k))" for g :: "byte list \<Rightarrow> int \<Rightarrow> ('a, 'b) imp"
    using fixed_at [OF a1 assms(5), of g] by simp
  have f3: "import_fixed mem k (int (11 + k)) g = g r (int (11 + k + k))" for g :: "byte list \<Rightarrow> int \<Rightarrow> ('a, 'b) imp"
    by (rule fixed_at [OF a2 assms(6)])
  have n: "unat (of_nat n :: u32) = n" using assms(3) by (simp add: unat_of_nat take_bit_nat_eq_self)
  have ge: "\<not> (of_nat n :: u32) < 64" using assms(2) by (simp add: word_less_nat_alt n)
  have len: "(ucast (of_nat n - 5 :: u16) :: u32) = of_nat n - 5"
  proof -
    have "unat (of_nat n - 5 :: u16) = n - 5" using assms(2,3) by (subst unat_sub) (simp_all add: word_le_nat_alt unat_of_nat take_bit_nat_eq_self)
    moreover have "unat (of_nat n - 5 :: u32) = n - 5" using assms(2,3) n by (subst unat_sub) (simp_all add: word_le_nat_alt)
    ultimately show ?thesis by (simp add: word_unat_eq_iff unat_ucast_up)
  qed
  have k: "unat (of_nat k :: byte) = k" using assms(4) by (simp add: unat_of_nat take_bit_nat_eq_self)
  show "import_head mem (of_nat n) f c = f l r (int (11 + k + k)) (headed v st ci sb c)"
    unfolding import_head_def f1 Let_def head_fields k
    using ge len assms(4) f2 f3 by (simp add: headed_def)
qed

lemma keys_at:
  assumes "at mem n p (tls_packet_uint8 (of_nat (length ks)) @ ks @ r)" "length ks \<le> 255" "tx_is_server c \<noteq> 0"
    "c1 = set_aead_ivs liv riv (c\<lparr>tx_exportable := 1, tx_keys := Some ks, tx_keys_size := of_nat (length ks)\<rparr>)"
    "tls_crypto_create A (tx_cipher c) (tx_crypto c1) (length ks div 2) (overwrite (stack 0) ks) (overwrite (stack 1) liv)
       (drop (length ks div 2) (overwrite (stack 0) ks)) (overwrite (stack 2) riv) = (0, crypto)"
  shows "import_keys A stack mem (of_nat n) liv riv (int p) c = Go (int (p + 1 + length ks)) (c1\<lparr>tx_crypto := crypto\<rparr>)"
    "at mem n (p + 1 + length ks) r"
proof -
  have a: "at mem n (p + 1) (ks @ r)" using at_next [OF assms(1)] by simp
  show "at mem n (p + 1 + length ks) r" by (rule at_next [OF a])
  have f1: "import_fixed mem 1 (int p) g = g (tls_packet_uint8 (of_nat (length ks))) (int (p + 1))" for g :: "byte list \<Rightarrow> int \<Rightarrow> ('a, 'b) imp"
    by (rule fixed_at [OF assms(1)]) simp
  have f2: "import_fixed mem (length ks) (int (p + 1)) g = g ks (int (p + 1 + length ks))" for g :: "byte list \<Rightarrow> int \<Rightarrow> ('a, 'b) imp"
    by (rule fixed_at [OF a]) simp
  have ch: "TLS_IMPORT_CHECK_SIZE2 (int (p + 1)) (int (length ks)) (of_nat n)" by (rule check_at [OF a]) simp
  have u: "unat (of_nat (length ks) :: byte) = length ks" using assms(2) by (simp add: unat_of_nat take_bit_nat_eq_self)
  have s: "tx_is_server c1 = tx_is_server c" "tx_cipher c1 = tx_cipher c" unfolding assms(4) by (simp_all add: set_aead_ivs_def Let_def)
  show "import_keys A stack mem (of_nat n) liv riv (int p) c = Go (int (p + 1 + length ks)) (c1\<lparr>tx_crypto := crypto\<rparr>)"
    unfolding import_keys_def f1 Let_def ld_packet_numbers u
    by (simp only: ch f2 assms(3,5) s assms(4) [symmetric] not_True_eq_False if_False if_True simp_thms prod.case)
qed

lemma no_macs_at:
  assumes "at mem n p (tls_packet_uint8 0 @ r)" "tls_is_aead (tx_cipher c) \<noteq> 2"
  shows "import_macs mem (of_nat n) (int p) c = Go (int (p + 1)) c" "at mem n (p + 1) r"
proof -
  have f1: "import_fixed mem 1 (int p) g = g (tls_packet_uint8 0) (int (p + 1))" for g :: "byte list \<Rightarrow> int \<Rightarrow> ('a, 'b) imp"
    by (rule fixed_at [OF assms(1)]) simp
  show "import_macs mem (of_nat n) (int p) c = Go (int (p + 1)) c"
    unfolding import_macs_def f1 Let_def ld_packet_numbers using assms(2) by simp
  show "at mem n (p + 1) r" using at_next [OF assms(1)] by simp
qed

lemma macs_at:
  assumes "at mem n p (tls_packet_uint8 (of_nat m) @ l @ k @ r)" "0 < m" "m \<le> 48" "length l = m" "length k = m"
  shows "import_macs mem (of_nat n) (int p) c = Go (int (p + 1 + m + m)) (c\<lparr>tx_crypto := (tx_crypto c)\<lparr>
      ci_local_mac := overwrite (ci_local_mac (tx_crypto c)) l, ci_remote_mac := overwrite (ci_remote_mac (tx_crypto c)) k\<rparr>\<rparr>)"
    "at mem n (p + 1 + m + m) r"
proof -
  have a1: "at mem n (p + 1) (l @ k @ r)" using at_next [OF assms(1)] by simp
  have a2: "at mem n (p + 1 + m) (k @ r)" using at_next [OF a1] assms(4) by simp
  show "at mem n (p + 1 + m + m) r" using at_next [OF a2] assms(5) by simp
  have f1: "import_fixed mem 1 (int p) g = g (tls_packet_uint8 (of_nat m)) (int (p + 1))" for g :: "byte list \<Rightarrow> int \<Rightarrow> ('a, 'b) imp"
    by (rule fixed_at [OF assms(1)]) simp
  have f2: "import_fixed mem m (int (p + 1)) g = g l (int (p + 1 + m))" for g :: "byte list \<Rightarrow> int \<Rightarrow> ('a, 'b) imp"
    by (rule fixed_at [OF a1 assms(4)])
  have f3: "import_fixed mem m (int (p + 1 + m)) g = g k (int (p + 1 + m + m))" for g :: "byte list \<Rightarrow> int \<Rightarrow> ('a, 'b) imp"
    by (rule fixed_at [OF a2 assms(5)])
  have c1: "TLS_IMPORT_CHECK_SIZE2 (int (p + 1)) (int m) (of_nat n)" by (rule check_at [OF a1]) (simp add: assms(4))
  have c2: "TLS_IMPORT_CHECK_SIZE2 (int (p + 1 + m)) (int m) (of_nat n)" by (rule check_at [OF a2]) (simp add: assms(5))
  have u: "unat (of_nat m :: byte) = m" using assms(3) by (simp add: unat_of_nat take_bit_nat_eq_self)
  have g: "\<not> m > 48" "m \<noteq> 0" using assms(2,3) by simp_all
  show "import_macs mem (of_nat n) (int p) c = Go (int (p + 1 + m + m)) (c\<lparr>tx_crypto := (tx_crypto c)\<lparr>
      ci_local_mac := overwrite (ci_local_mac (tx_crypto c)) l, ci_remote_mac := overwrite (ci_remote_mac (tx_crypto c)) k\<rparr>\<rparr>)"
    unfolding import_macs_def f1 Let_def ld_packet_numbers u
    by (simp only: g c1 f2 c2 f3 if_False if_True not_True_eq_False simp_thms) simp
qed

lemma words_at:
  "i < length ws \<Longrightarrow> bswap32 (ld32 (concat (map tls_packet_uint32 ws) @ x) (4 * i)) = ws ! i"
proof (induction ws arbitrary: i)
  case (Cons w ws)
  show ?case
  proof (cases i)
    case 0
    then show ?thesis by (simp add: ld32_append_left)
  next
    case (Suc j)
    then show ?thesis using Cons by (simp add: ld32_append_right)
  qed
qed simp

lemma length_words [simp]: "length (concat (map tls_packet_uint32 ws)) = 4 * length ws"
  by (induction ws) simp_all

lemma import_chacha_words:
  assumes "length il = 16" "length ir = 16" "length kl = 64" "length kr = 64" "ci_ctx (tx_crypto c) = Chacha_ctx l r"
  shows "import_chacha (concat (map tls_packet_uint32 il) @ concat (map tls_packet_uint32 ir) @ kl @ kr) c =
    c\<lparr>tx_crypto := (tx_crypto c)\<lparr>ci_ctx := Chacha_ctx (l\<lparr>cc_input := il, cc_ks := kl\<rparr>) (r\<lparr>cc_input := ir, cc_ks := kr\<rparr>)\<rparr>\<rparr>"
proof -
  let ?b = "concat (map tls_packet_uint32 il) @ concat (map tls_packet_uint32 ir) @ kl @ kr"
  have w1: "map (\<lambda>i. bswap32 (ld32 ?b (4 * i))) [0..<16] = il"
    using assms(1) by (intro nth_equalityI) (simp_all add: words_at)
  have w2: "map (\<lambda>i. bswap32 (ld32 ?b (64 + 4 * i))) [0..<16] = ir"
    using assms(1,2) by (intro nth_equalityI) (simp_all add: ld32_append_right words_at)
  have t: "take 64 (drop 128 ?b) = kl" "take 64 (drop 192 ?b) = kr" using assms(1-4) by simp_all
  show ?thesis unfolding import_chacha_def assms(5) cipher_ctx.case w1 w2 t by (rule refl)
qed

lemma chacha_at:
  assumes "at mem n p (tls_packet_uint8 0 @ (concat (map tls_packet_uint32 il) @ concat (map tls_packet_uint32 ir) @ kl @ kr) @ rest)"
    "length il = 16" "length ir = 16" "length kl = 64" "length kr = 64" "ci_ctx (tx_crypto c) = Chacha_ctx l r"
    "tls_is_aead (tx_cipher c) = 2"
  shows "import_macs mem (of_nat n) (int p) c = Go (int (p + 257)) (c\<lparr>tx_crypto := (tx_crypto c)\<lparr>ci_ctx :=
      Chacha_ctx (l\<lparr>cc_input := il, cc_ks := kl\<rparr>) (r\<lparr>cc_input := ir, cc_ks := kr\<rparr>)\<rparr>\<rparr>)" "at mem n (p + 257) rest"
proof -
  let ?b = "concat (map tls_packet_uint32 il) @ concat (map tls_packet_uint32 ir) @ kl @ kr"
  have len: "length ?b = 256" using assms(2-5) by simp
  have a: "at mem n (p + 1) (?b @ rest)" using at_next [OF assms(1)] by simp
  show "at mem n (p + 257) rest" using at_next [OF a] unfolding len by (simp add: add.commute)
  have f1: "import_fixed mem 1 (int p) g = g (tls_packet_uint8 0) (int (p + 1))" for g :: "byte list \<Rightarrow> int \<Rightarrow> ('a, 'b) imp"
    by (rule fixed_at [OF assms(1)]) simp
  have f2: "import_fixed mem 256 (int (p + 1)) g = g ?b (int (p + 1 + 256))" for g :: "byte list \<Rightarrow> int \<Rightarrow> ('a, 'b) imp"
    by (rule fixed_at [OF a len])
  have ch: "TLS_IMPORT_CHECK_SIZE2 (int (p + 1)) 256 (of_nat n)" by (rule check_at [OF a]) (simp only: len of_nat_numeral order_refl)
  have "import_macs mem (of_nat n) (int p) c = Go (int (p + 1 + 256)) (import_chacha ?b c)"
    unfolding import_macs_def f1 Let_def ld_packet_numbers using assms(7) ch f2 by simp
  then show "import_macs mem (of_nat n) (int p) c = Go (int (p + 257)) (c\<lparr>tx_crypto := (tx_crypto c)\<lparr>ci_ctx :=
      Chacha_ctx (l\<lparr>cc_input := il, cc_ks := kl\<rparr>) (r\<lparr>cc_input := ir, cc_ks := kr\<rparr>)\<rparr>\<rparr>)"
    unfolding import_chacha_words [OF assms(2-6)] by simp
qed

lemma tail_at:
  fixes c c2 :: "('cbc, 'gcm) TLSContext"
  assumes "at mem n p (concat (export_tail c small))" "length (tx_master_key c) < 2 ^ 16"
    "tx_tls_buffer c2 = []" "tx_message_buffer c2 = []" "tx_app_buffer c2 = []" "tx_master_key c2 = []"
    "tx_epoch_local c2 = 0" "tx_epoch_remote c2 = 0"
  shows "\<exists>q. import_tail mem (of_nat n) (int p) c2 = Go q (c2\<lparr>tx_master_key := (if small then [] else tx_master_key c),
      tx_local_seq := tx_local_seq c, tx_remote_seq := tx_remote_seq c, tx_tls_buffer := tx_tls_buffer c,
      tx_message_buffer := tx_message_buffer c, tx_app_buffer := tx_app_buffer c, tx_cipher_spec_set := 1, tx_dtls := tx_dtls c,
      tx_epoch_local := (if tx_dtls c = 0 then 0 else tx_epoch_local c), tx_epoch_remote := (if tx_dtls c = 0 then 0 else tx_epoch_remote c)\<rparr>)"
proof -
  let ?d = "tls_packet_uint8 (tx_dtls c) @
    (if tx_dtls c \<noteq> 0 then tls_packet_uint16 (tx_epoch_local c) @ tls_packet_uint16 (tx_epoch_remote c) else [])"
  let ?b5 = "concat (export_buffer (tx_app_buffer c)) @ ?d"
  let ?b4 = "concat (export_buffer (tx_message_buffer c)) @ ?b5"
  let ?b3 = "concat (export_buffer (tx_tls_buffer c)) @ ?b4"
  let ?b2 = "bytes64 (htonll (tx_local_seq c)) @ bytes64 (htonll (tx_remote_seq c)) @ ?b3"
  have z: "tls_packet_uint16 0 = [0, 0]" by (simp add: tls_packet_uint16_def bytes16_def bswap16_def)
  have "concat (export_tail c small) =
      (if small then [0, 0] else tls_packet_uint16 (of_nat (length (tx_master_key c))) @ tx_master_key c) @ ?b2"
    by (simp add: export_tail_def z)
  then obtain q1 where 1: "import_master_key mem (of_nat n) (int p) c2 =
      Go (int q1) (if small \<or> tx_master_key c = [] then c2 else c2\<lparr>tx_master_key := tx_master_key c\<rparr>)" "at mem n q1 ?b2"
    using master_at [OF _ assms(2), of mem n p small ?b2 c2] assms(1) by auto
  have m: "(if small \<or> tx_master_key c = [] then c2 else c2\<lparr>tx_master_key := tx_master_key c\<rparr>) =
      c2\<lparr>tx_master_key := (if small then [] else tx_master_key c)\<rparr>" using assms(6) by simp
  note 2 = seqs_at [OF 1(2)]
  note 3 = buffer_at [OF 2(2)]
  note 4 = buffer_at [OF 3(2)]
  note 5 = buffer_at [OF 4(2)]
  have "\<exists>q. import_dtls mem (of_nat n) (int (q1 + 16 + 4 + length (tx_tls_buffer c) + 4 + length (tx_message_buffer c) + 4 + length (tx_app_buffer c))) c' =
      Go q (if tx_dtls c = 0 then c'\<lparr>tx_dtls := 0\<rparr> else c'\<lparr>tx_dtls := tx_dtls c, tx_epoch_local := tx_epoch_local c,
        tx_epoch_remote := tx_epoch_remote c\<rparr>)" for c' :: "('cbc, 'gcm) TLSContext"
    by (rule dtls_at [OF 5(2)])
  note dtls = this
  define s1 where "s1 = c2\<lparr>tx_master_key := (if small then [] else tx_master_key c), tx_local_seq := tx_local_seq c,
    tx_remote_seq := tx_remote_seq c\<rparr>"
  define s2 where "s2 = s1\<lparr>tx_tls_buffer := tx_tls_buffer c\<rparr>"
  define s3 where "s3 = s2\<lparr>tx_message_buffer := tx_message_buffer c\<rparr>"
  define s4 where "s4 = s3\<lparr>tx_cipher_spec_set := 1, tx_app_buffer := tx_app_buffer c\<rparr>"
  have e: "(if tx_tls_buffer c = [] then s1 else s1\<lparr>tx_tls_buffer := tx_tls_buffer c\<rparr>) = s2"
    "(if tx_message_buffer c = [] then s2 else s2\<lparr>tx_message_buffer := tx_message_buffer c\<rparr>) = s3"
    "(if tx_app_buffer c = [] then s3\<lparr>tx_cipher_spec_set := 1\<rparr> else s3\<lparr>tx_cipher_spec_set := 1, tx_app_buffer := tx_app_buffer c\<rparr>) = s4"
    using assms(3-5) by (simp_all add: s1_def s2_def s3_def s4_def)
  obtain q where q: "import_tail mem (of_nat n) (int p) c2 = Go q (if tx_dtls c = 0 then s4\<lparr>tx_dtls := 0\<rparr>
      else s4\<lparr>tx_dtls := tx_dtls c, tx_epoch_local := tx_epoch_local c, tx_epoch_remote := tx_epoch_remote c\<rparr>)"
    unfolding import_tail_def 1(1) imp_then.simps m 2(1) s1_def [symmetric] 3(1) e 4(1) 5(1) using dtls by blast
  then show ?thesis using assms(7,8) by (intro exI [of _ q]) (simp add: s1_def s2_def s3_def s4_def)
qed

section \<open>Sessions\<close>

definition session_keys :: "('cbc, 'gcm) TLSContext \<Rightarrow> byte list" where
  "session_keys c = the (tx_keys c)"

definition local_key :: "('cbc, 'gcm) TLSContext \<Rightarrow> byte list" where
  "local_key c = take (length (session_keys c) div 2) (session_keys c)"

definition remote_key :: "('cbc, 'gcm) TLSContext \<Rightarrow> byte list" where
  "remote_key c = drop (length (session_keys c) div 2) (session_keys c)"

text \<open>A negotiated context of a server: its arrays have their sizes and its ciphers are those of the suite.\<close>

definition wf_session :: "('cbc, 'gcm) tomcrypt \<Rightarrow> ('cbc, 'gcm) TLSContext \<Rightarrow> bool" where
  "wf_session A c \<longleftrightarrow> exportable_context c \<and> tx_is_server c = 1 \<and> length (session_keys c) = unat (tx_keys_size c) \<and>
     32 \<le> length (session_keys c) \<and> even (length (session_keys c)) \<and> length (tx_master_key c) < 2 ^ 16 \<and>
     length (ci_local_mac (tx_crypto c)) = 48 \<and> length (ci_remote_mac (tx_crypto c)) = 48 \<and>
     (if tls_is_aead (tx_cipher c) = 1 then ci_created (tx_crypto c) = 2
      else if tls_is_aead (tx_cipher c) = 2 then ci_created (tx_crypto c) = 3 \<and>
        (case ci_ctx (tx_crypto c) of Chacha_ctx l r \<Rightarrow> length (cc_input l) = 16 \<and> length (cc_input r) = 16 \<and>
           length (cc_ks l) = 64 \<and> length (cc_ks r) = 64 | _ \<Rightarrow> False)
      else ci_created (tx_crypto c) = 1 \<and> 0 < tls_mac_length (tx_cipher c) \<and>
        (case ci_ctx (tx_crypto c) of Cbc_ctx l r \<Rightarrow> length (cbc_getiv A l) = 16 \<and> length (cbc_getiv A r) = 16 | _ \<Rightarrow> False))"

text \<open>LibTomCrypt accepts the keys of the session.\<close>

definition keys_accepted :: "('cbc, 'gcm) tomcrypt \<Rightarrow> ('cbc, 'gcm) TLSContext \<Rightarrow> bool" where
  "keys_accepted A c \<longleftrightarrow> fst (gcm_init A (local_key c)) = 0 \<and> fst (gcm_init A (remote_key c)) = 0 \<and>
     (\<forall>iv. fst (cbc_start A iv (local_key c)) = 0 \<and> fst (cbc_start A iv (remote_key c)) = 0)"

text \<open>The ciphers go on: the same keys, initialization vectors and states.\<close>

definition same_ciphers ::
  "('cbc, 'gcm) tomcrypt \<Rightarrow> ('cbc, 'gcm) TLSContext \<Rightarrow> ('cbc, 'gcm) TLSCipher \<Rightarrow> bool" where
  "same_ciphers A c cr \<longleftrightarrow> ci_created cr = ci_created (tx_crypto c) \<and>
     length (ci_local_mac cr) = 48 \<and> length (ci_remote_mac cr) = 48 \<and>
     (if ci_created cr = 2 then
        take 4 (ci_local_mac cr) = take 4 (ci_local_mac (tx_crypto c)) \<and> take 4 (ci_remote_mac cr) = take 4 (ci_remote_mac (tx_crypto c)) \<and>
        ci_ctx cr = Gcm_ctx (snd (gcm_init A (local_key c))) (snd (gcm_init A (remote_key c)))
      else if ci_created cr = 3 then
        take 12 (ci_local_mac cr) = take 12 (ci_local_mac (tx_crypto c)) \<and> take 12 (ci_remote_mac cr) = take 12 (ci_remote_mac (tx_crypto c)) \<and>
        (\<exists>l r l' r'. ci_ctx (tx_crypto c) = Chacha_ctx l r \<and> ci_ctx cr = Chacha_ctx l' r' \<and>
           cc_input l' = cc_input l \<and> cc_input r' = cc_input r \<and> cc_ks l' = cc_ks l \<and> cc_ks r' = cc_ks r)
      else
        (let m = tls_mac_length (tx_cipher c) in take m (ci_local_mac cr) = take m (ci_local_mac (tx_crypto c)) \<and>
           take m (ci_remote_mac cr) = take m (ci_remote_mac (tx_crypto c))) \<and>
        (\<exists>l r. ci_ctx (tx_crypto c) = Cbc_ctx l r \<and> ci_ctx cr = Cbc_ctx (snd (cbc_start A (cbc_getiv A l) (local_key c)))
           (snd (cbc_start A (cbc_getiv A r) (remote_key c)))))"

definition session_ivs :: "('cbc, 'gcm) tomcrypt \<Rightarrow> ('cbc, 'gcm) TLSCipher \<Rightarrow> nat \<times> byte list \<times> byte list" where
  "session_ivs A cr =
     (if ci_created cr = 2 then (4, take 4 (ci_local_mac cr), take 4 (ci_remote_mac cr))
      else if ci_created cr = 3 then (12, take 12 (ci_local_mac cr), take 12 (ci_remote_mac cr))
      else case ci_ctx cr of Cbc_ctx l r \<Rightarrow> (16, cbc_getiv A l, cbc_getiv A r) | _ \<Rightarrow> (0, [], []))"

lemma ivs_bytes:
  assumes "export_ivs A (tx_crypto c) = Some ivs" "wf_session A c" "session_ivs A (tx_crypto c) = (k, l, r)"
  shows "concat ivs = tls_packet_uint8 (of_nat k) @ l @ r" "length l = k" "length r = k" "k \<le> 16"
  using assms by (auto simp: export_ivs_def wf_session_def session_ivs_def split: if_splits cipher_ctx.splits)

lemma keys_bytes:
  assumes "export_keys c = Some keys" "wf_session A c"
  shows "concat keys = tls_packet_uint8 (of_nat (length (session_keys c))) @ session_keys c" "length (session_keys c) \<le> 255"
    "tx_keys c = Some (session_keys c)" "tx_keys_size c = of_nat (length (session_keys c))"
proof -
  have "unat (tx_keys_size c) < 2 ^ LENGTH(8)" by (rule unsigned_less)
  then show "length (session_keys c) \<le> 255" using assms(2) by (simp add: wf_session_def)
  show "concat keys = tls_packet_uint8 (of_nat (length (session_keys c))) @ session_keys c"
    using assms by (auto simp: export_keys_def session_keys_def wf_session_def split: option.splits if_splits)
  show "tx_keys c = Some (session_keys c)" using assms(2) by (auto simp: wf_session_def exportable_context_def session_keys_def)
  show "tx_keys_size c = of_nat (length (session_keys c))" using assms(2) by (simp add: wf_session_def)
qed

lemma overwrite_takes:
  assumes "length ks = h + h"
  shows "take h (overwrite st ks) = take h ks" "take h (drop h (overwrite st ks)) = drop h ks"
  using assms by (simp_all add: overwrite_def)

definition keyed :: "('cbc, 'gcm) TLSContext \<Rightarrow> ('cbc, 'gcm) TLSCipher \<Rightarrow> ('cbc, 'gcm) TLSContext \<Rightarrow> ('cbc, 'gcm) TLSContext" where
  "keyed c cr c1 = c1\<lparr>tx_exportable := 1, tx_keys := tx_keys c, tx_keys_size := tx_keys_size c, tx_crypto := cr\<rparr>"

lemma aead_kinds: "tls_is_aead ci = 1 \<or> tls_is_aead ci = 2 \<or> tls_is_aead ci = 0"
  unfolding tls_is_aead_def by metis

lemma ciphers_at:
  assumes "at mem n p (concat keys @ concat macs @ rest)" "export_keys c = Some keys" "export_macs c = Some macs"
    "wf_session A c" "keys_accepted A c" "session_ivs A (tx_crypto c) = (k, l, r)"
    "tx_is_server c1 = 1" "tx_cipher c1 = tx_cipher c" "tx_crypto c1 = tx_crypto (tls_create_context 1 v)"
  shows "\<exists>q cr. imp_then (import_keys A stack mem (of_nat n) l r (int p) c1) (import_macs mem (of_nat n)) = Go (int q) (keyed c cr c1) \<and>
    at mem n q rest \<and> same_ciphers A c cr"
proof -
  let ?ks = "session_keys c"
  let ?h = "length ?ks div 2"
  note kb = keys_bytes [OF assms(2,4)]
  have "even (length ?ks)" using assms(4) unfolding wf_session_def by blast
  then have hh: "length ?ks = ?h + ?h" using even_two_times_div_two [of "length ?ks"] by linarith
  have a: "at mem n p (tls_packet_uint8 (of_nat (length ?ks)) @ ?ks @ concat macs @ rest)"
    using assms(1) kb(1) by simp
  define c2 where "c2 = set_aead_ivs l r (c1\<lparr>tx_exportable := 1, tx_keys := Some ?ks, tx_keys_size := of_nat (length ?ks)\<rparr>)"
  have ov: "take ?h (overwrite (stack 0) ?ks) = local_key c" "take ?h (drop ?h (overwrite (stack 0) ?ks)) = remote_key c"
    using overwrite_takes [OF hh, of "stack 0"] by (simp_all add: local_key_def remote_key_def)
  define cr2 where "cr2 = tx_crypto c2"
  note key = keys_at [OF a kb(2) _ c2_def, where A = A and stack = stack]
  have ks: "keyed c crypto c1 = c2\<lparr>tx_crypto := crypto\<rparr>" for crypto
    by (simp add: keyed_def c2_def set_aead_ivs_def kb Let_def)
  have c2: "tx_cipher c2 = tx_cipher c" "tx_is_server c1 \<noteq> 0" using assms(7,8) by (simp_all add: c2_def set_aead_ivs_def Let_def)
  consider (gcm) "tls_is_aead (tx_cipher c) = 1" | (chacha) "tls_is_aead (tx_cipher c) = 2" | (cbc) "tls_is_aead (tx_cipher c) = 0"
    using aead_kinds [of "tx_cipher c"] by metis
  then show ?thesis
  proof cases
    case gcm
    then have cr: "ci_created (tx_crypto c) = 2" using assms(4) by (simp add: wf_session_def)
    have m: "concat macs = tls_packet_uint8 0" using assms(3) cr by (auto simp: export_macs_def Let_def)
    have lr: "l = take 4 (ci_local_mac (tx_crypto c))" "r = take 4 (ci_remote_mac (tx_crypto c))"
      using assms(6) cr by (simp_all add: session_ivs_def)
    let ?cr = "cr2\<lparr>ci_created := 2, ci_ctx := Gcm_ctx (snd (gcm_init A (local_key c))) (snd (gcm_init A (remote_key c)))\<rparr>"
    have cc: "tls_crypto_create A (tx_cipher c1) (tx_crypto c2) ?h (overwrite (stack 0) ?ks) (overwrite (stack 1) l)
        (drop ?h (overwrite (stack 0) ?ks)) (overwrite (stack 2) r) = (0, ?cr)"
      using gcm assms(5,8) ov by (simp add: tls_crypto_create_def Let_def case_prod_unfold keys_accepted_def cr2_def)
    note k1 = key [OF c2(2) cc]
    have n: "import_macs mem (of_nat n) (int (p + 1 + length ?ks)) (keyed c ?cr c1) = Go (int (p + 1 + length ?ks + 1)) (keyed c ?cr c1)"
      "at mem n (p + 1 + length ?ks + 1) rest"
      using no_macs_at [of mem n "p + 1 + length ?ks" rest "keyed c ?cr c1"] k1(2) gcm assms(8) unfolding m by (simp_all add: keyed_def)
    have "same_ciphers A c ?cr"
      using lr gcm assms(4,8,9) by (simp add: same_ciphers_def cr cr2_def c2_def set_aead_ivs_def Let_def overwrite_def tls_create_context_def wf_session_def)
    then show ?thesis using k1(1) n unfolding ks [symmetric] by (intro exI [of _ "p + 1 + length ?ks + 1"] exI [of _ ?cr]) simp
  next
    case chacha
    then obtain L R where cr: "ci_created (tx_crypto c) = 3" "ci_ctx (tx_crypto c) = Chacha_ctx L R" "length (cc_input L) = 16"
      "length (cc_input R) = 16" "length (cc_ks L) = 64" "length (cc_ks R) = 64"
      using assms(4) by (simp add: wf_session_def split: cipher_ctx.splits)
    have m: "concat macs = tls_packet_uint8 0 @ (concat (map tls_packet_uint32 (cc_input L)) @ concat (map tls_packet_uint32 (cc_input R)) @
        cc_ks L @ cc_ks R)"
      using assms(3) cr by (auto simp: export_macs_def Let_def)
    have lr: "l = take 12 (ci_local_mac (tx_crypto c))" "r = take 12 (ci_remote_mac (tx_crypto c))"
      using assms(6) cr by (simp_all add: session_ivs_def)
    obtain l0 r0 where cc: "tls_crypto_create A (tx_cipher c1) (tx_crypto c2) ?h (overwrite (stack 0) ?ks) (overwrite (stack 1) l)
        (drop ?h (overwrite (stack 0) ?ks)) (overwrite (stack 2) r) = (0, cr2\<lparr>ci_ctx := Chacha_ctx l0 r0, ci_created := 3\<rparr>)"
      using chacha assms(8) by (simp add: tls_crypto_create_def Let_def case_prod_unfold cr2_def)
    note k1 = key [OF c2(2) cc]
    let ?cr = "cr2\<lparr>ci_created := 3, ci_ctx := Chacha_ctx (l0\<lparr>cc_input := cc_input L, cc_ks := cc_ks L\<rparr>)
      (r0\<lparr>cc_input := cc_input R, cc_ks := cc_ks R\<rparr>)\<rparr>"
    let ?c3 = "keyed c (cr2\<lparr>ci_ctx := Chacha_ctx l0 r0, ci_created := 3\<rparr>) c1"
    have "tls_is_aead (tx_cipher ?c3) = 2" "ci_ctx (tx_crypto ?c3) = Chacha_ctx l0 r0"
      using chacha assms(8) by (simp_all add: keyed_def)
    moreover have "at mem n (p + 1 + length ?ks) (tls_packet_uint8 0 @ (concat (map tls_packet_uint32 (cc_input L)) @
        concat (map tls_packet_uint32 (cc_input R)) @ cc_ks L @ cc_ks R) @ rest)" using k1(2) unfolding m by simp
    ultimately have n: "import_macs mem (of_nat n) (int (p + 1 + length ?ks)) ?c3 = Go (int (p + 1 + length ?ks + 257)) (keyed c ?cr c1)"
      "at mem n (p + 1 + length ?ks + 257) rest"
      using chacha_at [OF _ cr(3-6), of mem n "p + 1 + length ?ks" rest ?c3 l0 r0] by (simp_all add: keyed_def)
    have "same_ciphers A c ?cr"
      using lr chacha assms(4,8,9) by (simp add: same_ciphers_def cr cr2_def c2_def set_aead_ivs_def Let_def overwrite_def tls_create_context_def wf_session_def)
    then show ?thesis using k1(1) n unfolding ks [symmetric] by (intro exI [of _ "p + 1 + length ?ks + 257"] exI [of _ ?cr]) (simp add: keyed_def)
  next
    case cbc
    let ?m = "tls_mac_length (tx_cipher c)"
    obtain L R where cr: "ci_created (tx_crypto c) = 1" "ci_ctx (tx_crypto c) = Cbc_ctx L R" "length (cbc_getiv A L) = 16"
      "length (cbc_getiv A R) = 16" "0 < ?m" "length (ci_local_mac (tx_crypto c)) = 48" "length (ci_remote_mac (tx_crypto c)) = 48"
      using cbc assms(4) by (simp add: wf_session_def split: cipher_ctx.splits)
    have m48: "?m \<le> 48" by (simp add: tls_mac_length_def)
    have m: "concat macs = tls_packet_uint8 (of_nat ?m) @ take ?m (ci_local_mac (tx_crypto c)) @ take ?m (ci_remote_mac (tx_crypto c))"
      using assms(3) cr by (auto simp: export_macs_def Let_def)
    have lr: "l = cbc_getiv A L" "r = cbc_getiv A R" using assms(6) cr by (simp_all add: session_ivs_def)
    let ?cr = "cr2\<lparr>ci_created := 1, ci_ctx := Cbc_ctx (snd (cbc_start A l (local_key c))) (snd (cbc_start A r (remote_key c)))\<rparr>"
    have ivs: "take 16 (overwrite (stack i) l) = l" "take 16 (overwrite (stack i) r) = r" for i using cr lr by (simp_all add: overwrite_def)
    have cc: "tls_crypto_create A (tx_cipher c1) (tx_crypto c2) ?h (overwrite (stack 0) ?ks) (overwrite (stack 1) l)
        (drop ?h (overwrite (stack 0) ?ks)) (overwrite (stack 2) r) = (0, ?cr)"
      unfolding tls_crypto_create_def Let_def ov ivs
      using cbc assms(5,8) by (simp add: case_prod_unfold keys_accepted_def cr2_def)
    note k1 = key [OF c2(2) cc]
    have lm: "length (take ?m (ci_local_mac (tx_crypto c))) = ?m" "length (take ?m (ci_remote_mac (tx_crypto c))) = ?m"
      using cr(6,7) m48 by simp_all
    note n0 = macs_at [OF k1(2) [unfolded m append_assoc] cr(5) m48 lm]
    let ?cr' = "?cr\<lparr>ci_local_mac := overwrite (ci_local_mac ?cr) (take ?m (ci_local_mac (tx_crypto c))),
      ci_remote_mac := overwrite (ci_remote_mac ?cr) (take ?m (ci_remote_mac (tx_crypto c)))\<rparr>"
    have "same_ciphers A c ?cr'"
      using lr m48 by (simp add: same_ciphers_def cr cr2_def c2_def set_aead_ivs_def tls_create_context_def overwrite_def Let_def min_def assms(9))
    moreover have "import_macs mem (of_nat n) (int (p + 1 + length ?ks)) (keyed c ?cr c1) =
        Go (int (p + 1 + length ?ks + 1 + ?m + ?m)) (keyed c ?cr' c1)"
      using n0(1) [where c = "keyed c ?cr c1"] by (simp add: keyed_def)
    ultimately show ?thesis using k1(1) n0(2) unfolding ks [symmetric]
      by (intro exI [of _ "p + 1 + length ?ks + 1 + ?m + ?m"] exI [of _ ?cr']) simp
  qed
qed

section \<open>Moving a session\<close>

definition resumed :: "('cbc, 'gcm) tomcrypt \<Rightarrow> ('cbc, 'gcm) TLSContext \<Rightarrow> ('cbc, 'gcm) TLSContext \<Rightarrow> bool" where
  "resumed A c c' \<longleftrightarrow> tx_version c' = tx_version c \<and> tx_cipher c' = tx_cipher c \<and> tx_status c' = tx_status c \<and>
     tx_is_server c' = tx_is_server c \<and> (tx_is_child c' = 0 \<longleftrightarrow> tx_is_child c = 0) \<and> tx_exportable c' = 1 \<and>
     tx_critical_error c' = 0 \<and> tx_cipher_spec_set c' = 1 \<and> tx_keys c' = tx_keys c \<and> tx_keys_size c' = tx_keys_size c \<and>
     tx_local_seq c' = tx_local_seq c \<and> tx_remote_seq c' = tx_remote_seq c \<and> tx_tls_buffer c' = tx_tls_buffer c \<and>
     tx_message_buffer c' = tx_message_buffer c \<and> tx_app_buffer c' = tx_app_buffer c \<and> tx_dtls c' = tx_dtls c \<and>
     (tx_dtls c \<noteq> 0 \<longrightarrow> tx_epoch_local c' = tx_epoch_local c \<and> tx_epoch_remote c' = tx_epoch_remote c) \<and>
     same_ciphers A c (tx_crypto c')"

lemma imp_then_assoc: "imp_then (imp_then x f) g = imp_then x (\<lambda>pos c. imp_then (f pos c) g)"
  by (cases x) simp_all

lemma session_imported:
  assumes "tls_export_context A c 0xFFFF small = Some (m, bytes)" "bytes \<noteq> []" "wf_session A c" "keys_accepted A c"
  shows "\<exists>pos c'. tls_import_context2 A stack (bytes @ [0]) (of_nat (length bytes)) (tls_create_context 1 0x0303) = Go pos c' \<and>
    resumed A c c' \<and> tx_master_key c' = (if small then [] else tx_master_key c) \<and> m = int (length bytes) \<and> length bytes \<le> 0xFFFF"
proof -
  let ?n = "length bytes" and ?c0 = "tls_create_context 1 0x0303 :: ('a, 'b) TLSContext"
  obtain ivs keys macs where x: "export_ivs A (tx_crypto c) = Some ivs" "export_keys c = Some keys" "export_macs c = Some macs"
    and bytes: "bytes = (([TLS_SERIALIZED_OBJECT] @ tls_packet_uint16 (tx_version c) @ tls_packet_uint16 (of_nat ?n - 5) @
      tls_packet_uint8 1 @ tls_packet_uint8 (tx_status c) @ tls_packet_uint16 (tx_cipher c) @ tls_packet_uint8 (server_byte c)) @
      concat ivs) @ concat keys @ concat macs @ concat (export_tail c small)"
    and len: "?n \<le> 0xFFFF" "m = int ?n"
    using export_bytes [OF assms(1,2) refl] by blast
  obtain k l r where ivs: "session_ivs A (tx_crypto c) = (k, l, r)" by (cases "session_ivs A (tx_crypto c)") auto
  note ib = ivs_bytes [OF x(1) assms(3) ivs]
  let ?tail = "concat (export_tail c small)"
  let ?h = "head_bytes (tx_version c) (of_nat ?n - 5) (tx_status c) (tx_cipher c) (server_byte c) k"
  have b: "bytes = ?h @ l @ r @ concat keys @ concat macs @ ?tail"
    using bytes unfolding ib(1) head_bytes_def by simp
  have "length ?h = 11" "33 \<le> length (concat keys)" "1 \<le> length (concat macs)" "27 \<le> length ?tail"
    using keys_bytes [OF x(2) assms(3)] assms(3) x(3)
    by (auto simp: head_fields wf_session_def export_macs_def export_tail_def export_buffer_def Let_def split: if_splits cipher_ctx.splits)
  moreover have "?n = length ?h + length l + length r + length (concat keys) + length (concat macs) + length ?tail"
    by (subst (1) b) (simp only: length_append ac_simps)
  ultimately have "64 \<le> ?n" by linarith
  moreover have at0: "at (bytes @ [0]) ?n 0 (?h @ l @ r @ concat keys @ concat macs @ ?tail)"
    using len b by (simp add: at_def) 
  ultimately have head: "import_head (bytes @ [0]) (of_nat ?n) f ?c0 =
      f l r (int (11 + k + k)) (headed (tx_version c) (tx_status c) (tx_cipher c) (server_byte c) ?c0)"
    and at1: "at (bytes @ [0]) ?n (11 + k + k) (concat keys @ concat macs @ ?tail)" for f :: "byte list \<Rightarrow> byte list \<Rightarrow> int \<Rightarrow> ('a, 'b) TLSContext \<Rightarrow> ('a, 'b) imp"
    using head_at [OF _ _ len(1) ib(4,2,3)] by blast+
  let ?c1 = "headed (tx_version c) (tx_status c) (tx_cipher c) (server_byte c) ?c0"
  have srv: "tx_is_server c = 1" using assms(3) by (simp add: wf_session_def)
  have c1: "tx_is_server ?c1 = 1" "tx_cipher ?c1 = tx_cipher c" "tx_crypto ?c1 = tx_crypto ?c0"
    using srv by (simp_all add: headed_def server_byte_def Let_def)
  obtain q cr where q: "imp_then (import_keys A stack (bytes @ [0]) (of_nat ?n) l r (int (11 + k + k)) ?c1) (import_macs (bytes @ [0]) (of_nat ?n)) =
      Go (int q) (keyed c cr ?c1)" "at (bytes @ [0]) ?n q ?tail" "same_ciphers A c cr"
    using ciphers_at [OF at1 x(2,3) assms(3,4) ivs c1] by blast
  have mk: "length (tx_master_key c) < 2 ^ 16" using assms(3) by (simp add: wf_session_def)
  have "tx_tls_buffer (keyed c cr ?c1) = []" "tx_message_buffer (keyed c cr ?c1) = []" "tx_app_buffer (keyed c cr ?c1) = []"
    "tx_master_key (keyed c cr ?c1) = []" "tx_epoch_local (keyed c cr ?c1) = 0" "tx_epoch_remote (keyed c cr ?c1) = 0"
    by (simp_all add: keyed_def headed_def tls_create_context_def Let_def)
  from tail_at [OF q(2) mk this] obtain pos where t: "import_tail (bytes @ [0]) (of_nat ?n) (int q) (keyed c cr ?c1) =
      Go pos ((keyed c cr ?c1)\<lparr>tx_master_key := (if small then [] else tx_master_key c),
      tx_local_seq := tx_local_seq c, tx_remote_seq := tx_remote_seq c, tx_tls_buffer := tx_tls_buffer c,
      tx_message_buffer := tx_message_buffer c, tx_app_buffer := tx_app_buffer c, tx_cipher_spec_set := 1, tx_dtls := tx_dtls c,
      tx_epoch_local := (if tx_dtls c = 0 then 0 else tx_epoch_local c), tx_epoch_remote := (if tx_dtls c = 0 then 0 else tx_epoch_remote c)\<rparr>)"
    by blast
  have "tls_import_context2 A stack (bytes @ [0]) (of_nat ?n) ?c0 =
      imp_then (imp_then (import_keys A stack (bytes @ [0]) (of_nat ?n) l r (int (11 + k + k)) ?c1) (import_macs (bytes @ [0]) (of_nat ?n)))
        (import_tail (bytes @ [0]) (of_nat ?n))"
    unfolding tls_import_context2_def head imp_then_assoc by (rule refl)
  then show ?thesis
    unfolding q(1) imp_then.simps t
    using len q(3) srv by (simp add: resumed_def keyed_def headed_def server_byte_def tls_create_context_def Let_def)
qed

end
