(* ===== verification/TlsBounds.thy ===== *)
theory TlsBounds
  imports TlsProps
begin

text \<open>
  Which memory \<open>tls_import_context2\<close> reads.  The positions of the fields of a message follow from the
  lengths it announces; the three lengths of buffers are the only ones that can take the import outside.
\<close>

section \<open>The fields of a message\<close>

text \<open>Where the fields end, in the memory \<open>mem\<close> of a message and its terminator.\<close>

definition iv_end :: "byte list \<Rightarrow> nat" where
  "iv_end mem = 11 + unat (ld8 mem 10) + unat (ld8 mem 10)"

definition keys_end :: "byte list \<Rightarrow> nat" where
  "keys_end mem = iv_end mem + 1 + unat (ld8 mem (iv_end mem))"

definition message_cipher :: "byte list \<Rightarrow> u16" where
  "message_cipher mem = ntohs (ld16 mem 7)"

definition macs_end :: "byte list \<Rightarrow> nat" where
  "macs_end mem = (let n = unat (ld8 mem (keys_end mem))
     in keys_end mem + 1 + (if n \<noteq> 0 then n + n else if tls_is_aead (message_cipher mem) = 2 then 256 else 0))"

definition master_end :: "byte list \<Rightarrow> nat" where
  "master_end mem = macs_end mem + 2 + unat (ntohs (ld16 mem (macs_end mem)))"

definition field_end :: "byte list \<Rightarrow> nat \<Rightarrow> nat" where
  "field_end mem p = p + 4 + unat (ntohl (ld32 mem p))"

definition buffer_fields :: "byte list \<Rightarrow> nat list" where
  "buffer_fields mem = (let p = master_end mem + 16; q = field_end mem p in [p, q, field_end mem q])"

text \<open>A message shorter than 2 GB that announces no buffer of 2 GB or more.\<close>

definition message :: "byte list \<Rightarrow> bool" where
  "message ex \<longleftrightarrow> length ex < 2 ^ 31 \<and>
     (\<forall>p \<in> set (buffer_fields (ex @ [0])). p + 4 \<le> length ex \<longrightarrow> unat (ntohl (ld32 (ex @ [0]) p)) < 2 ^ 31)"

section \<open>Steps that stay inside\<close>

text \<open>A step that stays inside and goes on, if at all, at \<open>p\<close> and with the suite \<open>ci\<close>.\<close>

definition ends :: "int \<Rightarrow> nat \<Rightarrow> u16 \<Rightarrow> ('cbc, 'gcm) imp \<Rightarrow> bool" where
  "ends b p ci x \<longleftrightarrow> (case x of Outside \<Rightarrow> False | Failed c \<Rightarrow> True | Go pos c \<Rightarrow> pos = int p \<and> int p \<le> b \<and> tx_cipher c = ci)"

lemma ends_simps [simp]:
  "\<not> ends b p ci Outside" "ends b p ci (Failed c)" "ends b p ci (Go pos c) \<longleftrightarrow> pos = int p \<and> int p \<le> b \<and> tx_cipher c = ci"
  by (simp_all add: ends_def)

lemma ends_then:
  "ends b p ci x \<Longrightarrow> (\<And>c. int p \<le> b \<Longrightarrow> tx_cipher c = ci \<Longrightarrow> ends b' p' ci (f (int p) c)) \<Longrightarrow> ends b' p' ci (imp_then x f)"
  by (cases x) simp_all

definition bytes_at :: "byte list \<Rightarrow> nat \<Rightarrow> nat \<Rightarrow> byte list" where
  "bytes_at mem n p = take n (drop p mem)"

lemma ld_bytes_at:
  "0 < n \<Longrightarrow> p < length mem \<Longrightarrow> ld8 (bytes_at mem n p) 0 = ld8 mem p"
  "2 \<le> n \<Longrightarrow> p + 2 \<le> length mem \<Longrightarrow> ld16 (bytes_at mem n p) 0 = ld16 mem p"
  "4 \<le> n \<Longrightarrow> p + 4 \<le> length mem \<Longrightarrow> ld32 (bytes_at mem n p) 0 = ld32 mem p"
  by (simp_all add: bytes_at_def ld8_def ld16_def ld32_def)

lemma fixed_inside:
  assumes "0 \<le> pos" "pos + int n \<le> int (length ex) + 1"
  shows "import_fixed (ex @ [0]) n pos f = f (bytes_at (ex @ [0]) n (nat pos)) (pos + int n)"
  using assms by (simp add: import_fixed_def sub_mem_def bytes_at_def)

lemma check_inside:
  assumes "length ex < 2 ^ 31"
  shows "TLS_IMPORT_CHECK_SIZE2 pos sz (of_nat (length ex)) \<longleftrightarrow> pos + sz \<le> int (length ex) \<and> pos \<le> int (length ex)"
proof -
  have "sint (of_nat (length ex) :: u32) = int (length ex)"
    using assms by (simp add: signed_of_nat signed_take_bit_int_eq_self)
  then show ?thesis by (auto simp: TLS_IMPORT_CHECK_SIZE2_def)
qed

lemma sint_small:
  assumes "unat (w :: u32) < 2 ^ 31"
  shows "sint w = int (unat w)"
proof -
  have "nat (uint w) < nat (2 ^ 31)" using assms by simp
  then have "uint w < 2 ^ 31" by (simp only: nat_less_eq_zless uint_ge_0)
  moreover have "- (2 ^ 31) \<le> uint w" by (rule order_trans [OF _ uint_ge_0]) simp
  ultimately have "signed_take_bit 31 (uint w) = uint w" by (intro signed_take_bit_int_eq_self)
  then show ?thesis by (simp add: sint_uint)
qed

lemma sint_large:
  assumes "2 ^ 31 \<le> unat (w :: u32)"
  shows "sint w = uint w - 2 ^ 32"
proof -
  have "int (2 ^ 31) \<le> int (unat w)" using assms by (simp only: of_nat_le_iff)
  then have u: "2 ^ 31 \<le> uint w" "uint w < 2 ^ 32" using uint_lt2p [of w] by simp_all
  have "(uint w + 2 ^ 31 - 2 ^ 32) mod 2 ^ 32 = uint w + 2 ^ 31 - 2 ^ 32" using u by (intro mod_pos_pos_trivial) simp_all
  then have "take_bit 32 (uint w + 2 ^ 31) = uint w + 2 ^ 31 - 2 ^ 32" by (simp only: take_bit_eq_mod minus_mod_self2)
  then show ?thesis by (simp add: sint_uint signed_take_bit_eq_take_bit_shift)
qed

section \<open>The parts of the import\<close>

lemma buffer_ends:
  assumes "length ex < 2 ^ 31" "p + 4 \<le> length ex \<Longrightarrow> unat (ntohl (ld32 (ex @ [0]) p)) < 2 ^ 31" "tx_cipher c' = ci"
    "\<And>b c. tx_cipher (upd b c) = tx_cipher c"
  shows "ends (int (length ex)) (field_end (ex @ [0]) p) ci (import_len (ex @ [0]) (of_nat (length ex)) (int p) c
    (\<lambda>l pos. import_bytes (ex @ [0]) (of_nat (length ex)) upd l pos c'))"
proof (cases "p + 4 \<le> length ex")
  case True
  let ?l = "ntohl (ld32 (ex @ [0]) p)"
  have s: "sub_mem (ex @ [0]) (int p) 4 = Some (bytes_at (ex @ [0]) 4 p)"
    using True by (simp add: sub_mem_def bytes_at_def)
  have l: "ntohl (ld32 (bytes_at (ex @ [0]) 4 p) 0) = ?l" using True by (simp add: ld_bytes_at)
  note si = sint_small [OF assms(2) [OF True]]
  have e: "import_len (ex @ [0]) (of_nat (length ex)) (int p) c (\<lambda>l pos. import_bytes (ex @ [0]) (of_nat (length ex)) upd l pos c') =
      import_bytes (ex @ [0]) (of_nat (length ex)) upd ?l (int p + 4) c'"
    using True s l by (simp add: import_len_def check_inside [OF assms(1)])
  show ?thesis
  proof (cases "p + 4 + unat ?l \<le> length ex")
    case True
    then show ?thesis
      unfolding e unfolding import_bytes_def check_inside [OF assms(1)] si
      by (auto simp: sub_mem_def field_end_def assms(3,4))
  next
    case False
    then have "\<not> int p + 4 + int (unat ?l) \<le> int (length ex)" by linarith
    then show ?thesis unfolding e unfolding import_bytes_def check_inside [OF assms(1)] si by simp
  qed
next
  case False
  then show ?thesis by (simp add: import_len_def check_inside [OF assms(1)])
qed

lemma cipher_aead_ivs [simp]: "tx_cipher (set_aead_ivs l r c) = tx_cipher c"
  by (simp add: set_aead_ivs_def Let_def)

lemma cipher_chacha [simp]: "tx_cipher (import_chacha b c) = tx_cipher c"
  by (simp add: import_chacha_def split: cipher_ctx.splits)

lemma keys_ends:
  assumes "length ex < 2 ^ 31" "p \<le> length ex" "tx_cipher c = ci"
  shows "ends (int (length ex)) (p + 1 + unat (ld8 (ex @ [0]) p)) ci
    (import_keys A stack (ex @ [0]) (of_nat (length ex)) liv riv (int p) c)"
proof -
  have b: "ld8 (bytes_at (ex @ [0]) 1 p) 0 = ld8 (ex @ [0]) p" using assms(2) by (simp add: ld_bytes_at)
  show ?thesis
  proof (cases "p + 1 + unat (ld8 (ex @ [0]) p) \<le> length ex")
    case True
    then show ?thesis
      using assms b by (simp add: import_keys_def fixed_inside check_inside Let_def split: prod.splits)
  next
    case False
    then have "\<not> int p + 1 + int (unat (ld8 (ex @ [0]) p)) \<le> int (length ex)" by linarith
    then show ?thesis using assms b by (simp add: import_keys_def fixed_inside check_inside Let_def add.commute)
  qed
qed

lemma macs_ends:
  assumes "length ex < 2 ^ 31" "keys_end (ex @ [0]) \<le> length ex" "tx_cipher c = message_cipher (ex @ [0])"
  shows "ends (int (length ex) + 1) (macs_end (ex @ [0])) (message_cipher (ex @ [0]))
    (import_macs (ex @ [0]) (of_nat (length ex)) (int (keys_end (ex @ [0]))) c)"
proof -
  let ?p = "keys_end (ex @ [0])"
  have b: "ld8 (bytes_at (ex @ [0]) 1 ?p) 0 = ld8 (ex @ [0]) ?p" using assms(2) by (simp add: ld_bytes_at)
  show ?thesis
    using assms by (auto simp: import_macs_def macs_end_def fixed_inside check_inside b [simplified] Let_def)
qed

lemma master_ends:
  assumes "length ex < 2 ^ 31" "tx_cipher c = ci"
  shows "ends (int (length ex)) (p + 2 + unat (ntohs (ld16 (ex @ [0]) p))) ci
    (import_master_key (ex @ [0]) (of_nat (length ex)) (int p) c)"
proof (cases "p + 2 \<le> length ex")
  case True
  then have b: "ld16 (bytes_at (ex @ [0]) 2 p) 0 = ld16 (ex @ [0]) p" by (simp add: ld_bytes_at)
  show ?thesis
    using assms True by (auto simp: import_master_key_def fixed_inside check_inside b [simplified] Let_def)
next
  case False
  then show ?thesis by (simp add: import_master_key_def check_inside [OF assms(1)])
qed

lemma seqs_ends:
  assumes "length ex < 2 ^ 31" "tx_cipher c = ci"
  shows "ends (int (length ex)) (p + 16) ci (import_seqs (ex @ [0]) (of_nat (length ex)) (int p) c)"
  using assms by (simp add: import_seqs_def fixed_inside check_inside)

lemma dtls_inside:
  assumes "length ex < 2 ^ 31"
  shows "import_dtls (ex @ [0]) (of_nat (length ex)) (int p) c \<noteq> Outside"
  using assms by (simp add: import_dtls_def fixed_inside check_inside Let_def)

lemma tail_inside:
  assumes "message ex" "tx_cipher c = ci"
  shows "import_tail (ex @ [0]) (of_nat (length ex)) (int (macs_end (ex @ [0]))) c \<noteq> Outside"
proof -
  let ?m = "ex @ [0]" and ?n = "of_nat (length ex) :: u32"
  let ?p = "master_end ?m + 16"
  let ?q = "field_end ?m ?p"
  have len: "length ex < 2 ^ 31" using assms(1) by (simp add: message_def)
  have small: "r + 4 \<le> length ex \<Longrightarrow> unat (ntohl (ld32 ?m r)) < 2 ^ 31" if "r \<in> {?p, ?q, field_end ?m ?q}" for r
    using assms(1) that by (auto simp: message_def buffer_fields_def Let_def)
  have inside: "imp_then x f \<noteq> Outside" if "ends b r ci x" "\<And>c. tx_cipher c = ci \<Longrightarrow> f (int r) c \<noteq> Outside" for b r x f
    using that by (cases x) simp_all
  show ?thesis
    unfolding import_tail_def
    by (intro inside [OF master_ends [OF len], folded master_end_def] inside [OF seqs_ends [OF len]]
          inside [OF buffer_ends [OF len small]] dtls_inside [OF len]) (simp_all add: assms(2) master_end_def)
qed

section \<open>The import stays inside\<close>

lemma import_inside:
  assumes "message ex"
  shows "tls_import_context2 A stack (ex @ [0]) (of_nat (length ex)) c \<noteq> Outside"
proof (cases "(of_nat (length ex) :: u32) < 64")
  case True
  then show ?thesis by (simp add: tls_import_context2_def import_head_def)
next
  case False
  have len: "length ex < 2 ^ 31" using assms by (simp add: message_def)
  then have n: "64 \<le> length ex"
    using False by (simp add: word_less_nat_alt unat_of_nat take_bit_nat_eq_self)
  let ?m = "ex @ [0]"
  have head: "ld8 (bytes_at ?m 11 0) 10 = ld8 ?m 10" "ld16 (bytes_at ?m 11 0) 7 = ld16 ?m 7"
    using n by (simp_all add: bytes_at_def ld8_def ld16_def nth_append)
  have rest: "imp_then (import_keys A stack ?m (of_nat (length ex)) liv riv (int (iv_end ?m)) c)
      (\<lambda>pos c. imp_then (import_macs ?m (of_nat (length ex)) pos c) (import_tail ?m (of_nat (length ex)))) \<noteq> Outside"
    if "iv_end ?m \<le> length ex" "tx_cipher c = message_cipher ?m" for liv riv c
  proof -
    have k: "ends (int (length ex)) (keys_end ?m) (message_cipher ?m)
        (import_keys A stack ?m (of_nat (length ex)) liv riv (int (iv_end ?m)) c)"
      using keys_ends [OF len that(1,2)] by (simp add: keys_end_def)
    then show ?thesis
    proof (cases "import_keys A stack ?m (of_nat (length ex)) liv riv (int (iv_end ?m)) c")
      case (Go pos c')
      then have "keys_end ?m \<le> length ex" "tx_cipher c' = message_cipher ?m" "pos = int (keys_end ?m)" using k by simp_all
      moreover from macs_ends [OF len this(1,2)]
      have "imp_then (import_macs ?m (of_nat (length ex)) (int (keys_end ?m)) c') (import_tail ?m (of_nat (length ex))) \<noteq> Outside"
        by (cases "import_macs ?m (of_nat (length ex)) (int (keys_end ?m)) c'") (simp_all add: tail_inside [OF assms])
      ultimately show ?thesis using Go by simp
    qed simp_all
  qed
  show ?thesis
  proof (cases "16 < unat (ld8 ?m 10)")
    case True
    then show ?thesis
      unfolding tls_import_context2_def import_head_def using n False by (auto simp: fixed_inside head Let_def)
  next
    case iv: False
    then have u: "uint (ld8 ?m 10) \<le> 16" using of_nat_le_iff [of "unat (ld8 ?m 10)" 16, where 'a = int] by simp
    have "iv_end ?m \<le> length ex" using n iv by (simp add: iv_end_def)
    note rest = rest [OF this]
    have "imp_then (import_keys A stack ?m (of_nat (length ex)) liv riv pos c)
        (\<lambda>pos c. imp_then (import_macs ?m (of_nat (length ex)) pos c) (import_tail ?m (of_nat (length ex)))) \<noteq> Outside"
      if "pos = 11 + uint (ld8 ?m 10) + uint (ld8 ?m 10)" "tx_cipher c = ntohs (ld16 ?m 7)" for liv riv pos c
      using rest [of c liv riv] that by (simp add: iv_end_def message_cipher_def)
    then show ?thesis
      unfolding tls_import_context2_def import_head_def using n False u by (auto simp: fixed_inside head Let_def)
  qed
qed

text \<open>The same length check fails for a buffer that is announced with 2 GB or more.\<close>

lemma huge_buffer_outside:
  assumes "length ex < 2 ^ 31" "p + 4 \<le> length ex" "2 ^ 31 \<le> unat (ntohl (ld32 (ex @ [0]) p))"
  shows "import_len (ex @ [0]) (of_nat (length ex)) (int p) c
    (\<lambda>l pos. import_bytes (ex @ [0]) (of_nat (length ex)) upd l pos c') = Outside"
proof -
  let ?l = "ntohl (ld32 (ex @ [0]) p)"
  have s: "sub_mem (ex @ [0]) (int p) 4 = Some (bytes_at (ex @ [0]) 4 p)"
    using assms(2) by (simp add: sub_mem_def bytes_at_def)
  have l: "ntohl (ld32 (bytes_at (ex @ [0]) 4 p) 0) = ?l" using assms(2) by (simp add: ld_bytes_at)
  have "sint ?l < 0" using sint_large [OF assms(3)] uint_lt2p [of ?l] by simp
  moreover have "?l \<noteq> 0" using assms(3) by auto
  moreover have "sub_mem (ex @ [0]) (int p + 4) (unat ?l) = None"
    using assms(1) of_nat_mono [OF assms(3), where 'a = int] by (simp add: sub_mem_def)
  ultimately show ?thesis
    using assms s l by (simp add: import_len_def import_bytes_def check_inside)
qed

end
