(* ===== verification/TlsKtls.thy ===== *)
theory TlsKtls
  imports TlsBounds HandoffProps
begin

text \<open>
  TLS in the kernel, \<open>tls_make_ktls\<close> and \<open>tls_unmake_ktls\<close> of src/extern/tlse.c, and the way of a TLS session
  through src/tls_export.cpp and the TLS parts of the two handoff files.
\<close>

section \<open>Keys in the kernel\<close>

text \<open>\<open>struct tls12_crypto_info_aes_gcm_128\<close> and the socket options of the kernel.\<close>

record crypto_info =
  kc_version :: u16
  kc_type :: u16
  kc_iv :: "byte list"
  kc_key :: "byte list"
  kc_salt :: "byte list"
  kc_rec_seq :: "byte list"

record 'k ktls_api =
  kt_ulp :: "'k \<Rightarrow> int \<times> 'k"
  kt_set_rx :: "crypto_info \<Rightarrow> 'k \<Rightarrow> int \<times> 'k"
  kt_set_tx :: "crypto_info \<Rightarrow> 'k \<Rightarrow> int \<times> 'k"
  kt_get_tx :: "'k \<Rightarrow> int \<times> crypto_info"
  kt_get_rx :: "'k \<Rightarrow> int \<times> crypto_info"

definition tls_unmake_ktls ::
  "'k ktls_api \<Rightarrow> ('cbc, 'gcm) TLSContext \<Rightarrow> 'k \<Rightarrow> int \<times> ('cbc, 'gcm) TLSContext \<times> 'k" where
  "tls_unmake_ktls K context k =
     (let (error, crypto_info) = kt_get_tx K k
      in if error \<noteq> 0 then (- 1, context, k)
         else
           let context = context\<lparr>tx_local_seq := ntohll (ld64 (kc_rec_seq crypto_info) 0)\<rparr>;
               (error, crypto_info) = kt_get_rx K k
           in if error \<noteq> 0 then (- 1, context, k)
              else (0, context\<lparr>tx_remote_seq := ntohll (ld64 (kc_rec_seq crypto_info) 0)\<rparr>, k))"

definition TLS_GENERIC_ERROR :: int where "TLS_GENERIC_ERROR = - 1"
definition TLS_FEATURE_NOT_SUPPORTED :: int where "TLS_FEATURE_NOT_SUPPORTED = - 17"

definition ktls_info :: "u64 \<Rightarrow> byte list \<Rightarrow> byte list \<Rightarrow> crypto_info" where
  "ktls_info seq key salt = \<lparr>kc_version = 0x0303, kc_type = 51, kc_iv = bytes64 (htonll seq), kc_key = take 16 key,
     kc_salt = take 4 salt, kc_rec_seq = bytes64 (htonll seq)\<rparr>"

definition tls_make_ktls ::
  "'k ktls_api \<Rightarrow> ('cbc, 'gcm) TLSContext \<Rightarrow> 'k \<Rightarrow> (int \<times> 'k) option" where
  "tls_make_ktls K context k =
     (if tx_critical_error context \<noteq> 0 \<or> tx_status context \<noteq> 0xFF \<or> ci_created (tx_crypto context) = 0 then
        Some (TLS_GENERIC_ERROR, k)
      else
        case tx_keys context of
          None \<Rightarrow> Some (TLS_GENERIC_ERROR, k)
        | Some keys \<Rightarrow>
            if tx_exportable context = 0 then Some (TLS_GENERIC_ERROR, k)
            else if tx_version context \<notin> {0x0303, 0xFEFD, 0x0304, 0xFEFC} then Some (TLS_FEATURE_NOT_SUPPORTED, k)
            else if tx_cipher context \<notin> {0x009C, 0x009E, 0xC02F, 0xC02B} then Some (TLS_FEATURE_NOT_SUPPORTED, k)
            else if tx_keys_size context < 32 then Some (TLS_GENERIC_ERROR, k)
            else if length keys < 32 then None
            else
              let crypto_info = ktls_info (tx_local_seq context) keys (ci_local_mac (tx_crypto context));
                  (err, k) = kt_ulp K k
              in if err \<noteq> 0 then Some (err, k)
                 else
                   let crypto_info_read = ktls_info (tx_remote_seq context) (drop 16 keys) (ci_remote_mac (tx_crypto context));
                       (err, k) = kt_set_rx K crypto_info_read k
                   in if err \<noteq> 0 then Some (err, k) else Some (kt_set_tx K crypto_info k))"

text \<open>Contexts whose traffic the kernel can take over.\<close>

definition offloadable :: "('cbc, 'gcm) TLSContext \<Rightarrow> bool" where
  "offloadable c \<longleftrightarrow> exportable_context c \<and> tx_version c = 0x0303 \<and> tx_cipher c \<in> {0x009C, 0x009E, 0xC02F, 0xC02B} \<and>
     32 \<le> tx_keys_size c \<and> 32 \<le> length (session_keys c)"

section \<open>What the kernel promises\<close>

text \<open>The kernel keeps what a socket was given for each direction, and reports it.\<close>

locale ktls_socket =
  fixes K :: "'k ktls_api" and tx_of rx_of :: "'k \<Rightarrow> crypto_info option"
  assumes ulp: "fst (kt_ulp K k) = 0" "tx_of (snd (kt_ulp K k)) = tx_of k"
    and set_rx: "kt_set_rx K ci k = (0, k') \<Longrightarrow> rx_of k' = Some ci \<and> tx_of k' = tx_of k" "fst (kt_set_rx K ci k) = 0"
    and set_tx: "kt_set_tx K ci k = (0, k') \<Longrightarrow> tx_of k' = Some ci \<and> rx_of k' = rx_of k" "fst (kt_set_tx K ci k) = 0"
    and get_tx: "tx_of k = Some ci \<Longrightarrow> kt_get_tx K k = (0, ci)"
    and get_rx: "rx_of k = Some ci \<Longrightarrow> kt_get_rx K k = (0, ci)"
begin

lemma make_installs:
  assumes "offloadable c"
  shows "\<exists>k'. tls_make_ktls K c k = Some (0, k') \<and>
    tx_of k' = Some (ktls_info (tx_local_seq c) (session_keys c) (ci_local_mac (tx_crypto c))) \<and>
    rx_of k' = Some (ktls_info (tx_remote_seq c) (drop 16 (session_keys c)) (ci_remote_mac (tx_crypto c)))"
proof -
  let ?rx = "ktls_info (tx_remote_seq c) (drop 16 (session_keys c)) (ci_remote_mac (tx_crypto c))"
  let ?tx = "ktls_info (tx_local_seq c) (session_keys c) (ci_local_mac (tx_crypto c))"
  obtain k1 where k1: "kt_ulp K k = (0, k1)" using ulp(1) [of k] by (metis prod.collapse)
  obtain k2 where k2: "kt_set_rx K ?rx k1 = (0, k2)" using set_rx(2) [of ?rx k1] by (metis prod.collapse)
  obtain k3 where k3: "kt_set_tx K ?tx k2 = (0, k3)" using set_tx(2) [of ?tx k2] by (metis prod.collapse)
  have keys: "tx_keys c = Some (session_keys c)" using assms by (auto simp: offloadable_def exportable_context_def session_keys_def)
  have "tls_make_ktls K c k = Some (0, k3)"
    using assms k1 k2 k3 by (auto simp: tls_make_ktls_def offloadable_def exportable_context_def keys Let_def)
  then show ?thesis using set_rx(1) [OF k2] set_tx(1) [OF k3] by auto
qed

lemma unmake_reads:
  assumes "tx_of k = Some ti" "rx_of k = Some ri"
  shows "tls_unmake_ktls K c k = (0, c\<lparr>tx_local_seq := ntohll (ld64 (kc_rec_seq ti) 0),
    tx_remote_seq := ntohll (ld64 (kc_rec_seq ri) 0)\<rparr>, k)"
  using get_tx [OF assms(1)] get_rx [OF assms(2)] by (simp add: tls_unmake_ktls_def)

end

text \<open>A socket that holds nothing but the two settings.\<close>

record ktls_model =
  km_tx :: "crypto_info option"
  km_rx :: "crypto_info option"

definition model_ktls :: "ktls_model ktls_api" where
  "model_ktls = \<lparr>kt_ulp = \<lambda>k. (0, k), kt_set_rx = \<lambda>ci k. (0, k\<lparr>km_rx := Some ci\<rparr>), kt_set_tx = \<lambda>ci k. (0, k\<lparr>km_tx := Some ci\<rparr>),
     kt_get_tx = \<lambda>k. (case km_tx k of None \<Rightarrow> (- 1, ktls_info 0 [] []) | Some ci \<Rightarrow> (0, ci)),
     kt_get_rx = \<lambda>k. (case km_rx k of None \<Rightarrow> (- 1, ktls_info 0 [] []) | Some ci \<Rightarrow> (0, ci))\<rparr>"

interpretation model_socket: ktls_socket model_ktls km_tx km_rx
  by unfold_locales (auto simp: model_ktls_def)

section \<open>The way of a session\<close>

text \<open>The TLS library as the handoff calls it.\<close>

definition export_with_tlse ::
  "'k ktls_api \<Rightarrow> ('cbc, 'gcm) tomcrypt \<Rightarrow> ('k, ('cbc, 'gcm) TLSContext) ho_env \<Rightarrow> ('k, ('cbc, 'gcm) TLSContext) ho_env" where
  "export_with_tlse K A E = E\<lparr>he_tls_unmake := tls_unmake_ktls K, he_tls_context := \<lambda>c. tls_export_context A c 0xFFFF True\<rparr>"

definition import_with_tlse ::
  "'k ktls_api \<Rightarrow> ('cbc, 'gcm) tomcrypt \<Rightarrow> (nat \<Rightarrow> byte list) \<Rightarrow> ('k, ('cbc, 'gcm) TLSContext) imp_env \<Rightarrow>
   ('k, ('cbc, 'gcm) TLSContext) imp_env" where
  "import_with_tlse K A stack I = I\<lparr>ie_tls_create := Some (tls_create_context 1 0x0303),
     ie_tls_import := \<lambda>c ex. (case tls_import_context2 A stack (ex @ [0]) (of_nat (length ex)) c of
       Outside \<Rightarrow> None | Failed c \<Rightarrow> Some (- 1, c) | Go _ c \<Rightarrow> Some (0, c)),
     ie_make_exportable := \<lambda>c. tls_make_exportable c 1, ie_make_ktls := tls_make_ktls K\<rparr>"

lemma appends_size:
  "tls_packet_appends bss p = Some q \<Longrightarrow> length (pk_buf p) \<le> unat (pk_size p) \<Longrightarrow> length (pk_buf q) \<le> unat (pk_size q)"
proof (induction bss arbitrary: p)
  case (Cons bs bss)
  then obtain p1 where p1: "tls_packet_append bs p = Some p1" "tls_packet_appends bss p1 = Some q" by (auto simp: bind_eq_Some_conv)
  have "length (pk_buf p1) \<le> unat (pk_size p1)"
    using p1(1) Cons.prems(2) by (cases "bs = []") (auto simp: tls_packet_append_def Let_def split: if_splits)
  then show ?case using Cons.IH [OF p1(2)] by simp
qed simp

lemma exported_nonempty:
  assumes "tls_export_context A c 0xFFFF small = Some (ret, bytes)" "0 < ret" "ret \<le> 0xFFFF"
  shows "bytes \<noteq> []"
proof
  assume e: "bytes = []"
  obtain bss p where p: "tls_packet_appends bss (tls_create_packet TLS_SERIALIZED_OBJECT (tx_version c)) = Some p"
    and r: "(let packet = tls_packet_update p; size = length (pk_buf packet)
      in if (0xFFFF :: u32) \<noteq> 0 \<and> unat (0xFFFF :: u32) < size then Some (sint (0xFFFF :: u32) - sint (of_nat size :: u32), [])
         else Some (sint (of_nat size :: u32), if (0xFFFF :: u32) = 0 then [] else pk_buf packet)) = Some (ret, bytes)"
    using assms(1,2) by (auto simp: tls_export_context_def bind_eq_Some_conv simp del: tls_packet_appends.simps split: if_splits)
  let ?n = "length (pk_buf p)"
  have "?n \<le> unat (pk_size p)" by (rule appends_size [OF p]) (simp add: tls_create_packet_def bytes16_def)
  also have "\<dots> < 2 ^ LENGTH(32)" by (rule unsigned_less)
  finally have n: "?n < 2 ^ 32" by simp
  have "length (pk_buf (tls_packet_update p)) = ?n" by (simp add: tls_packet_update_def)
  moreover have "0 < ?n" using appends_buf [OF p] by (simp add: tls_create_packet_def)
  ultimately have "pk_buf (tls_packet_update p) \<noteq> []" by (metis length_0_conv not_less0)
  then have big: "0xFFFF < ?n" "ret = 0xFFFF - sint (of_nat ?n :: u32)"
    using r e by (auto simp: Let_def tls_packet_update_def split: if_splits)
  have u: "uint (of_nat ?n :: u32) = int ?n" using n by (simp add: unsigned_of_nat take_bit_nat_eq_self)
  show False
  proof (cases "?n < 2 ^ 31")
    case True
    then have "sint (of_nat ?n :: u32) = int ?n" by (simp add: signed_of_nat signed_take_bit_int_eq_self)
    then show False using big assms(2) by simp
  next
    case False
    have "unat (of_nat ?n :: u32) = ?n" using n by (simp add: unat_of_nat take_bit_nat_eq_self)
    then have "sint (of_nat ?n :: u32) = int ?n - 2 ^ 32" using sint_large [of "of_nat ?n"] False u by simp
    then show False using big n assms(3) by simp
  qed
qed

lemma bytes16_ld16:
  assumes "i + 2 \<le> length l"
  shows "bytes16 (ld16 l i) = take 2 (drop i l)"
proof -
  have "(ucast (ld16 l i) :: byte) = l ! i"
    unfolding ld16_def by (rule bit_word_eqI) (auto simp: bit_simps)
  moreover have "(ucast (drop_bit 8 (ld16 l i)) :: byte) = l ! (i + 1)"
    unfolding ld16_def by (rule bit_word_eqI) (auto simp: bit_simps dest: bit_imp_le_length)
  ultimately have "bytes16 (ld16 l i) = [l ! i, l ! (i + 1)]" by (simp add: bytes16_def)
  also have "\<dots> = take 2 (drop i l)"
    using assms by (intro nth_equalityI) (auto simp: less_Suc_eq numeral_2_eq_2)
  finally show ?thesis .
qed

lemma bytes64_ld64:
  assumes "length l = 8"
  shows "bytes64 (ld64 l 0) = l"
proof -
  have "(ucast (ld64 l 0) :: u32) = ld32 l 0"
    unfolding ld64_def by (rule bit_word_eqI) (auto simp: bit_simps)
  moreover have "(ucast (drop_bit 32 (ld64 l 0)) :: u32) = ld32 l 4"
    unfolding ld64_def by (rule bit_word_eqI) (auto simp: bit_simps dest: bit_imp_le_length)
  ultimately have "bytes64 (ld64 l 0) = take 2 l @ take 2 (drop 2 l) @ take 2 (drop 4 l) @ take 2 (drop 6 l)"
    using assms by (simp add: bytes64_def bytes32_def ucast_ld32 ucast_drop_ld32 bytes16_ld16 numeral_2_eq_2)
  also have "\<dots> = l"
  proof -
    have "take 2 (drop i l) @ drop (i + 2) l = drop i l" for i
      using append_take_drop_id [of 2 "drop i l"] by (simp add: add.commute)
    from this [of 0] this [of 2] this [of 4] this [of 6] have "take 2 l @ take 2 (drop 2 l) @ take 2 (drop 4 l) @ take 2 (drop 6 l) @ drop 8 l = l"
      by simp
    then show ?thesis using assms by simp
  qed
  finally show ?thesis .
qed

text \<open>Two settings under which the same records are accepted and produced.\<close>

definition same_traffic :: "crypto_info \<Rightarrow> crypto_info \<Rightarrow> bool" where
  "same_traffic a b \<longleftrightarrow> kc_key a = kc_key b \<and> kc_salt a = kc_salt b \<and> kc_rec_seq a = kc_rec_seq b"

text \<open>The settings of a socket are those of a context, except for the numbers of the records.\<close>

definition keyed_by :: "crypto_info \<Rightarrow> byte list \<Rightarrow> byte list \<Rightarrow> bool" where
  "keyed_by ci key salt \<longleftrightarrow> kc_key ci = take 16 key \<and> kc_salt ci = take 4 salt \<and> length (kc_rec_seq ci) = 8"

lemma info_same_traffic:
  assumes "keyed_by ci key salt" "take 4 salt' = take 4 salt"
  shows "same_traffic ci (ktls_info (ntohll (ld64 (kc_rec_seq ci) 0)) key salt')"
  using assms by (simp add: keyed_by_def same_traffic_def ktls_info_def bytes64_ld64)

end
