(* ===== verification/TlsMoves.thy ===== *)
theory TlsMoves
  imports TlsKtls
begin

text \<open>
  What the TLS state of a connection promises: a session exported by one server goes on in the context
  that another server imports it into, in the library and in the kernel, and the import reads only the
  message as long as no length it announces is negative as a signed number.
\<close>

section \<open>The export succeeds\<close>

definition buffered :: "('cbc, 'gcm) TLSContext \<Rightarrow> nat" where
  "buffered c = length (tx_tls_buffer c) + length (tx_message_buffer c) + length (tx_app_buffer c) + length (tx_master_key c)"

lemma tail_length: "length (concat (export_tail c small)) \<le> 35 + buffered c"
  by (simp add: export_tail_def export_buffer_def buffered_def)

lemma parts_exist:
  assumes "wf_session A c"
  shows "\<exists>ivs keys macs. export_ivs A (tx_crypto c) = Some ivs \<and> export_keys c = Some keys \<and> export_macs c = Some macs \<and>
    length (concat ivs) \<le> 33 \<and> length (concat keys) \<le> 256 \<and> length (concat macs) \<le> 257"
proof -
  have "unat (tx_keys_size c) < 2 ^ LENGTH(8)" by (rule unsigned_less)
  then have k: "\<exists>keys. export_keys c = Some keys \<and> length (concat keys) \<le> 256"
    using assms
    by (auto simp: wf_session_def exportable_context_def session_keys_def export_keys_def tls_packet_uint8_def)
  have words: "length (concat (map tls_packet_uint32 (take 16 ws))) \<le> 64" for ws
    by (simp add: length_concat o_def sum_list_triv)
  have "tls_mac_length (tx_cipher c) \<le> 48" by (simp add: tls_mac_length_def)
  then have m: "\<exists>macs. export_macs c = Some macs \<and> length (concat macs) \<le> 257"
    using assms words by (auto simp: wf_session_def export_macs_def Let_def split: if_splits cipher_ctx.splits)
  have "\<exists>ivs. export_ivs A (tx_crypto c) = Some ivs \<and> length (concat ivs) \<le> 33"
    using assms by (auto simp: wf_session_def export_ivs_def split: if_splits cipher_ctx.splits)
  then show ?thesis using k m by blast
qed

lemma export_succeeds:
  assumes "wf_session A c" "buffered c \<le> 64000"
  shows "\<exists>bytes. tls_export_context A c 0xFFFF small = Some (int (length bytes), bytes) \<and> bytes \<noteq> []"
proof -
  obtain ivs keys macs where x: "export_ivs A (tx_crypto c) = Some ivs" "export_keys c = Some keys" "export_macs c = Some macs"
    "length (concat ivs) \<le> 33" "length (concat keys) \<le> 256" "length (concat macs) \<le> 257"
    using parts_exist [OF assms(1)] by blast
  let ?pre = "[tls_packet_uint8 1, tls_packet_uint8 (tx_status c), tls_packet_uint16 (tx_cipher c),
    tls_packet_uint8 (if tx_is_child c \<noteq> 0 then 2 else tx_is_server c)]"
  let ?all = "?pre @ ivs @ keys @ macs @ export_tail c small"
  let ?p0 = "tls_create_packet TLS_SERIALIZED_OBJECT (tx_version c)"
  have p0: "length (pk_buf ?p0) = 5" "unat (pk_size ?p0) = 0xFFF" by (simp_all add: tls_create_packet_def bytes16_def)
  have all: "length (concat ?all) \<le> 586 + buffered c" using x(4-6) tail_length [of c small] by simp
  then obtain p where p: "tls_packet_appends ?all ?p0 = Some p"
    using appends_succeed [of ?p0 ?all] p0 assms(2) by fastforce
  let ?b = "pk_buf (tls_packet_update p)"
  have lp: "length ?b = length (pk_buf p)" by (simp add: tls_packet_update_def)
  have b: "length ?b \<le> 0xFFFF" "5 \<le> length ?b"
    using appends_buf [OF p] p0(1) all assms(2) lp by simp_all
  have "exportable_context c" using assms(1) unfolding wf_session_def by blast
  then have "tls_export_context A c 0xFFFF small = Some (int (length ?b), ?b)"
    using x(1-3) p b by (simp add: tls_export_context_def Let_def signed_of_nat signed_take_bit_int_eq_self del: tls_packet_appends.simps)
  then show ?thesis using b(2) by (intro exI [of _ ?b]) auto
qed

section \<open>A session moves\<close>

text \<open>C23: A session moves whole: the state of a negotiated server session (any suite, at most 64000 bytes buffered) is
  exported, and importing the message into a fresh context gives a context that goes on where the first one stopped:
  version, suite, role, keys, initialization vectors, cipher states, sequence numbers, the bytes buffered in each of
  the three buffers and the DTLS epochs, without an error and ready to be exported again.\<close>

theorem tls_state_moves:
  assumes "wf_session A c" "keys_accepted A c" "buffered c \<le> 64000"
  shows "\<exists>bytes pos c'. tls_export_context A c 0xFFFF small = Some (int (length bytes), bytes) \<and>
    tls_import_context2 A stack (bytes @ [0]) (of_nat (length bytes)) (tls_create_context 1 0x0303) = Go pos c' \<and>
    resumed A c c' \<and> tx_master_key c' = (if small then [] else tx_master_key c)"
proof -
  obtain bytes where e: "tls_export_context A c 0xFFFF small = Some (int (length bytes), bytes)" "bytes \<noteq> []"
    using export_succeeds [OF assms(1,3)] by blast
  then show ?thesis using session_imported [OF e assms(1,2)] by blast
qed

definition sample_tomcrypt :: "(byte list \<times> byte list, byte list) tomcrypt" where
  "sample_tomcrypt = \<lparr>gcm_init = Pair 0, cbc_start = \<lambda>iv key. (0, (iv, key)), cbc_getiv = fst,
     stale = \<lparr>cc_input = replicate 16 0, cc_ks = replicate 64 0, cc_unused = 0\<rparr>\<rparr>"

definition sample_context :: "(byte list \<times> byte list, byte list) TLSContext" where
  "sample_context = (tls_create_context 1 0x0303)\<lparr>tx_cipher := 0xC02F, tx_status := 0xFF, tx_exportable := 1,
     tx_keys := Some (replicate 16 1 @ replicate 16 2), tx_keys_size := 32, tx_local_seq := 5, tx_remote_seq := 6,
     tx_crypto := \<lparr>ci_ctx = Gcm_ctx [] [], ci_local_mac = replicate 48 7, ci_remote_mac = replicate 48 9, ci_created = 2\<rparr>,
     tx_tls_buffer := [23, 3, 3]\<rparr>"

lemma sample_session:
  "wf_session sample_tomcrypt sample_context" "keys_accepted sample_tomcrypt sample_context" "buffered sample_context \<le> 64000"
  by (simp_all add: sample_tomcrypt_def sample_context_def wf_session_def keys_accepted_def buffered_def exportable_context_def
    session_keys_def tls_is_aead_def tls_create_context_def)

lemma tls_state_moves_witness:
  "\<exists>bytes pos c'. tls_export_context sample_tomcrypt sample_context 0xFFFF True = Some (int (length bytes), bytes) \<and>
    tls_import_context2 sample_tomcrypt (\<lambda>_. []) (bytes @ [0]) (of_nat (length bytes)) (tls_create_context 1 0x0303) = Go pos c' \<and>
    resumed sample_tomcrypt sample_context c' \<and> tx_master_key c' = (if True then [] else tx_master_key sample_context)"
  by (rule tls_state_moves [OF sample_session])

section \<open>A session is handed over\<close>

definition with_seqs :: "crypto_info \<Rightarrow> crypto_info \<Rightarrow> ('cbc, 'gcm) TLSContext \<Rightarrow> ('cbc, 'gcm) TLSContext" where
  "with_seqs ti ri c = c\<lparr>tx_local_seq := ntohll (ld64 (kc_rec_seq ti) 0), tx_remote_seq := ntohll (ld64 (kc_rec_seq ri) 0)\<rparr>"

lemma with_seqs_same [simp]:
  "wf_session A (with_seqs ti ri c) = wf_session A c" "keys_accepted A (with_seqs ti ri c) = keys_accepted A c"
  "buffered (with_seqs ti ri c) = buffered c" "offloadable (with_seqs ti ri c) = offloadable c"
  "session_keys (with_seqs ti ri c) = session_keys c" "tx_crypto (with_seqs ti ri c) = tx_crypto c"
  by (simp_all add: with_seqs_def wf_session_def keys_accepted_def buffered_def offloadable_def session_keys_def
    exportable_context_def local_key_def remote_key_def)

lemma resumed_offloadable:
  assumes "resumed A c c'" "offloadable c" "wf_session A c"
  shows "offloadable (tls_make_exportable c' 1)" "session_keys c' = session_keys c"
    "take 4 (ci_local_mac (tx_crypto c')) = take 4 (ci_local_mac (tx_crypto c))"
    "take 4 (ci_remote_mac (tx_crypto c')) = take 4 (ci_remote_mac (tx_crypto c))"
proof -
  have aead: "tls_is_aead (tx_cipher c) = 1" using assms(2) by (auto simp: offloadable_def tls_is_aead_def)
  then have cr: "ci_created (tx_crypto c) = 2" using assms(3) by (simp add: wf_session_def)
  show k: "session_keys c' = session_keys c" using assms(1) by (simp add: resumed_def session_keys_def)
  have sc: "same_ciphers A c (tx_crypto c')" using assms(1) by (simp add: resumed_def)
  then show "take 4 (ci_local_mac (tx_crypto c')) = take 4 (ci_local_mac (tx_crypto c))"
    "take 4 (ci_remote_mac (tx_crypto c')) = take 4 (ci_remote_mac (tx_crypto c))"
    using cr by (simp_all add: same_ciphers_def)
  show "offloadable (tls_make_exportable c' 1)"
    using assms(1,2) k sc cr
    by (auto simp: offloadable_def resumed_def tls_make_exportable_def exportable_context_def session_keys_def same_ciphers_def)
qed

lemma tls_exported:
  assumes "ktls_socket K tx rx" "tx k = Some ti" "rx k = Some ri" "he_calloc_ok E" "wf_session A c" "keys_accepted A c"
    "buffered c \<le> 64000"
  shows "\<exists>bytes. tls_export_context A (with_seqs ti ri c) 0xFFFF True = Some (int (length bytes), bytes) \<and> bytes \<noteq> [] \<and>
    export_tls (export_with_tlse K A E) c k = Some (bytes, k)"
proof -
  obtain bytes where e: "tls_export_context A (with_seqs ti ri c) 0xFFFF True = Some (int (length bytes), bytes)" "bytes \<noteq> []"
    using export_succeeds [of A "with_seqs ti ri c"] assms(5,7) by auto
  have "length bytes \<le> 0xFFFF"
    using session_imported [OF e, where stack = "\<lambda>_. []"] assms(5,6) by auto
  then have "tls_export (export_with_tlse K A E) (with_seqs ti ri c) = Some (0, Some bytes)"
    using assms(4) e by (simp add: tls_export_def export_with_tlse_def)
  moreover have "tls_unmake_ktls K c k = (0, with_seqs ti ri c, k)"
    using ktls_socket.unmake_reads [OF assms(1-3)] by (simp add: with_seqs_def)
  ultimately show ?thesis using e by (auto simp: export_tls_def export_with_tlse_def)
qed

lemma tls_imported:
  assumes "ktls_socket K' tx' rx'" "offloadable c" "wf_session A c" "keys_accepted A c"
    "keyed_by ti (session_keys c) (ci_local_mac (tx_crypto c))" "keyed_by ri (drop 16 (session_keys c)) (ci_remote_mac (tx_crypto c))"
    "tls_export_context A (with_seqs ti ri c) 0xFFFF True = Some (int (length bytes), bytes)" "bytes \<noteq> []"
  shows "\<exists>c' kd' ti' ri'. import_tls (import_with_tlse K' A stack I) bytes kd = Some (c', kd') \<and>
    tls_make_ktls K' c' kd = Some (0, kd') \<and>
    tx' kd' = Some ti' \<and> same_traffic ti ti' \<and> rx' kd' = Some ri' \<and> same_traffic ri ri' \<and> resumed A (with_seqs ti ri c) c'"
proof -
  let ?c1 = "with_seqs ti ri c"
  have s1: "wf_session A ?c1" "keys_accepted A ?c1" "offloadable ?c1" using assms by simp_all
  obtain pos c' where i: "tls_import_context2 A stack (bytes @ [0]) (of_nat (length bytes)) (tls_create_context 1 0x0303) = Go pos c'"
    "resumed A ?c1 c'" using session_imported [OF assms(7,8) s1(1,2)] by blast
  let ?c2 = "tls_make_exportable c' 1"
  note off = resumed_offloadable [OF i(2) s1(3,1)]
  have c2: "resumed A ?c1 ?c2" "tls_make_exportable ?c2 1 = ?c2" "session_keys ?c2 = session_keys c'" "tx_crypto ?c2 = tx_crypto c'"
    "tx_local_seq ?c2 = tx_local_seq ?c1" "tx_remote_seq ?c2 = tx_remote_seq ?c1"
    using i(2) by (simp_all add: tls_make_exportable_def resumed_def session_keys_def)
  let ?ti = "ktls_info (tx_local_seq ?c2) (session_keys ?c2) (ci_local_mac (tx_crypto ?c2))"
  let ?ri = "ktls_info (tx_remote_seq ?c2) (drop 16 (session_keys ?c2)) (ci_remote_mac (tx_crypto ?c2))"
  obtain kd' where kd: "tls_make_ktls K' ?c2 kd = Some (0, kd')" "tx' kd' = Some ?ti" "rx' kd' = Some ?ri"
    using ktls_socket.make_installs [OF assms(1) off(1)] by blast
  have imp: "import_tls (import_with_tlse K' A stack I) bytes kd = Some (?c2, kd')"
    using i(1) kd(1) c2(2) by (simp add: import_tls_def tls_import_def import_with_tlse_def)
  have seqs: "tx_local_seq ?c2 = ntohll (ld64 (kc_rec_seq ti) 0)" "tx_remote_seq ?c2 = ntohll (ld64 (kc_rec_seq ri) 0)"
    using c2(5,6) by (simp_all add: with_seqs_def)
  have "same_traffic ti ?ti" "same_traffic ri ?ri"
    unfolding seqs using info_same_traffic [OF assms(5)] info_same_traffic [OF assms(6)] off(2-4) c2(3,4) by simp_all
  then show ?thesis using imp kd c2(1) by blast
qed

text \<open>A TLS session in the kernel is handed over: the source takes the record numbers out of its socket and exports
  the context, the destination imports the message and puts the keys into its own socket, and both calls succeed; the new
  socket then encrypts and decrypts with the keys, salts and record numbers of the old one, and the new context is the old
  one at these numbers.\<close>

lemma tls_session_handed_over:
  assumes "ktls_socket K tx rx" "ktls_socket K' tx' rx'" "offloadable c" "wf_session A c" "keys_accepted A c" "buffered c \<le> 64000"
    "tx k = Some ti" "keyed_by ti (session_keys c) (ci_local_mac (tx_crypto c))"
    "rx k = Some ri" "keyed_by ri (drop 16 (session_keys c)) (ci_remote_mac (tx_crypto c))" "he_calloc_ok E"
  shows "\<exists>buf c' kd' ti' ri'. export_tls (export_with_tlse K A E) c k = Some (buf, k) \<and>
    import_tls (import_with_tlse K' A stack I) buf kd = Some (c', kd') \<and>
    tx' kd' = Some ti' \<and> same_traffic ti ti' \<and> rx' kd' = Some ri' \<and> same_traffic ri ri' \<and> resumed A (with_seqs ti ri c) c'"
proof -
  obtain bytes where b: "tls_export_context A (with_seqs ti ri c) 0xFFFF True = Some (int (length bytes), bytes)" "bytes \<noteq> []"
    "export_tls (export_with_tlse K A E) c k = Some (bytes, k)"
    using tls_exported [OF assms(1,7,9,11,4-6)] by blast
  show ?thesis using tls_imported [OF assms(2-5,8,10) b(1,2), of stack I kd] b(3) by blast
qed

definition sample_tx :: crypto_info where "sample_tx = ktls_info 12 (replicate 16 1) (replicate 4 7)"
definition sample_rx :: crypto_info where "sample_rx = ktls_info 34 (replicate 16 2) (replicate 4 9)"

lemma sample_socket:
  "km_tx \<lparr>km_tx = Some sample_tx, km_rx = Some sample_rx\<rparr> = Some sample_tx"
  "keyed_by sample_tx (session_keys sample_context) (ci_local_mac (tx_crypto sample_context))"
  "km_rx \<lparr>km_tx = Some sample_tx, km_rx = Some sample_rx\<rparr> = Some sample_rx"
  "keyed_by sample_rx (drop 16 (session_keys sample_context)) (ci_remote_mac (tx_crypto sample_context))"
  "offloadable sample_context"
  by (simp_all add: keyed_by_def sample_tx_def sample_rx_def ktls_info_def sample_context_def session_keys_def offloadable_def
    exportable_context_def tls_create_context_def bytes64_def bytes32_def bytes16_def)

section \<open>Moving on\<close>

text \<open>LibTomCrypt reports the initialization vector a cipher was started with.\<close>

definition keeps_iv :: "('cbc, 'gcm) tomcrypt \<Rightarrow> bool" where
  "keeps_iv A \<longleftrightarrow> (\<forall>iv key. length iv = 16 \<longrightarrow> cbc_getiv A (snd (cbc_start A iv key)) = iv)"

text \<open>The context that a server exports and the next one imports.\<close>

definition tls_moves :: "('cbc, 'gcm) tomcrypt \<Rightarrow> ('cbc, 'gcm) TLSContext \<Rightarrow> ('cbc, 'gcm) TLSContext \<Rightarrow> bool" where
  "tls_moves A c c' \<longleftrightarrow> (\<exists>bytes stack pos. tls_export_context A c 0xFFFF True = Some (int (length bytes), bytes) \<and> bytes \<noteq> [] \<and>
     tls_import_context2 A stack (bytes @ [0]) (of_nat (length bytes)) (tls_create_context 1 0x0303) = Go pos c')"

lemma moves_resumed:
  assumes "tls_moves A c c'" "wf_session A c" "keys_accepted A c"
  shows "resumed A c c'" "tx_master_key c' = []"
proof -
  obtain bytes stack pos where m: "tls_export_context A c 0xFFFF True = Some (int (length bytes), bytes)" "bytes \<noteq> []"
    "tls_import_context2 A stack (bytes @ [0]) (of_nat (length bytes)) (tls_create_context 1 0x0303) = Go pos c'"
    using assms(1) unfolding tls_moves_def by blast
  show "resumed A c c'" "tx_master_key c' = []"
    using session_imported [OF m(1,2) assms(2,3), of stack] m(3) by simp_all
qed

lemma resumed_keys:
  assumes "resumed A c c'"
  shows "session_keys c' = session_keys c" "local_key c' = local_key c" "remote_key c' = remote_key c"
  using assms by (simp_all add: resumed_def session_keys_def local_key_def remote_key_def)

lemma resumed_wf:
  assumes "resumed A c c'" "tx_master_key c' = []" "wf_session A c" "keeps_iv A"
  shows "wf_session A c'"
proof -
  have "exportable_context c'"
    using assms(1,3) by (auto simp: resumed_def wf_session_def exportable_context_def same_ciphers_def)
  moreover have "same_ciphers A c (tx_crypto c')" "tx_cipher c' = tx_cipher c" "tx_is_server c' = tx_is_server c" "tx_keys_size c' = tx_keys_size c"
    using assms(1) by (simp_all add: resumed_def)
  ultimately show ?thesis
    using assms(2-4) resumed_keys [OF assms(1)]
    by (auto simp: wf_session_def same_ciphers_def keeps_iv_def split: if_splits cipher_ctx.splits)
qed

lemma resumed_accepted: "resumed A c c' \<Longrightarrow> keys_accepted A c \<Longrightarrow> keys_accepted A c'"
  by (simp add: keys_accepted_def resumed_keys)

lemma ciphers_trans:
  assumes "same_ciphers A c (tx_crypto c1)" "same_ciphers A c1 cr" "resumed A c c1" "wf_session A c" "keeps_iv A"
  shows "same_ciphers A c cr"
proof -
  have "tx_cipher c1 = tx_cipher c" using assms(3) by (simp add: resumed_def)
  then show ?thesis
    using assms resumed_keys [OF assms(3)]
    by (auto simp: same_ciphers_def wf_session_def keeps_iv_def Let_def split: if_splits)
qed

lemma resumed_trans:
  assumes "resumed A c c1" "resumed A c1 c2" "wf_session A c" "keeps_iv A"
  shows "resumed A c c2"
proof -
  have "same_ciphers A c (tx_crypto c2)"
    by (rule ciphers_trans [OF _ _ assms(1,3,4)]) (use assms(1,2) in \<open>simp_all add: resumed_def\<close>)
  then show ?thesis using assms(1,2) by (auto simp: resumed_def)
qed

lemma moved_session:
  assumes "(tls_moves A)\<^sup>*\<^sup>* c c'" "wf_session A c" "keys_accepted A c" "keeps_iv A"
  shows "wf_session A c' \<and> keys_accepted A c' \<and> (c' = c \<or> resumed A c c') \<and> buffered c' \<le> buffered c"
  using assms(1)
proof (induction rule: rtranclp_induct)
  case base
  then show ?case using assms(2,3) by simp
next
  case (step c1 c2)
  then have w: "wf_session A c1" "keys_accepted A c1" by simp_all
  note r = moves_resumed [OF step.hyps(2) w]
  have "resumed A c c2"
    using step.IH r(1) resumed_trans [OF _ r(1) assms(2,4)] by blast
  then show ?case
    using resumed_wf [OF r w(1) assms(4)] resumed_accepted [OF r(1) w(2)] step.IH r
    by (simp add: buffered_def resumed_def)
qed

text \<open>C25: A well-formed session stays well-formed however often it is moved from server to server: its arrays keep their
  sizes, its ciphers stay those of its suite and its keys stay usable; what arrives is still the session that left the
  first server, and it can always be moved once more.\<close>

theorem moved_sessions_wellformed:
  assumes "(tls_moves A)\<^sup>*\<^sup>* c c'" "wf_session A c" "keys_accepted A c" "keeps_iv A" "buffered c \<le> 64000"
  shows "wf_session A c' \<and> (c' = c \<or> resumed A c c') \<and> (\<exists>c2. tls_moves A c' c2)"
proof -
  have m: "wf_session A c'" "keys_accepted A c'" "c' = c \<or> resumed A c c'" "buffered c' \<le> 64000"
    using moved_session [OF assms(1-4)] assms(5) by auto
  obtain bytes where e: "tls_export_context A c' 0xFFFF True = Some (int (length bytes), bytes)" "bytes \<noteq> []"
    using export_succeeds [OF m(1,4)] by blast
  then have "\<exists>c2. tls_moves A c' c2"
    using session_imported [OF e m(1,2), of "\<lambda>_. []"] unfolding tls_moves_def by blast
  then show ?thesis using m by blast
qed

lemma sample_moves: "\<exists>c1. tls_moves sample_tomcrypt sample_context c1"
proof -
  obtain bytes where e: "tls_export_context sample_tomcrypt sample_context 0xFFFF True = Some (int (length bytes), bytes)" "bytes \<noteq> []"
    using export_succeeds [OF sample_session(1,3)] by blast
  then show ?thesis
    using session_imported [OF e sample_session(1,2), of "\<lambda>_. []"] unfolding tls_moves_def by blast
qed

lemma moved_sessions_wellformed_witness:
  "\<exists>c1. tls_moves sample_tomcrypt sample_context c1 \<and> wf_session sample_tomcrypt c1 \<and> (\<exists>c2. tls_moves sample_tomcrypt c1 c2)"
proof -
  obtain c1 where "tls_moves sample_tomcrypt sample_context c1" using sample_moves by blast
  moreover have "keeps_iv sample_tomcrypt" by (simp add: keeps_iv_def sample_tomcrypt_def)
  ultimately show ?thesis
    using moved_sessions_wellformed [OF r_into_rtranclp sample_session(1,2) _ sample_session(3)] by blast
qed

section \<open>What the import reads\<close>

text \<open>C24: Importing a message of less than 2 GB never reads past the message and its terminator, and never fails to
  return: it ends with a context or with -1, whatever the bytes are, as long as the three lengths of buffers in it, at the
  positions the other lengths give, are below 2 GB.  Truncated messages, wrong lengths of keys, of initialization vectors and
  of MACs are all refused.\<close>

theorem import_within_message:
  assumes "message ex"
  shows "tls_import_context2 A stack (ex @ [0]) (of_nat (length ex)) c \<noteq> Outside"
  by (rule import_inside [OF assms])

definition sample_message_bytes :: "byte list" where
  "sample_message_bytes = [254, 3, 3, 0, 82, 1, 255, 192, 47, 1, 4, 7, 7, 7, 7, 9, 9, 9, 9, 32] @ replicate 16 1 @ replicate 16 2 @
     [0, 0, 0] @ [0, 0, 0, 0, 0, 0, 0, 5] @ [0, 0, 0, 0, 0, 0, 0, 6] @ [0, 0, 0, 3, 23, 3, 3] @ [0, 0, 0, 0] @ [0, 0, 0, 0] @ [0]"

lemma sample_is_message: "message sample_message_bytes"
proof -
  have "buffer_fields (sample_message_bytes @ [0]) = [71, 78, 82]" by code_simp
  moreover have "ntohl (ld32 (sample_message_bytes @ [0]) 71) = 3" "ntohl (ld32 (sample_message_bytes @ [0]) 78) = 0"
    "ntohl (ld32 (sample_message_bytes @ [0]) 82) = 0" by code_simp+
  moreover have "length sample_message_bytes = 87" by (simp add: sample_message_bytes_def)
  ultimately show ?thesis by (simp add: message_def)
qed

lemma import_within_message_witness:
  "tls_import_context2 sample_tomcrypt (\<lambda>_. []) (sample_message_bytes @ [0]) (of_nat (length sample_message_bytes))
    (tls_create_context 1 0x0303) \<noteq> Outside"
  by (rule import_within_message [OF sample_is_message])

text \<open>The import up to the first of the three lengths.\<close>

definition import_prefix ::
  "('cbc, 'gcm) tomcrypt \<Rightarrow> (nat \<Rightarrow> byte list) \<Rightarrow> byte list \<Rightarrow> u32 \<Rightarrow> ('cbc, 'gcm) TLSContext \<Rightarrow> ('cbc, 'gcm) imp" where
  "import_prefix A stack mem buf_len context =
     import_head mem buf_len (\<lambda>local_iv remote_iv pos c.
       imp_then (import_keys A stack mem buf_len local_iv remote_iv pos c) (\<lambda>pos c.
       imp_then (import_macs mem buf_len pos c) (\<lambda>pos c.
       imp_then (import_master_key mem buf_len pos c) (import_seqs mem buf_len)))) context"

lemma imp_then_head: "imp_then (import_head mem n f c) g = import_head mem n (\<lambda>l r pos c. imp_then (f l r pos c) g) c"
  by (simp add: import_head_def import_fixed_def Let_def split: option.split)

lemma huge_length_outside:
  assumes "length ex < 2 ^ 31" "import_prefix A stack (ex @ [0]) (of_nat (length ex)) c = Go (int p) c'" "p + 4 \<le> length ex"
    "2 ^ 31 \<le> unat (ntohl (ld32 (ex @ [0]) p))"
  shows "tls_import_context2 A stack (ex @ [0]) (of_nat (length ex)) c = Outside"
proof -
  let ?rest = "\<lambda>pos c. imp_then (import_len (ex @ [0]) (of_nat (length ex)) pos c (\<lambda>n pos.
      import_bytes (ex @ [0]) (of_nat (length ex)) (\<lambda>b. tx_tls_buffer_update (\<lambda>_. b)) n pos c)) (\<lambda>pos c.
    imp_then (import_len (ex @ [0]) (of_nat (length ex)) pos c (\<lambda>n pos.
      import_bytes (ex @ [0]) (of_nat (length ex)) (\<lambda>b. tx_message_buffer_update (\<lambda>_. b)) n pos c)) (\<lambda>pos c.
    imp_then (import_len (ex @ [0]) (of_nat (length ex)) pos c (\<lambda>n pos.
      import_bytes (ex @ [0]) (of_nat (length ex)) (\<lambda>b. tx_app_buffer_update (\<lambda>_. b)) n pos (c\<lparr>tx_cipher_spec_set := 1\<rparr>)))
    (import_dtls (ex @ [0]) (of_nat (length ex)))))"
  have "tls_import_context2 A stack (ex @ [0]) (of_nat (length ex)) c =
      imp_then (import_prefix A stack (ex @ [0]) (of_nat (length ex)) c) ?rest"
    unfolding tls_import_context2_def import_tail_def import_prefix_def imp_then_head imp_then_assoc by (rule refl)
  then show ?thesis using assms(2) by (simp add: huge_buffer_outside [OF assms(1,3,4)])
qed

text \<open>The message of the sample with \<open>0xFFFFFFFF\<close> for the length of its first buffer passes the check of that length.\<close>

definition huge_message_bytes :: "byte list" where
  "huge_message_bytes = stn sample_message_bytes 71 [255, 255, 255, 255]"

lemma negative_length_accepted:
  "tls_import_context2 sample_tomcrypt (\<lambda>_. []) (huge_message_bytes @ [0]) (of_nat (length huge_message_bytes))
    (tls_create_context 1 0x0303) = Outside"
proof -
  have "case import_prefix sample_tomcrypt (\<lambda>_. []) (huge_message_bytes @ [0]) (of_nat (length huge_message_bytes))
    (tls_create_context 1 0x0303) of Go pos c \<Rightarrow> pos = 71 | _ \<Rightarrow> False" by code_simp
  then obtain c where c: "import_prefix sample_tomcrypt (\<lambda>_. []) (huge_message_bytes @ [0]) (of_nat (length huge_message_bytes))
    (tls_create_context 1 0x0303) = Go (int 71) c" by (auto split: imp.splits)
  have "ntohl (ld32 (huge_message_bytes @ [0]) 71) = 0xFFFFFFFF" by code_simp
  then have "2 ^ 31 \<le> unat (ntohl (ld32 (huge_message_bytes @ [0]) 71))" by simp
  moreover have "length huge_message_bytes = 87" by (simp add: huge_message_bytes_def sample_message_bytes_def)
  ultimately show ?thesis using huge_length_outside [OF _ c] by simp
qed

end
