(* ===== verification/ConnHandoff.thy ===== *)
theory ConnHandoff
  imports TcpFrame TlsMoves
begin

text \<open>
  A whole connection is handed over: TCP and TLS state of a socket, and the request, from \<open>export_all\<close> of
  the source (src/phttp_hoproto_export2.cpp) to \<open>phttp_on_handoff\<close> of the destination
  (src/phttp_hoproto_import2.cpp).
\<close>

section \<open>Sockets with TLS\<close>

text \<open>The system calls on the TCP state leave the TLS settings of a socket alone, and the other way round.\<close>

locale tls_socket = ktls_socket K tx_of rx_of
  for K :: "'k ktls_api" and tx_of rx_of :: "'k \<Rightarrow> crypto_info option" +
  fixes T :: "'k tcp_api" and v :: "'k \<Rightarrow> tcb"
  assumes tcp: "repair_kernel T v"
    and tcp_leaves_tls: "tcp_keeps T tx_of" "tcp_keeps T rx_of"
    and tls_leaves_tcp: "call_keeps v (kt_ulp K)" "call_keeps v (kt_set_rx K ci)" "call_keeps v (kt_set_tx K ci)"
begin

lemma make_keeps:
  assumes "tls_make_ktls K c k = Some (e, k')"
  shows "v k' = v k"
  using assms
  by (auto simp: tls_make_ktls_def Let_def simp del: insert_iff dest!: call_kept [OF tls_leaves_tcp(1)] call_kept [OF tls_leaves_tcp(2)]
    call_kept [OF tls_leaves_tcp(3)] split: if_splits option.splits prod.splits)

lemma exports:
  assumes "est (v k)" "length (tb_sent (v k)) + length (tb_unsent (v k)) < 2 ^ 31" "length (tb_recv (v k)) < 2 ^ 31"
  shows "\<exists>k1. tcp_export T (Some old) g k = Some (0, Some (exported (v k)), k1) \<and> tx_of k1 = tx_of k \<and> rx_of k1 = rx_of k"
proof -
  have K: "readable T v" "writable T v" using tcp by (simp_all add: repair_kernel_def)
  obtain s' where "tcp_export_body T \<lparr>es_k = k, es_ex = TCPState_clear, es_info = g\<rparr> = Some (0, s')" "es_ex s' = exported (v k)"
    using export_runs [OF K assms, of g] unfolding runs_def by blast
  then have "tcp_export T (Some old) g k = Some (0, Some (exported (v k)), es_k s')" by (simp add: tcp_export_def)
  then show ?thesis using tcp_export_keeps [OF tcp_leaves_tls(1)] tcp_export_keeps [OF tcp_leaves_tls(2)] by blast
qed

end

section \<open>A socket of two parts\<close>

definition fst_call :: "('a \<Rightarrow> 'r \<times> 'a) \<Rightarrow> 'a \<times> 'b \<Rightarrow> 'r \<times> 'a \<times> 'b" where
  "fst_call f s = (let (r, a) = f (fst s) in (r, a, snd s))"

definition snd_call :: "('b \<Rightarrow> 'r \<times> 'b) \<Rightarrow> 'a \<times> 'b \<Rightarrow> 'r \<times> 'a \<times> 'b" where
  "snd_call f s = (let (r, b) = f (snd s) in (r, fst s, b))"

definition on_fst :: "'a tcp_api \<Rightarrow> ('a \<times> 'b) tcp_api" where
  "on_fst T = \<lparr>k_errno = k_errno T \<circ> fst, k_malloc = \<lambda>n. fst_call (k_malloc T n), k_set_repair = \<lambda>r. fst_call (k_set_repair T r),
     k_info = fst_call (k_info T), k_outq = fst_call (k_outq T), k_outqnsd = fst_call (k_outqnsd T), k_inq = fst_call (k_inq T),
     k_maxseg = fst_call (k_maxseg T), k_timestamp = fst_call (k_timestamp T), k_set_options = \<lambda>os. fst_call (k_set_options T os),
     k_set_timestamp = \<lambda>t. fst_call (k_set_timestamp T t), k_window = fst_call (k_window T),
     k_set_window = \<lambda>w. fst_call (k_set_window T w), k_sockname = fst_call (k_sockname T), k_peername = fst_call (k_peername T),
     k_bind = \<lambda>a p. fst_call (k_bind T a p), k_connect = \<lambda>a p. fst_call (k_connect T a p),
     k_set_queue = \<lambda>q. fst_call (k_set_queue T q), k_seq = fst_call (k_seq T), k_set_seq = \<lambda>s. fst_call (k_set_seq T s),
     k_recv_peek = \<lambda>n. fst_call (k_recv_peek T n), k_send = \<lambda>bs. fst_call (k_send T bs)\<rparr>"

definition on_snd :: "'b ktls_api \<Rightarrow> ('a \<times> 'b) ktls_api" where
  "on_snd K = \<lparr>kt_ulp = snd_call (kt_ulp K), kt_set_rx = \<lambda>ci. snd_call (kt_set_rx K ci), kt_set_tx = \<lambda>ci. snd_call (kt_set_tx K ci),
     kt_get_tx = kt_get_tx K \<circ> snd, kt_get_rx = kt_get_rx K \<circ> snd\<rparr>"

lemma fst_call_reads: "reads P v call f \<Longrightarrow> reads P (v \<circ> fst) (fst_call call) f"
  by (fastforce simp: reads_def fst_call_def)

lemma fst_call_writes: "writes P v call g \<Longrightarrow> writes P (v \<circ> fst) (fst_call call) g"
  by (fastforce simp: writes_def fst_call_def)

lemma fst_call_sends: "sends T v \<Longrightarrow> sends (on_fst T) (v \<circ> fst)"
  by (fastforce simp: sends_def on_fst_def fst_call_def Let_def split: prod.splits)

lemma on_fst_repair: "repair_kernel T v \<Longrightarrow> repair_kernel (on_fst T) (v \<circ> fst)"
  unfolding repair_kernel_def readable_def writable_def
  by (elim conjE, intro conjI) (simp_all add: on_fst_def fst_call_reads fst_call_writes fst_call_sends [unfolded on_fst_def])

lemma calls_keep: "call_keeps (w \<circ> snd) (fst_call f)" "call_keeps (v \<circ> fst) (snd_call g)"
  by (simp_all add: call_keeps_def fst_call_def snd_call_def split: prod.split)

lemma on_fst_keeps: "tcp_keeps (on_fst T) (w \<circ> snd)"
  by (simp add: tcp_keeps_def on_fst_def calls_keep)

interpretation model_tls_socket:
  tls_socket "on_snd model_ktls" "km_tx \<circ> snd" "km_rx \<circ> snd" "on_fst model_kernel" fst
proof unfold_locales
  show "repair_kernel (on_fst model_kernel) fst" using on_fst_repair [OF model_repair] by simp
  show "call_keeps fst (kt_ulp (on_snd model_ktls))" "call_keeps fst (kt_set_rx (on_snd model_ktls) ci)"
    "call_keeps fst (kt_set_tx (on_snd model_ktls) ci)" for ci
    using calls_keep(2) [of id] by (simp_all add: on_snd_def comp_def)
qed (auto simp: on_fst_keeps on_snd_def snd_call_def model_ktls_def)

section \<open>The way of a connection\<close>

text \<open>What can be handed over: an established connection whose queues can be counted and whose window scales are
  16-bit numbers, with a session that the kernel encrypts and decrypts.\<close>

definition tcp_movable :: "tcb \<Rightarrow> bool" where
  "tcp_movable b \<longleftrightarrow> est b \<and> length (tb_sent b) + length (tb_unsent b) < 2 ^ 31 \<and> length (tb_recv b) < 2 ^ 31 \<and>
     tb_snd_wscale b < 65536 \<and> tb_rcv_wscale b < 65536"

definition tls_movable ::
  "('cbc, 'gcm) tomcrypt \<Rightarrow> crypto_info option \<Rightarrow> crypto_info option \<Rightarrow> crypto_info \<Rightarrow> crypto_info \<Rightarrow> ('cbc, 'gcm) TLSContext \<Rightarrow> bool" where
  "tls_movable A tx rx ti ri tls \<longleftrightarrow> offloadable tls \<and> wf_session A tls \<and> keys_accepted A tls \<and> buffered tls \<le> 64000 \<and>
     tx = Some ti \<and> keyed_by ti (session_keys tls) (ci_local_mac (tx_crypto tls)) \<and>
     rx = Some ri \<and> keyed_by ri (drop 16 (session_keys tls)) (ci_remote_mac (tx_crypto tls))"

definition fresh_socket :: "tcb \<Rightarrow> bool" where
  "fresh_socket b \<longleftrightarrow> tb_state b = TCP_CLOSE \<and> tb_sent b = [] \<and> tb_unsent b = [] \<and> tb_recv b = []"

text \<open>libuv gives the destination a socket and a monitor.\<close>

definition uv_gives :: "('k, 'tls) imp_env \<Rightarrow> bool" where
  "uv_gives I \<longleftrightarrow> ie_uv_init I = 0 \<and> ie_socket I \<noteq> - 1 \<and> ie_uv_open I = 0 \<and> ie_uv_nodelay I = 0 \<and> ie_monitor_init I = 0"

lemma all_exported:
  assumes "tls_socket K tx rx (he_tcp E) v" "tcp_movable (v k)" "cn_tls c = Some tls" "tls_movable A (tx k) (rx k) ti ri tls" "he_calloc_ok E"
  shows "\<exists>bytes k1. tls_export_context A (with_seqs ti ri tls) 0xFFFF True = Some (int (length bytes), bytes) \<and> bytes \<noteq> [] \<and>
    export_all (export_with_tlse K A E) c k =
      Some (\<lparr>hm_tcp = exported (v k), hm_tls = Some bytes, hm_http = http_request_export (hc_req (cn_hcs c))\<rparr>, k1)"
proof -
  have tls: "ktls_socket K tx rx" using assms(1) by (simp add: tls_socket_def)
  have m: "wf_session A tls" "keys_accepted A tls" "buffered tls \<le> 64000" "tx k = Some ti" "rx k = Some ri"
    using assms(4) by (simp_all add: tls_movable_def)
  obtain k1 where k1: "tcp_export (he_tcp E) (Some TCPState_clear) (he_info E) k = Some (0, Some (exported (v k)), k1)"
    "tx k1 = Some ti" "rx k1 = Some ri"
    using tls_socket.exports [OF assms(1)] assms(2) m(4,5) unfolding tcp_movable_def by metis
  obtain bytes where b: "tls_export_context A (with_seqs ti ri tls) 0xFFFF True = Some (int (length bytes), bytes)" "bytes \<noteq> []"
    "export_tls (export_with_tlse K A E) tls k1 = Some (bytes, k1)"
    using tls_exported [OF tls k1(2,3) assms(5) m(1-3)] by blast
  have "he_tcp (export_with_tlse K A E) = he_tcp E" "he_info (export_with_tlse K A E) = he_info E"
    by (simp_all add: export_with_tlse_def)
  then show ?thesis using k1(1) b assms(3) by (simp add: export_all_def Let_def)
qed

lemma all_imported:
  assumes "tls_socket K' tx' rx' (ie_tcp I) v'" "fresh_socket (v' k)" "uv_gives I" "tcp_movable b" "tls_movable A tx rx ti ri tls"
    "tls_export_context A (with_seqs ti ri tls) 0xFFFF True = Some (int (length bytes), bytes)" "bytes \<noteq> []"
    "hm_tcp msg = exported b" "hm_tls msg = Some bytes"
  shows "\<exists>c' k' tls' ti' ri'. continue_import (import_with_tlse K' A stack I) hcs msg k = Some (c', k') \<and>
    v' k' = imported b (v' k') \<and> cn_tls c' = Some tls' \<and> resumed A (with_seqs ti ri tls) tls' \<and>
    tx' k' = Some ti' \<and> same_traffic ti ti' \<and> rx' k' = Some ri' \<and> same_traffic ri ri'"
proof -
  let ?I = "import_with_tlse K' A stack I"
  have s: "ktls_socket K' tx' rx'" "repair_kernel (ie_tcp I) v'"
    using assms(1) by (simp_all add: tls_socket_def tls_socket_axioms_def)
  have m: "offloadable tls" "wf_session A tls" "keys_accepted A tls" "keyed_by ti (session_keys tls) (ci_local_mac (tx_crypto tls))"
    "keyed_by ri (drop 16 (session_keys tls)) (ci_remote_mac (tx_crypto tls))" using assms(5) by (simp_all add: tls_movable_def)
  obtain k1 where k1: "tcp_import_body (ie_tcp I) (exported b) k = Some (0, k1)" "v' k1 = imported b (v' k1)"
    using import_runs [OF s(2)] assms(2,4) unfolding runs_def fresh_socket_def tcp_movable_def by metis
  obtain tls' k' ti' ri' where t: "import_tls ?I bytes k1 = Some (tls', k')" "tls_make_ktls K' tls' k1 = Some (0, k')"
    "tx' k' = Some ti'" "same_traffic ti ti'" "rx' k' = Some ri'" "same_traffic ri ri'" "resumed A (with_seqs ti ri tls) tls'"
    using tls_imported [OF s(1) m assms(6,7), of stack I k1] by blast
  have v: "v' k' = v' k1" by (rule tls_socket.make_keeps [OF assms(1) t(2)])
  have "ie_tcp ?I = ie_tcp I" "uv_gives ?I" using assms(3) by (simp_all add: import_with_tlse_def uv_gives_def)
  then have "import_tcp ?I (hm_tcp msg) k = Some k1" "ie_monitor_init ?I = 0"
    using k1(1) assms(8) by (simp_all add: import_tcp_def tcp_import_def uv_gives_def)
  then show ?thesis using t k1(2) v assms(9) by (simp add: continue_import_def Let_def)
qed

lemma movable_self [simp]: "tcp_movable (b\<lparr>tb_self := x\<rparr>) = tcp_movable b"
  by (simp add: tcp_movable_def)

lemma exported_self:
  "(exported b)\<lparr>st_self_addr := a, st_self_port := ucast p\<rparr> = exported (b\<lparr>tb_self := (a, p)\<rparr>)"
  by (simp add: exported_def)


section \<open>A sample\<close>

definition tls_conn :: "(unit, unit, (byte list \<times> byte list, byte list) TLSContext) conn" where
  "tls_conn = \<lparr>cn_hcs = cn_hcs sample_conn0, cn_tls = Some sample_context, cn_peer_addr = 2, cn_peer_port = 4000,
     cn_server = cn_server sample_conn0, cn_export = None\<rparr>"

definition tls_source_env :: "(tcb \<times> ktls_model, (byte list \<times> byte list, byte list) TLSContext) ho_env" where
  "tls_source_env = \<lparr>he_tcp = on_fst model_kernel, he_info = \<lparr>tcpi_state = 0, tcpi_snd_wscale = 0, tcpi_rcv_wscale = 0\<rparr>,
     he_tls_unmake = \<lambda>t k. (0, t, k), he_calloc_ok = True, he_tls_context = \<lambda>_. None, he_serialize = \<lambda>_. None, he_junk = []\<rparr>"

definition tls_target_env :: "(tcb \<times> ktls_model, (byte list \<times> byte list, byte list) TLSContext) imp_env" where
  "tls_target_env = \<lparr>ie_tcp = on_fst model_kernel, ie_uv_init = 0, ie_socket = 7, ie_uv_open = 0, ie_uv_nodelay = 0, ie_monitor_init = 0,
     ie_tls_create = None, ie_tls_import = \<lambda>_ _. None, ie_make_exportable = id, ie_make_ktls = \<lambda>_ _. None,
     ie_serialize = \<lambda>_. None, ie_junk = []\<rparr>"

definition tls_source_socket :: "tcb \<times> ktls_model" where
  "tls_source_socket = (sample_tcb, \<lparr>km_tx = Some sample_tx, km_rx = Some sample_rx\<rparr>)"

definition tls_target_socket :: "tcb \<times> ktls_model" where
  "tls_target_socket = (fresh_tcb, \<lparr>km_tx = None, km_rx = None\<rparr>)"

lemma sample_movable:
  "tcp_movable (fst tls_source_socket)" "cn_tls tls_conn = Some sample_context" "he_calloc_ok tls_source_env"
  "tls_movable sample_tomcrypt ((km_tx \<circ> snd) tls_source_socket) ((km_rx \<circ> snd) tls_source_socket) sample_tx sample_rx sample_context"
  "fresh_socket (fst tls_target_socket)" "uv_gives tls_target_env" "exportable (hc_req (cn_hcs tls_conn))"
  "hss_port server_b = ucast (80 :: u16)"
  "tls_socket (on_snd model_ktls) (km_tx \<circ> snd) (km_rx \<circ> snd) (he_tcp tls_source_env) fst"
  "tls_socket (on_snd model_ktls) (km_tx \<circ> snd) (km_rx \<circ> snd) (ie_tcp tls_target_env) fst"
  using sample_session sample_socket sample_exportable model_tls_socket.tls_socket_axioms
  by (simp_all add: tcp_movable_def tls_conn_def tls_source_env_def tls_target_env_def tls_source_socket_def tls_target_socket_def
    tls_movable_def fresh_socket_def uv_gives_def sample_tcb_def fresh_tcb_def server_b_def)

definition answering :: "(unit, unit) ho_handler" where
  "answering req res handed = (0, req, res\<lparr>hr_status := 200\<rparr>)"

definition no_block :: block where "no_block = (0, \<lambda>_. 0)"


end
