(* ===== verification/ChaCha.thy ===== *)
theory ChaCha
  imports TlsContext
begin

text \<open>
  ChaCha20 as src/extern/tlse.c has it: the block function, the cipher on a message, and the keys of Poly1305.
  The variables \<open>x0\<close> to \<open>x15\<close> and \<open>j0\<close> to \<open>j15\<close> are lists of 16 words.  A message is the list of its bytes, fewer
  than 2^32, so that its length is the argument \<open>bytes\<close>.
\<close>

section \<open>The block function\<close>

definition ROTL32 :: "u32 \<Rightarrow> nat \<Rightarrow> u32" where
  "ROTL32 v n = push_bit n v OR drop_bit (32 - n) v"

definition QUARTERROUND :: "nat \<Rightarrow> nat \<Rightarrow> nat \<Rightarrow> nat \<Rightarrow> u32 list \<Rightarrow> u32 list" where
  "QUARTERROUND a b c d x =
     (let x = x[a := x ! a + x ! b]; x = x[d := ROTL32 (x ! d XOR x ! a) 16];
          x = x[c := x ! c + x ! d]; x = x[b := ROTL32 (x ! b XOR x ! c) 12];
          x = x[a := x ! a + x ! b]; x = x[d := ROTL32 (x ! d XOR x ! a) 8];
          x = x[c := x ! c + x ! d]; x = x[b := ROTL32 (x ! b XOR x ! c) 7]
      in x)"

definition chacha_double_round :: "u32 list \<Rightarrow> u32 list" where
  "chacha_double_round x =
     (let x = QUARTERROUND 0 4 8 12 x; x = QUARTERROUND 1 5 9 13 x;
          x = QUARTERROUND 2 6 10 14 x; x = QUARTERROUND 3 7 11 15 x;
          x = QUARTERROUND 0 5 10 15 x; x = QUARTERROUND 1 6 11 12 x;
          x = QUARTERROUND 2 7 8 13 x; x = QUARTERROUND 3 4 9 14 x
      in x)"

text \<open>The loop \<open>for (i = 20; i > 0; i -= 2)\<close> and the addition of the state it started from.\<close>

fun chacha_rounds :: "nat \<Rightarrow> u32 list \<Rightarrow> u32 list" where
  "chacha_rounds i x = (if i = 0 then x else chacha_rounds (i - 2) (chacha_double_round x))"

declare chacha_rounds.simps [simp del]

definition chacha_core :: "u32 list \<Rightarrow> u32 list" where
  "chacha_core j = map2 (+) j (chacha_rounds 20 j)"

definition words_bytes :: "u32 list \<Rightarrow> byte list" where
  "words_bytes ws = concat (map bytes32 ws)"

definition chacha20_block :: "chacha_ctx \<Rightarrow> nat \<Rightarrow> chacha_ctx \<times> byte list" where
  "chacha20_block x len =
     (let x = x\<lparr>cc_input := chacha_core (cc_input x)\<rparr>
      in (x, words_bytes (map ((!) (cc_input x) \<circ> (\<lambda>i. i div 4)) (filter (\<lambda>i. i mod 4 = 0) [0..<len]))))"

section \<open>The cipher\<close>

text \<open>The counter is 64 bits wide and runs into the first word of a 96-bit nonce.\<close>

definition chacha_count :: "u32 list \<Rightarrow> u32 list" where
  "chacha_count j =
     (let j = j[12 := j ! 12 + 1]
      in if j ! 12 = 0 then j[13 := j ! 13 + 1] else j)"

definition xor_block :: "u32 list \<Rightarrow> byte list \<Rightarrow> byte list" where
  "xor_block x m = words_bytes (map (\<lambda>i. x ! i XOR ld32 m (4 * i)) [0..<16])"

text \<open>The last block goes through the array \<open>tmp\<close>, here with zeros behind the message; what is there does not
  reach the result.\<close>

function chacha_loop :: "chacha_ctx \<Rightarrow> u32 list \<Rightarrow> byte list \<Rightarrow> chacha_ctx \<times> byte list" where
  "chacha_loop x j m =
     (let bytes = length m;
          tmp = (if bytes < 64 then m @ replicate (64 - bytes) 0 else take 64 m);
          y = chacha_core j;
          x = (if bytes < 64 then x\<lparr>cc_ks := words_bytes y\<rparr> else x);
          c = xor_block y tmp;
          j = chacha_count j
      in if bytes \<le> 64 then
           (x\<lparr>cc_input := (cc_input x)[12 := j ! 12, 13 := j ! 13], cc_unused := of_nat (64 - bytes)\<rparr>, take bytes c)
         else let (x, out) = chacha_loop x j (drop 64 m) in (x, c @ out))"
  by pat_completeness auto

termination
  by (relation "measure (\<lambda>(x, j, m). length m)") auto

declare chacha_loop.simps [simp del]

definition chacha_encrypt_bytes :: "chacha_ctx \<Rightarrow> byte list \<Rightarrow> chacha_ctx \<times> byte list" where
  "chacha_encrypt_bytes x m = (if m = [] then (x, []) else chacha_loop x (cc_input x) m)"

section \<open>Nonces and keys\<close>

definition chacha_key :: "chacha_ctx \<Rightarrow> byte list" where
  "chacha_key x = words_bytes (map ((!) (cc_input x)) [4..<12])"

definition chacha_nonce :: "chacha_ctx \<Rightarrow> byte list" where
  "chacha_nonce x = words_bytes (map ((!) (cc_input x)) [13..<16])"

definition chacha_ivsetup :: "chacha_ctx \<Rightarrow> byte list option \<Rightarrow> byte list option \<Rightarrow> chacha_ctx" where
  "chacha_ivsetup x iv counter =
     (let input = (cc_input x)[12 := (case counter of None \<Rightarrow> 0 | Some c \<Rightarrow> ld32 c 0),
            13 := (case counter of None \<Rightarrow> 0 | Some c \<Rightarrow> ld32 c 4)]
      in case iv of
           None \<Rightarrow> x\<lparr>cc_input := input\<rparr>
         | Some iv \<Rightarrow> x\<lparr>cc_input := input[14 := ld32 iv 0, 15 := ld32 iv 4]\<rparr>)"

definition chacha_ivupdate :: "chacha_ctx \<Rightarrow> byte list \<Rightarrow> byte list \<Rightarrow> u32 \<Rightarrow> chacha_ctx" where
  "chacha_ivupdate x iv aad counter =
     x\<lparr>cc_input := (cc_input x)[12 := counter, 13 := ld32 iv 0, 14 := ld32 iv 4 XOR ld32 aad 0,
       15 := ld32 iv 8 XOR ld32 aad 4]\<rparr>"

definition chacha_zero :: chacha_ctx where
  "chacha_zero = \<lparr>cc_input = replicate 16 0, cc_ks = replicate 64 0, cc_unused = 0\<rparr>"

text \<open>\<open>None\<close> is the result -1, which leaves the key as it was.\<close>

definition poly1305_generate_key :: "byte list \<Rightarrow> byte list \<Rightarrow> nat \<Rightarrow> u32 \<Rightarrow> byte list option" where
  "poly1305_generate_key key256 nonce noncelen counter =
     (let ctx = chacha_keysetup chacha_zero key256 256
      in if noncelen = 8 then Some (snd (chacha20_block (chacha_ivsetup ctx (Some nonce) (Some (bytes32 counter @ bytes32 0))) 32))
         else if noncelen = 12 then Some (snd (chacha20_block (chacha_ivsetup_96bitnonce ctx (Some nonce) counter) 32))
         else None)"

definition chacha20_poly1305_key :: "chacha_ctx \<Rightarrow> byte list option" where
  "chacha20_poly1305_key ctx = poly1305_generate_key (chacha_key ctx) (chacha_nonce ctx) 12 0"

section \<open>Lengths\<close>

lemma length_QUARTERROUND [simp]: "length (QUARTERROUND a b c d x) = length x"
  by (simp add: QUARTERROUND_def Let_def)

lemma length_double_round [simp]: "length (chacha_double_round x) = length x"
  by (simp add: chacha_double_round_def Let_def)

lemma length_rounds [simp]: "length (chacha_rounds i x) = length x"
  by (induction i x rule: chacha_rounds.induct) (simp add: chacha_rounds.simps)

lemma length_core [simp]: "length (chacha_core j) = length j"
  by (simp add: chacha_core_def)

lemma length_count [simp]: "length (chacha_count j) = length j"
  by (simp add: chacha_count_def Let_def)

lemma length_counts [simp]: "length ((chacha_count ^^ k) j) = length j"
  by (induction k) auto

lemma words_bytes_Nil [simp]: "words_bytes [] = []"
  by (simp add: words_bytes_def)

lemma words_bytes_Cons [simp]: "words_bytes (w # ws) = bytes32 w @ words_bytes ws"
  by (simp add: words_bytes_def)

lemma words_bytes_append: "words_bytes (a @ b) = words_bytes a @ words_bytes b"
  by (simp add: words_bytes_def)

lemma length_words_bytes [simp]: "length (words_bytes ws) = 4 * length ws"
  by (induction ws) auto

lemma length_xor_block [simp]: "length (xor_block x m) = 64"
  by (simp add: xor_block_def)

section \<open>A block of the cipher is the exclusive or with a block of the key stream\<close>

lemma bytes32_explode:
  "bytes32 x = [ucast x, ucast (drop_bit 8 x), ucast (drop_bit 16 x), ucast (drop_bit 24 x)]"
  by (simp add: bytes32_def bytes16_def) (intro conjI bit_word_eqI; auto simp: bit_simps)

lemma bytes16_of_ld16: "bytes16 (ld16 p i) = [p ! i, p ! (i + 1)]"
  by (simp add: bytes16_def ld16_def) (intro conjI bit_word_eqI; auto simp: bit_simps dest: bit_imp_le_length)

lemma halves_ld32: "ucast (ld32 p i) = ld16 p i" "ucast (drop_bit 16 (ld32 p i)) = ld16 p (i + 2)"
  by (intro bit_word_eqI; auto simp: ld32_def bit_simps dest: bit_imp_le_length)+

lemma bytes32_ld32: "bytes32 (ld32 p i) = [p ! i, p ! (i + 1), p ! (i + 2), p ! (i + 3)]"
  by (simp add: bytes32_def bytes16_of_ld16 halves_ld32 numeral_3_eq_3)

lemma bytes32_xor: "bytes32 (a XOR b) = map2 (XOR) (bytes32 a) (bytes32 b)"
  by (simp add: bytes32_explode) (intro conjI bit_word_eqI; auto simp: bit_simps)

lemma ld32_xor_bytes: "bytes32 (a XOR ld32 m p) = map2 (XOR) (bytes32 a) [m ! p, m ! (p + 1), m ! (p + 2), m ! (p + 3)]"
  by (simp add: bytes32_xor bytes32_ld32)

lemma take4: "p + 4 \<le> length m \<Longrightarrow> take 4 (drop p m) = [m ! p, m ! (p + 1), m ! (p + 2), m ! (p + 3)]"
  by (rule nth_equalityI) (auto simp: less_Suc_eq numeral_eq_Suc)

lemma xor_words:
  "n \<le> length x \<Longrightarrow> 4 * n \<le> length m \<Longrightarrow>
   words_bytes (map (\<lambda>i. x ! i XOR ld32 m (4 * i)) [0..<n]) = map2 (XOR) (words_bytes (take n x)) (take (4 * n) m)"
proof (induction n)
  case (Suc n)
  have t: "take (4 * Suc n) m = take (4 * n) m @ [m ! (4 * n), m ! (4 * n + 1), m ! (4 * n + 2), m ! (4 * n + 3)]"
    using take4 [of "4 * n" m] Suc.prems by (simp only: take_add mult_Suc_right add.commute [of 4])
  have w: "words_bytes (take (Suc n) x) = words_bytes (take n x) @ bytes32 (x ! n)"
    using Suc.prems by (simp add: take_Suc_conv_app_nth words_bytes_append)
  show ?case
    using Suc unfolding t w by (simp add: words_bytes_append ld32_xor_bytes)
qed simp

lemma xor_block_stream:
  "length x = 16 \<Longrightarrow> length m = 64 \<Longrightarrow> xor_block x m = map2 (XOR) (words_bytes x) m"
  using xor_words [of 16 x m] by (simp add: xor_block_def)

section \<open>The key stream\<close>

text \<open>The state with its 64-bit block count moved on by \<open>k\<close>.\<close>

definition counter64 :: "u32 list \<Rightarrow> u64" where
  "counter64 j = ucast (j ! 12) OR push_bit 32 (ucast (j ! 13))"

definition with_counter :: "u32 list \<Rightarrow> u64 \<Rightarrow> u32 list" where
  "with_counter j c = j[12 := ucast c, 13 := ucast (drop_bit 32 c)]"

definition key_stream :: "u32 list \<Rightarrow> nat \<Rightarrow> byte list" where
  "key_stream j n = concat (map (\<lambda>k. words_bytes (chacha_core ((chacha_count ^^ k) j))) [0..<n])"

lemma length_key_stream: "length j = 16 \<Longrightarrow> length (key_stream j n) = 64 * n"
  by (induction n) (auto simp: key_stream_def)

lemma key_stream_0 [simp]: "key_stream j 0 = []"
  by (simp add: key_stream_def)

lemma key_stream_Suc: "key_stream j (Suc n) = words_bytes (chacha_core j) @ key_stream (chacha_count j) n"
  unfolding key_stream_def
  by (subst upt_conv_Cons) (auto simp: funpow_Suc_right comp_def map_Suc_upt [symmetric] simp del: upt_Suc funpow.simps(2))

lemma map2_xor_pad:
  "length m \<le> length s \<Longrightarrow> take (length m) (map2 (XOR) s (m @ z)) = map2 (XOR) (s :: byte list) m"
  by (rule nth_equalityI) (auto simp: nth_append)

lemma map2_long: "length m \<le> length s \<Longrightarrow> map2 f (s @ t) m = map2 f s m"
  by (rule nth_equalityI) (auto simp: nth_append)

text \<open>What the cipher computes: the bytes, and where the state stands afterwards.\<close>

lemma chacha_loop_spec:
  "length j = 16 \<Longrightarrow> m \<noteq> [] \<Longrightarrow>
   snd (chacha_loop x j m) = map2 (XOR) (key_stream j ((length m + 63) div 64)) m \<and>
   cc_input (fst (chacha_loop x j m)) =
     (let j' = (chacha_count ^^ ((length m + 63) div 64)) j in (cc_input x)[12 := j' ! 12, 13 := j' ! 13])"
proof (induction x j m rule: chacha_loop.induct)
  case (1 x j m)
  show ?case
  proof (cases "length m \<le> 64")
    case True
    then have n: "(length m + 63) div 64 = 1" using 1(3) by (cases m) auto
    let ?t = "if length m < 64 then m @ replicate (64 - length m) 0 else take 64 m"
    have t: "take (length m) (xor_block (chacha_core j) ?t) = map2 (XOR) (words_bytes (chacha_core j)) m"
      using True 1(2) by (subst xor_block_stream) (auto simp: map2_xor_pad)
    show ?thesis using True t unfolding n by (simp add: chacha_loop.simps [of x j m] Let_def key_stream_Suc)
  next
    case False
    have n: "(length m + 63) div 64 = Suc ((length (drop 64 m) + 63) div 64)" using False by simp
    have t: "xor_block (chacha_core j) (take 64 m) = map2 (XOR) (words_bytes (chacha_core j)) (take 64 m)"
      using False 1(2) by (simp add: xor_block_stream)
    have m: "map2 (XOR) (key_stream j (Suc k)) m = map2 (XOR) (words_bytes (chacha_core j)) (take 64 m) @
        map2 (XOR) (key_stream (chacha_count j) k) (drop 64 m)" for k
      using False 1(2) by (simp add: key_stream_Suc zip_append1)
    note ih = 1(1) [OF refl refl refl refl refl refl]
    show ?thesis
      using False ih 1(2) unfolding n m t
      by (simp add: chacha_loop.simps [of x j m] Let_def t funpow_swap1 case_prod_unfold)
  qed
qed

lemma key_stream_nth:
  "length j = 16 \<Longrightarrow> i < 64 * n \<Longrightarrow>
   key_stream j n ! i = words_bytes (chacha_core ((chacha_count ^^ (i div 64)) j)) ! (i mod 64)"
proof (induction n arbitrary: i j)
  case (Suc n)
  show ?case
  proof (cases "i < 64")
    case True
    then show ?thesis using Suc by (simp add: key_stream_Suc nth_append)
  next
    case False
    then have d: "i div 64 = Suc ((i - 64) div 64)" "i mod 64 = (i - 64) mod 64"
      by (simp_all add: le_div_geq le_mod_geq not_less)
    have "key_stream (chacha_count j) n ! (i - 64) =
        words_bytes (chacha_core ((chacha_count ^^ ((i - 64) div 64)) (chacha_count j))) ! ((i - 64) mod 64)"
      using False Suc.prems by (intro Suc.IH) auto
    then show ?thesis
      using False Suc.prems(1) unfolding d by (simp add: key_stream_Suc nth_append funpow_swap1)
  qed
qed simp

text \<open>The two words of the counter are one 64-bit number.\<close>

lemma counter_halves:
  "ucast (counter64 j) = j ! 12" "ucast (drop_bit 32 (counter64 j)) = j ! 13"
  by (intro bit_word_eqI; auto simp: counter64_def bit_simps dest: bit_imp_le_length)+

lemma counter_low: "ucast (c + 1 :: u64) = (ucast c + 1 :: u32)"
proof -
  have "unat (ucast (c + 1 :: u64) :: u32) = unat (ucast c + 1 :: u32)"
    by (simp add: unat_word_ariths unsigned_ucast_eq take_bit_eq_mod mod_simps mod_mod_cancel)
  then show ?thesis by (simp add: word_unat_eq_iff)
qed

lemma counter_high:
  "ucast (drop_bit 32 (c + 1 :: u64)) = (ucast (drop_bit 32 c) + (if ucast c + 1 = (0 :: u32) then 1 else 0) :: u32)"
proof -
  have c: "unat c < 2 ^ 64" using unsigned_less [of c] by simp
  have h: "unat c div 2 ^ 32 < 2 ^ 32" using c by (intro less_mult_imp_div_less) simp
  have l: "ucast c + 1 = (0 :: u32) \<longleftrightarrow> Suc (unat c) mod 2 ^ 32 = 0"
    by (simp add: word_unat_eq_iff unat_word_ariths unsigned_ucast_eq take_bit_eq_mod mod_simps)
  have "unat (ucast (drop_bit 32 (c + 1 :: u64)) :: u32) = (Suc (unat c) mod 2 ^ 64 div 2 ^ 32) mod 2 ^ 32"
    by (simp add: unsigned_ucast_eq take_bit_eq_mod unat_drop_bit_eq drop_bit_eq_div unat_word_ariths)
  also have "\<dots> = (unat c div 2 ^ 32 + (if Suc (unat c) mod 2 ^ 32 = 0 then 1 else 0)) mod 2 ^ 32"
    using c by (cases "Suc (unat c) = 2 ^ 64") (auto simp: div_Suc)
  also have "\<dots> = unat (ucast (drop_bit 32 c) + (if ucast c + 1 = (0 :: u32) then 1 else 0) :: u32)"
    using h unfolding l by (simp add: unsigned_ucast_eq take_bit_eq_mod unat_drop_bit_eq drop_bit_eq_div unat_word_ariths mod_simps)
  finally show ?thesis by (simp add: word_unat_eq_iff)
qed

lemma chacha_count_counter: "length j = 16 \<Longrightarrow> chacha_count j = with_counter j (counter64 j + 1)"
  by (simp add: chacha_count_def with_counter_def Let_def counter_low counter_high counter_halves list_update_swap)

lemma counter_with_counter: "length j = 16 \<Longrightarrow> counter64 (with_counter j c) = c"
  by (rule bit_word_eqI) (auto simp: counter64_def with_counter_def bit_simps dest: bit_imp_le_length)

lemma with_counter_twice: "with_counter (with_counter j c) d = with_counter j d"
  by (simp add: with_counter_def list_update_swap)

lemma length_with_counter [simp]: "length (with_counter j c) = length j"
  by (simp add: with_counter_def)

lemma with_counter_same: "length j = 16 \<Longrightarrow> with_counter j (counter64 j) = j"
  unfolding with_counter_def counter_halves by (metis list_update_id)

lemma chacha_counts: "length j = 16 \<Longrightarrow> (chacha_count ^^ k) j = with_counter j (counter64 j + of_nat k)"
  by (induction k) (simp_all add: with_counter_same chacha_count_counter counter_with_counter with_counter_twice ac_simps)

definition keystream_byte :: "u32 list \<Rightarrow> nat \<Rightarrow> byte" where
  "keystream_byte j i = words_bytes (chacha_core (with_counter j (counter64 j + of_nat (i div 64)))) ! (i mod 64)"

lemma encrypt_bytes_spec:
  assumes "length (cc_input x) = 16"
  shows "snd (chacha_encrypt_bytes x m) = map (\<lambda>i. m ! i XOR keystream_byte (cc_input x) i) [0..<length m]" (is ?a)
    and "cc_input (fst (chacha_encrypt_bytes x m)) =
      with_counter (cc_input x) (counter64 (cc_input x) + of_nat ((length m + 63) div 64))" (is ?b)
proof -
  let ?n = "(length m + 63) div 64"
  note l = chacha_loop_spec [OF assms, of m x]
  have n: "length m \<le> 64 * ?n" by linarith
  have "snd (chacha_encrypt_bytes x m) = map2 (XOR) (key_stream (cc_input x) ?n) m"
    using l by (simp add: chacha_encrypt_bytes_def)
  also have "\<dots> = map (\<lambda>i. m ! i XOR keystream_byte (cc_input x) i) [0..<length m]"
    using assms n by (intro nth_equalityI)
      (auto simp: length_key_stream key_stream_nth chacha_counts keystream_byte_def xor.commute)
  finally show ?a .
  show ?b
    using l assms by (simp add: chacha_encrypt_bytes_def chacha_counts with_counter_same Let_def)
      (simp add: with_counter_def)
qed

text \<open>Applying the cipher twice from the same state gives the message back.\<close>

lemma encrypt_bytes_twice:
  assumes "length (cc_input x) = 16" "cc_input y = cc_input x"
  shows "snd (chacha_encrypt_bytes y (snd (chacha_encrypt_bytes x m))) = m"
  using assms by (intro nth_equalityI) (auto simp: encrypt_bytes_spec xor.assoc)

text \<open>A message cut at a block boundary is enciphered piece by piece; the bytes of the key stream kept in the state
  are never used.\<close>

lemma encrypt_bytes_append:
  assumes "length (cc_input x) = 16" "64 dvd length a"
  shows "snd (chacha_encrypt_bytes x (a @ b)) =
      snd (chacha_encrypt_bytes x a) @ snd (chacha_encrypt_bytes (fst (chacha_encrypt_bytes x a)) b)"
proof -
  obtain n where n: "length a = 64 * n" using assms(2) by (auto elim: dvdE)
  have d: "(length a + i) div 64 = n + i div 64" "(length a + i) mod 64 = i mod 64" for i by (simp_all add: n)
  have k: "keystream_byte (with_counter (cc_input x) (counter64 (cc_input x) + of_nat ((length a + 63) div 64))) i = keystream_byte (cc_input x) (length a + i)" for i
    using assms(1) d(1) [of 63]
    by (simp add: keystream_byte_def counter_with_counter with_counter_twice d add.assoc)
  show ?thesis
    using assms(1) by (intro nth_equalityI) (auto simp: encrypt_bytes_spec nth_append k)
qed

end
