(* ===== verification/Poly1305.thy ===== *)
theory Poly1305
  imports ChaCha
begin

text \<open>
  Poly1305 as src/extern/tlse.c has it: five limbs of 26 bits in 64-bit words, messages taken in pieces.  The
  specification is that of RFC 8439 over the natural numbers.
\<close>

section \<open>The code\<close>

record poly1305_ctx =
  pc_r :: "u64 list"
  pc_h :: "u64 list"
  pc_pad :: "u64 list"
  pc_leftover :: nat
  pc_buffer :: "byte list"
  pc_final :: byte

definition U8TO32 :: "byte list \<Rightarrow> nat \<Rightarrow> u64" where
  "U8TO32 p i = ucast (p ! i) OR push_bit 8 (ucast (p ! (i + 1))) OR push_bit 16 (ucast (p ! (i + 2))) OR
     push_bit 24 (ucast (p ! (i + 3)))"

definition U32TO8 :: "u64 \<Rightarrow> byte list" where
  "U32TO8 v = [ucast v, ucast (drop_bit 8 v), ucast (drop_bit 16 v), ucast (drop_bit 24 v)]"

definition poly1305_init :: "poly1305_ctx \<Rightarrow> byte list \<Rightarrow> poly1305_ctx" where
  "poly1305_init st key = st\<lparr>
     pc_r := [U8TO32 key 0 AND 0x3ffffff, drop_bit 2 (U8TO32 key 3) AND 0x3ffff03, drop_bit 4 (U8TO32 key 6) AND 0x3ffc0ff,
       drop_bit 6 (U8TO32 key 9) AND 0x3f03fff, drop_bit 8 (U8TO32 key 12) AND 0x00fffff],
     pc_h := [0, 0, 0, 0, 0],
     pc_pad := [U8TO32 key 16, U8TO32 key 20, U8TO32 key 24, U8TO32 key 28],
     pc_leftover := 0, pc_final := 0\<rparr>"

text \<open>The body of the loop over blocks: \<open>h += m\<close>, \<open>h *= r\<close>, the partial reduction.\<close>

definition poly_add :: "u64 \<Rightarrow> byte list \<Rightarrow> u64 list \<Rightarrow> u64 list" where
  "poly_add hibit m h =
     [h ! 0 + (U8TO32 m 0 AND 0x3ffffff), h ! 1 + (drop_bit 2 (U8TO32 m 3) AND 0x3ffffff),
      h ! 2 + (drop_bit 4 (U8TO32 m 6) AND 0x3ffffff), h ! 3 + (drop_bit 6 (U8TO32 m 9) AND 0x3ffffff),
      h ! 4 + (drop_bit 8 (U8TO32 m 12) OR hibit)]"

definition poly_mult :: "u64 list \<Rightarrow> u64 list \<Rightarrow> u64 list" where
  "poly_mult r h =
     (let r0 = r ! 0; r1 = r ! 1; r2 = r ! 2; r3 = r ! 3; r4 = r ! 4; s1 = r1 * 5; s2 = r2 * 5; s3 = r3 * 5; s4 = r4 * 5;
          h0 = h ! 0; h1 = h ! 1; h2 = h ! 2; h3 = h ! 3; h4 = h ! 4
      in [h0 * r0 + h1 * s4 + h2 * s3 + h3 * s2 + h4 * s1,
          h0 * r1 + h1 * r0 + h2 * s4 + h3 * s3 + h4 * s2,
          h0 * r2 + h1 * r1 + h2 * r0 + h3 * s4 + h4 * s3,
          h0 * r3 + h1 * r2 + h2 * r1 + h3 * r0 + h4 * s4,
          h0 * r4 + h1 * r3 + h2 * r2 + h3 * r1 + h4 * r0])"

definition poly_reduce :: "u64 list \<Rightarrow> u64 list" where
  "poly_reduce d =
     (let c = drop_bit 26 (d ! 0); h0 = d ! 0 AND 0x3ffffff;
          d1 = d ! 1 + c; c = drop_bit 26 d1; h1 = d1 AND 0x3ffffff;
          d2 = d ! 2 + c; c = drop_bit 26 d2; h2 = d2 AND 0x3ffffff;
          d3 = d ! 3 + c; c = drop_bit 26 d3; h3 = d3 AND 0x3ffffff;
          d4 = d ! 4 + c; c = drop_bit 26 d4; h4 = d4 AND 0x3ffffff;
          h0 = h0 + c * 5; c = drop_bit 26 h0; h0 = h0 AND 0x3ffffff;
          h1 = h1 + c
      in [h0, h1, h2, h3, h4])"

fun poly_loop :: "u64 \<Rightarrow> u64 list \<Rightarrow> u64 list \<Rightarrow> byte list \<Rightarrow> u64 list" where
  "poly_loop hibit r h m =
     (if length m < 16 then h else poly_loop hibit r (poly_reduce (poly_mult r (poly_add hibit m h))) (drop 16 m))"

declare poly_loop.simps [simp del]

definition poly1305_blocks :: "poly1305_ctx \<Rightarrow> byte list \<Rightarrow> poly1305_ctx" where
  "poly1305_blocks st m =
     st\<lparr>pc_h := poly_loop (if pc_final st \<noteq> 0 then 0 else push_bit 24 1) (pc_r st) (pc_h st) m\<rparr>"

text \<open>The pieces of \<open>finish\<close>: full carry, \<open>h - p\<close> and the choice between the two, packing into 32-bit words, adding
  the pad.\<close>

definition poly_carry :: "u64 list \<Rightarrow> u64 list" where
  "poly_carry h =
     (let c = drop_bit 26 (h ! 1); h1 = h ! 1 AND 0x3ffffff;
          h2 = h ! 2 + c; c = drop_bit 26 h2; h2 = h2 AND 0x3ffffff;
          h3 = h ! 3 + c; c = drop_bit 26 h3; h3 = h3 AND 0x3ffffff;
          h4 = h ! 4 + c; c = drop_bit 26 h4; h4 = h4 AND 0x3ffffff;
          h0 = h ! 0 + c * 5; c = drop_bit 26 h0; h0 = h0 AND 0x3ffffff;
          h1 = h1 + c
      in [h0, h1, h2, h3, h4])"

definition poly_minus_p :: "u64 list \<Rightarrow> u64 list" where
  "poly_minus_p h =
     (let g0 = h ! 0 + 5; c = drop_bit 26 g0; g0 = g0 AND 0x3ffffff;
          g1 = h ! 1 + c; c = drop_bit 26 g1; g1 = g1 AND 0x3ffffff;
          g2 = h ! 2 + c; c = drop_bit 26 g2; g2 = g2 AND 0x3ffffff;
          g3 = h ! 3 + c; c = drop_bit 26 g3; g3 = g3 AND 0x3ffffff;
          g4 = h ! 4 + c - push_bit 26 1
      in [g0, g1, g2, g3, g4])"

definition poly_select :: "u64 list \<Rightarrow> u64 list \<Rightarrow> u64 list" where
  "poly_select h g =
     (let mask = drop_bit 63 (g ! 4) - 1
      in map2 (\<lambda>h g. (h AND NOT mask) OR (g AND mask)) h g)"

definition poly_pack :: "u64 list \<Rightarrow> u64 list" where
  "poly_pack h =
     [(h ! 0 OR push_bit 26 (h ! 1)) AND 0xffffffff, (drop_bit 6 (h ! 1) OR push_bit 20 (h ! 2)) AND 0xffffffff,
      (drop_bit 12 (h ! 2) OR push_bit 14 (h ! 3)) AND 0xffffffff, (drop_bit 18 (h ! 3) OR push_bit 8 (h ! 4)) AND 0xffffffff]"

definition poly_mac :: "u64 list \<Rightarrow> u64 list \<Rightarrow> byte list" where
  "poly_mac h pad =
     (let f0 = h ! 0 + pad ! 0; f1 = h ! 1 + pad ! 1 + drop_bit 32 f0; f2 = h ! 2 + pad ! 2 + drop_bit 32 f1;
          f3 = h ! 3 + pad ! 3 + drop_bit 32 f2
      in U32TO8 f0 @ U32TO8 f1 @ U32TO8 f2 @ U32TO8 f3)"

definition poly1305_finish :: "poly1305_ctx \<Rightarrow> poly1305_ctx \<times> byte list" where
  "poly1305_finish st =
     (let i = pc_leftover st;
          st = (if i \<noteq> 0 then
                  let st = st\<lparr>pc_buffer := stn (pc_buffer st) i (1 # replicate (15 - i) 0), pc_final := 1\<rparr>
                  in poly1305_blocks st (pc_buffer st)
                else st);
          h = poly_carry (pc_h st);
          h = poly_pack (poly_select h (poly_minus_p h))
      in (st\<lparr>pc_h := [0, 0, 0, 0, 0], pc_r := [0, 0, 0, 0, 0], pc_pad := [0, 0, 0, 0]\<rparr>, poly_mac h (pc_pad st)))"

definition poly1305_whole_blocks :: "poly1305_ctx \<Rightarrow> byte list \<Rightarrow> poly1305_ctx" where
  "poly1305_whole_blocks st m =
     (let want = (if 16 \<le> length m then length m div 16 * 16 else 0);
          st = (if 16 \<le> length m then poly1305_blocks st (take want m) else st);
          m = drop want m
      in if m \<noteq> [] then
           st\<lparr>pc_buffer := stn (pc_buffer st) (pc_leftover st) m, pc_leftover := pc_leftover st + length m\<rparr>
         else st)"

definition poly1305_update :: "poly1305_ctx \<Rightarrow> byte list \<Rightarrow> poly1305_ctx" where
  "poly1305_update st m =
     (if pc_leftover st \<noteq> 0 then
        let want = min (16 - pc_leftover st) (length m);
            st = st\<lparr>pc_buffer := stn (pc_buffer st) (pc_leftover st) (take want m), pc_leftover := pc_leftover st + want\<rparr>;
            m = drop want m
        in if pc_leftover st < 16 then st
           else poly1305_whole_blocks ((poly1305_blocks st (pc_buffer st))\<lparr>pc_leftover := 0\<rparr>) m
      else poly1305_whole_blocks st m)"

definition poly1305_verify :: "byte list \<Rightarrow> byte list \<Rightarrow> u32" where
  "poly1305_verify mac1 mac2 =
     (let dif = foldl (\<lambda>dif i. dif OR ucast (mac1 ! i XOR mac2 ! i)) 0 [0..<16] :: u32
      in drop_bit 31 (dif - 1) AND 1)"

section \<open>The specification\<close>

definition p1305 :: nat where "p1305 = 2 ^ 130 - 5"

definition le_num :: "byte list \<Rightarrow> nat" where
  "le_num bs = horner_sum unat 256 bs"

primrec le_bytes :: "nat \<Rightarrow> nat \<Rightarrow> byte list" where
  "le_bytes 0 x = []"
| "le_bytes (Suc n) x = of_nat (x mod 256) # le_bytes n (x div 256)"

definition poly_clamp :: "byte list \<Rightarrow> byte list" where
  "poly_clamp r = r[3 := r ! 3 AND 15, 7 := r ! 7 AND 15, 11 := r ! 11 AND 15, 15 := r ! 15 AND 15,
     4 := r ! 4 AND 252, 8 := r ! 8 AND 252, 12 := r ! 12 AND 252]"

function poly_acc :: "nat \<Rightarrow> nat \<Rightarrow> byte list \<Rightarrow> nat" where
  "poly_acc r a m = (if m = [] then a else poly_acc r ((a + le_num (take 16 m @ [1])) * r mod p1305) (drop 16 m))"
  by pat_completeness auto

termination by (relation "measure (\<lambda>(r, a, m). length m)") auto

declare poly_acc.simps [simp del]

definition poly1305_tag :: "byte list \<Rightarrow> byte list \<Rightarrow> byte list" where
  "poly1305_tag key m =
     le_bytes 16 (poly_acc (le_num (poly_clamp (take 16 key))) 0 m + le_num (take 16 (drop 16 key)))"

end
