(* ===== verification/Poly1305Props.thy ===== *)
theory Poly1305Props
  imports Poly1305
begin

text \<open>
  The limbs of Poly1305 never overflow and compute the polynomial of the standard modulo 2^130 - 5; a message in any
  pieces gives the tag of the whole.
\<close>

section \<open>64-bit words as numbers\<close>

lemma unat_add64: "unat (a :: u64) + unat b < 2 ^ 64 \<Longrightarrow> unat (a + b) = unat a + unat b"
  by (simp add: unat_word_ariths)

lemma unat_mult64: "unat (a :: u64) * unat b < 2 ^ 64 \<Longrightarrow> unat (a * b) = unat a * unat b"
  by (simp add: unat_word_ariths)

lemma unat_shift64: "unat (drop_bit n (a :: u64)) = unat a div 2 ^ n"
  unfolding unat_drop_bit_eq by (rule drop_bit_eq_div)

lemma unat_low26: "unat (a AND 0x3ffffff :: u64) = unat a mod 2 ^ 26"
proof -
  have "a AND 0x3ffffff = take_bit 26 a" by (simp add: take_bit_eq_mask mask_eq_exp_minus_1)
  then show ?thesis by (simp add: take_bit_eq_mod unat_mod_distrib)
qed

lemmas unat64 = unat_add64 unat_mult64 unat_shift64 unat_low26

definition val :: "u64 list \<Rightarrow> nat" where
  "val h = unat (h ! 0) + 2 ^ 26 * unat (h ! 1) + 2 ^ 52 * unat (h ! 2) + 2 ^ 78 * unat (h ! 3) + 2 ^ 104 * unat (h ! 4)"

lemma val_list: "val [h0, h1, h2, h3, h4] = unat h0 + 2 ^ 26 * unat h1 + 2 ^ 52 * unat h2 + 2 ^ 78 * unat h3 + 2 ^ 104 * unat h4"
  by (simp add: val_def)

lemma five: "length h = 5 \<Longrightarrow> \<exists>h0 h1 h2 h3 h4. h = [h0, h1, h2, h3, h4]"
  by (auto simp: eval_nat_numeral length_Suc_conv)

section \<open>Multiplication\<close>

lemma dot5:
  assumes "unat a0 < 2 ^ 28" "unat a1 < 2 ^ 28" "unat a2 < 2 ^ 28" "unat a3 < 2 ^ 28" "unat a4 < 2 ^ 28"
    and "unat b0 < 2 ^ 29" "unat b1 < 2 ^ 29" "unat b2 < 2 ^ 29" "unat b3 < 2 ^ 29" "unat b4 < 2 ^ 29"
  shows "unat (a0 * b0 + a1 * b1 + a2 * b2 + a3 * b3 + a4 * b4 :: u64) =
      unat a0 * unat b0 + unat a1 * unat b1 + unat a2 * unat b2 + unat a3 * unat b3 + unat a4 * unat b4"
    and "unat (a0 * b0 + a1 * b1 + a2 * b2 + a3 * b3 + a4 * b4 :: u64) < 2 ^ 60"
proof -
  have m: "unat a * unat b < 2 ^ 57" if "unat a < 2 ^ 28" "unat b < 2 ^ 29" for a b :: u64
    using mult_strict_mono [of "unat a" "2 ^ 28" "unat b" "2 ^ 29"] that by simp
  note p = m [OF assms(1) assms(6)] m [OF assms(2) assms(7)] m [OF assms(3) assms(8)] m [OF assms(4) assms(9)]
    m [OF assms(5) assms(10)]
  show e: "unat (a0 * b0 + a1 * b1 + a2 * b2 + a3 * b3 + a4 * b4 :: u64) =
      unat a0 * unat b0 + unat a1 * unat b1 + unat a2 * unat b2 + unat a3 * unat b3 + unat a4 * unat b4"
    using p by (simp add: unat_add64 unat_mult64)
  show "unat (a0 * b0 + a1 * b1 + a2 * b2 + a3 * b3 + a4 * b4 :: u64) < 2 ^ 60"
    unfolding e using p by simp
qed

definition limbs_below :: "nat \<Rightarrow> u64 list \<Rightarrow> bool" where
  "limbs_below b h \<longleftrightarrow> length h = 5 \<and> list_all (\<lambda>x. unat x < b) h"

lemma limbs_belowD:
  assumes "limbs_below b h"
  shows "unat (h ! 0) < b" "unat (h ! Suc 0) < b" "unat (h ! 2) < b" "unat (h ! 3) < b" "unat (h ! 4) < b"
  using assms by (auto simp: limbs_below_def list_all_length)

lemma poly_mult_val:
  assumes h: "limbs_below (2 ^ 28) h" and r: "limbs_below (2 ^ 26) r"
  shows "limbs_below (2 ^ 60) (poly_mult r h)" (is ?a) and "val (poly_mult r h) mod p1305 = val h * val r mod p1305" (is ?b)
proof -
  note hb = limbs_belowD [OF h]
  have rb: "unat (r ! 0) < 2 ^ 29" "unat (r ! Suc 0) < 2 ^ 29" "unat (r ! 2) < 2 ^ 29" "unat (r ! 3) < 2 ^ 29" "unat (r ! 4) < 2 ^ 29"
    using limbs_belowD [OF r] by simp_all
  have s: "unat (x * 5 :: u64) = 5 * unat x" "unat (x * 5 :: u64) < 2 ^ 29" if "unat x < 2 ^ 26" for x :: u64
    using that by (simp_all add: unat_mult64)
  note sb = limbs_belowD [OF r, THEN s(2)] note se = limbs_belowD [OF r, THEN s(1)]
  note d0 = dot5 [OF hb rb(1) sb(5) sb(4) sb(3) sb(2)] and d1 = dot5 [OF hb rb(2) rb(1) sb(5) sb(4) sb(3)]
    and d2 = dot5 [OF hb rb(3) rb(2) rb(1) sb(5) sb(4)] and d3 = dot5 [OF hb rb(4) rb(3) rb(2) rb(1) sb(5)]
    and d4 = dot5 [OF hb rb(5) rb(4) rb(3) rb(2) rb(1)]
  show ?a
    using d0(2) d1(2) d2(2) d3(2) d4(2) by (simp add: limbs_below_def poly_mult_def Let_def)
  let ?k = "unat (h ! 1) * unat (r ! 4) + unat (h ! 2) * unat (r ! 3) + unat (h ! 3) * unat (r ! 2) + unat (h ! 4) * unat (r ! 1) +
    2 ^ 26 * (unat (h ! 2) * unat (r ! 4) + unat (h ! 3) * unat (r ! 3) + unat (h ! 4) * unat (r ! 2)) +
    2 ^ 52 * (unat (h ! 3) * unat (r ! 4) + unat (h ! 4) * unat (r ! 3)) + 2 ^ 78 * (unat (h ! 4) * unat (r ! 4))"
  have "val h * val r = val (poly_mult r h) + p1305 * ?k"
    using d0(1) d1(1) d2(1) d3(1) d4(1) se
    by (simp add: val_def poly_mult_def Let_def p1305_def algebra_simps)
  then show ?b by simp
qed

section \<open>Carries\<close>

text \<open>One step of a carry: what is kept and what goes to the next limb.\<close>

lemma carry_step:
  assumes "unat (d :: u64) < 2 ^ 61" "unat c < 2 ^ 40"
  shows "unat (d + c) = unat d + unat c" "unat (drop_bit 26 (d + c)) = (unat d + unat c) div 2 ^ 26"
    "unat ((d + c) AND 0x3ffffff) = (unat d + unat c) mod 2 ^ 26" "unat (drop_bit 26 (d + c)) < 2 ^ 36"
    "unat ((d + c) AND 0x3ffffff) < 2 ^ 26"
  using assms by (simp_all add: unat64 less_mult_imp_div_less)

lemma carry_chain:
  fixes d0 :: nat
  assumes "d0 = 2 ^ 26 * c1 + l0" "d1 + c1 = 2 ^ 26 * c2 + l1" "d2 + c2 = 2 ^ 26 * c3 + l2" "d3 + c3 = 2 ^ 26 * c4 + l3"
    "d4 + c4 = 2 ^ 26 * c5 + l4" "l0 + 5 * c5 = 2 ^ 26 * c6 + k0"
  shows "d0 + 2 ^ 26 * d1 + 2 ^ 52 * d2 + 2 ^ 78 * d3 + 2 ^ 104 * d4 =
    k0 + 2 ^ 26 * (l1 + c6) + 2 ^ 52 * l2 + 2 ^ 78 * l3 + 2 ^ 104 * l4 + p1305 * c5"
  using assms unfolding p1305_def by simp

lemma split26: "(x :: nat) = 2 ^ 26 * (x div 2 ^ 26) + x mod 2 ^ 26"
  by simp

text \<open>What the partial reduction leaves: only the second limb may exceed 26 bits, and by little.\<close>

definition partly_reduced :: "u64 list \<Rightarrow> bool" where
  "partly_reduced h \<longleftrightarrow> length h = 5 \<and> unat (h ! 0) < 2 ^ 26 \<and> unat (h ! 1) < 2 ^ 26 + 2 ^ 20 \<and> unat (h ! 2) < 2 ^ 26 \<and>
     unat (h ! 3) < 2 ^ 26 \<and> unat (h ! 4) < 2 ^ 26"

lemma partly_reduced_below:
  assumes "partly_reduced h"
  shows "limbs_below (2 ^ 27) h"
proof -
  obtain h0 h1 h2 h3 h4 where h: "h = [h0, h1, h2, h3, h4]" using assms five [of h] by (auto simp: partly_reduced_def)
  show ?thesis using assms unfolding h by (simp add: partly_reduced_def limbs_below_def)
qed

lemma poly_reduce_val:
  assumes "limbs_below (2 ^ 60) d"
  shows "val (poly_reduce d) mod p1305 = val d mod p1305" (is ?a)
    and "partly_reduced (poly_reduce d)" (is ?b)
proof -
  note db = limbs_belowD [OF assms]
  define c1 where "c1 = drop_bit 26 (d ! 0)"
  define c2 where "c2 = drop_bit 26 (d ! 1 + c1)"
  define c3 where "c3 = drop_bit 26 (d ! 2 + c2)"
  define c4 where "c4 = drop_bit 26 (d ! 3 + c3)"
  define c5 where "c5 = drop_bit 26 (d ! 4 + c4)"
  have b: "unat (d ! i) < 2 ^ 61" if "i < 5" for i using assms that by (auto simp: limbs_below_def list_all_length)
  have c1: "unat c1 = unat (d ! 0) div 2 ^ 26" "unat c1 < 2 ^ 40"
    using db(1) by (simp_all add: c1_def unat64 less_mult_imp_div_less)
  note s1 = carry_step [OF b [of 1] c1(2), folded c2_def, simplified]
  have c2: "unat c2 < 2 ^ 40" using s1(4) by simp
  note s2 = carry_step [OF b [of 2] c2, folded c3_def, simplified]
  have c3: "unat c3 < 2 ^ 40" using s2(4) by simp
  note s3 = carry_step [OF b [of 3] c3, folded c4_def, simplified]
  have c4: "unat c4 < 2 ^ 40" using s3(4) by simp
  note s4 = carry_step [OF b [of 4] c4, folded c5_def, simplified]
  have c5: "unat (c5 * 5) = 5 * unat c5" "unat (c5 * 5) < 2 ^ 40" using s4(4) by (simp_all add: unat_mult64)
  have "unat (d ! 0) mod 2 ^ 26 < 2 ^ 26" by (rule mod_less_divisor) simp
  then have "unat (d ! 0 AND 0x3ffffff) < 2 ^ 61" unfolding unat_low26 by simp
  note s0 = carry_step [OF this c5(2), simplified]
  define c6 where "c6 = drop_bit 26 ((d ! 0 AND 0x3ffffff) + c5 * 5)"
  have l0: "unat (d ! 0 AND 0x3ffffff) = unat (d ! 0) mod 2 ^ 26" by (simp add: unat_low26)
  have c6: "unat c6 = (unat (d ! 0) mod 2 ^ 26 + 5 * unat c5) div 2 ^ 26" using s0(2) c5(1) l0 by (simp add: c6_def)
  then have c6b: "unat c6 < 2 ^ 20" using s4(4) by simp
  have r: "poly_reduce d = [((d ! 0 AND 0x3ffffff) + c5 * 5) AND 0x3ffffff, ((d ! 1 + c1) AND 0x3ffffff) + c6,
      (d ! 2 + c2) AND 0x3ffffff, (d ! 3 + c3) AND 0x3ffffff, (d ! 4 + c4) AND 0x3ffffff]"
    unfolding poly_reduce_def Let_def c6_def c5_def c4_def c3_def c2_def c1_def ..
  have h1: "unat (((d ! 1 + c1) AND 0x3ffffff) + c6) = unat ((d ! 1 + c1) AND 0x3ffffff) + unat c6"
    using s1(5) c6b by (intro unat_add64) simp
  have "unat (d ! 0) = 2 ^ 26 * unat c1 + unat (d ! 0 AND 0x3ffffff)" using c1(1) l0 by simp
  moreover have "unat (d ! 1) + unat c1 = 2 ^ 26 * unat c2 + unat ((d ! 1 + c1) AND 0x3ffffff)" using s1(2,3) by simp
  moreover have "unat (d ! 2) + unat c2 = 2 ^ 26 * unat c3 + unat ((d ! 2 + c2) AND 0x3ffffff)" using s2(2,3) by simp
  moreover have "unat (d ! 3) + unat c3 = 2 ^ 26 * unat c4 + unat ((d ! 3 + c3) AND 0x3ffffff)" using s3(2,3) by simp
  moreover have "unat (d ! 4) + unat c4 = 2 ^ 26 * unat c5 + unat ((d ! 4 + c4) AND 0x3ffffff)" using s4(2,3) by simp
  moreover have "unat (d ! 0 AND 0x3ffffff) + 5 * unat c5 =
      2 ^ 26 * unat c6 + unat (((d ! 0 AND 0x3ffffff) + c5 * 5) AND 0x3ffffff)" using s0(3) c5(1) c6 l0 by simp
  ultimately have "val d = val (poly_reduce d) + p1305 * unat c5"
    unfolding val_def [of d] r val_list h1 by (rule carry_chain)
  then show ?a by simp
  show ?b using s0(5) s1(5) s2(5) s3(5) s4(5) h1 c6b unfolding r partly_reduced_def by simp
qed

section \<open>Adding a block\<close>

lemma unat_or_push:
  assumes "unat (a :: u64) < 2 ^ n" "unat a + 2 ^ n * unat b < 2 ^ 64"
  shows "unat (a OR push_bit n b) = unat a + 2 ^ n * unat b"
proof -
  have t: "take_bit n a = a"
    using assms(1) by (simp add: word_unat_eq_iff unsigned_take_bit_eq take_bit_nat_eq_self)
  have "a AND push_bit n b = 0"
    by (subst t [symmetric]) (rule bit_word_eqI, auto simp: bit_simps)
  then have "a OR push_bit n b = a + push_bit n b" by (simp add: disjunctive_add_eq_or)
  moreover have "unat (push_bit n b) = 2 ^ n * unat b"
    using assms(2) unfolding unsigned_push_bit_eq push_bit_eq_mult [of n "unat b"]
    by (simp add: take_bit_nat_eq_self mult.commute)
  ultimately show ?thesis using assms(2) by (simp add: unat_add64)
qed

lemma unat_byte: "unat (b :: byte) < 256" "unat (ucast b :: u64) = unat b"
proof -
  have "unat b < 2 ^ LENGTH(8)" by (rule unsigned_less)
  then show b: "unat b < 256" by simp
  show "unat (ucast b :: u64) = unat b" using b by (simp add: unsigned_ucast_eq take_bit_nat_eq_self)
qed

lemma unat_U8TO32:
  "unat (U8TO32 p i) = unat (p ! i) + 256 * unat (p ! (i + 1)) + 65536 * unat (p ! (i + 2)) + 16777216 * unat (p ! (i + 3))"
  using unat_byte(1) [of "p ! i"] unat_byte(1) [of "p ! (i + 1)"] unat_byte(1) [of "p ! (i + 2)"] unat_byte(1) [of "p ! (i + 3)"]
  unfolding U8TO32_def or.assoc [symmetric] by (simp add: unat_or_push unat_byte(2))

lemma le_num_Nil [simp]: "le_num [] = 0"
  by (simp add: le_num_def)

lemma le_num_Cons [simp]: "le_num (b # bs) = unat b + 256 * le_num bs"
  by (simp add: le_num_def)

lemma le_num_append: "le_num (a @ b) = le_num a + 256 ^ length a * le_num b"
  by (induction a) (auto simp: algebra_simps)

lemma le_num_less: "le_num bs < 256 ^ length bs"
proof (induction bs)
  case (Cons b bs)
  then show ?case using unat_byte(1) [of b] by simp
qed simp

lemma le_num_16:
  assumes "16 \<le> length m"
  shows "le_num (take 16 m) = unat (m ! 0) + 256 * unat (m ! 1) + 256 ^ 2 * unat (m ! 2) + 256 ^ 3 * unat (m ! 3) +
    256 ^ 4 * unat (m ! 4) + 256 ^ 5 * unat (m ! 5) + 256 ^ 6 * unat (m ! 6) + 256 ^ 7 * unat (m ! 7) +
    256 ^ 8 * unat (m ! 8) + 256 ^ 9 * unat (m ! 9) + 256 ^ 10 * unat (m ! 10) + 256 ^ 11 * unat (m ! 11) +
    256 ^ 12 * unat (m ! 12) + 256 ^ 13 * unat (m ! 13) + 256 ^ 14 * unat (m ! 14) + 256 ^ 15 * unat (m ! 15)"
proof -
  have "take 16 m = map ((!) m) [0..<16]" using assms by (intro nth_equalityI) auto
  also have "[0..<16] = [0, 1, 2, 3, 4, 5, 6, 7, 8, 9, 10, 11, 12, 13, 14, 15]" by (simp add: upt_rec)
  finally show ?thesis by (simp add: le_num_def)
qed

text \<open>The 26-bit limbs of four bytes, and the limb of the clamped key.\<close>

lemma mod26: "(x :: nat) = y + 67108864 * q \<Longrightarrow> y < 67108864 \<Longrightarrow> x mod 67108864 = y"
  by simp

lemma div_step: "(x :: nat) = k * y + z \<Longrightarrow> z < k \<Longrightarrow> x div k = y"
  by simp

lemma split_at: "(b :: nat) = k * (b div k) + b mod k"
  by simp

lemma limb_arith:
  fixes b0 :: nat
  assumes b: "b0 < 256" "b1 < 256" "b2 < 256" "b3 < 256"
  defines "x \<equiv> b0 + 256 * b1 + 65536 * b2 + 16777216 * b3"
  shows "x mod 67108864 = b0 + 256 * b1 + 65536 * b2 + 16777216 * (b3 mod 4)"
    "x div 4 mod 67108864 = b0 div 4 + 64 * b1 + 16384 * b2 + 4194304 * (b3 mod 16)"
    "x div 16 mod 67108864 = b0 div 16 + 16 * b1 + 4096 * b2 + 1048576 * (b3 mod 64)"
    "x div 64 mod 67108864 = b0 div 64 + 4 * b1 + 1024 * b2 + 262144 * b3"
    "x div 256 = b1 + 256 * b2 + 65536 * b3"
proof -
  have m: "b mod 4 < 4" "b mod 16 < 16" "b mod 64 < 64" for b :: nat by simp_all
  note s4 = split_at [of _ 4] and s16 = split_at [of _ 16] and s64 = split_at [of _ 64]
  show "x mod 67108864 = b0 + 256 * b1 + 65536 * b2 + 16777216 * (b3 mod 4)"
    using b m(1) [of b3] s4 [of b3] unfolding x_def by (intro mod26 [where q = "b3 div 4"]) linarith+
  have "x div 4 = b0 div 4 + 64 * b1 + 16384 * b2 + 4194304 * b3"
    unfolding x_def by (intro div_step [where z = "b0 mod 4"]) simp_all
  then show "x div 4 mod 67108864 = b0 div 4 + 64 * b1 + 16384 * b2 + 4194304 * (b3 mod 16)"
    using b m(2) [of b3] s16 [of b3] s4 [of b0] by (intro mod26 [where q = "b3 div 16"]) linarith+
  have "x div 16 = b0 div 16 + 16 * b1 + 4096 * b2 + 1048576 * b3"
    unfolding x_def by (intro div_step [where z = "b0 mod 16"]) simp_all
  then show "x div 16 mod 67108864 = b0 div 16 + 16 * b1 + 4096 * b2 + 1048576 * (b3 mod 64)"
    using b m(3) [of b3] s64 [of b3] s16 [of b0] by (intro mod26 [where q = "b3 div 64"]) linarith+
  have "x div 64 = b0 div 64 + 4 * b1 + 1024 * b2 + 262144 * b3"
    unfolding x_def by (intro div_step [where z = "b0 mod 64"]) simp_all
  then show "x div 64 mod 67108864 = b0 div 64 + 4 * b1 + 1024 * b2 + 262144 * b3"
    using b s64 [of b0] by (intro mod26 [where q = 0]) linarith+
  show "x div 256 = b1 + 256 * b2 + 65536 * b3"
    using b unfolding x_def by (intro div_step [where z = b0]) simp_all
qed

lemma limbs_sum:
  fixes b0 :: nat
  assumes "b3 = 4 * q3 + r3" "b6 = 16 * q6 + r6" "b9 = 64 * q9 + r9"
  shows "b0 + 256 * b1 + 65536 * b2 + 16777216 * r3 + 2 ^ 26 * (q3 + 64 * b4 + 16384 * b5 + 4194304 * r6) +
      2 ^ 52 * (q6 + 16 * b7 + 4096 * b8 + 1048576 * r9) + 2 ^ 78 * (q9 + 4 * b10 + 1024 * b11 + 262144 * b12) +
      2 ^ 104 * (b13 + 256 * b14 + 65536 * b15) =
    b0 + 256 * b1 + 256 ^ 2 * b2 + 256 ^ 3 * b3 + 256 ^ 4 * b4 + 256 ^ 5 * b5 + 256 ^ 6 * b6 + 256 ^ 7 * b7 + 256 ^ 8 * b8 +
      256 ^ 9 * b9 + 256 ^ 10 * b10 + 256 ^ 11 * b11 + 256 ^ 12 * b12 + 256 ^ 13 * b13 + 256 ^ 14 * b14 + 256 ^ 15 * b15"
  using assms by simp

text \<open>The limbs that are added for a block.\<close>

definition block_limbs :: "byte list \<Rightarrow> u64 list" where
  "block_limbs m = [U8TO32 m 0 AND 0x3ffffff, drop_bit 2 (U8TO32 m 3) AND 0x3ffffff, drop_bit 4 (U8TO32 m 6) AND 0x3ffffff,
     drop_bit 6 (U8TO32 m 9) AND 0x3ffffff, drop_bit 8 (U8TO32 m 12)]"

lemma val_block_limbs:
  assumes "16 \<le> length m"
  shows "val (block_limbs m) = le_num (take 16 m)" "limbs_below (2 ^ 26) (block_limbs m)" "unat (drop_bit 8 (U8TO32 m 12)) < 2 ^ 24"
proof -
  note b = unat_byte(1)
  note s = split_at [of "unat (m ! 3)" 4] split_at [of "unat (m ! 6)" 16] split_at [of "unat (m ! 9)" 64]
  have e: "val (block_limbs m) = unat (m ! 0) + 256 * unat (m ! 1) + 65536 * unat (m ! 2) + 16777216 * (unat (m ! 3) mod 4) +
      2 ^ 26 * (unat (m ! 3) div 4 + 64 * unat (m ! 4) + 16384 * unat (m ! 5) + 4194304 * (unat (m ! 6) mod 16)) +
      2 ^ 52 * (unat (m ! 6) div 16 + 16 * unat (m ! 7) + 4096 * unat (m ! 8) + 1048576 * (unat (m ! 9) mod 64)) +
      2 ^ 78 * (unat (m ! 9) div 64 + 4 * unat (m ! 10) + 1024 * unat (m ! 11) + 262144 * unat (m ! 12)) +
      2 ^ 104 * (unat (m ! 13) + 256 * unat (m ! 14) + 65536 * unat (m ! 15))"
    by (simp add: block_limbs_def val_list unat64 unat_U8TO32 limb_arith b numeral_2_eq_2 [symmetric] del: One_nat_def)
  show "val (block_limbs m) = le_num (take 16 m)"
    unfolding e le_num_16 [OF assms] by (rule limbs_sum [OF s])
  have t: "unat (m ! 13) + 256 * unat (m ! 14) + 65536 * unat (m ! 15) < 16777216"
    using b [of "m ! 13"] b [of "m ! 14"] b [of "m ! 15"] by linarith
  show "limbs_below (2 ^ 26) (block_limbs m)" "unat (drop_bit 8 (U8TO32 m 12)) < 2 ^ 24"
    using less_trans [OF t] t by (simp_all add: limbs_below_def block_limbs_def unat64 unat_U8TO32 limb_arith(5) b)
qed

lemma poly_add_val:
  assumes m: "16 \<le> length m" and h: "limbs_below (2 ^ 27) h" and hb: "hibit = 0 \<or> hibit = 2 ^ 24"
  shows "val (poly_add hibit m h) = val h + le_num (take 16 m) + 2 ^ 104 * unat hibit"
    and "limbs_below (2 ^ 28) (poly_add hibit m h)"
proof -
  note v = val_block_limbs [OF m] and hb' = limbs_belowD [OF h]
  note l = limbs_belowD [OF v(2)]
  have u: "unat hibit = 0 \<or> unat hibit = 2 ^ 24" using hb by auto
  have o: "unat (drop_bit 8 (U8TO32 m 12) OR hibit) = unat (drop_bit 8 (U8TO32 m 12)) + unat hibit"
  proof (cases "hibit = 0")
    case False
    then have "hibit = push_bit 24 1" using hb by (simp add: push_bit_eq_mult)
    then show ?thesis using v(3) unat_or_push [of "drop_bit 8 (U8TO32 m 12)" 24 1] by simp
  qed simp
  let ?a = "block_limbs m"
  have e: "poly_add hibit m h = [h ! 0 + ?a ! 0, h ! 1 + ?a ! 1, h ! 2 + ?a ! 2, h ! 3 + ?a ! 3,
      h ! 4 + (drop_bit 8 (U8TO32 m 12) OR hibit)]" by (simp add: poly_add_def block_limbs_def)
  have a4: "?a ! 4 = drop_bit 8 (U8TO32 m 12)" by (simp add: block_limbs_def)
  have s: "unat (h ! 0 + ?a ! 0) = unat (h ! 0) + unat (?a ! 0)" "unat (h ! 1 + ?a ! 1) = unat (h ! 1) + unat (?a ! 1)"
    "unat (h ! 2 + ?a ! 2) = unat (h ! 2) + unat (?a ! 2)" "unat (h ! 3 + ?a ! 3) = unat (h ! 3) + unat (?a ! 3)"
    "unat (h ! 4 + (drop_bit 8 (U8TO32 m 12) OR hibit)) = unat (h ! 4) + unat (?a ! 4) + unat hibit"
    using hb' l u o v(3) a4 by (auto simp: unat_add64)
  show "val (poly_add hibit m h) = val h + le_num (take 16 m) + 2 ^ 104 * unat hibit"
    unfolding e val_list s v(1) [symmetric] by (simp add: val_def)
  show "limbs_below (2 ^ 28) (poly_add hibit m h)"
    using hb' l u v(3) a4 unfolding e limbs_below_def by (auto simp: s [unfolded One_nat_def])
qed

section \<open>The key\<close>

lemma below26:
  "(n :: nat) < 26 \<Longrightarrow> n \<in> {0, 1, 2, 3, 4, 5, 6, 7, 8, 9, 10, 11, 12, 13, 14, 15, 16, 17, 18, 19, 20, 21, 22, 23, 24, 25}"
  by (simp add: eval_nat_numeral less_Suc_eq)

lemma bits_above: "unat (x :: u64) < 2 ^ 26 \<Longrightarrow> \<not> n < 26 \<Longrightarrow> \<not> bit x n"
proof -
  assume "unat x < 2 ^ 26" "\<not> n < 26"
  then have "take_bit 26 x = x" by (simp add: word_unat_eq_iff unsigned_take_bit_eq take_bit_nat_eq_self)
  then have "bit x n \<longleftrightarrow> bit (take_bit 26 x) n" by simp
  then show "\<not> bit x n" using \<open>\<not> n < 26\<close> by (simp add: bit_take_bit_iff)
qed

text \<open>Each mask clears the bits of its limb that the standard clears in the bytes of the key.\<close>

lemma clamp0:
  "(ucast (a :: byte) OR push_bit 8 (ucast (b :: byte)) OR push_bit 16 (ucast (c :: byte)) OR push_bit 24 (ucast (d AND 15 :: byte))) AND 0x3ffffff =
   (ucast (a :: byte) OR push_bit 8 (ucast (b :: byte)) OR push_bit 16 (ucast (c :: byte)) OR push_bit 24 (ucast (d :: byte))) AND (0x3ffffff :: u64)" (is "?l = ?r")
proof (rule bit_word_eqI)
  fix n assume "n < LENGTH(64)"
  show "bit ?l n = bit ?r n"
  proof (cases "n < 26")
    case True
    show ?thesis using below26 [OF True]
      by (elim insertE emptyE) (auto simp: bit_simps dest: bit_imp_le_length)
  next
    case False
    have "\<not> bit (0x3ffffff :: u64) n" "\<not> bit (0x3ffffff :: u64) n" by (rule bits_above [OF _ False], simp)+
    then show ?thesis using False by (auto simp: bit_simps dest: bit_imp_le_length)
  qed
qed

lemma clamp1:
  "drop_bit 2 (ucast (a AND 15 :: byte) OR push_bit 8 (ucast (b AND 252 :: byte)) OR push_bit 16 (ucast (c :: byte)) OR push_bit 24 (ucast (d :: byte))) AND 0x3ffffff =
   drop_bit 2 (ucast (a :: byte) OR push_bit 8 (ucast (b :: byte)) OR push_bit 16 (ucast (c :: byte)) OR push_bit 24 (ucast (d :: byte))) AND (0x3ffff03 :: u64)" (is "?l = ?r")
proof (rule bit_word_eqI)
  fix n assume "n < LENGTH(64)"
  show "bit ?l n = bit ?r n"
  proof (cases "n < 26")
    case True
    show ?thesis using below26 [OF True]
      by (elim insertE emptyE) (auto simp: bit_simps dest: bit_imp_le_length)
  next
    case False
    have "\<not> bit (0x3ffffff :: u64) n" "\<not> bit (0x3ffff03 :: u64) n" by (rule bits_above [OF _ False], simp)+
    then show ?thesis using False by (auto simp: bit_simps dest: bit_imp_le_length)
  qed
qed

lemma clamp2:
  "drop_bit 4 (ucast (a :: byte) OR push_bit 8 (ucast (b AND 15 :: byte)) OR push_bit 16 (ucast (c AND 252 :: byte)) OR push_bit 24 (ucast (d :: byte))) AND 0x3ffffff =
   drop_bit 4 (ucast (a :: byte) OR push_bit 8 (ucast (b :: byte)) OR push_bit 16 (ucast (c :: byte)) OR push_bit 24 (ucast (d :: byte))) AND (0x3ffc0ff :: u64)" (is "?l = ?r")
proof (rule bit_word_eqI)
  fix n assume "n < LENGTH(64)"
  show "bit ?l n = bit ?r n"
  proof (cases "n < 26")
    case True
    show ?thesis using below26 [OF True]
      by (elim insertE emptyE) (auto simp: bit_simps dest: bit_imp_le_length)
  next
    case False
    have "\<not> bit (0x3ffffff :: u64) n" "\<not> bit (0x3ffc0ff :: u64) n" by (rule bits_above [OF _ False], simp)+
    then show ?thesis using False by (auto simp: bit_simps dest: bit_imp_le_length)
  qed
qed

lemma clamp3:
  "drop_bit 6 (ucast (a :: byte) OR push_bit 8 (ucast (b :: byte)) OR push_bit 16 (ucast (c AND 15 :: byte)) OR push_bit 24 (ucast (d AND 252 :: byte))) AND 0x3ffffff =
   drop_bit 6 (ucast (a :: byte) OR push_bit 8 (ucast (b :: byte)) OR push_bit 16 (ucast (c :: byte)) OR push_bit 24 (ucast (d :: byte))) AND (0x3f03fff :: u64)" (is "?l = ?r")
proof (rule bit_word_eqI)
  fix n assume "n < LENGTH(64)"
  show "bit ?l n = bit ?r n"
  proof (cases "n < 26")
    case True
    show ?thesis using below26 [OF True]
      by (elim insertE emptyE) (auto simp: bit_simps dest: bit_imp_le_length)
  next
    case False
    have "\<not> bit (0x3ffffff :: u64) n" "\<not> bit (0x3f03fff :: u64) n" by (rule bits_above [OF _ False], simp)+
    then show ?thesis using False by (auto simp: bit_simps dest: bit_imp_le_length)
  qed
qed

lemma clamp4:
  "drop_bit 8 (ucast (a AND 252 :: byte) OR push_bit 8 (ucast (b :: byte)) OR push_bit 16 (ucast (c :: byte)) OR push_bit 24 (ucast (d AND 15 :: byte))) =
   drop_bit 8 (ucast (a :: byte) OR push_bit 8 (ucast (b :: byte)) OR push_bit 16 (ucast (c :: byte)) OR push_bit 24 (ucast (d :: byte))) AND (0x00fffff :: u64)" (is "?l = ?r")
proof (rule bit_word_eqI)
  fix n assume "n < LENGTH(64)"
  show "bit ?l n = bit ?r n"
  proof (cases "n < 26")
    case True
    show ?thesis using below26 [OF True]
      by (elim insertE emptyE) (auto simp: bit_simps dest: bit_imp_le_length)
  next
    case False
    have "\<not> bit (0x3ffffff :: u64) n" "\<not> bit (0x00fffff :: u64) n" by (rule bits_above [OF _ False], simp)+
    then show ?thesis using False by (auto simp: bit_simps dest: bit_imp_le_length)
  qed
qed

lemma clamped_limbs:
  assumes "16 \<le> length key"
  shows "pc_r (poly1305_init st key) = block_limbs (poly_clamp (take 16 key))"
  using assms
  by (simp add: poly1305_init_def block_limbs_def poly_clamp_def U8TO32_def clamp0 clamp1 clamp2 clamp3 clamp4 del: drop_bit_or)

section \<open>Blocks\<close>

text \<open>The accumulator of the code: limbs that stay small and the remainder they stand for.\<close>

definition poly_h :: "u64 list \<Rightarrow> nat \<Rightarrow> bool" where
  "poly_h h a \<longleftrightarrow> partly_reduced h \<and> val h mod p1305 = a mod p1305"

lemma poly_h_mod: "poly_h h (a mod p1305) = poly_h h a"
  by (simp add: poly_h_def)

lemma poly_block_step:
  assumes "16 \<le> length m" "poly_h h a" "limbs_below (2 ^ 26) r" "hibit = 0 \<or> hibit = 2 ^ 24"
  shows "poly_h (poly_reduce (poly_mult r (poly_add hibit m h))) ((a + le_num (take 16 m) + 2 ^ 104 * unat hibit) * val r)"
proof -
  note p = poly_add_val [OF assms(1) _ assms(4), of h]
  have h: "limbs_below (2 ^ 27) h" "val h mod p1305 = a mod p1305" using assms(2) partly_reduced_below by (auto simp: poly_h_def)
  note m = poly_mult_val [OF p(2) [OF h(1)] assms(3)]
  note d = poly_reduce_val [OF m(1)]
  have "val (poly_add hibit m h) mod p1305 = (a + le_num (take 16 m) + 2 ^ 104 * unat hibit) mod p1305"
    unfolding p(1) [OF h(1)] by (simp only: add.assoc mod_add_left_eq [symmetric, of "val h"] h(2)) (simp only: mod_add_left_eq)
  then have "val (poly_add hibit m h) * val r mod p1305 = (a + le_num (take 16 m) + 2 ^ 104 * unat hibit) * val r mod p1305"
    by (metis mod_mult_left_eq)
  then show ?thesis using d m(2) by (simp add: poly_h_def)
qed

lemma poly_loop_acc:
  "length m = 16 * n \<Longrightarrow> poly_h h a \<Longrightarrow> limbs_below (2 ^ 26) r \<Longrightarrow> poly_h (poly_loop (push_bit 24 1) r h m) (poly_acc (val r) a m)"
proof (induction n arbitrary: h a m)
  case 0
  then show ?case by (simp add: poly_loop.simps poly_acc.simps)
next
  case (Suc n)
  let ?h = "poly_reduce (poly_mult r (poly_add (push_bit 24 1) m h))"
  let ?a = "(a + le_num (take 16 m @ [1])) * val r mod p1305"
  have u: "unat (push_bit 24 (1 :: u64)) = 2 ^ 24" by (simp add: push_bit_eq_mult)
  have "le_num (take 16 m @ [1]) = le_num (take 16 m) + 2 ^ 104 * 2 ^ 24" using Suc.prems by (simp add: le_num_append)
  then have "poly_h ?h ?a"
    using poly_block_step [of m h a r "push_bit 24 1", unfolded u] Suc.prems
    by (simp add: poly_h_mod add.assoc push_bit_eq_mult)
  then have "poly_h (poly_loop (push_bit 24 1) r ?h (drop 16 m)) (poly_acc (val r) ?a (drop 16 m))"
    using Suc.prems by (intro Suc.IH) auto
  moreover have "m \<noteq> []" using Suc.prems by auto
  ultimately show ?case
    using Suc.prems by (simp add: poly_loop.simps [of _ _ h] poly_acc.simps [of _ a m])
qed

lemma poly_acc_append: "length a = 16 * n \<Longrightarrow> poly_acc r x (a @ b) = poly_acc r (poly_acc r x a) b"
proof (induction n arbitrary: x a)
  case 0
  then show ?case by (simp add: poly_acc.simps [of _ _ "[]"])
next
  case (Suc n)
  then have "a \<noteq> []" by auto
  then show ?case
    using Suc by (simp add: poly_acc.simps [of _ x "a @ b"] poly_acc.simps [of _ x a])
qed

section \<open>A message in pieces\<close>

abbreviation key_r :: "byte list \<Rightarrow> u64 list" where
  "key_r key \<equiv> block_limbs (poly_clamp (take 16 key))"

text \<open>What the state stands for after a message: the blocks that are complete and, in the buffer, the rest.\<close>

definition absorbed :: "byte list \<Rightarrow> byte list \<Rightarrow> poly1305_ctx \<Rightarrow> bool" where
  "absorbed key m st \<longleftrightarrow>
     pc_r st = key_r key \<and> pc_pad st = map (U8TO32 key) [16, 20, 24, 28] \<and> pc_final st = 0 \<and>
     length (pc_buffer st) = 16 \<and> pc_leftover st = length m mod 16 \<and>
     take (pc_leftover st) (pc_buffer st) = drop (length m div 16 * 16) m \<and>
     poly_h (pc_h st) (poly_acc (val (key_r key)) 0 (take (length m div 16 * 16) m))"

lemma key_r_props:
  assumes "16 \<le> length key"
  shows "limbs_below (2 ^ 26) (key_r key)" "val (key_r key) = le_num (poly_clamp (take 16 key))"
  using assms val_block_limbs [of "poly_clamp (take 16 key)"] by (simp_all add: poly_clamp_def)

lemma absorbed_init:
  assumes "16 \<le> length key" "length (pc_buffer st) = 16"
  shows "absorbed key [] (poly1305_init st key)"
proof -
  have "pc_r (poly1305_init st key) = key_r key" by (rule clamped_limbs [OF assms(1)])
  then show ?thesis using assms(2)
    by (simp add: absorbed_def poly1305_init_def poly_h_def partly_reduced_def val_def poly_acc.simps)
qed

lemma take_stn: "i + length bs \<le> length p \<Longrightarrow> take (i + length bs) (stn p i bs) = take i p @ bs"
proof (induction bs arbitrary: p i)
  case (Cons b bs)
  then have "take (Suc i + length bs) (stn (p[i := b]) (Suc i) bs) = take (Suc i) (p[i := b]) @ bs"
    using Cons.IH [of "Suc i" "p[i := b]"] by simp
  then show ?case using Cons.prems by (simp add: take_Suc_conv_app_nth)
qed simp

lemma absorbed_whole_blocks:
  assumes key: "16 \<le> length key" and st: "absorbed key a st" and a: "16 dvd length a"
  shows "absorbed key (a @ m) (poly1305_whole_blocks st m)"
proof -
  let ?w = "length m div 16 * 16"
  let ?st = "if 16 \<le> length m then poly1305_blocks st (take ?w m) else st"
  obtain n where n: "length a = 16 * n" using a by (auto elim: dvdE)
  have l: "length (a @ m) div 16 * 16 = length a + ?w" "length (a @ m) mod 16 = length m mod 16" using n by auto
  have w: "16 \<le> length m \<or> ?w = 0" by (cases "16 \<le> length m") auto
  have acc: "poly_acc (val (key_r key)) 0 (take (length a + ?w) (a @ m)) =
      poly_acc (val (key_r key)) (poly_acc (val (key_r key)) 0 a) (take ?w m)"
    using poly_acc_append [OF n] by simp
  have h: "poly_h (pc_h st) (poly_acc (val (key_r key)) 0 a)" using st n by (simp add: absorbed_def)
  have "poly_h (pc_h ?st) (poly_acc (val (key_r key)) 0 (take (length a + ?w) (a @ m)))"
  proof (cases "16 \<le> length m")
    case True
    then have "length (take ?w m) = 16 * (length m div 16)" by simp
    from poly_loop_acc [OF this h key_r_props(1) [OF key]] show ?thesis
      using True st unfolding acc by (simp add: absorbed_def poly1305_blocks_def)
  next
    case False
    then show ?thesis using w h unfolding acc by (simp add: poly_acc.simps [of _ _ "[]"])
  qed
  moreover have st': "pc_leftover ?st = 0" "pc_buffer ?st = pc_buffer st" "pc_r ?st = key_r key"
      "pc_pad ?st = map (U8TO32 key) [16, 20, 24, 28]" "pc_final ?st = 0" "length (pc_buffer st) = 16"
    using st n by (simp_all add: absorbed_def poly1305_blocks_def)
  moreover have "take (length m mod 16) (stn (pc_buffer st) 0 (drop ?w m)) = drop ?w m"
    using take_stn [of 0 "drop ?w m" "pc_buffer st"] st'(6) by (simp add: minus_div_mult_eq_mod)
  moreover have "poly1305_whole_blocks st m = (if drop ?w m = [] then ?st
      else ?st\<lparr>pc_buffer := stn (pc_buffer ?st) (pc_leftover ?st) (drop ?w m), pc_leftover := pc_leftover ?st + length (drop ?w m)\<rparr>)"
    using w unfolding poly1305_whole_blocks_def Let_def by auto
  moreover have "length m mod 16 = length (drop ?w m)" by (simp add: minus_div_mult_eq_mod)
  ultimately show ?thesis
    unfolding absorbed_def l by (cases "drop ?w m = []") simp_all
qed

lemma absorbed_fill:
  assumes st: "absorbed key a st" and m: "length a mod 16 + length m \<le> 16" "length a mod 16 \<noteq> 0"
  defines "s \<equiv> st\<lparr>pc_buffer := stn (pc_buffer st) (pc_leftover st) m, pc_leftover := pc_leftover st + length m\<rparr>"
  shows "length a mod 16 + length m < 16 \<Longrightarrow> absorbed key (a @ m) s"
    and "length a mod 16 + length m = 16 \<Longrightarrow> 16 \<le> length key \<Longrightarrow>
      absorbed key (a @ m) ((poly1305_blocks s (pc_buffer s))\<lparr>pc_leftover := 0\<rparr>) \<and> 16 dvd length (a @ m)"
proof -
  let ?n = "length a div 16" and ?k = "length a mod 16"
  have a: "length a = 16 * ?n + ?k" by simp
  have t: "take ?k (pc_buffer st) = drop (?n * 16) a" "length (pc_buffer st) = 16" "pc_leftover st = ?k"
    using st by (auto simp: absorbed_def)
  have b: "take (?k + length m) (stn (pc_buffer st) ?k m) = drop (?n * 16) a @ m"
    using take_stn [of ?k m "pc_buffer st"] t m(1) by simp
  show "absorbed key (a @ m) s" if lt: "?k + length m < 16"
  proof -
    have "length (a @ m) = 16 * ?n + (?k + length m)" using a by simp
    then have "length (a @ m) div 16 = ?n" "length (a @ m) mod 16 = ?k + length m"
      using lt by (simp_all only: div_mult_self4 mod_mult_self4 div_mult_self2 mod_mult_self2) simp_all
    then show ?thesis using st b unfolding absorbed_def s_def by simp
  qed
  show "absorbed key (a @ m) ((poly1305_blocks s (pc_buffer s))\<lparr>pc_leftover := 0\<rparr>) \<and> 16 dvd length (a @ m)"
    if eq: "?k + length m = 16" and key: "16 \<le> length key"
  proof -
    have "length (a @ m) = 16 * ?n + ?k + length m" by simp
    also have "\<dots> = 16 * ?n + 16" unfolding add.assoc eq ..
    finally have l: "length (a @ m) = 16 * Suc ?n" by simp
    then have d: "length (a @ m) div 16 * 16 = length (a @ m)" "length (a @ m) mod 16 = 0" "16 dvd length (a @ m)" by simp_all
    have lb: "length (pc_buffer st) = 16" using st by (simp add: absorbed_def)
    then have s: "pc_buffer s = drop (?n * 16) a @ m" using b eq st by (simp add: absorbed_def s_def)
    have "poly_h (pc_h st) (poly_acc (val (key_r key)) 0 (take (?n * 16) a))" using st by (simp add: absorbed_def)
    then have "poly_h (poly_loop (push_bit 24 1) (key_r key) (pc_h st) (pc_buffer s))
        (poly_acc (val (key_r key)) (poly_acc (val (key_r key)) 0 (take (?n * 16) a)) (pc_buffer s))"
      using lb by (intro poly_loop_acc [where n = 1] key_r_props(1) key) (simp_all add: s_def)
    moreover have "take (?n * 16) a @ pc_buffer s = a @ m" unfolding s by (simp flip: append_assoc)
    moreover have "length (take (?n * 16) a) = 16 * ?n" by simp
    ultimately have "poly_h (poly_loop (push_bit 24 1) (key_r key) (pc_h st) (pc_buffer s)) (poly_acc (val (key_r key)) 0 (a @ m))"
      using poly_acc_append [of "take (?n * 16) a" ?n _ _ "pc_buffer s"] by simp
    then show ?thesis
      using st d lb unfolding absorbed_def by (simp add: poly1305_blocks_def s_def)
  qed
qed

lemma absorbed_update:
  assumes "16 \<le> length key" "absorbed key a st"
  shows "absorbed key (a @ m) (poly1305_update st m)"
proof (cases "length a mod 16 = 0")
  case True
  then have "pc_leftover st = 0" "16 dvd length a" using assms(2) by (auto simp: absorbed_def)
  then show ?thesis using absorbed_whole_blocks [OF assms] by (simp add: poly1305_update_def)
next
  case False
  let ?w = "min (16 - length a mod 16) (length m)"
  have lo: "pc_leftover st = length a mod 16" using assms(2) by (simp add: absorbed_def)
  have w: "length a mod 16 + length (take ?w m) \<le> 16" by simp
  note f = absorbed_fill [OF assms(2) w False]
  show ?thesis
  proof (cases "length a mod 16 + length m < 16")
    case True
    then show ?thesis using f(1) False lo by (simp add: poly1305_update_def Let_def)
  next
    case F: False
    then have l: "length a mod 16 + length (take ?w m) = 16" by simp
    let ?s = "st\<lparr>pc_buffer := stn (pc_buffer st) (pc_leftover st) (take ?w m), pc_leftover := pc_leftover st + length (take ?w m)\<rparr>"
    have "poly1305_update st m = poly1305_whole_blocks ((poly1305_blocks ?s (pc_buffer ?s))\<lparr>pc_leftover := 0\<rparr>) (drop ?w m)"
      using False l unfolding poly1305_update_def Let_def lo by simp
    moreover have "a @ m = (a @ take ?w m) @ drop ?w m" by simp
    ultimately show ?thesis using f(2) [OF l assms(1)] by (metis absorbed_whole_blocks assms(1))
  qed
qed

section \<open>The end of a message\<close>

lemma list_of_limbs: "limbs_below b h \<Longrightarrow> h = [h ! 0, h ! 1, h ! 2, h ! 3, h ! 4]"
  using five [of h] by (auto simp: limbs_below_def)

text \<open>After a full carry every limb has 26 bits: the last carry into the second limb finds room.\<close>

lemma last_carry:
  fixes h0 :: nat
  assumes "h0 < 2 ^ 26" "h1 < 2 ^ 26 + 2 ^ 20" "h2 < 2 ^ 26" "h3 < 2 ^ 26" "h4 < 2 ^ 26"
    and "c1 = h1 div 2 ^ 26" "c2 = (h2 + c1) div 2 ^ 26" "c3 = (h3 + c2) div 2 ^ 26" "c4 = (h4 + c3) div 2 ^ 26"
  shows "h1 mod 2 ^ 26 + (h0 + 5 * c4) div 2 ^ 26 < 2 ^ 26" "c1 \<le> 1" "c2 \<le> 1" "c3 \<le> 1" "c4 \<le> 1"
proof -
  have d: "x div 2 ^ 26 \<le> 1" if "x < 2 ^ 27" for x :: nat
    using less_mult_imp_div_less [of x 2 "2 ^ 26"] that by simp
  show c1: "c1 \<le> 1" unfolding assms(6) using assms(2) by (intro d) simp
  show c2: "c2 \<le> 1" unfolding assms(7) using assms(3) c1 by (intro d) simp
  show c3: "c3 \<le> 1" unfolding assms(8) using assms(4) c2 by (intro d) simp
  show c: "c4 \<le> 1" unfolding assms(9) using assms(5) c3 by (intro d) simp
  show "h1 mod 2 ^ 26 + (h0 + 5 * c4) div 2 ^ 26 < 2 ^ 26"
  proof (cases "h1 < 2 ^ 26")
    case True
    then have "c1 = 0" "c2 = 0" "c3 = 0" "c4 = 0" using assms by simp_all
    then show ?thesis using True assms(1) by simp
  next
    case False
    then have "h1 mod 2 ^ 26 < 2 ^ 20" using assms(2) by (simp add: le_mod_geq)
    moreover have "(h0 + 5 * c4) div 2 ^ 26 \<le> 1" using assms(1) c by (intro d) simp
    ultimately show ?thesis by simp
  qed
qed

lemma poly_carry_val:
  assumes "partly_reduced h"
  shows "limbs_below (2 ^ 26) (poly_carry h)" (is ?a) and "val (poly_carry h) mod p1305 = val h mod p1305" (is ?b)
proof -
  have hb: "unat (h ! 0) < 2 ^ 26" "unat (h ! 1) < 2 ^ 26 + 2 ^ 20" "unat (h ! 2) < 2 ^ 26" "unat (h ! 3) < 2 ^ 26"
    "unat (h ! 4) < 2 ^ 26" using assms by (simp_all add: partly_reduced_def)
  define c1 where "c1 = drop_bit 26 (h ! 1)"
  define c2 where "c2 = drop_bit 26 (h ! 2 + c1)"
  define c3 where "c3 = drop_bit 26 (h ! 3 + c2)"
  define c4 where "c4 = drop_bit 26 (h ! 4 + c3)"
  define c6 where "c6 = drop_bit 26 (h ! 0 + c4 * 5)"
  have small: "unat (d + c) = unat d + unat c" if "unat (d :: u64) < 2 ^ 26" "unat c \<le> 5" for d c
    using that by (intro unat_add64) simp
  have e1: "unat c1 = unat (h ! 1) div 2 ^ 26" by (simp add: c1_def unat64)
  then have "unat c1 \<le> 5" using hb(2) by simp
  note p2 = small [OF hb(3) this]
  have e2: "unat c2 = (unat (h ! 2) + unat c1) div 2 ^ 26" unfolding c2_def unat_shift64 p2 ..
  then have "unat c2 \<le> 5" using hb(3) \<open>unat c1 \<le> 5\<close> by simp
  note p3 = small [OF hb(4) this]
  have e3: "unat c3 = (unat (h ! 3) + unat c2) div 2 ^ 26" unfolding c3_def unat_shift64 p3 ..
  then have "unat c3 \<le> 5" using hb(4) \<open>unat c2 \<le> 5\<close> by simp
  note p4 = small [OF hb(5) this]
  have e4: "unat c4 = (unat (h ! 4) + unat c3) div 2 ^ 26" unfolding c4_def unat_shift64 p4 ..
  note l = last_carry [OF hb e1 e2 e3 e4]
  have p5: "unat (c4 * 5) = 5 * unat c4" using l(5) by (simp add: unat_mult64)
  have p0: "unat (h ! 0 + c4 * 5) = unat (h ! 0) + 5 * unat c4" using small [OF hb(1), of "c4 * 5"] p5 l(5) by simp
  have e6: "unat c6 = (unat (h ! 0) + 5 * unat c4) div 2 ^ 26" unfolding c6_def unat_shift64 p0 ..
  have p1: "unat ((h ! 1 AND 0x3ffffff) + c6) = unat (h ! 1 AND 0x3ffffff) + unat c6"
    using l(1) unfolding e6 [symmetric] unat_low26 [symmetric] by (intro unat_add64) simp
  have r: "poly_carry h = [(h ! 0 + c4 * 5) AND 0x3ffffff, (h ! 1 AND 0x3ffffff) + c6, (h ! 2 + c1) AND 0x3ffffff,
      (h ! 3 + c2) AND 0x3ffffff, (h ! 4 + c3) AND 0x3ffffff]"
    unfolding poly_carry_def Let_def c6_def c4_def c3_def c2_def c1_def ..
  show ?a using l(1) p1 unfolding r limbs_below_def by (simp add: unat_low26 e6)
  have "unat (h ! 0) = 2 ^ 26 * 0 + unat (h ! 0)" by simp
  moreover have "unat (h ! 1) + 0 = 2 ^ 26 * unat c1 + unat (h ! 1 AND 0x3ffffff)" by (simp add: e1 unat_low26)
  moreover have "unat (h ! 2) + unat c1 = 2 ^ 26 * unat c2 + unat ((h ! 2 + c1) AND 0x3ffffff)" by (simp add: e2 unat_low26 p2)
  moreover have "unat (h ! 3) + unat c2 = 2 ^ 26 * unat c3 + unat ((h ! 3 + c2) AND 0x3ffffff)" by (simp add: e3 unat_low26 p3)
  moreover have "unat (h ! 4) + unat c3 = 2 ^ 26 * unat c4 + unat ((h ! 4 + c3) AND 0x3ffffff)" by (simp add: e4 unat_low26 p4)
  moreover have "unat (h ! 0) + 5 * unat c4 = 2 ^ 26 * unat c6 + unat ((h ! 0 + c4 * 5) AND 0x3ffffff)" by (simp add: e6 unat_low26 p0)
  ultimately have "val h = val (poly_carry h) + p1305 * unat c4"
    unfolding val_def [of h] r val_list p1 by (rule carry_chain)
  then show ?b by simp
qed

text \<open>Choosing between \<open>h\<close> and \<open>h - p\<close> by the borrow of the subtraction.\<close>

lemma top_bit:
  assumes "unat (t :: u64) \<le> 2 ^ 26"
  shows "drop_bit 63 (t - push_bit 26 1) - 1 = (if unat t < 2 ^ 26 then 0 else - 1)" (is "?l = _")
    and "2 ^ 26 \<le> unat t \<Longrightarrow> t - push_bit 26 1 = 0"
proof -
  show z: "t - push_bit 26 1 = 0" if "2 ^ 26 \<le> unat t"
  proof -
    have "t = push_bit 26 1" using assms that by (simp add: word_unat_eq_iff push_bit_eq_mult)
    then show ?thesis by simp
  qed
  show "?l = (if unat t < 2 ^ 26 then 0 else - 1)"
  proof (cases "unat t < 2 ^ 26")
    case True
    have "unat (t - push_bit 26 1) = 2 ^ 64 + unat t - 2 ^ 26"
      using True by (simp add: unat_sub_if' word_le_nat_alt push_bit_eq_mult)
    then have "unat (drop_bit 63 (t - push_bit 26 1)) = 1"
      unfolding unat_shift64 using True by (simp add: div_nat_eqI)
    then have "drop_bit 63 (t - push_bit 26 1) = 1" by (metis unsigned_1 word_unat_eq_iff)
    then show ?thesis using True by simp
  next
    case False
    then show ?thesis using z by simp
  qed
qed

lemma minus_p_chain:
  fixes h0 :: nat
  assumes "h0 + 5 = 2 ^ 26 * c1 + g0" "h1 + c1 = 2 ^ 26 * c2 + g1" "h2 + c2 = 2 ^ 26 * c3 + g2" "h3 + c3 = 2 ^ 26 * c4 + g3"
  shows "h0 + 2 ^ 26 * h1 + 2 ^ 52 * h2 + 2 ^ 78 * h3 + 2 ^ 104 * h4 + 5 =
    g0 + 2 ^ 26 * g1 + 2 ^ 52 * g2 + 2 ^ 78 * g3 + 2 ^ 104 * (h4 + c4)"
  using assms by simp

lemma poly_select_val:
  assumes "limbs_below (2 ^ 26) h"
  shows "limbs_below (2 ^ 26) (poly_select h (poly_minus_p h))" (is ?a)
    and "val (poly_select h (poly_minus_p h)) = val h mod p1305" (is ?b)
proof -
  note hb = limbs_belowD [OF assms]
  define c1 where "c1 = drop_bit 26 (h ! 0 + 5)"
  define c2 where "c2 = drop_bit 26 (h ! 1 + c1)"
  define c3 where "c3 = drop_bit 26 (h ! 2 + c2)"
  define c4 where "c4 = drop_bit 26 (h ! 3 + c3)"
  have d: "x div 2 ^ 26 \<le> 1" if "x < 2 ^ 27" for x :: nat
    using less_mult_imp_div_less [of x 2 "2 ^ 26"] that by simp
  have small: "unat (d + c) = unat d + unat c" "unat (drop_bit 26 (d + c)) = (unat d + unat c) div 2 ^ 26"
      "unat (drop_bit 26 (d + c)) \<le> 1" if "unat (d :: u64) < 2 ^ 26" "unat c \<le> 5" for d c
  proof -
    show e: "unat (d + c) = unat d + unat c" using that by (intro unat_add64) simp
    then show f: "unat (drop_bit 26 (d + c)) = (unat d + unat c) div 2 ^ 26" by (simp only: unat_shift64)
    show "unat (drop_bit 26 (d + c)) \<le> 1" unfolding f using that by (intro d) simp
  qed
  have le5: "x \<le> 1 \<Longrightarrow> x \<le> 5" for x :: nat by simp
  have "unat (5 :: u64) \<le> 5" by simp
  note s0 = small [OF hb(1) this, folded c1_def]
  note s1 = small [OF hb(2) le5, OF s0(3), folded c2_def [unfolded One_nat_def]]
  note s2 = small [OF hb(3) le5, OF s1(3), folded c3_def]
  note s3 = small [OF hb(4) le5, OF s2(3), folded c4_def]
  note s4 = small(1) [OF hb(5) le5, OF s3(3)]
  let ?t = "h ! 4 + c4"
  have t: "unat ?t \<le> 2 ^ 26" unfolding s4 using hb(5) s3(3) by simp
  let ?g = "[(h ! 0 + 5) AND 0x3ffffff, (h ! 1 + c1) AND 0x3ffffff, (h ! 2 + c2) AND 0x3ffffff, (h ! 3 + c3) AND 0x3ffffff,
    ?t - push_bit 26 1]"
  have g: "poly_minus_p h = ?g"
    unfolding poly_minus_p_def Let_def c4_def c3_def c2_def c1_def ..
  have sel: "poly_select h ?g = (if unat ?t < 2 ^ 26 then h else ?g)"
  proof -
    obtain h0 h1 h2 h3 h4 where h: "h = [h0, h1, h2, h3, h4]" using list_of_limbs [OF assms] by blast
    show ?thesis using top_bit(1) [OF t] unfolding poly_select_def Let_def h by simp
  qed
  have c: "val h + 5 = unat ((h ! 0 + 5) AND 0x3ffffff) + 2 ^ 26 * unat ((h ! 1 + c1) AND 0x3ffffff) +
      2 ^ 52 * unat ((h ! 2 + c2) AND 0x3ffffff) + 2 ^ 78 * unat ((h ! 3 + c3) AND 0x3ffffff) + 2 ^ 104 * unat ?t"
    unfolding val_def [of h] s4
  proof (rule minus_p_chain)
    show "unat (h ! 0) + 5 = 2 ^ 26 * unat c1 + unat ((h ! 0 + 5) AND 0x3ffffff)" using s0 by (simp add: unat_low26)
    show "unat (h ! 1) + unat c1 = 2 ^ 26 * unat c2 + unat ((h ! 1 + c1) AND 0x3ffffff)" using s1 by (simp add: unat_low26)
    show "unat (h ! 2) + unat c2 = 2 ^ 26 * unat c3 + unat ((h ! 2 + c2) AND 0x3ffffff)" using s2 by (simp add: unat_low26)
    show "unat (h ! 3) + unat c3 = 2 ^ 26 * unat c4 + unat ((h ! 3 + c3) AND 0x3ffffff)" using s3 by (simp add: unat_low26)
  qed
  have lb: "unat (x AND 0x3ffffff :: u64) < 2 ^ 26" for x unfolding unat_low26 by simp
  note l = lb [of "h ! 0 + 5"] lb [of "h ! 1 + c1"] lb [of "h ! 2 + c2"] lb [of "h ! 3 + c3"]
  have "?a \<and> ?b"
  proof (cases "unat ?t < 2 ^ 26")
    case True
    then have "val h < p1305" using c l unfolding p1305_def by simp
    then show ?thesis using True assms unfolding g sel by simp
  next
    case False
    then have t': "unat ?t = 2 ^ 26" using t by simp
    have z: "?t - push_bit 26 1 = 0" using top_bit(2) [OF t] False by simp
    have "val ?g + p1305 = val h" using c unfolding t' val_list z p1305_def by simp
    moreover have "val ?g < p1305" using c l t' hb unfolding val_list z p1305_def val_def [of h] by simp
    ultimately have "val h mod p1305 = val ?g" by (metis mod_add_self2 mod_less)
    moreover have "limbs_below (2 ^ 26) ?g" using l unfolding limbs_below_def z by simp
    ultimately show ?thesis using False unfolding g sel by (simp only: if_False)
  qed
  then show ?a ?b by simp_all
qed

text \<open>Packing into 32-bit words drops what is above 2^128.\<close>

lemma unat_low32: "unat (a AND 0xffffffff :: u64) = unat a mod 2 ^ 32"
proof -
  have "a AND 0xffffffff = take_bit 32 a" by (simp add: take_bit_eq_mask mask_eq_exp_minus_1)
  then show ?thesis by (simp add: take_bit_eq_mod unat_mod_distrib)
qed

lemma pack_word:
  assumes "unat (a :: u64) < 2 ^ 26" "unat b < 2 ^ 26" "k + n = 26" "n + w = 32"
  shows "unat ((drop_bit k a OR push_bit n b) AND 0xffffffff) = unat a div 2 ^ k + 2 ^ n * (unat b mod 2 ^ w)"
proof -
  have k: "(2 :: nat) ^ 26 = 2 ^ n * 2 ^ k" using assms(3) by (simp add: power_add [symmetric] ac_simps)
  have d: "unat a div 2 ^ k < 2 ^ n" using assms(1) unfolding k by (intro less_mult_imp_div_less)
  have "unat a div 2 ^ k + 2 ^ n * unat b < 2 ^ n * (unat b + 1)" using d by simp
  also have "\<dots> \<le> 2 ^ n * 2 ^ 26" using assms(2) by (intro mult_left_mono) auto
  also have "\<dots> \<le> 2 ^ 26 * 2 ^ 26" using assms(3) by (intro mult_right_mono power_increasing) auto
  finally have "unat a div 2 ^ k + 2 ^ n * unat b < 2 ^ 64" by simp
  then have "unat (drop_bit k a OR push_bit n b) = unat a div 2 ^ k + 2 ^ n * unat b"
    using unat_or_push [of "drop_bit k a" n b] d by (simp only: unat_shift64)
  then have "unat ((drop_bit k a OR push_bit n b) AND 0xffffffff) = (unat a div 2 ^ k + 2 ^ n * unat b) mod (2 ^ n * 2 ^ w)"
    unfolding unat_low32 assms(4) [symmetric] power_add by simp
  also have "\<dots> = unat a div 2 ^ k + 2 ^ n * (unat b mod 2 ^ w)"
    using d by (simp add: mod_mult2_eq)
  finally show ?thesis .
qed

lemma pack_sum:
  fixes h0 :: nat
  assumes "h1 = 64 * q1 + r1" "h2 = 4096 * q2 + r2" "h3 = 262144 * q3 + r3" "h4 = 16777216 * q4 + r4"
  shows "h0 + 2 ^ 26 * h1 + 2 ^ 52 * h2 + 2 ^ 78 * h3 + 2 ^ 104 * h4 =
    (h0 + 2 ^ 26 * r1) + 2 ^ 32 * (q1 + 2 ^ 20 * r2) + 2 ^ 64 * (q2 + 2 ^ 14 * r3) + 2 ^ 96 * (q3 + 2 ^ 8 * r4) + 2 ^ 128 * q4"
  using assms by simp

definition val4 :: "u64 list \<Rightarrow> nat" where
  "val4 w = unat (w ! 0) + 2 ^ 32 * unat (w ! 1) + 2 ^ 64 * unat (w ! 2) + 2 ^ 96 * unat (w ! 3)"

lemma poly_pack_val:
  assumes "limbs_below (2 ^ 26) h"
  shows "val4 (poly_pack h) mod 2 ^ 128 = val h mod 2 ^ 128" "length (poly_pack h) = 4" "i < 4 \<Longrightarrow> unat (poly_pack h ! i) < 2 ^ 32"
proof -
  note hb = limbs_belowD [OF assms, folded One_nat_def]
  note w0 = pack_word [OF hb(1) hb(2), of 0 26 6, simplified] and w1 = pack_word [OF hb(2) hb(3), of 6 20 12, simplified]
    and w2 = pack_word [OF hb(3) hb(4), of 12 14 18, simplified] and w3 = pack_word [OF hb(4) hb(5), of 18 8 24, simplified]
  have "val h = val4 (poly_pack h) + 2 ^ 128 * (unat (h ! 4) div 16777216)"
    using pack_sum [OF split_at split_at split_at split_at, of "unat (h ! 0)" "unat (h ! 1)" "unat (h ! 2)" "unat (h ! 3)" "unat (h ! 4)"]
      w0 w1 w2 w3 unfolding val_def val4_def poly_pack_def by simp
  then show "val4 (poly_pack h) mod 2 ^ 128 = val h mod 2 ^ 128" by simp
  show "length (poly_pack h) = 4" by (simp add: poly_pack_def)
  have lt: "unat (x AND 0xffffffff :: u64) < 2 ^ 32" for x unfolding unat_low32 by simp
  assume "i < 4"
  then consider "i = 0" | "i = 1" | "i = 2" | "i = 3" by linarith
  then show "unat (poly_pack h ! i) < 2 ^ 32" using lt by cases (simp_all add: poly_pack_def)
qed

text \<open>Little-endian bytes of a number.\<close>

lemma le_bytes_mod: "le_bytes n (x mod 256 ^ n) = le_bytes n x"
proof (induction n arbitrary: x)
  case (Suc n)
  have "x mod 256 ^ Suc n div 256 = x div 256 mod 256 ^ n" by (simp add: mod_mult2_eq)
  moreover have "x mod 256 ^ Suc n mod 256 = x mod 256" by (simp add: mod_mult2_eq)
  ultimately show ?case using Suc by (simp del: power_Suc)
qed simp

lemma le_bytes_cong: "x mod 256 ^ n = y mod 256 ^ n \<Longrightarrow> le_bytes n x = le_bytes n y"
  using le_bytes_mod [of n x] le_bytes_mod [of n y] by simp

lemma le_bytes_add: "le_bytes (m + n) x = le_bytes m x @ le_bytes n (x div 256 ^ m)"
  by (induction m arbitrary: x) (simp_all add: div_mult2_eq)

lemma length_le_bytes [simp]: "length (le_bytes n x) = n"
  by (induction n arbitrary: x) simp_all

lemma U32TO8_bytes: "U32TO8 v = le_bytes 4 (unat v)"
proof -
  have "ucast w = (of_nat (unat w mod 256) :: byte)" for w :: u64
    by (simp add: word_unat_eq_iff unsigned_ucast_eq take_bit_eq_mod unat_of_nat)
  moreover have "le_bytes 4 x = [of_nat (x mod 256), of_nat (x div 256 mod 256), of_nat (x div 256 div 256 mod 256),
      of_nat (x div 256 div 256 div 256 mod 256)]" for x
  proof -
    have four: "(4 :: nat) = Suc (Suc (Suc (Suc 0)))" by simp
    show ?thesis unfolding four le_bytes.simps ..
  qed
  moreover have "x div 256 div 256 = x div 65536" "x div 65536 div 256 = x div 16777216" for x :: nat
    using div_mult2_eq [of x 256 256] div_mult2_eq [of x 65536 256] by simp_all
  ultimately show ?thesis by (simp add: U32TO8_def unat_shift64)
qed

lemma le_num_U8TO32: "i + 4 \<le> length p \<Longrightarrow> le_num (take 4 (drop i p)) = unat (U8TO32 p i)"
proof -
  assume "i + 4 \<le> length p"
  then show ?thesis by (simp add: take4 unat_U8TO32)
qed

lemma le_bytes_step: "le_bytes (4 + n) (f + 2 ^ 32 * r) = le_bytes 4 f @ le_bytes n (f div 2 ^ 32 + r)"
proof -
  have "le_bytes 4 (f + 2 ^ 32 * r) = le_bytes 4 f"
    using le_bytes_mod [of 4 "f + 2 ^ 32 * r"] le_bytes_mod [of 4 f] by simp
  then show ?thesis by (simp add: le_bytes_add [of 4 n]) (simp add: add.commute)
qed

lemma poly_mac_val:
  assumes h: "\<And>i. i < 4 \<Longrightarrow> unat (h ! i) < 2 ^ 32" and p: "\<And>i. i < 4 \<Longrightarrow> unat (pad ! i) < 2 ^ 32"
  shows "poly_mac h pad = le_bytes 16 (val4 h + val4 pad)"
proof -
  define f0 where "f0 = h ! 0 + pad ! 0"
  define f1 where "f1 = h ! 1 + pad ! 1 + drop_bit 32 f0"
  define f2 where "f2 = h ! 2 + pad ! 2 + drop_bit 32 f1"
  define f3 where "f3 = h ! 3 + pad ! 3 + drop_bit 32 f2"
  have s: "unat (a + b) = unat a + unat b" "unat (a + b + drop_bit 32 f) = unat a + unat b + unat f div 2 ^ 32"
    if "unat (a :: u64) < 2 ^ 32" "unat b < 2 ^ 32" for a b f
  proof -
    show e: "unat (a + b) = unat a + unat b" using that by (intro unat_add64) simp
    have "unat f < 2 ^ 64" using unsigned_less [of f] by simp
    then have "unat f div 2 ^ 32 < 2 ^ 32" by (intro less_mult_imp_div_less) simp
    then show "unat (a + b + drop_bit 32 f) = unat a + unat b + unat f div 2 ^ 32"
      using that unfolding e [symmetric] unat_shift64 [symmetric] by (intro unat_add64) (simp add: e)
  qed
  have f0: "unat f0 = unat (h ! 0) + unat (pad ! 0)" unfolding f0_def by (intro s(1) h p) simp_all
  have f1: "unat f1 = unat (h ! 1) + unat (pad ! 1) + unat f0 div 2 ^ 32" unfolding f1_def by (intro s(2) h p) simp_all
  have f2: "unat f2 = unat (h ! 2) + unat (pad ! 2) + unat f1 div 2 ^ 32" unfolding f2_def by (intro s(2) h p) simp_all
  have f3: "unat f3 = unat (h ! 3) + unat (pad ! 3) + unat f2 div 2 ^ 32" unfolding f3_def by (intro s(2) h p) simp_all
  let ?r3 = "unat (h ! 3) + unat (pad ! 3)"
  let ?r2 = "unat (h ! 2) + unat (pad ! 2) + 2 ^ 32 * ?r3"
  let ?r1 = "unat (h ! 1) + unat (pad ! 1) + 2 ^ 32 * ?r2"
  have "val4 h + val4 pad = unat f0 + 2 ^ 32 * ?r1" unfolding f0 val4_def by simp
  then have "le_bytes 16 (val4 h + val4 pad) = le_bytes 4 (unat f0) @ le_bytes 12 (unat f0 div 2 ^ 32 + ?r1)"
    using le_bytes_step [of 12 "unat f0" ?r1] by simp
  also have "unat f0 div 2 ^ 32 + ?r1 = unat f1 + 2 ^ 32 * ?r2" unfolding f1 by simp
  also have "le_bytes 12 \<dots> = le_bytes 4 (unat f1) @ le_bytes 8 (unat f1 div 2 ^ 32 + ?r2)"
    using le_bytes_step [of 8 "unat f1" ?r2] by simp
  also have "unat f1 div 2 ^ 32 + ?r2 = unat f2 + 2 ^ 32 * ?r3" unfolding f2 by simp
  also have "le_bytes 8 \<dots> = le_bytes 4 (unat f2) @ le_bytes 4 (unat f3)"
    using le_bytes_step [of 4 "unat f2" ?r3] by (simp add: f3 ac_simps)
  finally show ?thesis
    unfolding poly_mac_def Let_def f3_def [symmetric] f2_def [symmetric] f1_def [symmetric] f0_def [symmetric] U32TO8_bytes by simp
qed

lemma pad_val:
  assumes "32 \<le> length key"
  shows "val4 (map (U8TO32 key) [16, 20, 24, 28]) = le_num (take 16 (drop 16 key))"
    and "i < 4 \<Longrightarrow> unat (map (U8TO32 key) [16, 20, 24, 28] ! i) < 2 ^ 32"
proof -
  have "take 16 (drop 16 key) = take 4 (drop 16 key) @ take 4 (drop 20 key) @ take 4 (drop 24 key) @ take 4 (drop 28 key)"
    using assms take_add [of 4 12 "drop 16 key"] take_add [of 4 8 "drop 20 key"] take_add [of 4 4 "drop 24 key"] by simp
  then show "val4 (map (U8TO32 key) [16, 20, 24, 28]) = le_num (take 16 (drop 16 key))"
    using assms by (simp add: val4_def le_num_append le_num_U8TO32)
  have "unat (U8TO32 key k) < 2 ^ 32" for k
    using unat_byte(1) [of "key ! k"] unat_byte(1) [of "key ! (k + 1)"] unat_byte(1) [of "key ! (k + 2)"]
      unat_byte(1) [of "key ! (k + 3)"] unfolding unat_U8TO32 by simp
  moreover assume "i < 4"
  then have "i = 0 \<or> i = 1 \<or> i = 2 \<or> i = 3" by linarith
  ultimately show "unat (map (U8TO32 key) [16, 20, 24, 28] ! i) < 2 ^ 32" by auto
qed

lemma le_num_zeros [simp]: "le_num (replicate n 0) = 0"
  by (induction n) simp_all

lemma poly_acc_less: "a < p1305 \<Longrightarrow> poly_acc r a m < p1305"
proof (induction r a m rule: poly_acc.induct)
  case (1 r a m)
  then show ?case by (cases "m = []") (simp_all add: poly_acc.simps [of r a m] poly_acc.simps [of _ _ "[]"] p1305_def)
qed

text \<open>The last block of a message that is not a whole number of blocks.\<close>

lemma poly_last_block:
  assumes key: "16 \<le> length key" and st: "absorbed key m st" and part: "length m mod 16 \<noteq> 0"
  defines "b \<equiv> stn (pc_buffer st) (pc_leftover st) (1 # replicate (15 - pc_leftover st) 0)"
  shows "poly_h (poly_loop 0 (key_r key) (pc_h st) b) (poly_acc (val (key_r key)) 0 m)"
proof -
  let ?n = "length m div 16 * 16"
  have lo: "pc_leftover st = length m mod 16" "length (pc_buffer st) = 16" and
    rest: "take (pc_leftover st) (pc_buffer st) = drop ?n m" and
    h: "poly_h (pc_h st) (poly_acc (val (key_r key)) 0 (take ?n m))" using st by (auto simp: absorbed_def)
  have k: "length m mod 16 < 16" by simp
  have "take 16 b = drop ?n m @ 1 # replicate (15 - pc_leftover st) 0"
    using take_stn [of "pc_leftover st" "1 # replicate (15 - pc_leftover st) 0" "pc_buffer st"] lo k
    unfolding b_def rest [symmetric] by simp
  moreover have lb: "length b = 16" using lo by (simp add: b_def)
  ultimately have b: "b = drop ?n m @ 1 # replicate (15 - pc_leftover st) 0" by simp
  have le: "le_num b = le_num (drop ?n m @ [1])" unfolding b by (simp add: le_num_append)
  have "poly_h (poly_reduce (poly_mult (key_r key) (poly_add 0 b (pc_h st))))
      ((poly_acc (val (key_r key)) 0 (take ?n m) + le_num b) * val (key_r key))"
    using poly_block_step [of b _ _ "key_r key" 0, OF _ h key_r_props(1) [OF key]] lb by simp
  moreover have "length (drop ?n m) = length m mod 16" by (simp add: minus_div_mult_eq_mod)
  then have "drop ?n m \<noteq> []" "length (drop ?n m) < 16" using part k by auto
  then have "poly_acc (val (key_r key)) a (drop ?n m) = (a + le_num b) * val (key_r key) mod p1305" for a
    by (simp add: poly_acc.simps [of _ _ "drop ?n m"] poly_acc.simps [of _ _ "[]"] le)
  moreover have "poly_acc (val (key_r key)) 0 m = poly_acc (val (key_r key)) (poly_acc (val (key_r key)) 0 (take ?n m)) (drop ?n m)"
    using poly_acc_append [of "take ?n m" "length m div 16" _ _ "drop ?n m"] by simp
  ultimately show ?thesis using lb by (simp add: poly_loop.simps [of _ _ _ b] poly_loop.simps [of _ _ _ "[]"] poly_h_mod)
qed

lemma finish_tag:
  assumes key: "length key = 32" and st: "absorbed key m st"
  shows "snd (poly1305_finish st) = poly1305_tag key m"
proof -
  have k16: "16 \<le> length key" and k32: "32 \<le> length key" using key by simp_all
  let ?b = "stn (pc_buffer st) (pc_leftover st) (1 # replicate (15 - pc_leftover st) 0)"
  let ?h = "if pc_leftover st \<noteq> 0 then poly_loop 0 (key_r key) (pc_h st) ?b else pc_h st"
  let ?a = "poly_acc (val (key_r key)) 0 m"
  have lo: "pc_leftover st = length m mod 16" "pc_r st = key_r key" "pc_pad st = map (U8TO32 key) [16, 20, 24, 28]"
    using st by (auto simp: absorbed_def)
  have h: "poly_h ?h ?a"
  proof (cases "length m mod 16 = 0")
    case True
    then have "length m div 16 * 16 = length m" by auto
    then show ?thesis using st lo True by (simp add: absorbed_def)
  next
    case False
    then show ?thesis using poly_last_block [OF k16 st] lo by simp
  qed
  have f: "snd (poly1305_finish st) = poly_mac (poly_pack (poly_select (poly_carry ?h) (poly_minus_p (poly_carry ?h)))) (pc_pad st)"
    using lo unfolding poly1305_finish_def Let_def by (simp add: poly1305_blocks_def)
  let ?s = "poly_select (poly_carry ?h) (poly_minus_p (poly_carry ?h))"
  have pr: "partly_reduced ?h" using h by (simp only: poly_h_def)
  note c = poly_carry_val [OF pr] and s = poly_select_val [OF poly_carry_val(1) [OF pr]]
  note q = poly_pack_val [OF s(1)]
  have "?a < p1305" by (rule poly_acc_less) (simp add: p1305_def)
  then have v: "val ?s = ?a" using s(2) c(2) h by (simp add: poly_h_def)
  have "snd (poly1305_finish st) = le_bytes 16 (val4 (poly_pack ?s) + val4 (pc_pad st))"
    unfolding f using q(3) pad_val(2) [OF k32] unfolding lo(3) by (rule poly_mac_val)
  also have "\<dots> = le_bytes 16 (?a + val4 (pc_pad st))"
  proof -
    have e: "(256 :: nat) ^ 16 = 2 ^ 128" by simp
    have "(val4 (poly_pack ?s) + x) mod 256 ^ 16 = (?a + x) mod 256 ^ 16" for x
      unfolding e by (rule mod_add_cong [OF _ refl]) (simp only: q(1) v)
    then show ?thesis by (rule le_bytes_cong)
  qed
  finally show ?thesis unfolding lo(3) pad_val(1) [OF k32] poly1305_tag_def key_r_props(2) [OF k16] .
qed

end
