(* ===== verification/TlsRecord.thy ===== *)
theory TlsRecord
  imports Poly1305Props TlsExport
begin

text \<open>
  The record layer of src/extern/tlse.c: protecting a packet (\<open>tls_packet_update\<close> on a context), taking one message
  from the peer (\<open>tls_parse_message\<close>), the stream of bytes read (\<open>tls_consume_stream\<close>), and the application data on
  both sides.  LibTomCrypt is a parameter.  The running hash over handshake messages, the error code of an alert and
  the random sleep before an error is reported are left out; \<open>tls_parse_payload\<close>, the handshake, is a parameter.
  \<open>None\<close> stands for reading memory outside an array or never written.
\<close>

section \<open>LibTomCrypt on records\<close>

text \<open>A whole GCM operation is \<open>gcm_reset\<close>, \<open>gcm_add_iv\<close>, \<open>gcm_add_aad\<close>, \<open>gcm_process\<close> and \<open>gcm_done\<close>, which gives the
  text and the tag.  \<open>hmac\<close> has the size of the hash, the key and the message.\<close>

record ('cbc, 'gcm) record_prims =
  gcm_seal :: "'gcm \<Rightarrow> byte list \<Rightarrow> byte list \<Rightarrow> byte list \<Rightarrow> byte list \<times> byte list"
  gcm_open :: "'gcm \<Rightarrow> byte list \<Rightarrow> byte list \<Rightarrow> byte list \<Rightarrow> int \<times> byte list \<times> byte list"
  cbc_encrypt :: "byte list \<Rightarrow> 'cbc \<Rightarrow> byte list \<times> 'cbc"
  cbc_decrypt :: "byte list \<Rightarrow> 'cbc \<Rightarrow> int \<times> byte list \<times> 'cbc"
  hmac :: "nat \<Rightarrow> byte list \<Rightarrow> byte list \<Rightarrow> byte list option"

section \<open>The AEAD construction of ChaCha20 and Poly1305\<close>

text \<open>The trailer of the authenticated data.\<close>

definition aead_trail :: "u32 \<Rightarrow> u32 \<Rightarrow> byte list" where
  "aead_trail aad_len len = U32TO8 (ucast aad_len) @ [0, 0, 0, 0] @ U32TO8 (ucast len) @ [0, 0, 0, 0]"

definition poly1305_update_padded :: "poly1305_ctx \<Rightarrow> byte list \<Rightarrow> poly1305_ctx" where
  "poly1305_update_padded ctx m =
     (let ctx = poly1305_update ctx m; rem = length m mod 16
      in if rem \<noteq> 0 then poly1305_update ctx (replicate (16 - rem) 0) else ctx)"

definition POLY1305_MAX_AAD :: nat where "POLY1305_MAX_AAD = 32"

text \<open>\<open>aead_ctx\<close> is the state on the stack, not yet written.  \<open>None\<close> is the result -1.\<close>

definition chacha20_poly1305_aead ::
  "poly1305_ctx \<Rightarrow> chacha_ctx \<Rightarrow> byte list \<Rightarrow> byte list \<Rightarrow> byte list \<Rightarrow> (chacha_ctx \<times> byte list) option" where
  "chacha20_poly1305_aead aead_ctx ctx pt aad poly_key =
     (if length aad > POLY1305_MAX_AAD then None
      else
        let ctx = chacha_ivsetup_96bitnonce ctx None 1;
            (ctx, out) = chacha_encrypt_bytes ctx pt;
            aead_ctx = poly1305_init aead_ctx poly_key;
            aead_ctx = poly1305_update_padded aead_ctx aad;
            aead_ctx = poly1305_update_padded aead_ctx out;
            aead_ctx = poly1305_update aead_ctx (aead_trail (of_nat (length aad)) (of_nat (length pt)))
        in Some (ctx, out @ snd (poly1305_finish aead_ctx)))"

section \<open>Message authentication\<close>

definition tls_hmac_message ::
  "('cbc, 'gcm) record_prims \<Rightarrow> bool \<Rightarrow> ('cbc, 'gcm) TLSContext \<Rightarrow> byte list \<Rightarrow> nat \<Rightarrow> u64 \<Rightarrow> byte list option" where
  "tls_hmac_message P local context msg outlen sequence_number =
     (let hash = (if outlen = 20 then 20 else if outlen = 48 then 48 else 32);
          crypto = tx_crypto context;
          key = take outlen (if local then ci_local_mac crypto else ci_remote_mac crypto);
          seq = (if tx_dtls context \<noteq> 0 then sequence_number else if local then tx_local_seq context else tx_remote_seq context)
      in map_option (take outlen) (hmac P hash key (bytes64 (htonll seq) @ msg)))"

section \<open>Protecting a packet\<close>

definition TLS_CHANGE_CIPHER :: byte where "TLS_CHANGE_CIPHER = 0x14"
definition TLS_ALERT :: byte where "TLS_ALERT = 0x15"
definition TLS_HANDSHAKE :: byte where "TLS_HANDSHAKE = 0x16"
definition TLS_APPLICATION_DATA :: byte where "TLS_APPLICATION_DATA = 0x17"
definition TLS_V10 :: u16 where "TLS_V10 = 0x0301"

definition record_header_size :: "('cbc, 'gcm) TLSContext \<Rightarrow> nat" where
  "record_header_size context = (if tx_dtls context \<noteq> 0 then 13 else 5)"

text \<open>The header: the length, and for DTLS the epoch and 48 bits of the sequence number.\<close>

definition record_header :: "('cbc, 'gcm) TLSContext \<Rightarrow> byte list \<Rightarrow> byte list" where
  "record_header context buf =
     (let len = htons (of_nat (length buf - record_header_size context)); seq = tx_local_seq context
      in if tx_dtls context \<noteq> 0 then
           stn (st16 (st16 buf 3 (htons (tx_epoch_local context))) 11 len) 5
             [ucast (drop_bit 40 seq), ucast (drop_bit 32 seq), ucast (drop_bit 24 seq), ucast (drop_bit 16 seq),
              ucast (drop_bit 8 seq), ucast seq]
         else st16 buf 3 len)"

definition record_aad :: "byte list \<Rightarrow> byte list \<Rightarrow> nat \<Rightarrow> byte list" where
  "record_aad sequence buf len = sequence @ [buf ! 0, buf ! 1, buf ! 2] @ bytes16 (htons (of_nat len))"

text \<open>What replaces the payload of the packet: the protected bytes and the state of the cipher.\<close>

definition seal_cbc ::
  "('cbc, 'gcm) record_prims \<Rightarrow> byte list \<Rightarrow> ('cbc, 'gcm) TLSContext \<Rightarrow> byte list \<Rightarrow>
   (byte list \<times> ('cbc, 'gcm) cipher_ctx) option" where
  "seal_cbc P rnd context buf =
     (case ci_ctx (tx_crypto context) of
        Cbc_ctx l r \<Rightarrow>
          let header_size = record_header_size context;
              mac_size = tls_mac_length (tx_cipher context);
              iv = (if tx_version context = TLS_V10 then [] else take 16 rnd);
              payload = drop header_size buf;
              len = length payload + length iv + mac_size;
              padding = 16 - len mod 16;
              dtls_seq = ntohll (ld64 buf 3);
              mac = (if tx_dtls context \<noteq> 0
                then tls_hmac_message P True context (take 3 buf @ ldn 2 buf (header_size - 2) @ payload) mac_size dtls_seq
                else tls_hmac_message P True context buf mac_size 0)
          in (case mac of
                None \<Rightarrow> None
              | Some mac \<Rightarrow>
                  if length mac < mac_size then None
                  else
                    let (ct, l) = cbc_encrypt P (iv @ payload @ mac @ replicate padding (of_nat (padding - 1))) l
                    in Some (ct, Cbc_ctx l r))
      | _ \<Rightarrow> None)"

definition seal_aead ::
  "('cbc, 'gcm) record_prims \<Rightarrow> poly1305_ctx \<Rightarrow> byte list \<Rightarrow> ('cbc, 'gcm) TLSContext \<Rightarrow> byte list \<Rightarrow>
   (byte list \<times> ('cbc, 'gcm) cipher_ctx) option" where
  "seal_aead P stack rnd context buf =
     (let header_size = record_header_size context; crypto = tx_crypto context;
          payload = drop header_size buf;
          sequence = (if tx_dtls context \<noteq> 0 then ldn 8 buf 3 else bytes64 (htonll (tx_local_seq context)));
          aad = record_aad sequence buf (length payload)
      in case ci_ctx crypto of
           Chacha_ctx l r \<Rightarrow>
             if ci_created crypto \<noteq> 3 then None
             else
               let l = chacha_ivupdate l (ci_local_mac crypto) sequence 1
               in Option.bind (chacha20_poly1305_key l) (\<lambda>poly1305_key.
                    map_option (\<lambda>(l, sealed). (sealed, Chacha_ctx l r)) (chacha20_poly1305_aead stack l payload aad poly1305_key))
         | Gcm_ctx l r \<Rightarrow>
             if ci_created crypto = 3 then None
             else
               let iv = take 4 (ci_local_mac crypto) @ take 8 rnd;
                   (ct, tag) = gcm_seal P l iv aad payload
               in Some (take 8 rnd @ ct @ tag, Gcm_ctx l r)
         | _ \<Rightarrow> None)"

text \<open>\<open>tls_packet_update\<close> with a context; \<open>rnd\<close> is what \<open>tls_random\<close> writes.\<close>

definition tls_record_update ::
  "('cbc, 'gcm) record_prims \<Rightarrow> poly1305_ctx \<Rightarrow> byte list \<Rightarrow> ('cbc, 'gcm) TLSContext \<Rightarrow> byte list \<Rightarrow>
   (byte list \<times> ('cbc, 'gcm) TLSContext) option" where
  "tls_record_update P stack rnd context buf =
     (let buf = record_header context buf; header_size = record_header_size context
      in if buf ! 0 = TLS_CHANGE_CIPHER then
           Some (buf, context\<lparr>tx_epoch_local := tx_epoch_local context + 1, tx_local_seq := tx_local_seq context + 1\<rparr>)
         else if tx_cipher_spec_set context \<noteq> 0 \<and> ci_created (tx_crypto context) \<noteq> 0 then
           map_option (\<lambda>(ct, cipher).
               (take (header_size - 2) buf @ bytes16 (htons (of_nat (length ct))) @ ct,
                context\<lparr>tx_crypto := (tx_crypto context)\<lparr>ci_ctx := cipher\<rparr>, tx_local_seq := tx_local_seq context + 1\<rparr>))
             (if ci_created (tx_crypto context) = 1 then seal_cbc P rnd context buf else seal_aead P stack rnd context buf)
         else Some (buf, context\<lparr>tx_local_seq := tx_local_seq context + 1\<rparr>))"

section \<open>Packets of a connection and the buffers of a context\<close>

text \<open>\<open>tls_create_packet\<close> with a context; \<open>hint\<close> is the expected size of the payload.\<close>

definition tls_record_packet :: "('cbc, 'gcm) TLSContext \<Rightarrow> byte \<Rightarrow> nat \<Rightarrow> tls_packet" where
  "tls_record_packet context type hint =
     \<lparr>pk_buf = [type] @ bytes16 (htons (tx_version context)) @ replicate (record_header_size context - 3) 0,
      pk_size = (if 0 < hint then of_nat hint + 10 else 0xFFF)\<rparr>"

text \<open>\<open>Some None\<close> is the packet \<open>NULL\<close>.\<close>

definition tls_build_message ::
  "('cbc, 'gcm) record_prims \<Rightarrow> poly1305_ctx \<Rightarrow> byte list \<Rightarrow> ('cbc, 'gcm) TLSContext \<Rightarrow> byte list \<Rightarrow>
   (byte list option \<times> ('cbc, 'gcm) TLSContext) option" where
  "tls_build_message P stack rnd context data =
     (if data = [] then Some (None, context)
      else Option.bind (tls_packet_append data (tls_record_packet context TLS_APPLICATION_DATA (length data))) (\<lambda>packet.
             map_option (\<lambda>(buf, context). (Some buf, context)) (tls_record_update P stack rnd context (pk_buf packet))))"

definition tls_write_packet :: "('cbc, 'gcm) TLSContext \<Rightarrow> byte list option \<Rightarrow> int \<times> ('cbc, 'gcm) TLSContext" where
  "tls_write_packet context packet =
     (case packet of
        None \<Rightarrow> (- 1, context)
      | Some buf \<Rightarrow> (int (length buf), context\<lparr>tx_tls_buffer := tx_tls_buffer context @ buf\<rparr>))"

definition TLS_UNEXPECTED_MESSAGE :: int where "TLS_UNEXPECTED_MESSAGE = - 6"
definition TLS_MAXTLS_APP_SIZE :: nat where "TLS_MAXTLS_APP_SIZE = 0x4000"

definition tls_write ::
  "('cbc, 'gcm) record_prims \<Rightarrow> poly1305_ctx \<Rightarrow> byte list \<Rightarrow> ('cbc, 'gcm) TLSContext \<Rightarrow> byte list \<Rightarrow>
   (int \<times> ('cbc, 'gcm) TLSContext) option" where
  "tls_write P stack rnd context data =
     (if tx_status context \<noteq> 0xFF then Some (TLS_UNEXPECTED_MESSAGE, context)
      else
        let data = take TLS_MAXTLS_APP_SIZE data
        in map_option (\<lambda>(packet, context).
             let (actually_written, context) = tls_write_packet context packet
             in (if actually_written \<le> 0 then actually_written else int (length data), context))
           (tls_build_message P stack rnd context data))"

definition tls_build_alert ::
  "('cbc, 'gcm) record_prims \<Rightarrow> poly1305_ctx \<Rightarrow> byte list \<Rightarrow> ('cbc, 'gcm) TLSContext \<Rightarrow> bool \<Rightarrow> byte \<Rightarrow>
   (byte list option \<times> ('cbc, 'gcm) TLSContext) option" where
  "tls_build_alert P stack rnd context critical code =
     (let packet = tls_packet_append [if critical then 2 else 1] (tls_record_packet context TLS_ALERT 0);
          context = (if critical then context\<lparr>tx_critical_error := 1\<rparr> else context)
      in Option.bind packet (\<lambda>packet. Option.bind (tls_packet_append [code] packet) (\<lambda>packet.
           map_option (\<lambda>(buf, context). (Some buf, context)) (tls_record_update P stack rnd context (pk_buf packet)))))"

definition tls_alert ::
  "('cbc, 'gcm) record_prims \<Rightarrow> poly1305_ctx \<Rightarrow> byte list \<Rightarrow> ('cbc, 'gcm) TLSContext \<Rightarrow> bool \<Rightarrow> byte \<Rightarrow>
   ('cbc, 'gcm) TLSContext option" where
  "tls_alert P stack rnd context critical code =
     (let context = (if tx_critical_error context = 0 \<and> critical then context\<lparr>tx_critical_error := 1\<rparr> else context)
      in map_option (\<lambda>(packet, context). snd (tls_write_packet context packet)) (tls_build_alert P stack rnd context critical code))"

definition tls_close_notify ::
  "('cbc, 'gcm) record_prims \<Rightarrow> poly1305_ctx \<Rightarrow> byte list \<Rightarrow> ('cbc, 'gcm) TLSContext \<Rightarrow> ('cbc, 'gcm) TLSContext option" where
  "tls_close_notify P stack rnd context =
     (if tx_critical_error context \<noteq> 0 then Some context
      else map_option (\<lambda>(packet, context). snd (tls_write_packet context packet))
             (tls_build_alert P stack rnd (context\<lparr>tx_critical_error := 1\<rparr>) False 0))"

definition tls_write_app_data :: "('cbc, 'gcm) TLSContext \<Rightarrow> byte list \<Rightarrow> ('cbc, 'gcm) TLSContext" where
  "tls_write_app_data context buf = context\<lparr>tx_app_buffer := tx_app_buffer context @ buf\<rparr>"

definition tls_read :: "('cbc, 'gcm) TLSContext \<Rightarrow> nat \<Rightarrow> byte list \<times> ('cbc, 'gcm) TLSContext" where
  "tls_read context sz =
     (let sz = min sz (length (tx_app_buffer context))
      in (take sz (tx_app_buffer context), context\<lparr>tx_app_buffer := drop sz (tx_app_buffer context)\<rparr>))"

definition tls_get_write_buffer :: "('cbc, 'gcm) TLSContext \<Rightarrow> byte list" where
  "tls_get_write_buffer context = tx_tls_buffer context"

text \<open>One message of those to be sent; \<open>None\<close> is \<open>NULL\<close>.\<close>

definition tls_get_message :: "('cbc, 'gcm) TLSContext \<Rightarrow> nat \<Rightarrow> byte list option" where
  "tls_get_message context offset =
     (if tx_tls_buffer context = [] \<or> offset \<ge> length (tx_tls_buffer context) then None
      else
        let tls_buffer = drop offset (tx_tls_buffer context); header_size = record_header_size context
        in if length tls_buffer < header_size then None
           else
             let len = unat (ntohs (ld16 tls_buffer (header_size - 2))) + header_size
             in if len > length tls_buffer then None else Some (take len tls_buffer))"

definition tls_buffer_clear :: "('cbc, 'gcm) TLSContext \<Rightarrow> ('cbc, 'gcm) TLSContext" where
  "tls_buffer_clear context = context\<lparr>tx_tls_buffer := []\<rparr>"

definition tls_read_clear :: "('cbc, 'gcm) TLSContext \<Rightarrow> ('cbc, 'gcm) TLSContext" where
  "tls_read_clear context = context\<lparr>tx_app_buffer := []\<rparr>"

definition tls_established :: "('cbc, 'gcm) TLSContext \<Rightarrow> int" where
  "tls_established context =
     (if tx_critical_error context \<noteq> 0 then - 1 else if tx_status context = 0xFF then 1 else 0)"

definition tls_pending :: "('cbc, 'gcm) TLSContext \<Rightarrow> nat" where
  "tls_pending context = length (tx_message_buffer context)"

section \<open>Opening a record\<close>

text \<open>The plain text, a result that is returned at once, or memory outside an array.\<close>

datatype ('cbc, 'gcm) opened = Undefined | Refused int "('cbc, 'gcm) TLSContext" | Opened "byte list" "('cbc, 'gcm) TLSContext"

definition TLS_NEED_MORE_DATA :: int where "TLS_NEED_MORE_DATA = 0"
definition TLS_BROKEN_PACKET :: int where "TLS_BROKEN_PACKET = - 2"
definition TLS_NOT_UNDERSTOOD :: int where "TLS_NOT_UNDERSTOOD = - 3"
definition TLS_NOT_SAFE :: int where "TLS_NOT_SAFE = - 4"
definition TLS_INTEGRITY_FAILED :: int where "TLS_INTEGRITY_FAILED = - 11"
definition TLS_ERROR_ALERT :: int where "TLS_ERROR_ALERT = - 12"
definition TLS_BROKEN_CONNECTION :: int where "TLS_BROKEN_CONNECTION = - 13"
definition bad_record_mac :: byte where "bad_record_mac = 20"
definition decrypt_error :: byte where "decrypt_error = 51"
definition unexpected_message :: byte where "unexpected_message = 10"

definition refuse_with_alert ::
  "('cbc, 'gcm) record_prims \<Rightarrow> poly1305_ctx \<Rightarrow> byte list \<Rightarrow> ('cbc, 'gcm) TLSContext \<Rightarrow> byte \<Rightarrow> int \<Rightarrow> ('cbc, 'gcm) opened" where
  "refuse_with_alert P stack rnd context code res =
     (case tls_build_alert P stack rnd context True code of
        None \<Rightarrow> Undefined
      | Some (packet, context) \<Rightarrow> Refused res (snd (tls_write_packet context packet)))"

text \<open>The sequence number of the peer as it is authenticated.\<close>

definition remote_sequence :: "('cbc, 'gcm) TLSContext \<Rightarrow> byte list \<Rightarrow> byte list" where
  "remote_sequence context buf =
     (if tx_dtls context \<noteq> 0 then bytes64 (htonll (ntohll (ld64 buf 3))) else bytes64 (htonll (tx_remote_seq context)))"

text \<open>In a record of less than 8 bytes the explicit part of the nonce is read from behind it.\<close>

definition open_gcm ::
  "('cbc, 'gcm) record_prims \<Rightarrow> poly1305_ctx \<Rightarrow> byte list \<Rightarrow> ('cbc, 'gcm) TLSContext \<Rightarrow> byte list \<Rightarrow> nat \<Rightarrow> ('cbc, 'gcm) opened" where
  "open_gcm P stack rnd context buf len =
     (case ci_ctx (tx_crypto context) of
        Gcm_ctx l r \<Rightarrow>
          if len < 8 then Undefined
          else if len < 24 then Refused TLS_BROKEN_PACKET context
          else
            let header_size = record_header_size context; pt_length = len - 24;
                aad = record_aad (remote_sequence context buf) buf pt_length;
                iv = take 4 (ci_remote_mac (tx_crypto context)) @ ldn 8 buf header_size;
                (res, pt, tag) = gcm_open P r iv aad (ldn pt_length buf (header_size + 8))
            in if res \<noteq> 0 \<or> length tag \<noteq> 16 then Refused TLS_BROKEN_PACKET context
               else if ldn 16 buf (header_size + 8 + pt_length) \<noteq> tag then
                 refuse_with_alert P stack rnd context bad_record_mac TLS_INTEGRITY_FAILED
               else Opened pt context
      | _ \<Rightarrow> Undefined)"

text \<open>The authenticated data has three bytes of zero behind it, so that it is 16 bytes long.\<close>

definition open_chacha ::
  "('cbc, 'gcm) record_prims \<Rightarrow> poly1305_ctx \<Rightarrow> byte list \<Rightarrow> ('cbc, 'gcm) TLSContext \<Rightarrow> byte list \<Rightarrow> nat \<Rightarrow> ('cbc, 'gcm) opened" where
  "open_chacha P stack rnd context buf len =
     (case ci_ctx (tx_crypto context) of
        Chacha_ctx l r \<Rightarrow>
          if len < 16 then Refused TLS_BROKEN_PACKET context
          else
            let header_size = record_header_size context; pt_length = len - 16; crypto = tx_crypto context;
                sequence = remote_sequence context buf;
                aad = record_aad sequence buf pt_length @ [0, 0, 0];
                r = chacha_ivupdate r (ci_remote_mac crypto) sequence 1;
                (r, pt) = chacha_encrypt_bytes r (ldn pt_length buf header_size);
                context = context\<lparr>tx_crypto := crypto\<lparr>ci_ctx := Chacha_ctx l r\<rparr>\<rparr>
            in (case chacha20_poly1305_key r of
                  None \<Rightarrow> Undefined
                | Some poly1305_key \<Rightarrow>
                    let ctx = poly1305_init stack poly1305_key;
                        ctx = poly1305_update_padded ctx aad;
                        ctx = poly1305_update_padded ctx (ldn pt_length buf header_size);
                        ctx = poly1305_update ctx (aead_trail 13 (of_nat pt_length));
                        mac_tag = snd (poly1305_finish ctx)
                    in if mac_tag \<noteq> ldn 16 buf (header_size + pt_length) then
                         if tx_dtls context \<noteq> 0 then Refused (int (header_size + pt_length)) context
                         else refuse_with_alert P stack rnd context bad_record_mac TLS_INTEGRITY_FAILED
                       else Opened pt context)
      | _ \<Rightarrow> Undefined)"

text \<open>CBC: the padding, the initialization vector in front of the text, and the MAC behind it.\<close>

definition open_cbc ::
  "('cbc, 'gcm) record_prims \<Rightarrow> poly1305_ctx \<Rightarrow> byte list \<Rightarrow> ('cbc, 'gcm) TLSContext \<Rightarrow> byte list \<Rightarrow> nat \<Rightarrow> ('cbc, 'gcm) opened" where
  "open_cbc P stack rnd context buf len =
     (case ci_ctx (tx_crypto context) of
        Cbc_ctx l r \<Rightarrow>
          let header_size = record_header_size context; crypto = tx_crypto context;
              (err, pt, r) = cbc_decrypt P (ldn len buf header_size) r;
              context = context\<lparr>tx_crypto := crypto\<lparr>ci_ctx := Cbc_ctx l r\<rparr>\<rparr>
          in if err \<noteq> 0 then Refused TLS_BROKEN_PACKET context
             else if len = 0 then Undefined
             else
               let padding_byte = pt ! (len - 1); padding = unat (padding_byte + 1)
               in if padding < len \<and> (\<exists>i \<in> set [len - padding..<len - 1]. pt ! i \<noteq> padding_byte) then
                    refuse_with_alert P stack rnd context decrypt_error TLS_BROKEN_PACKET
                  else
                    let decrypted_length = (if padding < len then len - padding else len);
                        iv = (if tx_version context \<noteq> TLS_V10 \<and> decrypted_length > 16 then 16 else 0);
                        ptr = drop iv pt; decrypted_length = decrypted_length - iv;
                        mac_size = tls_mac_length (tx_cipher context)
                    in if decrypted_length < mac_size \<or> mac_size = 0 then
                         refuse_with_alert P stack rnd context decrypt_error TLS_BROKEN_PACKET
                       else
                         let n = decrypted_length - mac_size;
                             message_hmac = ldn mac_size ptr n;
                             hmac_out = tls_hmac_message P False context
                               (take 3 buf @ bytes16 (htons (of_nat n)) @ take n ptr) mac_size (ntohll (ld64 buf 3))
                         in if hmac_out \<noteq> Some message_hmac then
                              if tx_dtls context \<noteq> 0 then Refused (int (header_size + n)) context
                              else refuse_with_alert P stack rnd context bad_record_mac TLS_INTEGRITY_FAILED
                            else Opened (take n ptr) context
      | _ \<Rightarrow> Undefined)"

section \<open>A message of the peer\<close>

definition version_supported :: "u16 \<Rightarrow> byte \<Rightarrow> bool" where
  "version_supported version status \<longleftrightarrow>
     version \<in> {0x0304, 0x0303, 0x0302, 0x0301, 0xFEFC, 0xFEFD, 0xFEFF} \<or> version = 0x0300 \<and> status = 0"

text \<open>What is done with the text of a message: the result of its payload, and -12 for a critical alert.\<close>

definition tls_dispatch ::
  "('cbc, 'gcm) record_prims \<Rightarrow> poly1305_ctx \<Rightarrow> byte list \<Rightarrow>
   (('cbc, 'gcm) TLSContext \<Rightarrow> byte list \<Rightarrow> int \<times> ('cbc, 'gcm) TLSContext) \<Rightarrow> ('cbc, 'gcm) TLSContext \<Rightarrow> byte \<Rightarrow> byte list \<Rightarrow>
   (int \<times> ('cbc, 'gcm) TLSContext) option" where
  "tls_dispatch P stack rnd parse_payload context type text =
     (let unexpected = (\<lambda>context. map_option (\<lambda>(packet, context). (TLS_UNEXPECTED_MESSAGE, snd (tls_write_packet context packet)))
            (tls_build_alert P stack rnd context True unexpected_message));
          consumed = int (record_header_size context + length text)
      in if type = TLS_APPLICATION_DATA then
           if tx_status context \<noteq> 0xFF then unexpected context
           else Some (consumed, tls_write_app_data context text)
         else if type = TLS_HANDSHAKE then
           let (payload_res, context) = parse_payload context text
           in Some (if payload_res < 0 then payload_res else consumed, context)
         else if type = TLS_CHANGE_CIPHER then
           let context = context\<lparr>tx_epoch_remote := tx_epoch_remote context + 1\<rparr>
           in if tx_status context \<noteq> 2 then unexpected context
              else Some (consumed, context\<lparr>tx_cipher_spec_set := 1, tx_remote_seq := 0\<rparr>)
         else if type = TLS_ALERT then
           if 2 \<le> length text \<and> text ! 0 = 2 then Some (TLS_ERROR_ALERT, context\<lparr>tx_critical_error := 1\<rparr>)
           else Some (consumed, context)
         else Some (TLS_NOT_UNDERSTOOD, context))"

text \<open>The text of a message, opened where a cipher has been agreed on.\<close>

definition open_record ::
  "('cbc, 'gcm) record_prims \<Rightarrow> poly1305_ctx \<Rightarrow> byte list \<Rightarrow> ('cbc, 'gcm) TLSContext \<Rightarrow> byte list \<Rightarrow> nat \<Rightarrow> ('cbc, 'gcm) opened" where
  "open_record P stack rnd context buf len =
     (if tx_cipher_spec_set context \<noteq> 0 \<and> ld8 buf 0 \<noteq> TLS_CHANGE_CIPHER then
        if ci_created (tx_crypto context) = 0 then Refused TLS_BROKEN_PACKET context
        else if ci_created (tx_crypto context) = 2 then open_gcm P stack rnd context buf len
        else if ci_created (tx_crypto context) = 3 then open_chacha P stack rnd context buf len
        else open_cbc P stack rnd context buf len
      else Opened (ldn len buf (record_header_size context)) context)"

definition tls_parse_message ::
  "('cbc, 'gcm) record_prims \<Rightarrow> poly1305_ctx \<Rightarrow> byte list \<Rightarrow>
   (('cbc, 'gcm) TLSContext \<Rightarrow> byte list \<Rightarrow> int \<times> ('cbc, 'gcm) TLSContext) \<Rightarrow> ('cbc, 'gcm) TLSContext \<Rightarrow> byte list \<Rightarrow>
   (int \<times> ('cbc, 'gcm) TLSContext) option" where
  "tls_parse_message P stack rnd parse_payload context buf =
     (let header_size = record_header_size context
      in if length buf < header_size then Some (TLS_NEED_MORE_DATA, context)
         else
           let type = ld8 buf 0; len = unat (ntohs (ld16 buf (header_size - 2)))
           in if \<not> version_supported (ntohs (ld16 buf 1)) (tx_status context) then Some (TLS_NOT_SAFE, context)
              else if length buf < header_size + len then Some (TLS_NEED_MORE_DATA, context)
              else
                case open_record P stack rnd context buf len of
                  Undefined \<Rightarrow> None
                | Refused res context \<Rightarrow> Some (res, context)
                | Opened text context \<Rightarrow>
                    tls_dispatch P stack rnd parse_payload (context\<lparr>tx_remote_seq := tx_remote_seq context + 1\<rparr>) type text)"

section \<open>The stream\<close>

text \<open>The loop over the messages in the buffer.  The list is the buffer from \<open>index\<close> on, which is out of the context
  while the loop runs: nothing below reads it.  The result is an error or 0, and what is left of the buffer.
  \<open>header_size\<close> is 5 or 13, so that no message has the length 0.\<close>

function consume_messages ::
  "('cbc, 'gcm) record_prims \<Rightarrow> poly1305_ctx \<Rightarrow> byte list \<Rightarrow>
   (('cbc, 'gcm) TLSContext \<Rightarrow> byte list \<Rightarrow> int \<times> ('cbc, 'gcm) TLSContext) \<Rightarrow> nat \<Rightarrow> byte list \<Rightarrow> ('cbc, 'gcm) TLSContext \<Rightarrow>
   (int \<times> byte list \<times> ('cbc, 'gcm) TLSContext) option" where
  "consume_messages P stack rnd parse_payload header_size buffer context =
     (if length buffer < 5 then Some (0, buffer, context)
      else if length buffer < header_size then None
      else
        let len = unat (ntohs (ld16 buffer (header_size - 2))) + header_size
        in if len > length buffer then Some (0, buffer, context)
           else
             case tls_parse_message P stack rnd parse_payload context (take len buffer) of
               None \<Rightarrow> None
             | Some (consumed, context) \<Rightarrow>
                 if consumed < 0 then
                   Some (consumed, buffer, if tx_critical_error context = 0 then context\<lparr>tx_critical_error := 1\<rparr> else context)
                 else if tx_critical_error context \<noteq> 0 then Some (TLS_BROKEN_CONNECTION, drop len buffer, context)
                 else if len = 0 then None
                 else consume_messages P stack rnd parse_payload header_size (drop len buffer) context)"
  by pat_completeness auto

termination
  by (relation "measure (\<lambda>(P, stack, rnd, parse_payload, header_size, buffer, context). length buffer)") auto

declare consume_messages.simps [simp del]

definition tls_consume_stream ::
  "('cbc, 'gcm) record_prims \<Rightarrow> poly1305_ctx \<Rightarrow> byte list \<Rightarrow>
   (('cbc, 'gcm) TLSContext \<Rightarrow> byte list \<Rightarrow> int \<times> ('cbc, 'gcm) TLSContext) \<Rightarrow> ('cbc, 'gcm) TLSContext \<Rightarrow> byte list \<Rightarrow>
   (int \<times> ('cbc, 'gcm) TLSContext) option" where
  "tls_consume_stream P stack rnd parse_payload context buf =
     (if tx_critical_error context \<noteq> 0 then Some (TLS_BROKEN_CONNECTION, context)
      else if buf = [] then Some (0, context)
      else
        let buffer = tx_message_buffer context @ buf
        in map_option (\<lambda>(err_flag, rest, context).
               if err_flag \<noteq> 0 then (err_flag, context\<lparr>tx_message_buffer := []\<rparr>)
               else (int (length buffer - length rest), context\<lparr>tx_message_buffer := rest\<rparr>))
             (consume_messages P stack rnd parse_payload (record_header_size context) buffer (context\<lparr>tx_message_buffer := []\<rparr>)))"

end
