(* ===== verification/TlsRecordProps.thy ===== *)
theory TlsRecordProps
  imports TlsRecord
begin

text \<open>
  What one side protects the other side opens: one record of ChaCha20-Poly1305, whose tag is that of RFC 8439, of AES-GCM,
  and of AES-CBC with a MAC.
\<close>

section \<open>The tag of the AEAD construction\<close>

definition pad16 :: "byte list \<Rightarrow> byte list" where
  "pad16 m = m @ replicate ((16 - length m mod 16) mod 16) 0"

text \<open>RFC 8439, 2.8.\<close>

definition aead_tag :: "byte list \<Rightarrow> byte list \<Rightarrow> byte list \<Rightarrow> byte list" where
  "aead_tag key aad ct =
     poly1305_tag key (pad16 aad @ pad16 ct @ le_bytes 8 (length aad) @ le_bytes 8 (length ct))"

lemma absorbed_padded:
  assumes "16 \<le> length key" "absorbed key a st"
  shows "absorbed key (a @ pad16 m) (poly1305_update_padded st m)"
proof (cases "length m mod 16 = 0")
  case True
  then show ?thesis using absorbed_update [OF assms] by (simp add: poly1305_update_padded_def pad16_def Let_def)
next
  case False
  then have "(16 - length m mod 16) mod 16 = 16 - length m mod 16" by simp
  then show ?thesis
    using False absorbed_update [OF assms(1) absorbed_update [OF assms], of m "replicate (16 - length m mod 16) 0"]
    by (simp add: poly1305_update_padded_def pad16_def Let_def)
qed

lemma le_bytes_zero: "le_bytes n 0 = replicate n 0"
  by (induction n) simp_all

lemma le_bytes_8:
  assumes "x < 2 ^ 32"
  shows "le_bytes 8 x = le_bytes 4 x @ [0, 0, 0, 0]"
proof -
  have "replicate 4 (0 :: byte) = [0, 0, 0, 0]" by (simp add: eval_nat_numeral)
  moreover have "x div 256 ^ 4 = 0" using assms by simp
  ultimately show ?thesis using le_bytes_add [of 4 4 x] by (simp add: le_bytes_zero)
qed

lemma aead_trail_spec:
  assumes "a < 2 ^ 32" "n < 2 ^ 32"
  shows "aead_trail (of_nat a) (of_nat n) = le_bytes 8 a @ le_bytes 8 n"
proof -
  have "unat (ucast (of_nat x :: u32) :: u64) = x" if "x < 2 ^ 32" for x
    using that by (simp add: unsigned_ucast_eq unat_of_nat take_bit_nat_eq_self)
  then show ?thesis using assms by (simp add: aead_trail_def U32TO8_bytes le_bytes_8)
qed

text \<open>The tag that both sides compute, from the state left on the stack.\<close>

lemma tag_of_parts:
  assumes key: "length key = 32" and st: "length (pc_buffer st) = 16"
    and n: "length aad < 2 ^ 32" "length ct < 2 ^ 32" and aad': "pad16 aad' = pad16 aad"
  shows "snd (poly1305_finish (poly1305_update (poly1305_update_padded (poly1305_update_padded (poly1305_init st key) aad') ct)
    (aead_trail (of_nat (length aad)) (of_nat (length ct))))) = aead_tag key aad ct"
proof -
  have k: "16 \<le> length key" using key by simp
  note i = absorbed_init [OF k st]
  note u = absorbed_update [OF k absorbed_padded [OF k absorbed_padded [OF k i, of aad'], of ct]]
  show ?thesis
    using finish_tag [OF key u] unfolding aead_tag_def aad' aead_trail_spec [OF n] by simp
qed

section \<open>ChaCha20 states on both sides\<close>

lemma sixteen_words: "length w = 16 \<Longrightarrow> w[12 := a, 13 := b, 14 := c, 15 := d] = take 12 w @ [a, b, c, d]"
  by (rule nth_equalityI) (auto simp: nth_append nth_list_update nth_Cons' )

lemma ivupdate_input:
  "length (cc_input x) = 16 \<Longrightarrow> cc_input (chacha_ivupdate x iv aad counter) =
     take 12 (cc_input x) @ [counter, ld32 iv 0, ld32 iv 4 XOR ld32 aad 0, ld32 iv 8 XOR ld32 aad 4]"
  by (simp add: chacha_ivupdate_def sixteen_words)

lemma ld32_take: "i + 4 \<le> n \<Longrightarrow> ld32 (take n p) i = ld32 p i"
  by (simp add: ld32_def ld16_def)

text \<open>The two sides enter a record with the same state.\<close>

lemma ivupdate_same:
  assumes "length (cc_input l) = 16" "length (cc_input r) = 16" "take 12 (cc_input l) = take 12 (cc_input r)"
    and "take 12 iv = take 12 iv'"
  shows "cc_input (chacha_ivupdate l iv aad counter) = cc_input (chacha_ivupdate r iv' aad counter)"
proof -
  have "ld32 iv 0 = ld32 iv' 0" "ld32 iv 4 = ld32 iv' 4" "ld32 iv 8 = ld32 iv' 8"
    using assms(4) ld32_take [of 0 12 iv] ld32_take [of 0 12 iv'] ld32_take [of 4 12 iv] ld32_take [of 4 12 iv']
      ld32_take [of 8 12 iv] ld32_take [of 8 12 iv'] by simp_all
  then show ?thesis using assms(1-3) by (simp add: ivupdate_input)
qed

text \<open>A message of less than 2^32 bytes does not carry the counter into the nonce.\<close>

lemma counter_high_kept:
  assumes "unat (ucast c :: u32) + k < 2 ^ 32"
  shows "drop_bit 32 (c + of_nat k) = drop_bit 32 (c :: u64)"
proof -
  define q where "q = unat c div 2 ^ 32"
  define r where "r = unat c mod 2 ^ 32"
  have s: "unat c = 2 ^ 32 * q + r" by (simp add: q_def r_def)
  have c: "unat c < 2 ^ 64" using unsigned_less [of c] by simp
  have l: "unat (ucast c :: u32) = r" by (simp add: unsigned_ucast_eq take_bit_eq_mod r_def)
  have "q < 2 ^ 32" unfolding q_def using c by (intro less_mult_imp_div_less) simp
  then have "unat c + k < 2 ^ 64" using s assms l by simp
  moreover have "k < 2 ^ 64" using assms by simp
  ultimately have u: "unat (c + of_nat k) = unat c + k" by (simp add: unat_add64 unat_of_nat take_bit_nat_eq_self)
  have "(unat c + k) div 2 ^ 32 = q"
    by (rule div_nat_eqI) (use s assms l in simp_all)
  then show ?thesis unfolding word_unat_eq_iff unat_shift64 u q_def .
qed

lemma encrypt_keeps_nonce:
  assumes "length (cc_input x) = 16" "cc_input x ! 12 = 1" "length m < 2 ^ 32" "i < 16" "i \<noteq> 12"
  shows "cc_input (fst (chacha_encrypt_bytes x m)) ! i = cc_input x ! i"
proof -
  let ?k = "(length m + 63) div 64"
  have k: "?k < 2 ^ 31" using assms(3) by (intro less_mult_imp_div_less) simp
  have "ucast (counter64 (cc_input x)) = (1 :: u32)" using assms(2) counter_halves(1) by simp
  then have "unat (ucast (counter64 (cc_input x)) :: u32) + ?k < 2 ^ 32" using k by simp
  from counter_high_kept [OF this] show ?thesis
    using assms by (simp add: encrypt_bytes_spec with_counter_def nth_list_update counter_halves)
qed

lemma poly_key_cong:
  assumes "\<And>i. i < 16 \<Longrightarrow> i \<noteq> 12 \<Longrightarrow> cc_input x ! i = cc_input y ! i"
  shows "chacha20_poly1305_key x = chacha20_poly1305_key y"
proof -
  have "map ((!) (cc_input x)) [4..<12] = map ((!) (cc_input y)) [4..<12]"
    "map ((!) (cc_input x)) [13..<16] = map ((!) (cc_input y)) [13..<16]" using assms by (auto intro!: map_cong)
  then show ?thesis by (simp add: chacha20_poly1305_key_def chacha_key_def chacha_nonce_def)
qed

lemma poly_key_32: "\<exists>key. chacha20_poly1305_key x = Some key \<and> length key = 32"
proof -
  have "length (filter (\<lambda>i. i mod 4 = 0) [0..<32]) = (8 :: nat)" by code_simp
  then show ?thesis
    by (simp add: chacha20_poly1305_key_def poly1305_generate_key_def chacha20_block_def Let_def)
qed

section \<open>One record of ChaCha20-Poly1305\<close>

lemma aead_seals:
  assumes x: "length (cc_input x) = 16" "cc_input x ! 12 = 1" and st: "length (pc_buffer st) = 16" and key: "length key = 32"
    and n: "length aad \<le> 32" "length pt < 2 ^ 32"
  shows "chacha20_poly1305_aead st x pt aad key =
    Some (fst (chacha_encrypt_bytes x pt),
      snd (chacha_encrypt_bytes x pt) @ aead_tag key aad (snd (chacha_encrypt_bytes x pt)))"
proof -
  have i: "chacha_ivsetup_96bitnonce x None 1 = x"
  proof -
    have "(cc_input x)[12 := 1] = cc_input x" using x(2) by (metis list_update_id)
    then show ?thesis by (simp add: chacha_ivsetup_96bitnonce_def Let_def)
  qed
  have l: "length (snd (chacha_encrypt_bytes x pt)) = length pt" using x(1) by (simp add: encrypt_bytes_spec)
  have "length aad < 2 ^ 32" using n(1) by simp
  note t = tag_of_parts [OF key st this, of "snd (chacha_encrypt_bytes x pt)" aad, unfolded l, OF n(2) refl]
  show ?thesis
    using n(1) t by (simp add: chacha20_poly1305_aead_def i Let_def case_prod_unfold POLY1305_MAX_AAD_def)
qed

section \<open>The two ends of one direction\<close>

text \<open>What LibTomCrypt promises.\<close>

definition tomcrypt_laws :: "('cbc, 'gcm) record_prims \<Rightarrow> bool" where
  "tomcrypt_laws P \<longleftrightarrow>
     (\<forall>g iv aad pt. length (fst (gcm_seal P g iv aad pt)) = length pt \<and> length (snd (gcm_seal P g iv aad pt)) = 16 \<and>
        gcm_open P g iv aad (fst (gcm_seal P g iv aad pt)) = (0, pt, snd (gcm_seal P g iv aad pt))) \<and>
     (\<forall>pt l. 16 dvd length pt \<longrightarrow> length (fst (cbc_encrypt P pt l)) = length pt \<and>
        cbc_decrypt P (fst (cbc_encrypt P pt l)) l = (0, pt, snd (cbc_encrypt P pt l))) \<and>
     (\<forall>n \<in> {20, 32, 48}. \<forall>key m. key \<noteq> [] \<longrightarrow> (\<exists>mac. hmac P n key m = Some mac \<and> length mac = n))"

lemma tomcrypt_lawsD:
  assumes "tomcrypt_laws P"
  shows "length (fst (gcm_seal P g iv aad pt)) = length pt" "length (snd (gcm_seal P g iv aad pt)) = 16"
    "gcm_open P g iv aad (fst (gcm_seal P g iv aad pt)) = (0, pt, snd (gcm_seal P g iv aad pt))"
    "16 dvd length pt \<Longrightarrow> length (fst (cbc_encrypt P pt l)) = length pt"
    "16 dvd length pt \<Longrightarrow> cbc_decrypt P (fst (cbc_encrypt P pt l)) l = (0, pt, snd (cbc_encrypt P pt l))"
    "n \<in> {20, 32, 48} \<Longrightarrow> key \<noteq> [] \<Longrightarrow> \<exists>mac. hmac P n key m = Some mac \<and> length mac = n"
  using assms unfolding tomcrypt_laws_def by blast+

text \<open>The cipher with which one side protects and that with which the other opens.\<close>

definition cipher_pair :: "u16 \<Rightarrow> ('cbc, 'gcm) TLSCipher \<Rightarrow> ('cbc, 'gcm) TLSCipher \<Rightarrow> bool" where
  "cipher_pair cipher s r \<longleftrightarrow> ci_created s = ci_created r \<and> length (ci_local_mac s) = 48 \<and> length (ci_remote_mac r) = 48 \<and>
     (if ci_created s = 3 then
        \<exists>l l' k k'. ci_ctx s = Chacha_ctx l l' \<and> ci_ctx r = Chacha_ctx k' k \<and> length (cc_input l) = 16 \<and> length (cc_input k) = 16 \<and>
          take 12 (cc_input l) = take 12 (cc_input k) \<and> take 12 (ci_local_mac s) = take 12 (ci_remote_mac r)
      else if ci_created s = 2 then
        \<exists>l l' k'. ci_ctx s = Gcm_ctx l l' \<and> ci_ctx r = Gcm_ctx k' l \<and> take 4 (ci_local_mac s) = take 4 (ci_remote_mac r)
      else ci_created s = 1 \<and> 0 < tls_mac_length cipher \<and>
        (\<exists>l l' k'. ci_ctx s = Cbc_ctx l l' \<and> ci_ctx r = Cbc_ctx k' l \<and>
           take (tls_mac_length cipher) (ci_local_mac s) = take (tls_mac_length cipher) (ci_remote_mac r)))"

text \<open>A sender and a receiver that are at the same record of the same negotiated connection.\<close>

definition paired :: "('cbc, 'gcm) TLSContext \<Rightarrow> ('cbc, 'gcm) TLSContext \<Rightarrow> bool" where
  "paired s r \<longleftrightarrow> tx_dtls s = 0 \<and> tx_dtls r = 0 \<and> tx_cipher_spec_set s \<noteq> 0 \<and> tx_cipher_spec_set r \<noteq> 0 \<and>
     tx_version s = tx_version r \<and> tx_version s \<in> {0x0301, 0x0302, 0x0303} \<and> tx_cipher s = tx_cipher r \<and>
     tx_local_seq s = tx_remote_seq r \<and> cipher_pair (tx_cipher s) (tx_crypto s) (tx_crypto r)"

definition record_bytes :: "byte \<Rightarrow> u16 \<Rightarrow> byte list \<Rightarrow> byte list" where
  "record_bytes type version data = [type] @ bytes16 (htons version) @ bytes16 (htons (of_nat (length data))) @ data"

lemma record_bytes_parts:
  "length (record_bytes t v d) = 5 + length d" "drop 5 (record_bytes t v d) = d"
  "record_bytes t v d ! 0 = t" "ld8 (record_bytes t v d) 0 = t" "take 3 (record_bytes t v d) = t # bytes16 (htons v)"
  "record_bytes t v d ! Suc 0 = bytes16 (htons v) ! 0" "record_bytes t v d ! 2 = bytes16 (htons v) ! 1"
  by (simp_all add: record_bytes_def bytes16_def ld8_def)

lemma header_bytes: "tx_dtls c = 0 \<Longrightarrow> record_header c ([t] @ bytes16 (htons v) @ [0, 0] @ d) = record_bytes t v d"
  by (simp add: record_header_def record_header_size_def record_bytes_def bytes16_def st16_def Let_def)

lemma ldn_record: "i + n \<le> length d \<Longrightarrow> ldn n (record_bytes t v d) (5 + i) = ldn n d i"
proof -
  have "ldn n (record_bytes t v d) (5 + i) = take n (drop i (drop 5 (record_bytes t v d)))" by (simp add: ldn_def add.commute)
  then show ?thesis by (simp only: record_bytes_parts(2) ldn_def)
qed

text \<open>The additional data of the two sides agree.\<close>

lemma record_aad_same: "record_aad seq (record_bytes t v d) n = record_aad seq (record_bytes t v d') n"
  by (simp add: record_aad_def record_bytes_parts)

lemma record_aad_length: "length (record_aad (bytes64 x) buf n) = 13"
  by (simp add: record_aad_def bytes64_def)

lemma pad16_aad:
  assumes "length aad = 13"
  shows "pad16 (aad @ [0, 0, 0]) = pad16 aad"
proof -
  have "replicate 3 (0 :: byte) = [0, 0, 0]" unfolding numeral_3_eq_3 by simp
  then show ?thesis using assms by (simp add: pad16_def)
qed

text \<open>ChaCha20-Poly1305: no promise of another library is needed.\<close>

lemma chacha_record:
  assumes p: "paired s r" and c: "ci_created (tx_crypto s) = 3" and d: "length d \<le> 0x4000"
    and st: "length (pc_buffer stack) = 16" "length (pc_buffer stack') = 16"
  shows "\<exists>ct x y. seal_aead P stack rnd s (record_bytes t v d) = Some (ct, x) \<and> length ct = length d + 16 \<and>
    (\<forall>rnd'. open_chacha P' stack' rnd' r (record_bytes t v ct) (length ct) = Opened d (r\<lparr>tx_crypto := (tx_crypto r)\<lparr>ci_ctx := y\<rparr>\<rparr>)) \<and>
    cipher_pair (tx_cipher s) ((tx_crypto s)\<lparr>ci_ctx := x\<rparr>) ((tx_crypto r)\<lparr>ci_ctx := y\<rparr>)"
proof -
  obtain l l' k k' where x: "ci_ctx (tx_crypto s) = Chacha_ctx l l'" "ci_ctx (tx_crypto r) = Chacha_ctx k' k"
    "length (cc_input l) = 16" "length (cc_input k) = 16" "take 12 (cc_input l) = take 12 (cc_input k)"
    "take 12 (ci_local_mac (tx_crypto s)) = take 12 (ci_remote_mac (tx_crypto r))"
    using p c by (auto simp: paired_def cipher_pair_def)
  have cr: "ci_created (tx_crypto r) = 3" and seq: "tx_local_seq s = tx_remote_seq r" and dt: "tx_dtls s = 0" "tx_dtls r = 0"
    using p c by (auto simp: paired_def cipher_pair_def)
  let ?seq = "bytes64 (htonll (tx_remote_seq r))"
  let ?l = "chacha_ivupdate l (ci_local_mac (tx_crypto s)) ?seq 1"
  let ?k = "chacha_ivupdate k (ci_remote_mac (tx_crypto r)) ?seq 1"
  have lk: "cc_input ?l = cc_input ?k" by (rule ivupdate_same [OF x(3-6)])
  have i: "length (cc_input ?l) = 16" "cc_input ?l ! 12 = 1" using x(3) by (simp_all add: ivupdate_input nth_append)
  let ?e = "snd (chacha_encrypt_bytes ?l d)"
  have e: "length ?e = length d" using i(1) by (simp add: encrypt_bytes_spec)
  have ik: "length (cc_input ?k) = 16" "cc_input ?k ! 12 = 1" using i unfolding lk by simp_all
  have d32: "length d < 2 ^ 32" using d by simp
  obtain key where key: "chacha20_poly1305_key ?l = Some key" "length key = 32" using poly_key_32 by blast
  have "cc_input (fst (chacha_encrypt_bytes ?k ?e)) ! i = cc_input ?l ! i" if "i < 16" "i \<noteq> 12" for i
    using encrypt_keeps_nonce [OF ik, of ?e i] that d32 e lk by simp
  then have key': "chacha20_poly1305_key (fst (chacha_encrypt_bytes ?k ?e)) = Some key"
    unfolding key(1) [symmetric] by (rule poly_key_cong)
  let ?aad = "record_aad ?seq (record_bytes t v d) (length d)"
  let ?tag = "aead_tag key ?aad ?e"
  have al: "length ?aad = 13" by (rule record_aad_length)
  have "length ?aad \<le> 32" using al by simp
  note seal = aead_seals [OF i st(1) key(2) this d32]
  have sealed: "seal_aead P stack rnd s (record_bytes t v d) = Some (?e @ ?tag, Chacha_ctx (fst (chacha_encrypt_bytes ?l d)) l')"
    using c x(1) key(1) seal seq dt
    by (simp add: seal_aead_def record_header_size_def record_bytes_parts Let_def)
  let ?ct = "?e @ ?tag"
  have tl: "length ?tag = 16" by (simp add: aead_tag_def poly1305_tag_def)
  have ct: "length ?ct = length d + 16" using e tl by simp
  have m: "ldn (length d) (record_bytes t v ?ct) 5 = ?e" "ldn 16 (record_bytes t v ?ct) (5 + length d) = ?tag"
    using ldn_record [of 0 "length d" ?ct] ldn_record [of "length d" 16 ?ct] e tl by (simp_all add: ldn_def)
  have aad: "record_aad ?seq (record_bytes t v ?ct) (length d) = ?aad" by (rule record_aad_same)
  have "length ?aad < 2 ^ 32" "length ?e < 2 ^ 32" using al e d32 by simp_all
  note tg = tag_of_parts [OF key(2) st(2) this pad16_aad [OF al]]
  have tag': "snd (poly1305_finish (poly1305_update (poly1305_update_padded (poly1305_update_padded (poly1305_init stack' key)
      (?aad @ [0, 0, 0])) ?e) (aead_trail 13 (of_nat (length d))))) = ?tag"
    using tg unfolding al e by simp
  have dec: "snd (chacha_encrypt_bytes ?k ?e) = d" by (rule encrypt_bytes_twice [OF i(1) lk [symmetric]])
  let ?y = "Chacha_ctx k' (fst (chacha_encrypt_bytes ?k ?e))"
  have opened: "open_chacha P' stack' rnd' r (record_bytes t v ?ct) (length ?ct) = Opened d (r\<lparr>tx_crypto := (tx_crypto r)\<lparr>ci_ctx := ?y\<rparr>\<rparr>)" for rnd'
    unfolding open_chacha_def x(2) ct
    using m aad key' tag' dec dt(2)
    by (simp add: Let_def record_header_size_def remote_sequence_def case_prod_unfold)
  have "cipher_pair (tx_cipher s) ((tx_crypto s)\<lparr>ci_ctx := Chacha_ctx (fst (chacha_encrypt_bytes ?l d)) l'\<rparr>) ((tx_crypto r)\<lparr>ci_ctx := ?y\<rparr>)"
  proof -
    have t12: "take 12 (cc_input (fst (chacha_encrypt_bytes z w))) = take 12 (cc_input z)" if "length (cc_input z) = 16" for z w
      using that by (simp add: encrypt_bytes_spec with_counter_def)
    have "length (cc_input (fst (chacha_encrypt_bytes ?l d))) = 16" "length (cc_input (fst (chacha_encrypt_bytes ?k ?e))) = 16"
      using i(1) ik(1) by (simp_all add: encrypt_bytes_spec)
    moreover have "take 12 (cc_input (fst (chacha_encrypt_bytes ?l d))) = take 12 (cc_input (fst (chacha_encrypt_bytes ?k ?e)))"
      unfolding t12 [OF i(1)] t12 [OF ik(1)] lk ..
    ultimately show ?thesis using p c cr x(6) by (simp add: paired_def cipher_pair_def)
  qed
  then show ?thesis using sealed opened ct by blast
qed

text \<open>AES-GCM: the explicit part of the nonce travels in front of the text.\<close>

lemma gcm_record:
  assumes P: "tomcrypt_laws P" and p: "paired s r" and c: "ci_created (tx_crypto s) = 2" and rnd: "8 \<le> length rnd"
  shows "\<exists>ct x y. seal_aead P stack rnd s (record_bytes t v d) = Some (ct, x) \<and> length ct = length d + 24 \<and>
    (\<forall>rnd'. open_gcm P stack' rnd' r (record_bytes t v ct) (length ct) = Opened d (r\<lparr>tx_crypto := (tx_crypto r)\<lparr>ci_ctx := y\<rparr>\<rparr>)) \<and>
    cipher_pair (tx_cipher s) ((tx_crypto s)\<lparr>ci_ctx := x\<rparr>) ((tx_crypto r)\<lparr>ci_ctx := y\<rparr>)"
proof -
  obtain l l' k' where x: "ci_ctx (tx_crypto s) = Gcm_ctx l l'" "ci_ctx (tx_crypto r) = Gcm_ctx k' l"
    "take 4 (ci_local_mac (tx_crypto s)) = take 4 (ci_remote_mac (tx_crypto r))"
    using p c by (auto simp: paired_def cipher_pair_def)
  have seq: "tx_local_seq s = tx_remote_seq r" and dt: "tx_dtls s = 0" "tx_dtls r = 0"
    using p c by (auto simp: paired_def cipher_pair_def)
  let ?iv = "take 4 (ci_remote_mac (tx_crypto r)) @ take 8 rnd"
  let ?aad = "record_aad (bytes64 (htonll (tx_remote_seq r))) (record_bytes t v d) (length d)"
  let ?ct = "take 8 rnd @ fst (gcm_seal P l ?iv ?aad d) @ snd (gcm_seal P l ?iv ?aad d)"
  note g = tomcrypt_lawsD(1-3) [OF P, of l ?iv ?aad d]
  have sealed: "seal_aead P stack rnd s (record_bytes t v d) = Some (?ct, Gcm_ctx l l')"
    using c x(1,3) seq dt by (simp add: seal_aead_def record_header_size_def record_bytes_parts Let_def case_prod_unfold)
  have ct: "length ?ct = length d + 24" using g rnd by simp
  have m: "ldn 8 (record_bytes t v ?ct) 5 = take 8 rnd" "ldn (length d) (record_bytes t v ?ct) 13 = fst (gcm_seal P l ?iv ?aad d)"
      "ldn 16 (record_bytes t v ?ct) (13 + length d) = snd (gcm_seal P l ?iv ?aad d)"
    using ldn_record [of 0 8 ?ct] ldn_record [of 8 "length d" ?ct] ldn_record [of "8 + length d" 16 ?ct] g rnd
    by (simp_all add: ldn_def)
  have aad: "record_aad (bytes64 (htonll (tx_remote_seq r))) (record_bytes t v ?ct) (length d) = ?aad" by (rule record_aad_same)
  have "open_gcm P stack' rnd' r (record_bytes t v ?ct) (length ?ct) = Opened d r" for rnd'
    unfolding open_gcm_def x(2) ct using m aad g dt(2)
    by (simp add: Let_def record_header_size_def remote_sequence_def)
  moreover have "r\<lparr>tx_crypto := (tx_crypto r)\<lparr>ci_ctx := Gcm_ctx k' l\<rparr>\<rparr> = r" using x(2) by simp
  moreover have "(tx_crypto s)\<lparr>ci_ctx := Gcm_ctx l l'\<rparr> = tx_crypto s" "(tx_crypto r)\<lparr>ci_ctx := Gcm_ctx k' l\<rparr> = tx_crypto r"
    using x by simp_all
  moreover have "cipher_pair (tx_cipher s) (tx_crypto s) (tx_crypto r)" using p unfolding paired_def by blast
  ultimately show ?thesis using sealed ct by metis
qed

lemma pad_to_16: "(n + (16 - n mod 16)) mod 16 = (0 :: nat)"
  by presburger

text \<open>AES-CBC with a MAC: the receiver finds the padding, the text and the MAC again.\<close>

lemma cbc_record:
  assumes P: "tomcrypt_laws P" and p: "paired s r" and c: "ci_created (tx_crypto s) = 1" and rnd: "16 \<le> length rnd"
    and d: "length d \<le> 0x4000"
  shows "\<exists>ct x y. seal_cbc P rnd s (record_bytes t v d) = Some (ct, x) \<and> length ct \<le> length d + 80 \<and>
    (\<forall>rnd'. open_cbc P stack' rnd' r (record_bytes t v ct) (length ct) = Opened d (r\<lparr>tx_crypto := (tx_crypto r)\<lparr>ci_ctx := y\<rparr>\<rparr>)) \<and>
    cipher_pair (tx_cipher s) ((tx_crypto s)\<lparr>ci_ctx := x\<rparr>) ((tx_crypto r)\<lparr>ci_ctx := y\<rparr>)"
proof -
  let ?n = "tls_mac_length (tx_cipher s)"
  obtain l l' k' where x: "ci_ctx (tx_crypto s) = Cbc_ctx l l'" "ci_ctx (tx_crypto r) = Cbc_ctx k' l"
    "take ?n (ci_local_mac (tx_crypto s)) = take ?n (ci_remote_mac (tx_crypto r))" and n: "0 < ?n"
    using p c by (auto simp: paired_def cipher_pair_def)
  have seq: "tx_local_seq s = tx_remote_seq r" and dt: "tx_dtls s = 0" "tx_dtls r = 0" and v: "tx_version r = tx_version s"
      and ci: "tx_cipher r = tx_cipher s" and lm: "length (ci_remote_mac (tx_crypto r)) = 48"
    using p c by (auto simp: paired_def cipher_pair_def)
  have n3: "?n \<in> {20, 32, 48}" using n by (auto simp: tls_mac_length_def split: if_splits)
  have ln: "(if ?n = 20 then 20 else if ?n = 48 then 48 else 32) = ?n" using n3 by auto
  let ?key = "take ?n (ci_remote_mac (tx_crypto r))"
  have "?key \<noteq> []" using n lm by auto
  then obtain mac where mac: "hmac P ?n ?key (bytes64 (htonll (tx_remote_seq r)) @ record_bytes t v d) = Some mac" "length mac = ?n"
    using tomcrypt_lawsD(6) [OF P n3] by blast
  define iv where "iv = (if tx_version s = TLS_V10 then [] else take 16 rnd)"
  define len where "len = length d + length iv + ?n"
  define k where "k = 16 - len mod 16"
  define pt where "pt = iv @ d @ mac @ replicate k (of_nat (k - 1))"
  have k: "0 < k" "k \<le> 16" by (simp_all add: k_def)
  have iv: "length iv = (if tx_version s = TLS_V10 then 0 else 16)" using rnd by (simp add: iv_def)
  have lpt: "length pt = len + k" using mac(2) by (simp add: pt_def len_def)
  have "(len + k) mod 16 = 0" unfolding k_def by (rule pad_to_16)
  then have d16: "16 dvd length pt" unfolding lpt by auto
  note e = tomcrypt_lawsD(4,5) [OF P d16, of l]
  define ct where "ct = fst (cbc_encrypt P pt l)"
  define l2 where "l2 = snd (cbc_encrypt P pt l)"
  have ct: "length ct = len + k" and dec: "cbc_decrypt P ct l = (0, pt, l2)" using e lpt by (simp_all add: ct_def l2_def)
  have hm: "tls_hmac_message P True s (record_bytes t v d) ?n 0 = Some mac"
    using mac seq dt x(3) by (simp add: tls_hmac_message_def Let_def ln)
  have sealed: "seal_cbc P rnd s (record_bytes t v d) = Some (ct, Cbc_ctx l2 l')"
    unfolding seal_cbc_def x(1) cipher_ctx.case record_header_size_def ct_def l2_def pt_def k_def len_def iv_def
    using dt hm mac(2) by (simp add: record_bytes_parts Let_def case_prod_unfold)
  have ctb: "length ct \<le> length d + 80" unfolding ct len_def using k(2) n3 iv by auto
  let ?r = "r\<lparr>tx_crypto := (tx_crypto r)\<lparr>ci_ctx := Cbc_ctx k' l2\<rparr>\<rparr>"
  have m: "ldn (len + k) (record_bytes t v ct) 5 = ct" using ldn_record [of 0 "length ct" ct] ct by (simp add: ldn_def)
  have pads: "pt ! i = of_nat (k - 1)" if "len \<le> i" "i < len + k" for i
  proof -
    have i: "\<not> i < length (iv @ d @ mac)" "i - length (iv @ d @ mac) < k" using that mac(2) by (auto simp: len_def)
    have "pt = (iv @ d @ mac) @ replicate k (of_nat (k - 1))" by (simp add: pt_def)
    then show ?thesis using i by (simp only: nth_append nth_replicate if_False)
  qed
  have last: "pt ! (len + k - 1) = of_nat (k - 1)" using k(1) by (intro pads) auto
  have pad: "unat (of_nat (k - 1) + 1 :: byte) = k"
  proof -
    have "(of_nat (k - 1) + 1 :: byte) = of_nat (k - 1 + 1)" by (simp only: of_nat_add of_nat_1)
    then show ?thesis using k by (simp add: unat_of_nat take_bit_nat_eq_self)
  qed
  have np: "\<not> (\<exists>i \<in> set [len..<len + k - 1]. pt ! i \<noteq> of_nat (k - 1))" using pads by auto
  have ptr: "drop (length iv) pt = d @ mac @ replicate k (of_nat (k - 1))" by (simp add: pt_def)
  have cut: "(if tx_version ?r \<noteq> TLS_V10 \<and> len > 16 then 16 else 0) = length iv" using v n iv by (simp add: len_def)
  have hm': "tls_hmac_message P False ?r (take 3 (record_bytes t v ct) @ bytes16 (htons (of_nat (length d))) @ d) ?n s0 = Some mac" for s0
  proof -
    have "take 3 (record_bytes t v ct) @ bytes16 (htons (of_nat (length d))) @ d = record_bytes t v d"
      unfolding record_bytes_parts(5) by (simp add: record_bytes_def)
    then show ?thesis using mac dt by (simp add: tls_hmac_message_def Let_def ln)
  qed
  have "open_cbc P stack' rnd' r (record_bytes t v ct) (length ct) = Opened d ?r" for rnd'
  proof -
    have l: "(len + k = 0) = False" "(k < len + k) = True" "len + k - k = len" "len - length iv = length d + ?n"
      using n k by (auto simp: len_def)
    have h: "ldn ?n (d @ mac @ replicate k (of_nat (k - 1))) (length d) = mac" using mac(2) by (simp add: ldn_def)
    have ci': "tx_cipher ?r = tx_cipher s" using ci by simp
    have n': "(length d + ?n < ?n) = False" "(?n = 0) = False" "length d + ?n - ?n = length d" using n by simp_all
    have take_d: "take (length d) (d @ mac @ replicate k (of_nat (k - 1))) = d" by simp
    have dt': "record_header_size r = 5" using dt(2) by (simp add: record_header_size_def)
    show ?thesis
      unfolding open_cbc_def x(2) cipher_ctx.case Let_def dt' ct m dec prod.case last pad
      by (simp only: l if_True if_False not_False_eq_True simp_thms np cut ptr ci' n' hm' h take_d)
  qed
  moreover have "cipher_pair (tx_cipher s) ((tx_crypto s)\<lparr>ci_ctx := Cbc_ctx l2 l'\<rparr>) ((tx_crypto r)\<lparr>ci_ctx := Cbc_ctx k' l2\<rparr>)"
    using p c x(3) n by (auto simp: paired_def cipher_pair_def)
  ultimately show ?thesis using sealed ctb by blast
qed

end
