(* ===== verification/TlsStream.thy ===== *)
theory TlsStream
  imports TlsRecordProps
begin

text \<open>
  The stream of records: cutting it anywhere changes nothing, and what one side writes is what the other side reads.
\<close>

section \<open>Cutting the stream\<close>

text \<open>The handshake never touches the buffer of the stream nor the kind of transport.\<close>

definition leaves_stream :: "(('cbc, 'gcm) TLSContext \<Rightarrow> byte list \<Rightarrow> int \<times> ('cbc, 'gcm) TLSContext) \<Rightarrow> bool" where
  "leaves_stream parse_payload \<longleftrightarrow>
     (\<forall>c text. tx_message_buffer (snd (parse_payload c text)) = tx_message_buffer c \<and> tx_dtls (snd (parse_payload c text)) = tx_dtls c)"

abbreviation same_stream :: "('cbc, 'gcm) TLSContext \<Rightarrow> ('cbc, 'gcm) TLSContext \<Rightarrow> bool" where
  "same_stream c c' \<equiv> tx_message_buffer c' = tx_message_buffer c \<and> tx_dtls c' = tx_dtls c"

lemma update_stream: "tls_record_update P stack rnd c buf = Some (m, c') \<Longrightarrow> same_stream c c'"
  by (auto simp: tls_record_update_def Let_def split: if_splits)

lemma write_packet_stream: "same_stream c (snd (tls_write_packet c packet))"
  by (simp add: tls_write_packet_def split: option.split)

lemma alert_stream: "tls_build_alert P stack rnd c critical code = Some (m, c') \<Longrightarrow> same_stream c c'"
  by (auto simp: tls_build_alert_def Let_def split: if_splits bind_splits dest!: update_stream)

lemma refuse_stream: "refuse_with_alert P stack rnd c code res = Refused n c' \<Longrightarrow> same_stream c c'"
  by (auto simp: refuse_with_alert_def write_packet_stream split: option.splits dest: alert_stream)

lemma refuse_not_opened: "refuse_with_alert P stack rnd c code res \<noteq> Opened text c'"
  by (simp add: refuse_with_alert_def split: option.split prod.split)

text \<open>The context of an answer, whatever it is.\<close>

definition opened_all :: "(('cbc, 'gcm) TLSContext \<Rightarrow> bool) \<Rightarrow> ('cbc, 'gcm) opened \<Rightarrow> bool" where
  "opened_all Q o' = (case o' of Undefined \<Rightarrow> True | Refused n c \<Rightarrow> Q c | Opened text c \<Rightarrow> Q c)"

lemma opened_all_simps [simp]:
  "opened_all Q Undefined" "opened_all Q (Refused n c) = Q c" "opened_all Q (Opened text c) = Q c"
  by (simp_all add: opened_all_def)

lemma refuse_all: "opened_all (same_stream c) (refuse_with_alert P stack rnd c code res)"
  by (cases "refuse_with_alert P stack rnd c code res") (auto simp: refuse_not_opened dest: refuse_stream)

lemma refuse_all':
  "same_stream c c' \<Longrightarrow> opened_all (same_stream c) (refuse_with_alert P stack rnd c' code res)"
  using refuse_all [of c' P stack rnd code res] by (simp add: opened_all_def split: opened.splits)

lemma opened_intros:
  "(\<And>y. y = x \<Longrightarrow> opened_all Q (f y)) \<Longrightarrow> opened_all Q (Let x f)"
  "opened_all Q x' \<Longrightarrow> opened_all Q y' \<Longrightarrow> opened_all Q (if b then x' else y')"
  "(\<And>a b. opened_all Q (g a b)) \<Longrightarrow> opened_all Q (case p of (a, b) \<Rightarrow> g a b)"
  "opened_all Q u \<Longrightarrow> (\<And>a. opened_all Q (h a)) \<Longrightarrow> opened_all Q (case o' of None \<Rightarrow> u | Some a \<Rightarrow> h a)"
  "Q c \<Longrightarrow> opened_all Q (Refused n c)" "Q c \<Longrightarrow> opened_all Q (Opened text c)" "opened_all Q Undefined"
  by (auto split: option.split prod.split)

lemma open_gcm_stream: "opened_all (same_stream c) (open_gcm P stack rnd c buf len)"
  unfolding open_gcm_def
  by (cases "ci_ctx (tx_crypto c)"; simp only: cipher_ctx.case; intro opened_intros refuse_all'; simp (no_asm_simp))

lemma open_chacha_stream: "opened_all (same_stream c) (open_chacha P stack rnd c buf len)"
  unfolding open_chacha_def
  by (cases "ci_ctx (tx_crypto c)"; simp only: cipher_ctx.case; intro opened_intros refuse_all'; simp (no_asm_simp))

lemma open_cbc_stream: "opened_all (same_stream c) (open_cbc P stack rnd c buf len)"
  unfolding open_cbc_def
  by (cases "ci_ctx (tx_crypto c)"; simp only: cipher_ctx.case; intro opened_intros refuse_all'; simp (no_asm_simp))

lemma dispatch_stream:
  assumes "leaves_stream H" "tls_dispatch P stack rnd H c type text = Some (n, c')"
  shows "same_stream c c'"
proof -
  have h: "same_stream c (snd (H c text))" using assms(1) unfolding leaves_stream_def by blast
  have u: "same_stream c c'" if "tls_build_alert P stack rnd d True code = Some (m, e)" "same_stream c d"
    "c' = snd (tls_write_packet e m)" for d e m code
    using alert_stream [OF that(1)] that(2,3) write_packet_stream [of e m] by simp
  show ?thesis
    using assms(2) h u unfolding tls_dispatch_def
    by (auto simp: Let_def tls_write_app_data_def split: if_splits prod.splits)
qed

lemma open_record_stream: "opened_all (same_stream c) (open_record P stack rnd c buf len)"
  by (simp add: open_record_def open_gcm_stream open_chacha_stream open_cbc_stream)

lemma parse_stream:
  assumes "leaves_stream H" "tls_parse_message P stack rnd H c buf = Some (n, c')"
  shows "same_stream c c'"
proof -
  have "opened_all (same_stream c) o' \<Longrightarrow>
      (case o' of Undefined \<Rightarrow> None | Refused res d \<Rightarrow> Some (res, d)
       | Opened text d \<Rightarrow> tls_dispatch P stack rnd H (d\<lparr>tx_remote_seq := tx_remote_seq d + 1\<rparr>) t text) = Some (n, c') \<Longrightarrow>
      same_stream c c'" for o' t
    using dispatch_stream [OF assms(1)] by (cases o') fastforce+
  from this [OF open_record_stream] show ?thesis
    using assms(2) unfolding tls_parse_message_def Let_def by (auto split: if_splits)
qed

text \<open>More bytes behind the buffer: the loop first does what it did without them.\<close>

lemma consume_append:
  "consume_messages P stack rnd H 5 (a @ b) c =
     Option.bind (consume_messages P stack rnd H 5 a c) (\<lambda>(err, rest, d).
       if err = 0 then consume_messages P stack rnd H 5 (rest @ b) d else Some (err, rest @ b, d))"
proof (induction "length a" arbitrary: a c rule: less_induct)
  case less
  let ?len = "unat (ntohs (ld16 a 3)) + 5"
  consider "length a < 5" | "5 \<le> length a" "length a < ?len" | "5 \<le> length a" "?len \<le> length a" by linarith
  then show ?case
  proof cases
    case 1
    then show ?thesis by (simp add: consume_messages.simps [of _ _ _ _ _ a])
  next
    case 2
    then show ?thesis by (simp add: consume_messages.simps [of _ _ _ _ _ a] Let_def)
  next
    case 3
    have ld: "ld16 (a @ b) 3 = ld16 a 3" using 3(1) by (simp add: ld16_append_left)
    have t: "take ?len (a @ b) = take ?len a" "drop ?len (a @ b) = drop ?len a @ b" using 3(2) by simp_all
    show ?thesis
    proof (cases "tls_parse_message P stack rnd H c (take ?len a)")
      case None
      then show ?thesis
        using 3 by (simp add: consume_messages.simps [of _ _ _ _ _ "a @ b"] consume_messages.simps [of _ _ _ _ _ a] ld t Let_def)
    next
      case (Some nd)
      obtain n d where nd: "nd = (n, d)" by (cases nd)
      have "length (drop ?len a) < length a" using 3(1) by simp
      note ih = less [OF this, of d]
      show ?thesis
        using 3 Some ih unfolding nd
        by (simp add: consume_messages.simps [of _ _ _ _ _ "a @ b"] consume_messages.simps [of _ _ _ _ _ a] ld t Let_def
          TLS_BROKEN_CONNECTION_def del: drop_append take_append)
    qed
  qed
qed

text \<open>What the loop keeps, and what an error of it is.\<close>

lemma consume_stream_kept:
  assumes "leaves_stream H" "consume_messages P stack rnd H hs a c = Some (err, rest, d)"
  shows "same_stream c d \<and> err \<le> 0 \<and> (err = 0 \<longrightarrow> tx_critical_error c = 0 \<longrightarrow> tx_critical_error d = 0) \<and>
    length rest \<le> length a"
  using assms(2)
proof (induction "length a" arbitrary: a c rule: less_induct)
  case less
  let ?len = "unat (ntohs (ld16 a (hs - 2))) + hs"
  show ?case
  proof (cases "length a < 5 \<or> length a < ?len")
    case True
    then show ?thesis
      using less(2) by (simp add: consume_messages.simps [of _ _ _ _ _ a] Let_def split: if_splits)
  next
    case False
    then obtain n e where e: "tls_parse_message P stack rnd H c (take ?len a) = Some (n, e)"
      using less(2) by (auto simp: consume_messages.simps [of _ _ _ _ _ a] Let_def split: if_splits option.splits)
    note s = parse_stream [OF assms(1) e]
    show ?thesis
    proof (cases "0 \<le> n \<and> tx_critical_error e = 0")
      case go: True
      then have "?len \<noteq> 0" "consume_messages P stack rnd H hs (drop ?len a) e = Some (err, rest, d)"
        using less(2) False e by (auto simp: consume_messages.simps [of _ _ _ _ _ a] Let_def split: if_splits)
      then have "length (drop ?len a) < length a" using False by auto
      from less(1) [OF this \<open>consume_messages P stack rnd H hs (drop ?len a) e = Some (err, rest, d)\<close>]
      show ?thesis using s go by auto
    next
      case stop: False
      then show ?thesis
        using less(2) False e s
        by (auto simp: consume_messages.simps [of _ _ _ _ _ a] Let_def TLS_BROKEN_CONNECTION_def split: if_splits)
    qed
  qed
qed

text \<open>The result of feeding the bytes in two pieces: the counts of bytes taken add up.\<close>

lemma consume_two:
  assumes H: "leaves_stream H" and c: "tx_dtls c = 0"
  shows "tls_consume_stream P stack rnd H c (a @ b) =
    Option.bind (tls_consume_stream P stack rnd H c a) (\<lambda>(n, d).
      if n < 0 then Some (n, d)
      else map_option (\<lambda>(m, e). (if m < 0 then m else n + m, e)) (tls_consume_stream P stack rnd H d b))"
proof -
  have hs: "record_header_size c = 5" using c by (simp add: record_header_size_def)
  let ?two = "\<lambda>n d. map_option (\<lambda>(m, e). (if m < 0 then m else n + m, e)) (tls_consume_stream P stack rnd H d b)"
  consider "tx_critical_error c \<noteq> 0" | "tx_critical_error c = 0" "a = []" | "tx_critical_error c = 0" "b = []"
    | "tx_critical_error c = 0" "a \<noteq> []" "b \<noteq> []" by blast
  then show ?thesis
  proof cases
    case 1
    then show ?thesis by (simp add: tls_consume_stream_def TLS_BROKEN_CONNECTION_def)
  next
    case 2
    then have "tls_consume_stream P stack rnd H c a = Some (0, c)" by (simp add: tls_consume_stream_def)
    moreover have "?two 0 c = tls_consume_stream P stack rnd H c b" by (cases "tls_consume_stream P stack rnd H c b") auto
    ultimately show ?thesis using 2 by simp
  next
    case 3
    have k: "?two n d = Some (n, d)" if "tls_consume_stream P stack rnd H c a = Some (n, d)" "\<not> n < 0" for n d
    proof -
      have "tx_critical_error d = 0"
        using that consume_stream_kept [OF H, of P stack rnd] 3(1)
        by (fastforce simp: tls_consume_stream_def Let_def split: if_splits)
      then show ?thesis using 3 by (simp add: tls_consume_stream_def)
    qed
    then show ?thesis using 3 by (cases "tls_consume_stream P stack rnd H c a") auto
  next
    case 4
    let ?A = "tx_message_buffer c @ a" and ?c = "c\<lparr>tx_message_buffer := []\<rparr>"
    show ?thesis
    proof (cases "consume_messages P stack rnd H 5 ?A ?c")
      case None
      then show ?thesis using 4 consume_append [of P stack rnd H ?A b ?c] by (simp add: tls_consume_stream_def hs)
    next
      case (Some q)
      obtain err rest d where q: "q = (err, rest, d)" by (cases q)
      note r = Some [unfolded q]
      note k = consume_stream_kept [OF H r]
      have ab: "consume_messages P stack rnd H 5 (?A @ b) ?c =
          (if err = 0 then consume_messages P stack rnd H 5 (rest @ b) d else Some (err, rest @ b, d))"
        unfolding consume_append [of P stack rnd H ?A b ?c] r by simp
      show ?thesis
      proof (cases "err = 0")
        case False
        then show ?thesis using 4 r ab k by (simp add: tls_consume_stream_def hs)
      next
        case True
        then have d: "tx_critical_error d = 0" "d\<lparr>tx_message_buffer := []\<rparr> = d" "tx_dtls d = 0" using k 4 c by simp_all
        then have hd: "record_header_size (d\<lparr>tx_message_buffer := rest\<rparr>) = 5" by (simp add: record_header_size_def)
        have ca: "tls_consume_stream P stack rnd H c a = Some (int (length ?A - length rest), d\<lparr>tx_message_buffer := rest\<rparr>)"
          using 4 r True by (simp add: tls_consume_stream_def hs)
        have cb: "tls_consume_stream P stack rnd H (d\<lparr>tx_message_buffer := rest\<rparr>) b =
            map_option (\<lambda>(err_flag, r, e). if err_flag \<noteq> 0 then (err_flag, e\<lparr>tx_message_buffer := []\<rparr>)
              else (int (length (rest @ b) - length r), e\<lparr>tx_message_buffer := r\<rparr>)) (consume_messages P stack rnd H 5 (rest @ b) d)"
          unfolding tls_consume_stream_def hd using 4 d by (simp add: Let_def)
        show ?thesis
        proof (cases "consume_messages P stack rnd H 5 (rest @ b) d")
          case None
          then show ?thesis using 4 ab True ca cb by (simp add: tls_consume_stream_def hs)
        next
          case (Some p)
          obtain err' rest' e where p: "p = (err', rest', e)" by (cases p)
          note k' = consume_stream_kept [OF H Some [unfolded p]]
          show ?thesis using 4 ab True Some k k' ca cb unfolding p by (auto simp: tls_consume_stream_def hs)
        qed
      qed
    qed
  qed
qed

lemma consume_kept:
  assumes "leaves_stream H" "tls_consume_stream P stack rnd H c a = Some (n, d)" "0 \<le> n"
  shows "tx_critical_error d = 0 \<and> tx_dtls d = tx_dtls c"
  using assms consume_stream_kept [OF assms(1), of P stack rnd]
  by (fastforce simp: tls_consume_stream_def Let_def TLS_BROKEN_CONNECTION_def split: if_splits)

text \<open>One call for every piece that is read, until one reports an error.\<close>

fun consume_pieces ::
  "('cbc, 'gcm) record_prims \<Rightarrow> poly1305_ctx \<Rightarrow> byte list \<Rightarrow>
   (('cbc, 'gcm) TLSContext \<Rightarrow> byte list \<Rightarrow> int \<times> ('cbc, 'gcm) TLSContext) \<Rightarrow> ('cbc, 'gcm) TLSContext \<Rightarrow> byte list list \<Rightarrow>
   (int \<times> ('cbc, 'gcm) TLSContext) option" where
  "consume_pieces P stack rnd H c [] = Some (0, c)"
| "consume_pieces P stack rnd H c (p # ps) =
     Option.bind (tls_consume_stream P stack rnd H c p) (\<lambda>(n, d).
       if n < 0 then Some (n, d)
       else map_option (\<lambda>(m, e). (if m < 0 then m else n + m, e)) (consume_pieces P stack rnd H d ps))"

lemma consume_pieces_concat:
  assumes "leaves_stream H"
  shows "tx_dtls c = 0 \<Longrightarrow> tx_critical_error c = 0 \<Longrightarrow>
    consume_pieces P stack rnd H c ps = tls_consume_stream P stack rnd H c (concat ps)"
proof (induction ps arbitrary: c)
  case Nil
  then show ?case by (simp add: tls_consume_stream_def)
next
  case (Cons p ps)
  have ih: "consume_pieces P stack rnd H d ps = tls_consume_stream P stack rnd H d (concat ps)"
    if "tls_consume_stream P stack rnd H c p = Some (n, d)" "\<not> n < 0" for n d
    using consume_kept [OF assms that(1)] that(2) Cons.prems by (intro Cons.IH) auto
  show ?case
    unfolding concat.simps consume_two [OF assms Cons.prems(1), of P stack rnd p "concat ps"] consume_pieces.simps
    using ih by (cases "tls_consume_stream P stack rnd H c p") auto
qed

section \<open>A record from one side to the other\<close>

lemma record_passes:
  assumes P: "tomcrypt_laws P" and p: "paired s r" and d: "length d \<le> 0x4000" and rnd: "16 \<le> length rnd"
    and st: "length (pc_buffer stack) = 16" "length (pc_buffer stack') = 16" and t: "t \<noteq> TLS_CHANGE_CIPHER"
  shows "\<exists>ct x y. tls_record_update P stack rnd s ([t] @ bytes16 (htons (tx_version s)) @ [0, 0] @ d) =
      Some (record_bytes t (tx_version s) ct, s\<lparr>tx_crypto := x, tx_local_seq := tx_local_seq s + 1\<rparr>) \<and>
    length ct < 2 ^ 16 \<and>
    (\<forall>rnd' H. tls_parse_message P stack' rnd' H r (record_bytes t (tx_version s) ct) =
      tls_dispatch P stack' rnd' H (r\<lparr>tx_crypto := y, tx_remote_seq := tx_remote_seq r + 1\<rparr>) t d) \<and>
    paired (s\<lparr>tx_crypto := x, tx_local_seq := tx_local_seq s + 1\<rparr>) (r\<lparr>tx_crypto := y, tx_remote_seq := tx_remote_seq r + 1\<rparr>)"
proof -
  let ?v = "tx_version s" and ?c = "ci_created (tx_crypto s)"
  have dt: "tx_dtls s = 0" "tx_dtls r = 0" and cs: "tx_cipher_spec_set s \<noteq> 0" "tx_cipher_spec_set r \<noteq> 0"
    and v: "?v \<in> {0x0301, 0x0302, 0x0303}" and cc: "ci_created (tx_crypto r) = ?c" and c: "?c = 1 \<or> ?c = 2 \<or> ?c = 3"
    using p by (auto simp: paired_def cipher_pair_def split: if_splits)
  have rt: "length rnd \<ge> 8" using rnd by simp
  have "\<exists>ct x y. (if ?c = 1 then seal_cbc P rnd s (record_bytes t ?v d) else seal_aead P stack rnd s (record_bytes t ?v d)) = Some (ct, x) \<and>
      length ct < 2 ^ 16 \<and>
      (\<forall>rnd'. open_record P stack' rnd' r (record_bytes t ?v ct) (length ct) = Opened d (r\<lparr>tx_crypto := (tx_crypto r)\<lparr>ci_ctx := y\<rparr>\<rparr>)) \<and>
      cipher_pair (tx_cipher s) ((tx_crypto s)\<lparr>ci_ctx := x\<rparr>) ((tx_crypto r)\<lparr>ci_ctx := y\<rparr>)"
    using c
  proof (elim disjE)
    assume k: "?c = 1"
    obtain ct x y where "seal_cbc P rnd s (record_bytes t ?v d) = Some (ct, x)" "length ct \<le> length d + 80"
      "\<forall>rnd'. open_cbc P stack' rnd' r (record_bytes t ?v ct) (length ct) = Opened d (r\<lparr>tx_crypto := (tx_crypto r)\<lparr>ci_ctx := y\<rparr>\<rparr>)"
      "cipher_pair (tx_cipher s) ((tx_crypto s)\<lparr>ci_ctx := x\<rparr>) ((tx_crypto r)\<lparr>ci_ctx := y\<rparr>)"
      using cbc_record [OF P p k rnd d, of t ?v stack'] by blast
    then show ?thesis
      using k d t cs cc by (intro exI [of _ ct] exI [of _ x] exI [of _ y]) (simp add: open_record_def record_bytes_parts)
  next
    assume k: "?c = 2"
    obtain ct x y where "seal_aead P stack rnd s (record_bytes t ?v d) = Some (ct, x)" "length ct = length d + 24"
      "\<forall>rnd'. open_gcm P stack' rnd' r (record_bytes t ?v ct) (length ct) = Opened d (r\<lparr>tx_crypto := (tx_crypto r)\<lparr>ci_ctx := y\<rparr>\<rparr>)"
      "cipher_pair (tx_cipher s) ((tx_crypto s)\<lparr>ci_ctx := x\<rparr>) ((tx_crypto r)\<lparr>ci_ctx := y\<rparr>)"
      using gcm_record [OF P p k rt, of stack t ?v d stack'] by blast
    then show ?thesis
      using k d t cs cc by (intro exI [of _ ct] exI [of _ x] exI [of _ y]) (simp add: open_record_def record_bytes_parts)
  next
    assume k: "?c = 3"
    obtain ct x y where "seal_aead P stack rnd s (record_bytes t ?v d) = Some (ct, x)" "length ct = length d + 16"
      "\<forall>rnd'. open_chacha P stack' rnd' r (record_bytes t ?v ct) (length ct) = Opened d (r\<lparr>tx_crypto := (tx_crypto r)\<lparr>ci_ctx := y\<rparr>\<rparr>)"
      "cipher_pair (tx_cipher s) ((tx_crypto s)\<lparr>ci_ctx := x\<rparr>) ((tx_crypto r)\<lparr>ci_ctx := y\<rparr>)"
      using chacha_record [OF p k d st, of P rnd t ?v P] by blast
    then show ?thesis
      using k d t cs cc by (intro exI [of _ ct] exI [of _ x] exI [of _ y]) (simp add: open_record_def record_bytes_parts)
  qed
  then obtain ct x y where
    seal: "(if ?c = 1 then seal_cbc P rnd s (record_bytes t ?v d) else seal_aead P stack rnd s (record_bytes t ?v d)) = Some (ct, x)"
    and l: "length ct < 2 ^ 16"
    and op: "\<And>rnd'. open_record P stack' rnd' r (record_bytes t ?v ct) (length ct) = Opened d (r\<lparr>tx_crypto := (tx_crypto r)\<lparr>ci_ctx := y\<rparr>\<rparr>)"
    and cp: "cipher_pair (tx_cipher s) ((tx_crypto s)\<lparr>ci_ctx := x\<rparr>) ((tx_crypto r)\<lparr>ci_ctx := y\<rparr>)" by blast
  have hs: "record_header_size s = 5" "record_header_size r = 5" using dt by (simp_all add: record_header_size_def)
  let ?m = "record_bytes t ?v ct"
  have m3: "take 3 (record_bytes t ?v d) @ bytes16 (htons (of_nat (length ct))) @ ct = ?m"
    unfolding record_bytes_parts(5) by (simp add: record_bytes_def)
  have up: "tls_record_update P stack rnd s ([t] @ bytes16 (htons ?v) @ [0, 0] @ d) =
      Some (?m, s\<lparr>tx_crypto := (tx_crypto s)\<lparr>ci_ctx := x\<rparr>, tx_local_seq := tx_local_seq s + 1\<rparr>)"
    using c cs(1) t seal m3 unfolding tls_record_update_def header_bytes [OF dt(1)] hs(1) Let_def record_bytes_parts(3) by auto
  have ld: "ntohs (ld16 ?m 3) = of_nat (length ct)" "ntohs (ld16 ?m 1) = ?v"
    by (simp_all add: record_bytes_def ld16_def bytes16_def)
  have ul: "unat (of_nat (length ct) :: u16) = length ct" using l by (simp add: unat_of_nat take_bit_nat_eq_self)
  have parse: "tls_parse_message P stack' rnd' H r ?m =
      tls_dispatch P stack' rnd' H (r\<lparr>tx_crypto := (tx_crypto r)\<lparr>ci_ctx := y\<rparr>, tx_remote_seq := tx_remote_seq r + 1\<rparr>) t d" for rnd' H
    using v op unfolding tls_parse_message_def hs(2) Let_def
    by (auto simp: ld [unfolded One_nat_def] ul version_supported_def record_bytes_parts)
  have "paired (s\<lparr>tx_crypto := (tx_crypto s)\<lparr>ci_ctx := x\<rparr>, tx_local_seq := tx_local_seq s + 1\<rparr>)
      (r\<lparr>tx_crypto := (tx_crypto r)\<lparr>ci_ctx := y\<rparr>, tx_remote_seq := tx_remote_seq r + 1\<rparr>)"
    using p cp by (auto simp: paired_def)
  then show ?thesis using up l parse by blast
qed

section \<open>Application data\<close>

text \<open>A side that writes and a side that reads, at rest: negotiated, with nothing half read.\<close>

definition connected :: "('cbc, 'gcm) TLSContext \<Rightarrow> ('cbc, 'gcm) TLSContext \<Rightarrow> bool" where
  "connected s r \<longleftrightarrow> paired s r \<and> tx_status s = 0xFF \<and> tx_status r = 0xFF \<and> tx_critical_error r = 0 \<and> tx_message_buffer r = []"

text \<open>What one call of \<open>tls_write\<close> puts out and what taking it in gives.\<close>

lemma write_read:
  assumes P: "tomcrypt_laws P" and c: "connected s r" and data: "data \<noteq> []" and rnd: "16 \<le> length rnd"
    and st: "length (pc_buffer stack) = 16" "length (pc_buffer stack') = 16"
  shows "\<exists>m s' r'. tls_write P stack rnd s data = Some (int (min (length data) 0x4000), s') \<and> tx_tls_buffer s' = tx_tls_buffer s @ m \<and>
    (\<forall>rnd' H. consume_messages P stack' rnd' H 5 m r = Some (0, [], r')) \<and>
    (\<forall>rnd' H p q. m = p @ q \<and> q \<noteq> [] \<longrightarrow> consume_messages P stack' rnd' H 5 p r = Some (0, p, r)) \<and>
    tx_app_buffer r' = tx_app_buffer r @ take 0x4000 data \<and> connected s' r'"
proof -
  let ?d = "take 0x4000 data"
  have p: "paired s r" and s1: "tx_status s = 0xFF" "tx_status r = 0xFF" "tx_critical_error r = 0" "tx_message_buffer r = []"
    using c by (auto simp: connected_def)
  have dt: "tx_dtls s = 0" "tx_dtls r = 0" using p by (auto simp: paired_def)
  have d: "length ?d \<le> 0x4000" "?d \<noteq> []" using data by simp_all
  have t: "TLS_APPLICATION_DATA \<noteq> TLS_CHANGE_CIPHER" by (simp add: TLS_APPLICATION_DATA_def TLS_CHANGE_CIPHER_def)
  obtain ct x y where up: "tls_record_update P stack rnd s ([TLS_APPLICATION_DATA] @ bytes16 (htons (tx_version s)) @ [0, 0] @ ?d) =
      Some (record_bytes TLS_APPLICATION_DATA (tx_version s) ct, s\<lparr>tx_crypto := x, tx_local_seq := tx_local_seq s + 1\<rparr>)"
    and ct: "length ct < 2 ^ 16"
    and parse: "\<And>rnd' H. tls_parse_message P stack' rnd' H r (record_bytes TLS_APPLICATION_DATA (tx_version s) ct) =
      tls_dispatch P stack' rnd' H (r\<lparr>tx_crypto := y, tx_remote_seq := tx_remote_seq r + 1\<rparr>) TLS_APPLICATION_DATA ?d"
    and pr: "paired (s\<lparr>tx_crypto := x, tx_local_seq := tx_local_seq s + 1\<rparr>) (r\<lparr>tx_crypto := y, tx_remote_seq := tx_remote_seq r + 1\<rparr>)"
    using record_passes [OF P p d(1) rnd st t] by blast
  let ?m = "record_bytes TLS_APPLICATION_DATA (tx_version s) ct"
  let ?s = "s\<lparr>tx_crypto := x, tx_local_seq := tx_local_seq s + 1, tx_tls_buffer := tx_tls_buffer s @ ?m\<rparr>"
  let ?r = "r\<lparr>tx_crypto := y, tx_remote_seq := tx_remote_seq r + 1, tx_app_buffer := tx_app_buffer r @ ?d\<rparr>"
  have "tls_packet_append ?d (tls_record_packet s TLS_APPLICATION_DATA (length ?d)) =
      Some \<lparr>pk_buf = [TLS_APPLICATION_DATA] @ bytes16 (htons (tx_version s)) @ [0, 0] @ ?d, pk_size = of_nat (length ?d) + 10\<rparr>"
  proof -
    have u: "unat (of_nat (length ?d) + 10 :: u32) = length ?d + 10"
      using d(1) by (simp add: unat_word_ariths unat_of_nat take_bit_nat_eq_self)
    have u5: "unat (5 + of_nat (length ?d) :: u32) = 5 + length ?d"
      using d(1) by (simp add: unat_word_ariths unat_of_nat take_bit_nat_eq_self)
    have "\<not> (5 + of_nat (length ?d) :: u32) > of_nat (length ?d) + 10" unfolding word_less_nat_alt u u5 by simp
    then show ?thesis
      using d u dt(1) by (simp add: tls_packet_append_def tls_record_packet_def record_header_size_def Let_def numeral_2_eq_2)
  qed
  then have w: "tls_write P stack rnd s data = Some (int (min (length data) 0x4000), ?s)"
    using s1(1) d(2) up by (simp add: tls_write_def tls_build_message_def tls_write_packet_def TLS_MAXTLS_APP_SIZE_def record_bytes_parts Let_def)
  have cm: "consume_messages P stack' rnd' H 5 ?m r = Some (0, [], ?r)" for rnd' H
  proof -
    have ld: "unat (ntohs (ld16 ?m 3)) = length ct" using ct
      by (simp add: record_bytes_def ld16_def bytes16_def unat_of_nat take_bit_nat_eq_self)
    have dp: "tls_dispatch P stack' rnd' H (r\<lparr>tx_crypto := y, tx_remote_seq := tx_remote_seq r + 1\<rparr>) TLS_APPLICATION_DATA ?d =
        Some (int (5 + length ?d), ?r)"
      using s1 dt by (simp add: tls_dispatch_def tls_write_app_data_def record_header_size_def Let_def)
    show ?thesis
      using parse dp s1(3) ld by (simp add: consume_messages.simps [of _ _ _ _ _ ?m] consume_messages.simps [of _ _ _ _ _ "[]"] record_bytes_parts)
  qed
  have part: "consume_messages P stack' rnd' H 5 p r = Some (0, p, r)" if "?m = p @ q" "q \<noteq> []" for rnd' H p q
  proof (cases "length p < 5")
    case True
    then show ?thesis by (simp add: consume_messages.simps [of _ _ _ _ _ p])
  next
    case False
    have "ld16 p 3 = ld16 ?m 3" unfolding that(1) using False by (simp add: ld16_append_left)
    then have "unat (ntohs (ld16 p 3)) = length ct" using ct
      by (simp add: record_bytes_def ld16_def bytes16_def unat_of_nat take_bit_nat_eq_self)
    moreover have "length p + length q = 5 + length ct" using arg_cong [OF that(1), of length] by (simp add: record_bytes_parts)
    moreover have "0 < length q" using that(2) by simp
    ultimately have "unat (ntohs (ld16 p 3)) + 5 > length p" by linarith
    then show ?thesis using False by (simp add: consume_messages.simps [of _ _ _ _ _ p] Let_def)
  qed
  have "connected ?s ?r" using pr c by (auto simp: connected_def paired_def)
  then show ?thesis using w cm part by (intro exI [of _ ?m] exI [of _ ?s] exI [of _ ?r]) simp
qed

text \<open>A write only adds to the bytes to be sent.\<close>

lemma update_tls_buffer: "tls_record_update P stack rnd c buf = Some (m, c') \<Longrightarrow> tx_tls_buffer c' = tx_tls_buffer c"
  by (auto simp: tls_record_update_def Let_def split: if_splits)

lemma write_appends: "tls_write P stack rnd s data = Some (n, s') \<Longrightarrow> \<exists>m. tx_tls_buffer s' = tx_tls_buffer s @ m"
  by (auto simp: tls_write_def tls_build_message_def tls_write_packet_def Let_def split: if_splits bind_splits option.splits
    dest!: update_tls_buffer)

text \<open>A sequence of writes, each with the random bytes it uses.\<close>

fun tls_writes ::
  "('cbc, 'gcm) record_prims \<Rightarrow> poly1305_ctx \<Rightarrow> ('cbc, 'gcm) TLSContext \<Rightarrow> (byte list \<times> byte list) list \<Rightarrow> ('cbc, 'gcm) TLSContext option" where
  "tls_writes P stack s [] = Some s"
| "tls_writes P stack s ((rnd, data) # ws) = Option.bind (tls_write P stack rnd s data) (\<lambda>(n, s). tls_writes P stack s ws)"

lemma writes_read:
  assumes P: "tomcrypt_laws P" and st: "length (pc_buffer stack) = 16" "length (pc_buffer stack') = 16" and H: "leaves_stream H"
  shows "connected s r \<Longrightarrow> \<forall>(rnd, data) \<in> set ws. data \<noteq> [] \<and> 16 \<le> length rnd \<Longrightarrow>
    \<exists>s' m r'. tls_writes P stack s ws = Some s' \<and> tx_tls_buffer s' = tx_tls_buffer s @ m \<and>
      consume_messages P stack' rnd' H 5 m r = Some (0, [], r') \<and>
      tx_app_buffer r' = tx_app_buffer r @ concat (map (take 0x4000 \<circ> snd) ws) \<and> connected s' r'"
proof (induction ws arbitrary: s r)
  case Nil
  then show ?case by (intro exI [of _ s] exI [of _ "[]"] exI [of _ r]) (simp add: consume_messages.simps)
next
  case (Cons w ws)
  obtain rnd data where w: "w = (rnd, data)" by (cases w)
  have d: "data \<noteq> []" "16 \<le> length rnd" using Cons.prems(2) w by auto
  obtain m s1 r1 where a: "tls_write P stack rnd s data = Some (int (min (length data) 0x4000), s1)"
    "tx_tls_buffer s1 = tx_tls_buffer s @ m" "\<And>rnd' H. consume_messages P stack' rnd' H 5 m r = Some (0, [], r1)"
    "tx_app_buffer r1 = tx_app_buffer r @ take 0x4000 data" "connected s1 r1"
    using write_read [OF P Cons.prems(1) d st] by blast
  have prem: "\<forall>(rnd, data) \<in> set ws. data \<noteq> [] \<and> 16 \<le> length rnd" using Cons.prems(2) by simp
  obtain s2 m2 r2 where b: "tls_writes P stack s1 ws = Some s2" "tx_tls_buffer s2 = tx_tls_buffer s1 @ m2"
    "consume_messages P stack' rnd' H 5 m2 r1 = Some (0, [], r2)"
    "tx_app_buffer r2 = tx_app_buffer r1 @ concat (map (take 0x4000 \<circ> snd) ws)" "connected s2 r2"
    using Cons.IH [OF a(5) prem] by blast
  have "consume_messages P stack' rnd' H 5 (m @ m2) r = Some (0, [], r2)"
    unfolding consume_append [of P stack' rnd' H m m2 r] a(3) using b(3) by simp
  moreover have "tls_writes P stack s (w # ws) = Some s2" using a(1) b(1) w by simp
  moreover have "tx_tls_buffer s2 = tx_tls_buffer s @ (m @ m2)" using a(2) b(2) by simp
  moreover have "tx_app_buffer r2 = tx_app_buffer r @ concat (map (take 0x4000 \<circ> snd) (w # ws))"
    unfolding b(4) a(4) w by simp
  ultimately show ?case using b(5) by blast
qed

lemma writes_append: "tls_writes P stack s ws = Some s' \<Longrightarrow> \<exists>m. tx_tls_buffer s' = tx_tls_buffer s @ m"
proof (induction ws arbitrary: s)
  case (Cons w ws)
  obtain rnd data where w: "w = (rnd, data)" by (cases w)
  obtain n s1 where s1: "tls_write P stack rnd s data = Some (n, s1)" "tls_writes P stack s1 ws = Some s'"
    using Cons.prems w by (auto split: bind_splits)
  have "\<exists>m. tx_tls_buffer s1 = tx_tls_buffer s @ m" using write_appends [OF s1(1)] .
  then show ?case using Cons.IH [OF s1(2)] by auto
qed simp

text \<open>A stream cut at any byte: the reader is then at the end of one of the writes, with part of a record waiting.\<close>

lemma prefix_read:
  assumes P: "tomcrypt_laws P" and st: "length (pc_buffer stack) = 16" "length (pc_buffer stack') = 16"
  shows "connected s r \<Longrightarrow> \<forall>(rnd, data) \<in> set ws. data \<noteq> [] \<and> 16 \<le> length rnd \<Longrightarrow>
    tls_writes P stack s ws = Some s' \<Longrightarrow> tx_tls_buffer s' = tx_tls_buffer s @ p @ q \<Longrightarrow>
    \<exists>past later s1 r1 part. ws = past @ later \<and> consume_messages P stack' rnd' H 5 p r = Some (0, part, r1) \<and>
      connected s1 r1 \<and> tx_app_buffer r1 = tx_app_buffer r @ concat (map (take 0x4000 \<circ> snd) past) \<and>
      tls_writes P stack s1 later = Some s' \<and> tx_tls_buffer s' = tx_tls_buffer s1 @ part @ q"
proof (induction ws arbitrary: s r p)
  case Nil
  then show ?case
    by (intro exI [of _ "[]"] exI [of _ s] exI [of _ r]) (simp add: consume_messages.simps)
next
  case (Cons w ws)
  obtain rnd data where w: "w = (rnd, data)" by (cases w)
  have d: "data \<noteq> []" "16 \<le> length rnd" using Cons.prems(2) w by auto
  obtain m s1 r1 where a: "tls_write P stack rnd s data = Some (int (min (length data) 0x4000), s1)"
    "tx_tls_buffer s1 = tx_tls_buffer s @ m" "\<forall>rnd' H. consume_messages P stack' rnd' H 5 m r = Some (0, [], r1)"
    "\<forall>rnd' H p q. m = p @ q \<and> q \<noteq> [] \<longrightarrow> consume_messages P stack' rnd' H 5 p r = Some (0, p, r)"
    "tx_app_buffer r1 = tx_app_buffer r @ take 0x4000 data" "connected s1 r1"
    using write_read [OF P Cons.prems(1) d st] by blast
  have ws: "tls_writes P stack s1 ws = Some s'" using Cons.prems(3) w a(1) by simp
  have prem: "\<forall>(rnd, data) \<in> set ws. data \<noteq> [] \<and> 16 \<le> length rnd" using Cons.prems(2) by simp
  obtain m2 where m2: "tx_tls_buffer s' = tx_tls_buffer s1 @ m2" using writes_append [OF ws] by blast
  then have pq: "m @ m2 = p @ q" using Cons.prems(4) a(2) by simp
  show ?case
  proof (cases "length p < length m")
    case True
    have "take (length p) (m @ m2) = p" unfolding pq by simp
    then have "take (length p) m = p" using True by simp
    then have q1: "m = p @ drop (length p) m" using append_take_drop_id [of "length p" m] by (simp only:)
    have q2: "drop (length p) m \<noteq> []" using True by simp
    have "consume_messages P stack' rnd' H 5 p r = Some (0, p, r)" using a(4) q1 q2 by blast
    moreover have "connected s r" by (rule Cons.prems(1))
    ultimately show ?thesis using Cons.prems(3,4)
      by (intro exI [of _ "[]"] exI [of _ "w # ws"] exI [of _ s] exI [of _ r] exI [of _ p]) simp
  next
    case False
    then obtain p2 where p2: "p = m @ p2" "m2 = p2 @ q" using pq by (auto simp: append_eq_append_conv2)
    obtain past later s2 r2 part where ih: "ws = past @ later" "consume_messages P stack' rnd' H 5 p2 r1 = Some (0, part, r2)"
      "connected s2 r2" "tx_app_buffer r2 = tx_app_buffer r1 @ concat (map (take 0x4000 \<circ> snd) past)"
      "tls_writes P stack s2 later = Some s'" "tx_tls_buffer s' = tx_tls_buffer s2 @ part @ q"
      using Cons.IH [OF a(6) prem ws] m2 p2(2) by blast
    have "consume_messages P stack' rnd' H 5 p r = Some (0, part, r2)"
      unfolding p2(1) consume_append [of P stack' rnd' H m p2 r] using a(3) ih(2) by simp
    moreover have "w # ws = (w # past) @ later" using ih(1) by simp
    moreover have "tx_app_buffer r2 = tx_app_buffer r @ concat (map (take 0x4000 \<circ> snd) (w # past))"
      unfolding ih(4) a(5) w by simp
    ultimately show ?thesis using ih(3,5,6) by blast
  qed
qed

end
