(* ===== verification/TlsAead.thy ===== *)
theory TlsAead
  imports TlsRecordProps
begin

text \<open>
  ChaCha20-Poly1305 in records against the text of RFC 8439 and RFC 7905: the key, the nonce and the block number are
  bytes here, where the code keeps sixteen words and changes four of them in place.
\<close>

section \<open>The construction of the RFC\<close>

definition le_words :: "byte list \<Rightarrow> u32 list" where
  "le_words b = map (\<lambda>i. ld32 b (4 * i)) [0..<length b div 4]"

text \<open>RFC 8439, 2.3: \<open>expand 32-byte k\<close>, the key, the number of the block and the nonce.\<close>

definition rfc_state :: "byte list \<Rightarrow> u32 \<Rightarrow> byte list \<Rightarrow> u32 list" where
  "rfc_state key n nonce = [0x61707865, 0x3320646e, 0x79622d32, 0x6b206574] @ le_words key @ [n] @ le_words nonce"

definition rfc_block :: "byte list \<Rightarrow> u32 \<Rightarrow> byte list \<Rightarrow> byte list" where
  "rfc_block key n nonce = words_bytes (chacha_core (rfc_state key n nonce))"

definition rfc_cipher :: "byte list \<Rightarrow> byte list \<Rightarrow> byte list \<Rightarrow> byte list" where
  "rfc_cipher key nonce m = map (\<lambda>i. m ! i XOR rfc_block key (1 + of_nat (i div 64)) nonce ! (i mod 64)) [0..<length m]"

text \<open>RFC 8439, 2.8: the one-time key is the first half of block 0, the text starts with block 1.\<close>

definition rfc_seal :: "byte list \<Rightarrow> byte list \<Rightarrow> byte list \<Rightarrow> byte list \<Rightarrow> byte list" where
  "rfc_seal key nonce aad pt =
     (let ct = rfc_cipher key nonce pt in ct @ aead_tag (take 32 (rfc_block key 0 nonce)) aad ct)"

text \<open>RFC 7905: the nonce is the initialization vector with the record number added to its last eight bytes.\<close>

definition rfc_nonce :: "byte list \<Rightarrow> u64 \<Rightarrow> byte list" where
  "rfc_nonce iv seq = map2 (XOR) iv ([0, 0, 0, 0] @ bytes64 (htonll seq))"

section \<open>States and bytes\<close>

lemma length_le_words [simp]: "length (le_words b) = length b div 4"
  by (simp add: le_words_def)

lemma le_words_key:
  "length b = 32 \<Longrightarrow> le_words b = [ld32 b 0, ld32 b 4, ld32 b 8, ld32 b 12, ld32 b 16, ld32 b 20, ld32 b 24, ld32 b 28]"
proof -
  have "[0..<8] = [0, 1, 2, 3, 4, 5, 6, 7 :: nat]" by code_simp
  then show "length b = 32 \<Longrightarrow> ?thesis" by (simp add: le_words_def)
qed

lemma le_words_nonce: "length b = 12 \<Longrightarrow> le_words b = [ld32 b 0, ld32 b 4, ld32 b 8]"
proof -
  have "[0..<3] = [0, 1, 2 :: nat]" by code_simp
  then show "length b = 12 \<Longrightarrow> ?thesis" by (simp add: le_words_def)
qed

lemma words_bytes_le_words: "4 dvd length b \<Longrightarrow> words_bytes (le_words b) = b"
proof -
  assume "4 dvd length b"
  have "n \<le> length b div 4 \<Longrightarrow> words_bytes (map (\<lambda>i. ld32 b (4 * i)) [0..<n]) = take (4 * n) b" for n
  proof (induction n)
    case (Suc n)
    then have "4 * n + 4 \<le> length b" by linarith
    from take4 [OF this] have "take (4 * Suc n) b = take (4 * n) b @ bytes32 (ld32 b (4 * n))"
      unfolding bytes32_ld32 by (simp only: take_add mult_Suc_right add.commute [of 4])
    then show ?case using Suc by (simp add: words_bytes_append)
  qed simp
  from this [of "length b div 4"] show ?thesis using \<open>4 dvd length b\<close> by (simp add: le_words_def)
qed

lemma le_words_words_bytes: "le_words (words_bytes ws) = ws"
proof (induction ws)
  case (Cons w ws)
  have "ld32 (bytes32 w @ words_bytes ws) (4 * Suc i) = ld32 (words_bytes ws) (4 * i)" for i
    by (simp add: ld32_append_right)
  then have "map (\<lambda>i. ld32 (bytes32 w @ words_bytes ws) (4 * i)) (map Suc [0..<length ws]) = ws"
    using Cons by (simp add: le_words_def comp_def)
  then show ?case by (simp add: le_words_def upt_conv_Cons map_Suc_upt ld32_append_left del: upt_Suc)
qed (simp add: le_words_def)

lemma length_rfc_state: "length key = 32 \<Longrightarrow> length nonce = 12 \<Longrightarrow> length (rfc_state key n nonce) = 16"
  by (simp add: rfc_state_def)

lemma rfc_state_12: "length key = 32 \<Longrightarrow> rfc_state key n nonce ! 12 = n"
  by (simp add: rfc_state_def nth_append)

lemma rfc_state_update: "length key = 32 \<Longrightarrow> (rfc_state key n nonce)[12 := m] = rfc_state key m nonce"
  by (simp add: rfc_state_def list_update_append)

text \<open>The key and the nonce in a state.\<close>

lemma rfc_state_parts:
  assumes "length key = 32" "length nonce = 12" "cc_input x = rfc_state key n nonce"
  shows "chacha_key x = key" "chacha_nonce x = nonce"
proof -
  have "map ((!) w) [4..<12] = drop 4 (take 12 w)" "map ((!) w) [13..<16] = drop 13 w" if "length w = 16" for w :: "u32 list"
    using that by (auto intro!: nth_equalityI simp del: upt_rec_numeral)
  from this [OF length_rfc_state [OF assms(1,2)], of n]
  have "map ((!) (cc_input x)) [4..<12] = le_words key" "map ((!) (cc_input x)) [13..<16] = le_words nonce"
    unfolding assms(3) using assms(1,2) by (simp_all add: rfc_state_def del: upt_rec_numeral)
  then show "chacha_key x = key" "chacha_nonce x = nonce"
    using assms(1,2) by (simp_all add: chacha_key_def chacha_nonce_def words_bytes_le_words)
qed

text \<open>The key stream from block 1 on.\<close>

lemma rfc_keystream:
  assumes "length key = 32" "length nonce = 12" "i < 2 ^ 32"
  shows "keystream_byte (rfc_state key 1 nonce) i = rfc_block key (1 + of_nat (i div 64)) nonce ! (i mod 64)"
proof -
  let ?j = "rfc_state key 1 nonce" and ?k = "i div 64"
  have k: "?k < 2 ^ 31" using assms(3) by (intro less_mult_imp_div_less) simp
  have c: "ucast (counter64 ?j) = (1 :: u32)" using counter_halves(1) [of ?j] rfc_state_12 [OF assms(1)] by simp
  then have "unat (ucast (counter64 ?j) :: u32) + ?k < 2 ^ 32" using k by simp
  from counter_high_kept [OF this] have h: "ucast (drop_bit 32 (counter64 ?j + of_nat ?k)) = ?j ! 13"
    using counter_halves(2) [of ?j] by simp
  have l: "ucast (counter64 ?j + of_nat ?k) = (1 + of_nat ?k :: u32)"
  proof -
    have "ucast (a + of_nat n :: u64) = (ucast a + of_nat n :: u32)" for a n
    proof (induction n)
      case (Suc n)
      have "a + of_nat (Suc n) = (a + of_nat n) + 1" by simp
      then show ?case using Suc by (simp only: counter_low) simp
    qed simp
    then show ?thesis by (simp add: c)
  qed
  have "with_counter ?j (counter64 ?j + of_nat ?k) = rfc_state key (1 + of_nat ?k) nonce"
    unfolding with_counter_def h l
    by (subst list_update_swap) (simp_all only: list_update_id rfc_state_update [OF assms(1)] numeral_eq_iff num.simps not_False_eq_True)
  then show ?thesis by (simp add: keystream_byte_def rfc_block_def)
qed

lemma rfc_encrypt:
  assumes "length key = 32" "length nonce = 12" "cc_input x = rfc_state key 1 nonce" "length m < 2 ^ 32"
  shows "snd (chacha_encrypt_bytes x m) = rfc_cipher key nonce m"
  using assms length_rfc_state [OF assms(1,2)] by (simp add: encrypt_bytes_spec rfc_cipher_def rfc_keystream)

text \<open>The one-time key, also when the block number has moved on.\<close>

lemma rfc_one_time_key:
  assumes "length key = 32" "length nonce = 12" "cc_input x = rfc_state key n nonce"
  shows "chacha20_poly1305_key x = Some (take 32 (rfc_block key 0 nonce))"
proof -
  note kw = le_words_key [OF assms(1)] le_words_nonce [OF assms(2)]
  have "cc_input (chacha_ivsetup_96bitnonce (chacha_keysetup chacha_zero key 256) (Some nonce) 0) = rfc_state key 0 nonce"
  proof -
    have "replicate 4 (0 :: u32) = [0, 0, 0, 0]" by (simp add: eval_nat_numeral)
    then show ?thesis by (simp add: chacha_ivsetup_96bitnonce_def chacha_keysetup_def chacha_zero_def rfc_state_def kw)
  qed
  moreover have "snd (chacha20_block y 32) = take 32 (words_bytes (chacha_core (cc_input y)))" if "length (cc_input y) = 16" for y
  proof -
    have f: "filter (\<lambda>i. i mod 4 = 0) [0..<32] = [0, 4, 8, 12, 16, 20, 24, 28 :: nat]" by code_simp
    have t: "take 32 (words_bytes w) = words_bytes (take 8 w)" if "length w = 16" for w
    proof -
      have "words_bytes w = words_bytes (take 8 w) @ words_bytes (drop 8 w)"
        unfolding words_bytes_append [symmetric] by simp
      then show ?thesis using that by simp
    qed
    have "[0..<8] = [0, 1, 2, 3, 4, 5, 6, 7 :: nat]" by code_simp
    moreover have "take 8 w = map ((!) w) [0..<8]" if "length w = 16" for w :: "u32 list"
      using that by (auto intro!: nth_equalityI simp del: upt_rec_numeral)
    ultimately show ?thesis using that unfolding chacha20_block_def f by (simp add: t Let_def)
  qed
  ultimately show ?thesis
    using assms length_rfc_state [OF assms(1,2)]
    by (simp add: chacha20_poly1305_key_def poly1305_generate_key_def rfc_state_parts [OF assms] rfc_block_def)
qed

section \<open>A record\<close>

lemma ld32_map2_xor:
  assumes "i + 4 \<le> length a" "i + 4 \<le> length b"
  shows "ld32 (map2 (XOR) a b) i = ld32 a i XOR ld32 b i"
proof -
  have "bytes32 (ld32 (map2 (XOR) a b) i) = bytes32 (ld32 a i XOR ld32 b i)"
    using assms unfolding ld32_xor_bytes bytes32_ld32 by simp
  then show ?thesis by (metis ld32_bytes32)
qed

text \<open>The state before a record.\<close>

lemma ivupdate_rfc:
  assumes "length (cc_input x) = 16" "take 12 (cc_input x) = take 12 (rfc_state key 0 [])" "length key = 32"
    and "12 \<le> length iv"
  shows "cc_input (chacha_ivupdate x iv (bytes64 (htonll seq)) 1) = rfc_state key 1 (rfc_nonce (take 12 iv) seq)"
proof -
  let ?s = "bytes64 (htonll seq)"
  let ?p = "[0, 0, 0, 0] @ ?s"
  have s: "length ?p = 12" by (simp add: bytes64_def)
  have p: "ld32 ?p 0 = 0" "ld32 ?p 4 = ld32 ?s 0" "ld32 ?p 8 = ld32 ?s 4"
    using ld32_append_right [of "[0, 0, 0, 0]" 4 ?s] ld32_append_right [of "[0, 0, 0, 0]" 8 ?s]
    by (simp_all add: ld32_def ld16_def)
  have n: "ld32 (rfc_nonce (take 12 iv) seq) i = ld32 iv i XOR ld32 ?p i" if "i + 4 \<le> 12" for i
    unfolding rfc_nonce_def using that assms(4) s by (subst ld32_map2_xor) (simp_all add: ld32_take)
  have "length (rfc_nonce (take 12 iv) seq) = 12" using assms(4) s by (simp add: rfc_nonce_def)
  then have "le_words (rfc_nonce (take 12 iv) seq) = [ld32 iv 0, ld32 iv 4 XOR ld32 ?s 0, ld32 iv 8 XOR ld32 ?s 4]"
    using n [of 0] n [of 4] n [of 8] p by (simp add: le_words_nonce)
  then show ?thesis using assms(1-3) by (simp add: ivupdate_input rfc_state_def)
qed

text \<open>A cipher state of ChaCha20 with this key.\<close>

definition chacha_keyed :: "byte list \<Rightarrow> chacha_ctx \<Rightarrow> bool" where
  "chacha_keyed key x \<longleftrightarrow> length (cc_input x) = 16 \<and> take 12 (cc_input x) = take 12 (rfc_state key 0 [])"

lemma keysetup_keyed:
  "length key = 32 \<Longrightarrow> length (cc_input x) = 16 \<Longrightarrow> chacha_keyed key (chacha_keysetup x key 256)"
  by (simp add: chacha_keyed_def chacha_keysetup_def rfc_state_def le_words_key)

text \<open>The record a negotiated ChaCha20-Poly1305 context writes.\<close>

lemma chacha_record_sealed:
  assumes c: "ci_ctx (tx_crypto s) = Chacha_ctx l r" "ci_created (tx_crypto s) = 3" "tx_dtls s = 0"
    and key: "length key = 32" "chacha_keyed key l" "12 \<le> length (ci_local_mac (tx_crypto s))"
    and d: "length d < 2 ^ 32" and st: "length (pc_buffer stack) = 16"
  shows "\<exists>l'. seal_aead P stack rnd s (record_bytes t v d) =
      Some (rfc_seal key (rfc_nonce (take 12 (ci_local_mac (tx_crypto s))) (tx_local_seq s))
        (record_aad (bytes64 (htonll (tx_local_seq s))) (record_bytes t v d) (length d)) d, Chacha_ctx l' r) \<and> chacha_keyed key l'"
proof -
  let ?seq = "bytes64 (htonll (tx_local_seq s))" and ?iv = "take 12 (ci_local_mac (tx_crypto s))"
  let ?l = "chacha_ivupdate l (ci_local_mac (tx_crypto s)) ?seq 1" and ?n = "rfc_nonce ?iv (tx_local_seq s)"
  have k: "length (cc_input l) = 16" "take 12 (cc_input l) = take 12 (rfc_state key 0 [])"
    using key(2) unfolding chacha_keyed_def by blast+
  have i: "cc_input ?l = rfc_state key 1 ?n" by (rule ivupdate_rfc [OF k key(1,3)])
  have n: "length ?n = 12" using key(3) by (simp add: rfc_nonce_def bytes64_def)
  have l16: "length (cc_input ?l) = 16" "cc_input ?l ! 12 = 1"
    unfolding i by (rule length_rfc_state [OF key(1) n], rule rfc_state_12 [OF key(1)])
  let ?otk = "take 32 (rfc_block key 0 ?n)" and ?aad = "record_aad ?seq (record_bytes t v d) (length d)"
  have otk: "chacha20_poly1305_key ?l = Some ?otk" by (rule rfc_one_time_key [OF key(1) n i])
  have "length ?otk = 32" using length_rfc_state [OF key(1) n, of 0] by (simp add: rfc_block_def)
  note a = aead_seals [OF l16 st this _ d, of ?aad, unfolded rfc_encrypt [OF key(1) n i d]]
  have al: "length ?aad \<le> 32" using record_aad_length [of "htonll (tx_local_seq s)" "record_bytes t v d" "length d"] by linarith
  have s: "seal_aead P stack rnd s (record_bytes t v d) =
      Some (rfc_seal key ?n ?aad d, Chacha_ctx (fst (chacha_encrypt_bytes ?l d)) r)"
    using c otk a [OF al] by (simp add: seal_aead_def record_header_size_def record_bytes_parts Let_def rfc_seal_def)
  have "chacha_keyed key (fst (chacha_encrypt_bytes ?l d))"
    using l16(1) k unfolding chacha_keyed_def
    by (simp add: encrypt_bytes_spec with_counter_def ivupdate_input)
  then show ?thesis using s by blast
qed

text \<open>The additional data of a record of TLS.\<close>

definition rfc_aad :: "u64 \<Rightarrow> byte \<Rightarrow> u16 \<Rightarrow> nat \<Rightarrow> byte list" where
  "rfc_aad seq t v n = bytes64 (htonll seq) @ [t] @ bytes16 (htons v) @ bytes16 (htons (of_nat n))"

lemma record_aad_rfc: "record_aad (bytes64 (htonll seq)) (record_bytes t v d) n = rfc_aad seq t v n"
  by (simp add: record_aad_def rfc_aad_def record_bytes_parts bytes16_def)

lemma chacha_update_rfc:
  assumes "ci_ctx (tx_crypto s) = Chacha_ctx l r" "ci_created (tx_crypto s) = 3" "tx_dtls s = 0" "tx_cipher_spec_set s \<noteq> 0"
    and "length key = 32" "chacha_keyed key l" "12 \<le> length (ci_local_mac (tx_crypto s))"
    and "length d < 2 ^ 32" "length (pc_buffer stack) = 16" "t \<noteq> TLS_CHANGE_CIPHER"
  shows "\<exists>l'. tls_record_update P stack rnd s ([t] @ bytes16 (htons (tx_version s)) @ [0, 0] @ d) =
      Some (record_bytes t (tx_version s) (rfc_seal key (rfc_nonce (take 12 (ci_local_mac (tx_crypto s))) (tx_local_seq s))
          (rfc_aad (tx_local_seq s) t (tx_version s) (length d)) d),
        s\<lparr>tx_crypto := (tx_crypto s)\<lparr>ci_ctx := Chacha_ctx l' r\<rparr>, tx_local_seq := tx_local_seq s + 1\<rparr>) \<and>
    chacha_keyed key l'"
proof -
  let ?v = "tx_version s"
  let ?ct = "rfc_seal key (rfc_nonce (take 12 (ci_local_mac (tx_crypto s))) (tx_local_seq s)) (rfc_aad (tx_local_seq s) t ?v (length d)) d"
  obtain l' where l': "seal_aead P stack rnd s (record_bytes t ?v d) = Some (?ct, Chacha_ctx l' r)" "chacha_keyed key l'"
    using chacha_record_sealed [OF assms(1-3,5-9)] unfolding record_aad_rfc by blast
  have hs: "record_header_size s = 5" using assms(3) by (simp add: record_header_size_def)
  have m3: "take 3 (record_bytes t ?v d) @ bytes16 (htons (of_nat (length ?ct))) @ ?ct = record_bytes t ?v ?ct"
    unfolding record_bytes_parts(5) by (simp add: record_bytes_def)
  have "tls_record_update P stack rnd s ([t] @ bytes16 (htons ?v) @ [0, 0] @ d) =
      Some (record_bytes t ?v ?ct, s\<lparr>tx_crypto := (tx_crypto s)\<lparr>ci_ctx := Chacha_ctx l' r\<rparr>, tx_local_seq := tx_local_seq s + 1\<rparr>)"
    using assms(2,4,10) l'(1) m3 unfolding tls_record_update_def header_bytes [OF assms(3)] hs Let_def record_bytes_parts(3) by simp
  then show ?thesis using l'(2) by blast
qed

text \<open>Opening: the text comes out exactly when the tag is that of the RFC.\<close>

lemma chacha_record_opened:
  assumes c: "ci_ctx (tx_crypto c) = Chacha_ctx l r" "tx_dtls c = 0"
    and key: "length key = 32" "chacha_keyed key r" "12 \<le> length (ci_remote_mac (tx_crypto c))"
    and ct: "length ct < 2 ^ 32" "length tag = 16" and st: "length (pc_buffer stack) = 16"
    and n: "nonce = rfc_nonce (take 12 (ci_remote_mac (tx_crypto c))) (tx_remote_seq c)"
  shows "\<exists>r'. open_chacha P stack rnd c (record_bytes t v (ct @ tag)) (length ct + 16) =
      (let c' = c\<lparr>tx_crypto := (tx_crypto c)\<lparr>ci_ctx := Chacha_ctx l r'\<rparr>\<rparr>
       in if tag = aead_tag (take 32 (rfc_block key 0 nonce)) (rfc_aad (tx_remote_seq c) t v (length ct)) ct
          then Opened (rfc_cipher key nonce ct) c' else refuse_with_alert P stack rnd c' bad_record_mac TLS_INTEGRITY_FAILED) \<and>
    chacha_keyed key r'"
proof -
  let ?seq = "bytes64 (htonll (tx_remote_seq c))"
  let ?r = "chacha_ivupdate r (ci_remote_mac (tx_crypto c)) ?seq 1"
  define m where "m = record_bytes t v (ct @ tag)"
  let ?r' = "fst (chacha_encrypt_bytes ?r ct)"
  have k: "length (cc_input r) = 16" "take 12 (cc_input r) = take 12 (rfc_state key 0 [])"
    using key(2) unfolding chacha_keyed_def by blast+
  have i: "cc_input ?r = rfc_state key 1 nonce" unfolding n by (rule ivupdate_rfc [OF k key(1,3)])
  have ln: "length nonce = 12" using key(3) by (simp add: n rfc_nonce_def bytes64_def)
  have l16: "length (cc_input ?r) = 16" "cc_input ?r ! 12 = 1"
    unfolding i by (rule length_rfc_state [OF key(1) ln], rule rfc_state_12 [OF key(1)])
  let ?otk = "take 32 (rfc_block key 0 nonce)"
  have "chacha20_poly1305_key ?r' = chacha20_poly1305_key ?r"
    using encrypt_keeps_nonce [OF l16 ct(1)] by (intro poly_key_cong)
  then have otk: "chacha20_poly1305_key ?r' = Some ?otk" using rfc_one_time_key [OF key(1) ln i] by simp
  have lo: "length ?otk = 32" using length_rfc_state [OF key(1) ln, of 0] by (simp add: rfc_block_def)
  have al: "length (rfc_aad (tx_remote_seq c) t v (length ct)) = 13" by (simp add: rfc_aad_def bytes64_def bytes16_def)
  then have al32: "length (rfc_aad (tx_remote_seq c) t v (length ct)) < 2 ^ 32" by simp
  note tg = tag_of_parts [OF lo st al32 ct(1) pad16_aad [OF al], unfolded al]
  have m: "ldn (length ct) m 5 = ct" "ldn 16 m (5 + length ct) = tag"
      "record_aad ?seq m (length ct) = rfc_aad (tx_remote_seq c) t v (length ct)"
    using ldn_record [of 0 "length ct" "ct @ tag"] ldn_record [of "length ct" 16 "ct @ tag"] ct
    by (simp_all add: ldn_def m_def record_aad_rfc)
  have "open_chacha P stack rnd c m (length ct + 16) =
      (let c' = c\<lparr>tx_crypto := (tx_crypto c)\<lparr>ci_ctx := Chacha_ctx l ?r'\<rparr>\<rparr>
       in if tag = aead_tag ?otk (rfc_aad (tx_remote_seq c) t v (length ct)) ct
          then Opened (rfc_cipher key nonce ct) c' else refuse_with_alert P stack rnd c' bad_record_mac TLS_INTEGRITY_FAILED)"
    using m tg otk rfc_encrypt [OF key(1) ln i ct(1)] c
    by (simp add: open_chacha_def Let_def record_header_size_def remote_sequence_def case_prod_unfold)
  moreover have "chacha_keyed key ?r'"
    using l16(1) k unfolding chacha_keyed_def by (simp add: encrypt_bytes_spec with_counter_def ivupdate_input)
  ultimately show ?thesis unfolding m_def by blast
qed

end
