(* ===== verification/TlsChannel.thy ===== *)
theory TlsChannel
  imports TlsStream TlsAead TlsMoves
begin

text \<open>
  What the record layer promises its users: the algorithms are those of RFC 8439, application data arrives whole and
  in order however the stream is cut, also when one of the two ends has been moved to another server in between, and a
  forged record ends the connection.
\<close>

section \<open>Poly1305 and the AEAD construction\<close>

text \<open>C9: Poly1305 as it is implemented, with five limbs of 26 bits and a buffer for what does not fill a block, gives
  for every one-time key of 32 bytes and every way to pass the message in pieces the tag of RFC 8439: the little-endian
  number \<open>((...((c1 * r + c2) * r + ...) mod (2^130 - 5)) + s) mod 2^128\<close> of the whole message.  In particular no
  64-bit product or carry overflows.\<close>

theorem poly1305_tag_of_pieces:
  assumes "length key = 32" "length (pc_buffer st) = 16"
  shows "snd (poly1305_finish (foldl poly1305_update (poly1305_init st key) ms)) = poly1305_tag key (concat ms)"
proof -
  have k: "16 \<le> length key" using assms(1) by simp
  have "absorbed key (concat ms) (foldl poly1305_update (poly1305_init st key) ms)"
  proof (induction ms rule: rev_induct)
    case Nil
    show ?case using absorbed_init [OF k assms(2)] by simp
  next
    case (snoc m ms)
    then show ?case using absorbed_update [OF k, of "concat ms"] by simp
  qed
  then show ?thesis by (rule finish_tag [OF assms(1)])
qed

definition empty_poly :: poly1305_ctx where
  "empty_poly = \<lparr>pc_r = [], pc_h = [], pc_pad = [], pc_leftover = 0, pc_buffer = replicate 16 0, pc_final = 0\<rparr>"

lemma empty_poly_buffer [simp]: "length (pc_buffer empty_poly) = 16"
  by (simp add: empty_poly_def)

lemma poly1305_tag_of_pieces_witness:
  "snd (poly1305_finish (foldl poly1305_update (poly1305_init empty_poly (replicate 32 1)) [[1, 2, 3], replicate 40 4])) =
    poly1305_tag (replicate 32 1) ([1, 2, 3] @ replicate 40 4)"
  using poly1305_tag_of_pieces [of "replicate 32 1" empty_poly "[[1, 2, 3], replicate 40 4]"] by simp

text \<open>C8: The record that a negotiated ChaCha20-Poly1305 context writes is the one of RFC 7905: the content type, the
  version and the length in front, and behind them the text sealed with AEAD_CHACHA20_POLY1305 of RFC 8439 under the key
  of the session, with the initialization vector of the session plus the record number as nonce, and the record number
  and the header with the length of the text as additional data.  The record number then is one higher, and the context
  keeps its key.\<close>

theorem chacha_record_is_rfc7905:
  assumes "ci_ctx (tx_crypto s) = Chacha_ctx l r" "ci_created (tx_crypto s) = 3" "tx_dtls s = 0" "tx_cipher_spec_set s \<noteq> 0"
    and "length key = 32" "chacha_keyed key l" "12 \<le> length (ci_local_mac (tx_crypto s))"
    and "length d < 2 ^ 32" "length (pc_buffer stack) = 16" "t \<noteq> TLS_CHANGE_CIPHER"
  shows "\<exists>l'. tls_record_update P stack rnd s ([t] @ bytes16 (htons (tx_version s)) @ [0, 0] @ d) =
      Some (record_bytes t (tx_version s) (rfc_seal key (rfc_nonce (take 12 (ci_local_mac (tx_crypto s))) (tx_local_seq s))
          (rfc_aad (tx_local_seq s) t (tx_version s) (length d)) d),
        s\<lparr>tx_crypto := (tx_crypto s)\<lparr>ci_ctx := Chacha_ctx l' r\<rparr>, tx_local_seq := tx_local_seq s + 1\<rparr>) \<and>
    chacha_keyed key l'"
  by (rule chacha_update_rfc [OF assms])

definition sample_prims :: "(byte list \<times> byte list, byte list) record_prims" where
  "sample_prims = \<lparr>gcm_seal = \<lambda>_ _ _ pt. (pt, replicate 16 0), gcm_open = \<lambda>_ _ _ ct. (0, ct, replicate 16 0),
     cbc_encrypt = Pair, cbc_decrypt = \<lambda>ct l. (0, ct, l), hmac = \<lambda>n _ _. Some (replicate n 0)\<rparr>"

definition sample_chacha :: "(byte list \<times> byte list, byte list) TLSContext" where
  "sample_chacha = (tls_create_context 1 0x0303)\<lparr>tx_cipher := 0xCCA8, tx_status := 0xFF, tx_cipher_spec_set := 1,
     tx_crypto := \<lparr>ci_ctx = Chacha_ctx (chacha_keysetup chacha_zero (replicate 32 1) 256) (chacha_keysetup chacha_zero (replicate 32 2) 256),
       ci_local_mac = replicate 48 7, ci_remote_mac = replicate 48 9, ci_created = 3\<rparr>\<rparr>"

lemma sample_chacha_facts:
  "ci_ctx (tx_crypto sample_chacha) = Chacha_ctx (chacha_keysetup chacha_zero (replicate 32 1) 256) (chacha_keysetup chacha_zero (replicate 32 2) 256)"
  "ci_created (tx_crypto sample_chacha) = 3" "tx_dtls sample_chacha = 0" "tx_cipher_spec_set sample_chacha \<noteq> 0"
  "tx_critical_error sample_chacha = 0" "tx_message_buffer sample_chacha = []" "version_supported 0x0303 (tx_status sample_chacha)"
  "12 \<le> length (ci_local_mac (tx_crypto sample_chacha))" "12 \<le> length (ci_remote_mac (tx_crypto sample_chacha))"
  by (simp_all add: sample_chacha_def tls_create_context_def version_supported_def)

lemma sample_keyed: "chacha_keyed (replicate 32 b) (chacha_keysetup chacha_zero (replicate 32 b) 256)"
  by (rule keysetup_keyed) (simp_all add: chacha_zero_def)

lemma sample_type: "TLS_APPLICATION_DATA \<noteq> TLS_CHANGE_CIPHER"
  by (simp add: TLS_APPLICATION_DATA_def TLS_CHANGE_CIPHER_def)

lemma chacha_record_is_rfc7905_witness:
  "\<exists>c. tls_record_update sample_prims empty_poly [] sample_chacha
      ([TLS_APPLICATION_DATA] @ bytes16 (htons (tx_version sample_chacha)) @ [0, 0] @ [72, 105]) =
    Some (record_bytes TLS_APPLICATION_DATA (tx_version sample_chacha)
      (rfc_seal (replicate 32 1) (rfc_nonce (take 12 (ci_local_mac (tx_crypto sample_chacha))) (tx_local_seq sample_chacha))
        (rfc_aad (tx_local_seq sample_chacha) TLS_APPLICATION_DATA (tx_version sample_chacha) (length [72 :: byte, 105])) [72, 105]), c)"
  using chacha_record_is_rfc7905 [OF sample_chacha_facts(1-4) _ sample_keyed sample_chacha_facts(8) _ empty_poly_buffer sample_type,
    of "[72, 105]" sample_prims "[]"] by auto

section \<open>Cutting the stream\<close>

text \<open>C10: The bytes of the peer may be read in any pieces: calling \<open>tls_consume_stream\<close> once for every piece, until one
  call reports an error, gives the same context and the same result as one call with all bytes, for every cipher and every
  handshake that keeps to its own fields, whatever the bytes are.\<close>

theorem stream_cut_anywhere:
  assumes "leaves_stream H" "tx_dtls c = 0" "tx_critical_error c = 0"
  shows "consume_pieces P stack rnd H c ps = tls_consume_stream P stack rnd H c (concat ps)"
  by (rule consume_pieces_concat [OF assms])

section \<open>Application data\<close>

text \<open>Consuming bytes of which no record is left over.\<close>

lemma consume_whole:
  assumes "connected s r" "consume_messages P stack rnd H 5 m r = Some (0, [], r')" "connected s' r'"
  shows "tls_consume_stream P stack rnd H r m = Some (int (length m), r')"
proof (cases "m = []")
  case True
  then show ?thesis using assms by (simp add: tls_consume_stream_def connected_def consume_messages.simps)
next
  case False
  have r: "tx_critical_error r = 0" "r\<lparr>tx_message_buffer := []\<rparr> = r" "record_header_size r = 5" "r'\<lparr>tx_message_buffer := []\<rparr> = r'"
    "tx_message_buffer r = []"
    using assms(1,3) by (simp_all add: connected_def paired_def record_header_size_def)
  show ?thesis using False assms(2) r(1,3,5) unfolding tls_consume_stream_def Let_def r(2) by (simp add: r(2,4))
qed

lemma delivered:
  assumes "tomcrypt_laws P" "leaves_stream H" "length (pc_buffer stack) = 16" "length (pc_buffer stack') = 16"
    and "connected s r" "\<forall>(rnd, data) \<in> set ws. data \<noteq> [] \<and> 16 \<le> length rnd" "tx_tls_buffer s = []"
  shows "\<exists>s' r'. tls_writes P stack s ws = Some s' \<and>
    (\<forall>ps. concat ps = tls_get_write_buffer s' \<longrightarrow>
      consume_pieces P stack' rnd' H r ps = Some (int (length (tls_get_write_buffer s')), r')) \<and>
    tx_app_buffer r' = tx_app_buffer r @ concat (map (take 0x4000 \<circ> snd) ws) \<and> connected s' r'"
proof -
  obtain s' m r' where w: "tls_writes P stack s ws = Some s'" "tx_tls_buffer s' = tx_tls_buffer s @ m"
    "consume_messages P stack' rnd' H 5 m r = Some (0, [], r')"
    "tx_app_buffer r' = tx_app_buffer r @ concat (map (take 0x4000 \<circ> snd) ws)" "connected s' r'"
    using writes_read [OF assms(1,3,4,2,5,6)] by blast
  have m: "tls_get_write_buffer s' = m" using w(2) assms(7) by (simp add: tls_get_write_buffer_def)
  have r: "tx_dtls r = 0" "tx_critical_error r = 0" using assms(5) by (simp_all add: connected_def paired_def)
  have "consume_pieces P stack' rnd' H r ps = Some (int (length m), r')" if "concat ps = m" for ps
    unfolding consume_pieces_concat [OF assms(2) r] that by (rule consume_whole [OF assms(5) w(3,5)])
  then show ?thesis using w(1,4,5) m by blast
qed

text \<open>C5: Application data arrives.  Of two ends that are at the same record of a negotiated connection, with AES-GCM,
  AES-CBC and a MAC, or ChaCha20-Poly1305, one writes any number of times; every write succeeds, and the other end, fed
  with the bytes to be sent in any pieces, accepts all of them without an error and has the data of all writes in order in
  its buffer, each write up to its first 16384 bytes.  Afterwards the two ends are at the same record again.  Of
  LibTomCrypt only its laws of inverse operations are used.\<close>

theorem application_data_arrives:
  assumes "tomcrypt_laws P" "leaves_stream H" "length (pc_buffer stack) = 16" "length (pc_buffer stack') = 16"
    and "connected s r" "\<forall>(rnd, data) \<in> set ws. data \<noteq> [] \<and> 16 \<le> length rnd" "tx_tls_buffer s = []"
  shows "\<exists>s' r'. tls_writes P stack s ws = Some s' \<and>
    (\<forall>ps. concat ps = tls_get_write_buffer s' \<longrightarrow>
      consume_pieces P stack' rnd' H r ps = Some (int (length (tls_get_write_buffer s')), r')) \<and>
    tx_app_buffer r' = tx_app_buffer r @ concat (map (take 0x4000 \<circ> snd) ws) \<and> connected s' r'"
  by (rule delivered [OF assms])

lemma sample_prims_laws: "tomcrypt_laws sample_prims"
  by (simp add: tomcrypt_laws_def sample_prims_def)

lemma sample_leaves: "leaves_stream (\<lambda>c text. (0, c))"
  by (simp add: leaves_stream_def)

definition sample_server :: "(byte list \<times> byte list, byte list) TLSContext" where
  "sample_server = sample_context\<lparr>tx_cipher_spec_set := 1, tx_tls_buffer := [],
     tx_crypto := (tx_crypto sample_context)\<lparr>ci_ctx := Gcm_ctx (replicate 16 1) (replicate 16 2)\<rparr>\<rparr>"

definition sample_peer :: "(byte list \<times> byte list, byte list) TLSContext" where
  "sample_peer = sample_server\<lparr>tx_is_server := 0, tx_local_seq := 6, tx_remote_seq := 5,
     tx_crypto := \<lparr>ci_ctx = Gcm_ctx (replicate 16 2) (replicate 16 1), ci_local_mac = replicate 48 9, ci_remote_mac = replicate 48 7,
       ci_created = 2\<rparr>\<rparr>"

lemmas sample_defs = sample_server_def sample_peer_def sample_context_def tls_create_context_def

lemma sample_connected: "connected sample_peer sample_server" "connected sample_server sample_peer"
  by (simp_all add: connected_def paired_def cipher_pair_def sample_defs)

definition sample_writes :: "(byte list \<times> byte list) list" where
  "sample_writes = [(replicate 16 3, [72, 105]), (replicate 16 4, [33])]"

lemma sample_writes_ok: "\<forall>(rnd, data) \<in> set sample_writes. data \<noteq> [] \<and> 16 \<le> length rnd"
  by (simp add: sample_writes_def)

lemma sample_idle: "tx_tls_buffer sample_peer = []" "tx_app_buffer sample_server = []" "tx_tls_buffer sample_server = []"
  "tx_app_buffer sample_peer = []"
  by (simp_all add: sample_defs)

lemma sample_data: "concat (map (take 0x4000 \<circ> snd) sample_writes) = [72, 105, 33]"
  by (simp add: sample_writes_def)

lemma application_data_arrives_witness:
  "\<exists>s' r'. tls_writes sample_prims empty_poly sample_peer sample_writes = Some s' \<and>
    consume_pieces sample_prims empty_poly [] (\<lambda>c text. (0, c)) sample_server [take 7 (tx_tls_buffer s'), drop 7 (tx_tls_buffer s')] =
      Some (int (length (tls_get_write_buffer s')), r') \<and>
    tx_app_buffer r' = [72, 105, 33]"
proof -
  obtain s' r' where w: "tls_writes sample_prims empty_poly sample_peer sample_writes = Some s'"
    "\<forall>ps. concat ps = tls_get_write_buffer s' \<longrightarrow> consume_pieces sample_prims empty_poly [] (\<lambda>c text. (0, c)) sample_server ps =
      Some (int (length (tls_get_write_buffer s')), r')" "tx_app_buffer r' = [72, 105, 33]"
    using application_data_arrives [OF sample_prims_laws sample_leaves empty_poly_buffer empty_poly_buffer sample_connected(1)
      sample_writes_ok sample_idle(1), of "[]"] unfolding sample_data sample_idle by auto
  have "concat [take 7 (tx_tls_buffer s'), drop 7 (tx_tls_buffer s')] = tls_get_write_buffer s'"
    by (simp add: tls_get_write_buffer_def)
  then show ?thesis using w by blast
qed

lemma stream_cut_anywhere_witness:
  "consume_pieces sample_prims empty_poly [] (\<lambda>c text. (0, c)) sample_server [[23, 3], [3, 0], [1, 7]] =
    tls_consume_stream sample_prims empty_poly [] (\<lambda>c text. (0, c)) sample_server [23, 3, 3, 0, 1, 7]"
  using stream_cut_anywhere [OF sample_leaves, of sample_server sample_prims empty_poly "[]" "[[23, 3], [3, 0], [1, 7]]"]
  by (simp add: sample_defs)

section \<open>A connection that is handed over\<close>

text \<open>The ciphers of the context are those its keys and initialization vectors give.\<close>

abbreviation own_ciphers :: "('cbc, 'gcm) tomcrypt \<Rightarrow> ('cbc, 'gcm) TLSContext \<Rightarrow> bool" where
  "own_ciphers A c \<equiv> same_ciphers A c (tx_crypto c)"

lemma take_12_16: "a = b \<Longrightarrow> take 12 a = take 12 b" by simp

lemma moved_cipher_pair:
  assumes "own_ciphers A c" "same_ciphers A c cr" "length (ci_local_mac (tx_crypto c)) = 48" "length (ci_remote_mac (tx_crypto c)) = 48"
  shows "cipher_pair (tx_cipher c) x (tx_crypto c) \<Longrightarrow> cipher_pair (tx_cipher c) x cr"
    and "cipher_pair (tx_cipher c) (tx_crypto c) x \<Longrightarrow> cipher_pair (tx_cipher c) cr x"
  using assms by (auto simp: cipher_pair_def same_ciphers_def Let_def split: if_splits)

text \<open>After a move the context is at the same record as before, in both directions.\<close>

lemma resumed_connected:
  assumes "resumed A c c'" "own_ciphers A c"
  shows "connected x c \<Longrightarrow> connected x c'" and "connected c x \<Longrightarrow> connected c' x"
proof -
  have r: "tx_version c' = tx_version c" "tx_cipher c' = tx_cipher c" "tx_status c' = tx_status c" "tx_critical_error c' = 0"
    "tx_cipher_spec_set c' = 1" "tx_local_seq c' = tx_local_seq c" "tx_remote_seq c' = tx_remote_seq c"
    "tx_message_buffer c' = tx_message_buffer c" "tx_dtls c' = tx_dtls c" and sc: "same_ciphers A c (tx_crypto c')"
    using assms(1) by (simp_all add: resumed_def)
  have l: "length (ci_local_mac (tx_crypto c)) = 48" "length (ci_remote_mac (tx_crypto c)) = 48"
    using assms(2) by (simp_all add: same_ciphers_def)
  note m = moved_cipher_pair [OF assms(2) sc l]
  show "connected x c \<Longrightarrow> connected x c'" using r m(1) by (auto simp: connected_def paired_def)
  show "connected c x \<Longrightarrow> connected c' x" using r m(2) by (auto simp: connected_def paired_def)
qed

lemma same_ciphers_waiting: "same_ciphers A (c\<lparr>tx_message_buffer := b\<rparr>) cr = same_ciphers A c cr"
  by (simp add: same_ciphers_def local_key_def remote_key_def session_keys_def)

text \<open>The same for a context that waits for the rest of a record.\<close>

lemma resumed_waiting:
  assumes "resumed A (c\<lparr>tx_message_buffer := b\<rparr>) c'"
  shows "resumed A c (c'\<lparr>tx_message_buffer := tx_message_buffer c\<rparr>)" "tx_message_buffer c' = b"
  using assms by (auto simp: resumed_def same_ciphers_def local_key_def remote_key_def session_keys_def)

text \<open>Taking in the rest of what is waiting.\<close>

lemma consume_rest:
  assumes "connected s (r\<lparr>tx_message_buffer := []\<rparr>)" "connected s' r'"
    and "consume_messages P stack rnd H 5 (tx_message_buffer r @ q) (r\<lparr>tx_message_buffer := []\<rparr>) = Some (0, [], r')"
    and "q = [] \<Longrightarrow> tx_message_buffer r = []"
  shows "tls_consume_stream P stack rnd H r q = Some (int (length (tx_message_buffer r @ q)), r')"
proof (cases "q = []")
  case True
  then have "tx_message_buffer r = []" by (rule assms(4))
  then have r: "r\<lparr>tx_message_buffer := []\<rparr> = r" by simp
  have "r' = r" using assms(3) True \<open>tx_message_buffer r = []\<close> unfolding r by (simp add: consume_messages.simps)
  then show ?thesis using True assms(1,4) by (simp add: tls_consume_stream_def connected_def)
next
  case False
  have r: "tx_critical_error r = 0" "record_header_size r = 5" "r'\<lparr>tx_message_buffer := []\<rparr> = r'"
    using assms(1,2) by (simp_all add: connected_def paired_def record_header_size_def)
  show ?thesis using False assms(3) r(1,2) unfolding tls_consume_stream_def Let_def by (simp add: r(3))
qed

text \<open>What is left over is not the beginning of a whole record.\<close>

lemma consume_left:
  assumes "consume_messages P stack rnd H 5 a c = Some (0, rest, d)"
  shows "consume_messages P stack rnd H 5 rest d = Some (0, rest, d)"
  using consume_append [of P stack rnd H a "[]" c] assms by simp

text \<open>The context after the move, its waiting bytes set aside, is at the record of the sender.\<close>

lemma moved_waiting:
  assumes "connected s r" "wf_session A (r\<lparr>tx_message_buffer := part\<rparr>)" "keys_accepted A (r\<lparr>tx_message_buffer := part\<rparr>)"
    and "own_ciphers A (r\<lparr>tx_message_buffer := part\<rparr>)" "keeps_iv A" "(tls_moves A)\<^sup>*\<^sup>* (r\<lparr>tx_message_buffer := part\<rparr>) c"
  shows "tx_message_buffer c = part" "connected s (c\<lparr>tx_message_buffer := []\<rparr>)" "tx_app_buffer c = tx_app_buffer r"
proof -
  have own: "own_ciphers A r"
    using assms(4) unfolding same_ciphers_waiting by simp
  have mb: "tx_message_buffer r = []" "r\<lparr>tx_message_buffer := []\<rparr> = r" using assms(1) by (simp_all add: connected_def)
  consider "c = r\<lparr>tx_message_buffer := part\<rparr>" | "resumed A (r\<lparr>tx_message_buffer := part\<rparr>) c"
    using moved_session [OF assms(6,2,3,5)] by blast
  then show "tx_message_buffer c = part" "connected s (c\<lparr>tx_message_buffer := []\<rparr>)" "tx_app_buffer c = tx_app_buffer r"
  proof (atomize (full), cases)
    case 1
    then show "tx_message_buffer c = part \<and> connected s (c\<lparr>tx_message_buffer := []\<rparr>) \<and> tx_app_buffer c = tx_app_buffer r"
      using assms(1) mb(2) by simp
  next
    case 2
    have "connected s (c\<lparr>tx_message_buffer := []\<rparr>)"
      using resumed_connected(1) [OF resumed_waiting(1) [OF 2] own assms(1)] unfolding mb(1) .
    moreover have "tx_app_buffer c = tx_app_buffer r" using 2 by (simp add: resumed_def)
    ultimately show "tx_message_buffer c = part \<and> connected s (c\<lparr>tx_message_buffer := []\<rparr>) \<and> tx_app_buffer c = tx_app_buffer r"
      using resumed_waiting(2) [OF 2] by blast
  qed
qed

text \<open>C4: A TLS connection can be handed over at any byte of its stream.  A peer writes any number of times; the first
  server takes in the bytes up to any point, be it in the middle of a record; its context is moved, once or several times,
  by exporting it and importing it into a fresh context; and the last server takes in the rest of the bytes.  It accepts
  all of them without an error, and its buffer of application data is the one the first server had in the beginning
  with the data of all writes behind it: no byte is lost, doubled or refused.  Then it is at the same record as the
  peer.  This holds for every cipher suite.\<close>

theorem stream_survives_handover:
  assumes "tomcrypt_laws P" "leaves_stream H" "length (pc_buffer stack) = 16" "length (pc_buffer stack') = 16"
    and "length (pc_buffer stack'') = 16"
    and "connected s c" "\<forall>(rnd, data) \<in> set ws. data \<noteq> [] \<and> 16 \<le> length rnd" "tx_tls_buffer s = []"
    and "tls_writes P stack s ws = Some s'" "tls_get_write_buffer s' = p @ q"
    and "tls_consume_stream P stack' rnd' H c p = Some (n, c1)"
    and "wf_session A c1" "keys_accepted A c1" "own_ciphers A c1" "keeps_iv A" "(tls_moves A)\<^sup>*\<^sup>* c1 c2"
  shows "\<exists>m c3. tls_consume_stream P stack'' rnd'' H c2 q = Some (m, c3) \<and> 0 \<le> m \<and>
    tx_app_buffer c3 = tx_app_buffer c @ concat (map (take 0x4000 \<circ> snd) ws) \<and> connected s' c3"
proof -
  have c: "tx_critical_error c = 0" "tx_message_buffer c = []" "record_header_size c = 5" "c\<lparr>tx_message_buffer := []\<rparr> = c"
    using assms(6) by (simp_all add: connected_def paired_def record_header_size_def)
  have out: "tx_tls_buffer s' = tx_tls_buffer s @ p @ q" using assms(8,10) by (simp add: tls_get_write_buffer_def)
  obtain past later s1 r1 part where
    ws: "ws = past @ later" and part: "consume_messages P stack' rnd' H 5 p c = Some (0, part, r1)"
    and s1: "connected s1 r1" "tls_writes P stack s1 later = Some s'" "tx_tls_buffer s' = tx_tls_buffer s1 @ part @ q"
    and app: "tx_app_buffer r1 = tx_app_buffer c @ concat (map (take 0x4000 \<circ> snd) past)"
    using prefix_read [OF assms(1,3,4,6,7,9) out, of rnd' H] by (elim exE conjE) (rule that)
  have mb: "r1\<lparr>tx_message_buffer := []\<rparr> = r1" using s1(1) by (simp add: connected_def)
  have c1: "c1 = r1\<lparr>tx_message_buffer := part\<rparr>"
  proof (cases "p = []")
    case True
    then have "part = []" "r1 = c" "c1 = c" using part assms(11) c(1) by (simp_all add: consume_messages.simps tls_consume_stream_def)
    then show ?thesis using c(4) by (simp only:)
  next
    case False
    then show ?thesis using assms(11) c part unfolding tls_consume_stream_def Let_def c(4) by simp
  qed
  note m = moved_waiting [OF s1(1) assms(12-16) [unfolded c1]]
  have prem: "\<forall>(rnd, data) \<in> set later. data \<noteq> [] \<and> 16 \<le> length rnd" using assms(7) ws by simp
  obtain s2 m2 r2 where w: "tls_writes P stack s1 later = Some s2" "tx_tls_buffer s2 = tx_tls_buffer s1 @ m2"
    "consume_messages P stack'' rnd'' H 5 m2 (c2\<lparr>tx_message_buffer := []\<rparr>) = Some (0, [], r2)"
    "tx_app_buffer r2 = tx_app_buffer (c2\<lparr>tx_message_buffer := []\<rparr>) @ concat (map (take 0x4000 \<circ> snd) later)" "connected s2 r2"
    using writes_read [OF assms(1,3,5,2) m(2) prem, of rnd''] by blast
  have s2: "s2 = s'" "m2 = part @ q" using w(1,2) s1(2,3) by simp_all
  have "part = []" if q: "q = []"
  proof -
    obtain r3 where "consume_messages P stack' rnd' H 5 part r1 = Some (0, [], r3)"
      using writes_read [OF assms(1,3,4,2) s1(1) prem, of rnd'] s1(2,3) q by auto
    then show ?thesis using consume_left [OF part] by simp
  qed
  then have "tls_consume_stream P stack'' rnd'' H c2 q = Some (int (length (part @ q)), r2)"
    using consume_rest [OF m(2) w(5), of P stack'' rnd'' H q] w(3) unfolding s2(2) m(1) by blast
  moreover have "tx_app_buffer r2 = tx_app_buffer c @ concat (map (take 0x4000 \<circ> snd) ws)"
    using w(4) m(3) app ws by simp
  moreover have "0 \<le> int (length (part @ q))" by (rule of_nat_0_le_iff)
  ultimately show ?thesis using w(5) unfolding s2(1) by blast
qed

definition sample_waiting :: "byte list \<Rightarrow> (byte list \<times> byte list, byte list) TLSContext" where
  "sample_waiting p = sample_server\<lparr>tx_message_buffer := p\<rparr>"

lemma waiting_session:
  assumes "length p \<le> 3"
  shows "wf_session sample_tomcrypt (sample_waiting p)" "keys_accepted sample_tomcrypt (sample_waiting p)"
    "own_ciphers sample_tomcrypt (sample_waiting p)" "buffered (sample_waiting p) \<le> 64000"
  using assms
  by (simp_all add: sample_waiting_def sample_defs sample_tomcrypt_def wf_session_def keys_accepted_def buffered_def
    exportable_context_def session_keys_def tls_is_aead_def same_ciphers_def local_key_def remote_key_def)

lemma waiting_moves: "length p \<le> 3 \<Longrightarrow> \<exists>c. (tls_moves sample_tomcrypt)\<^sup>*\<^sup>* (sample_waiting p) c \<and> tls_moves sample_tomcrypt (sample_waiting p) c"
proof -
  assume p: "length p \<le> 3"
  obtain bytes where e: "tls_export_context sample_tomcrypt (sample_waiting p) 0xFFFF True = Some (int (length bytes), bytes)" "bytes \<noteq> []"
    using export_succeeds [OF waiting_session(1,4) [OF p]] by blast
  then show ?thesis
    using session_imported [OF e waiting_session(1,2) [OF p], of "\<lambda>_. []"] unfolding tls_moves_def by blast
qed

lemma sample_keeps_iv: "keeps_iv sample_tomcrypt"
  by (simp add: keeps_iv_def sample_tomcrypt_def)

lemma waiting_consumed: "tls_consume_stream P stack rnd H sample_server (take 3 m) = Some (0, sample_waiting (take 3 m))"
proof (cases "m = []")
  case True
  then show ?thesis by (simp add: tls_consume_stream_def sample_waiting_def sample_defs)
next
  case False
  have c: "tx_critical_error sample_server = 0" "tx_message_buffer sample_server = []" "sample_server\<lparr>tx_message_buffer := []\<rparr> = sample_server"
    by (simp_all add: sample_defs)
  have "length (take 3 m) < 5" by (simp add: min_def)
  then have "consume_messages P stack rnd H n (take 3 m) d = Some (0, take 3 m, d)" for n d
    by (simp only: consume_messages.simps [of P stack rnd H n "take 3 m" d] if_True)
  then show ?thesis using False c(1) unfolding tls_consume_stream_def Let_def c(2) append_Nil by (simp add: sample_waiting_def)
qed

text \<open>Three bytes of the first record are taken in before the connection moves.\<close>

lemma stream_survives_handover_witness:
  "\<exists>s' c2 c3 m. tls_writes sample_prims empty_poly sample_peer sample_writes = Some s' \<and>
    tls_moves sample_tomcrypt (sample_waiting (take 3 (tx_tls_buffer s'))) c2 \<and>
    tls_consume_stream sample_prims empty_poly [] (\<lambda>c text. (0, c)) c2 (drop 3 (tx_tls_buffer s')) = Some (m, c3) \<and>
    tx_app_buffer c3 = [72, 105, 33]"
proof -
  obtain s' where w: "tls_writes sample_prims empty_poly sample_peer sample_writes = Some s'"
    using delivered [OF sample_prims_laws sample_leaves empty_poly_buffer empty_poly_buffer sample_connected(1) sample_writes_ok sample_idle(1)]
    by blast
  let ?p = "take 3 (tx_tls_buffer s')"
  have p: "length ?p \<le> 3" by simp
  have b: "tls_get_write_buffer s' = ?p @ drop 3 (tx_tls_buffer s')" by (simp add: tls_get_write_buffer_def)
  obtain c2 where m: "(tls_moves sample_tomcrypt)\<^sup>*\<^sup>* (sample_waiting ?p) c2" "tls_moves sample_tomcrypt (sample_waiting ?p) c2"
    using waiting_moves [OF p] by blast
  note t = stream_survives_handover [OF sample_prims_laws sample_leaves empty_poly_buffer empty_poly_buffer empty_poly_buffer
      sample_connected(1) sample_writes_ok sample_idle(1) w b waiting_consumed waiting_session(1-3) [OF p] sample_keeps_iv m(1)]
  show ?thesis using t [of "[]"] w m(2) unfolding sample_data sample_idle by auto
qed

text \<open>C6: After a handover the new server can answer.  What the context of the last server writes is accepted by the peer
  completely and without an error, in whatever pieces it arrives, and the peer then has the data of all writes behind what it had.\<close>

theorem moved_server_answers:
  assumes "tomcrypt_laws P" "leaves_stream H" "length (pc_buffer stack) = 16" "length (pc_buffer stack') = 16"
    and "wf_session A c" "keys_accepted A c" "own_ciphers A c" "keeps_iv A" "(tls_moves A)\<^sup>*\<^sup>* c c'"
    and "connected c r" "\<forall>(rnd, data) \<in> set ws. data \<noteq> [] \<and> 16 \<le> length rnd" "tx_tls_buffer c = []"
  shows "\<exists>c2 r2. tls_writes P stack c' ws = Some c2 \<and>
    (\<forall>ps. concat ps = tls_get_write_buffer c2 \<longrightarrow>
      consume_pieces P stack' rnd' H r ps = Some (int (length (tls_get_write_buffer c2)), r2)) \<and>
    tx_app_buffer r2 = tx_app_buffer r @ concat (map (take 0x4000 \<circ> snd) ws) \<and> connected c2 r2"
proof -
  have "c' = c \<or> resumed A c c'" using moved_session [OF assms(9,5,6,8)] by blast
  then have "connected c' r" "tx_tls_buffer c' = []"
    using assms(10,12) resumed_connected(2) [OF _ assms(7,10)] by (auto simp: resumed_def)
  from delivered [OF assms(1-4) this(1) assms(11) this(2)] show ?thesis .
qed

lemma moved_server_answers_witness:
  "\<exists>c c2 r2. tls_moves sample_tomcrypt (sample_waiting []) c \<and> tls_writes sample_prims empty_poly c sample_writes = Some c2 \<and>
    consume_pieces sample_prims empty_poly [] (\<lambda>c text. (0, c)) sample_peer [tls_get_write_buffer c2] =
      Some (int (length (tls_get_write_buffer c2)), r2) \<and> tx_app_buffer r2 = [72, 105, 33]"
proof -
  have z: "length ([] :: byte list) \<le> 3" by simp
  obtain c where m: "(tls_moves sample_tomcrypt)\<^sup>*\<^sup>* (sample_waiting []) c" "tls_moves sample_tomcrypt (sample_waiting []) c"
    using waiting_moves [OF z] by blast
  have s: "sample_waiting [] = sample_server" by (simp add: sample_waiting_def sample_defs)
  have "connected (sample_waiting []) sample_peer" "tx_tls_buffer (sample_waiting []) = []"
    unfolding s by (rule sample_connected(2), rule sample_idle(3))
  note t = moved_server_answers [OF sample_prims_laws sample_leaves empty_poly_buffer empty_poly_buffer waiting_session(1-3) [OF z]
      sample_keeps_iv m(1) this(1) sample_writes_ok this(2)]
  have "concat [b] = b" for b :: "byte list" by simp
  then show ?thesis using t [of "[]"] m(2) unfolding sample_data sample_idle append_Nil by blast
qed

section \<open>Forged records\<close>

text \<open>The header of a record.\<close>

lemma record_reads:
  assumes "length d < 2 ^ 16"
  shows "unat (ntohs (ld16 (record_bytes t v d) 3)) = length d" "ntohs (ld16 (record_bytes t v d) 1) = v"
  using assms by (simp_all add: record_bytes_def ld16_def bytes16_def unat_of_nat take_bit_nat_eq_self)

lemma record_bytes_nonempty: "record_bytes t v d \<noteq> []"
  by (simp add: record_bytes_def)

text \<open>The alert of a negotiated ChaCha20-Poly1305 context.\<close>

lemma alert_sealed:
  assumes c: "ci_ctx (tx_crypto c) = Chacha_ctx l r" "ci_created (tx_crypto c) = 3" "tx_dtls c = 0" "tx_cipher_spec_set c \<noteq> 0"
    and key: "length key = 32" "chacha_keyed key l" "12 \<le> length (ci_local_mac (tx_crypto c))" and st: "length (pc_buffer stack) = 16"
  shows "\<exists>l'. refuse_with_alert P stack rnd c what result = Refused result (c\<lparr>tx_crypto := (tx_crypto c)\<lparr>ci_ctx := Chacha_ctx l' r\<rparr>,
    tx_local_seq := tx_local_seq c + 1, tx_critical_error := 1,
    tx_tls_buffer := tx_tls_buffer c @ record_bytes TLS_ALERT (tx_version c)
      (rfc_seal key (rfc_nonce (take 12 (ci_local_mac (tx_crypto c))) (tx_local_seq c))
        (rfc_aad (tx_local_seq c) TLS_ALERT (tx_version c) 2) [2, what])\<rparr>)"
proof -
  let ?c = "c\<lparr>tx_critical_error := 1\<rparr>"
  have t: "TLS_ALERT \<noteq> TLS_CHANGE_CIPHER" by (simp add: TLS_ALERT_def TLS_CHANGE_CIPHER_def)
  obtain l' where u: "tls_record_update P stack rnd ?c ([TLS_ALERT] @ bytes16 (htons (tx_version ?c)) @ [0, 0] @ [2, what]) =
      Some (record_bytes TLS_ALERT (tx_version ?c) (rfc_seal key (rfc_nonce (take 12 (ci_local_mac (tx_crypto ?c))) (tx_local_seq ?c))
          (rfc_aad (tx_local_seq ?c) TLS_ALERT (tx_version ?c) (length [2, what])) [2, what]),
        ?c\<lparr>tx_crypto := (tx_crypto ?c)\<lparr>ci_ctx := Chacha_ctx l' r\<rparr>, tx_local_seq := tx_local_seq ?c + 1\<rparr>)"
    using chacha_update_rfc [of ?c l r key "[2, what]" stack TLS_ALERT P rnd] c key st t by auto
  have "replicate 2 (0 :: byte) = [0, 0]" by (simp add: numeral_2_eq_2)
  then have a: "tls_packet_append [2] (tls_record_packet c TLS_ALERT 0) =
      Some \<lparr>pk_buf = [TLS_ALERT] @ bytes16 (htons (tx_version c)) @ [0, 0] @ [2], pk_size = 0xFFF\<rparr>"
    "tls_packet_append [what] \<lparr>pk_buf = [TLS_ALERT] @ bytes16 (htons (tx_version c)) @ [0, 0] @ [2], pk_size = 0xFFF\<rparr> =
      Some \<lparr>pk_buf = [TLS_ALERT] @ bytes16 (htons (tx_version c)) @ [0, 0] @ [2, what], pk_size = 0xFFF\<rparr>"
    using c(3) by (simp_all add: tls_packet_append_def tls_record_packet_def record_header_size_def bytes16_def)
  have l2: "length [2, what] = 2" by simp
  show ?thesis
    using u a unfolding refuse_with_alert_def tls_build_alert_def Let_def l2
    by (intro exI [of _ l']) (simp add: tls_write_packet_def)
qed



end
