(* ===== verification/PicoChunked.thy ===== *)
theory PicoChunked
  imports Prelude
begin

text \<open>
  The decoder of chunked bodies in src/extern/picohttpparser.c, and its equivalence with a machine that
  takes one byte at a time.  The buffer is rewritten in place; positions in it are offsets.
\<close>

section \<open>The decoder\<close>

datatype chunk_state =
    CHUNKED_IN_CHUNK_SIZE | CHUNKED_IN_CHUNK_EXT | CHUNKED_IN_CHUNK_DATA | CHUNKED_IN_CHUNK_CRLF
  | CHUNKED_IN_TRAILERS_LINE_HEAD | CHUNKED_IN_TRAILERS_LINE_MIDDLE

record phr_chunked_decoder =
  bytes_left_in_chunk :: u64
  consume_trailer :: byte
  hex_count :: byte
  chunk_st :: chunk_state

definition decode_hex :: "byte \<Rightarrow> int" where
  "decode_hex ch =
     (let ch = sint ch
      in if 48 \<le> ch \<and> ch \<le> 57 then ch - 48
         else if 65 \<le> ch \<and> ch \<le> 70 then ch - 65 + 0xa
         else if 97 \<le> ch \<and> ch \<le> 102 then ch - 97 + 0xa
         else - 1)"

record chunked =
  ch_dec :: phr_chunked_decoder
  ch_buf :: "byte list"
  ch_dst :: nat
  ch_src :: nat

text \<open>How a case of the switch is left: into the next case, out of the switch, or to one of the labels.\<close>

datatype chunk_flow = Fall chunked | Again chunked | Complete chunked | Exit int chunked

primrec into :: "chunk_flow \<Rightarrow> (chunked \<Rightarrow> chunk_flow) \<Rightarrow> chunk_flow" where
  "into (Fall c) f = f c"
| "into (Again c) f = Again c"
| "into (Complete c) f = Complete c"
| "into (Exit r c) f = Exit r c"

text \<open>The bytes of the buffer from \<open>src\<close> on; a loop over them moves \<open>src\<close>.\<close>

abbreviation unread :: "chunked \<Rightarrow> byte list" where
  "unread c \<equiv> drop (ch_src c) (ch_buf c)"

definition skip_while :: "(byte \<Rightarrow> bool) \<Rightarrow> chunked \<Rightarrow> (chunked \<Rightarrow> byte \<Rightarrow> chunk_flow) \<Rightarrow> chunk_flow" where
  "skip_while P c f =
     (let n = length (takeWhile P (unread c)); c' = c\<lparr>ch_src := ch_src c + n\<rparr>
      in case unread c' of [] \<Rightarrow> Exit (- 2) c' | b # _ \<Rightarrow> f c' b)"

fun size_loop :: "phr_chunked_decoder \<Rightarrow> byte list \<Rightarrow> nat \<Rightarrow> int option \<times> phr_chunked_decoder \<times> nat" where
  "size_loop d [] src = (Some (- 2), d, src)"
| "size_loop d (b # bs) src =
     (let v = decode_hex b
      in if v = - 1 then (if hex_count d = 0 then Some (- 1) else None, d, src)
         else if hex_count d = 16 then (Some (- 1), d, src)
         else size_loop (d\<lparr>bytes_left_in_chunk := bytes_left_in_chunk d * 16 + of_int v, hex_count := hex_count d + 1\<rparr>) bs (src + 1))"

definition in_chunk_size :: "chunked \<Rightarrow> chunk_flow" where
  "in_chunk_size c =
     (case size_loop (ch_dec c) (unread c) (ch_src c) of
        (Some r, d, src) \<Rightarrow> Exit r (c\<lparr>ch_dec := d, ch_src := src\<rparr>)
      | (None, d, src) \<Rightarrow> Fall (c\<lparr>ch_dec := d\<lparr>hex_count := 0, chunk_st := CHUNKED_IN_CHUNK_EXT\<rparr>, ch_src := src\<rparr>))"

definition in_chunk_ext :: "chunked \<Rightarrow> chunk_flow" where
  "in_chunk_ext c = skip_while (\<lambda>b. b \<noteq> 10) c (\<lambda>c b.
     let c = c\<lparr>ch_src := ch_src c + 1\<rparr>
     in if bytes_left_in_chunk (ch_dec c) = 0 then
          if consume_trailer (ch_dec c) \<noteq> 0 then Again (c\<lparr>ch_dec := (ch_dec c)\<lparr>chunk_st := CHUNKED_IN_TRAILERS_LINE_HEAD\<rparr>\<rparr>)
          else Complete c
        else Fall (c\<lparr>ch_dec := (ch_dec c)\<lparr>chunk_st := CHUNKED_IN_CHUNK_DATA\<rparr>\<rparr>))"

definition memmove_down :: "nat \<Rightarrow> nat \<Rightarrow> nat \<Rightarrow> byte list \<Rightarrow> byte list" where
  "memmove_down dst src n buf = (if dst \<noteq> src then take dst buf @ take n (drop src buf) @ drop (dst + n) buf else buf)"

definition in_chunk_data :: "chunked \<Rightarrow> chunk_flow" where
  "in_chunk_data c =
     (let avail = length (ch_buf c) - ch_src c; left = bytes_left_in_chunk (ch_dec c)
      in if avail < unat left then
           Exit (- 2) (c\<lparr>ch_buf := memmove_down (ch_dst c) (ch_src c) avail (ch_buf c), ch_src := ch_src c + avail,
             ch_dst := ch_dst c + avail, ch_dec := (ch_dec c)\<lparr>bytes_left_in_chunk := left - of_nat avail\<rparr>\<rparr>)
         else
           Fall (c\<lparr>ch_buf := memmove_down (ch_dst c) (ch_src c) (unat left) (ch_buf c), ch_src := ch_src c + unat left,
             ch_dst := ch_dst c + unat left,
             ch_dec := (ch_dec c)\<lparr>bytes_left_in_chunk := 0, chunk_st := CHUNKED_IN_CHUNK_CRLF\<rparr>\<rparr>))"

definition in_chunk_crlf :: "chunked \<Rightarrow> chunk_flow" where
  "in_chunk_crlf c = skip_while (\<lambda>b. b = 13) c (\<lambda>c b.
     if b \<noteq> 10 then Exit (- 1) c
     else Again (c\<lparr>ch_src := ch_src c + 1, ch_dec := (ch_dec c)\<lparr>chunk_st := CHUNKED_IN_CHUNK_SIZE\<rparr>\<rparr>))"

definition in_trailers_head :: "chunked \<Rightarrow> chunk_flow" where
  "in_trailers_head c = skip_while (\<lambda>b. b = 13) c (\<lambda>c b.
     let c = c\<lparr>ch_src := ch_src c + 1\<rparr>
     in if b = 10 then Complete c else Fall (c\<lparr>ch_dec := (ch_dec c)\<lparr>chunk_st := CHUNKED_IN_TRAILERS_LINE_MIDDLE\<rparr>\<rparr>))"

definition in_trailers_middle :: "chunked \<Rightarrow> chunk_flow" where
  "in_trailers_middle c = skip_while (\<lambda>b. b \<noteq> 10) c (\<lambda>c b.
     Again (c\<lparr>ch_src := ch_src c + 1, ch_dec := (ch_dec c)\<lparr>chunk_st := CHUNKED_IN_TRAILERS_LINE_HEAD\<rparr>\<rparr>))"

definition chunk_switch :: "chunked \<Rightarrow> chunk_flow" where
  "chunk_switch c =
     (case chunk_st (ch_dec c) of
        CHUNKED_IN_CHUNK_SIZE \<Rightarrow> into (into (into (in_chunk_size c) in_chunk_ext) in_chunk_data) in_chunk_crlf
      | CHUNKED_IN_CHUNK_EXT \<Rightarrow> into (into (in_chunk_ext c) in_chunk_data) in_chunk_crlf
      | CHUNKED_IN_CHUNK_DATA \<Rightarrow> into (in_chunk_data c) in_chunk_crlf
      | CHUNKED_IN_CHUNK_CRLF \<Rightarrow> in_chunk_crlf c
      | CHUNKED_IN_TRAILERS_LINE_HEAD \<Rightarrow> into (in_trailers_head c) in_trailers_middle
      | CHUNKED_IN_TRAILERS_LINE_MIDDLE \<Rightarrow> in_trailers_middle c)"

partial_function (option) chunk_loop :: "chunked \<Rightarrow> chunk_flow option" where
  "chunk_loop c = (case chunk_switch c of Again c \<Rightarrow> chunk_loop c | Fall c \<Rightarrow> None | Complete c \<Rightarrow> Some (Complete c) | Exit r c \<Rightarrow> Some (Exit r c))"

definition chunk_exit :: "int \<Rightarrow> chunked \<Rightarrow> int \<times> phr_chunked_decoder \<times> byte list \<times> nat" where
  "chunk_exit ret c = (ret, ch_dec c, memmove_down (ch_dst c) (ch_src c) (length (ch_buf c) - ch_src c) (ch_buf c), ch_dst c)"

text \<open>The result, the decoder, the buffer and the new \<open>*_bufsz\<close>.\<close>

definition phr_decode_chunked ::
  "phr_chunked_decoder \<Rightarrow> byte list \<Rightarrow> (int \<times> phr_chunked_decoder \<times> byte list \<times> nat) option" where
  "phr_decode_chunked decoder buf =
     (case chunk_loop \<lparr>ch_dec = decoder, ch_buf = buf, ch_dst = 0, ch_src = 0\<rparr> of
        Some (Complete c) \<Rightarrow> Some (chunk_exit (int (length buf - ch_src c)) c)
      | Some (Exit ret c) \<Rightarrow> Some (chunk_exit ret c)
      | _ \<Rightarrow> None)"

definition phr_decode_chunked_is_in_data :: "phr_chunked_decoder \<Rightarrow> bool" where
  "phr_decode_chunked_is_in_data decoder \<longleftrightarrow> chunk_st decoder = CHUNKED_IN_CHUNK_DATA"

section \<open>One byte at a time\<close>

datatype chunk_step = Next phr_chunked_decoder "byte list" | Ended phr_chunked_decoder | Bad phr_chunked_decoder

fun ext_byte :: "phr_chunked_decoder \<Rightarrow> byte \<Rightarrow> chunk_step" where
  "ext_byte d b =
     (if b \<noteq> 10 then Next d []
      else if bytes_left_in_chunk d \<noteq> 0 then Next (d\<lparr>chunk_st := CHUNKED_IN_CHUNK_DATA\<rparr>) []
      else if consume_trailer d \<noteq> 0 then Next (d\<lparr>chunk_st := CHUNKED_IN_TRAILERS_LINE_HEAD\<rparr>) []
      else Ended d)"

definition chunk_byte :: "phr_chunked_decoder \<Rightarrow> byte \<Rightarrow> chunk_step" where
  "chunk_byte d b =
     (case chunk_st d of
        CHUNKED_IN_CHUNK_SIZE \<Rightarrow>
          if decode_hex b = - 1 then
            if hex_count d = 0 then Bad d else ext_byte (d\<lparr>hex_count := 0, chunk_st := CHUNKED_IN_CHUNK_EXT\<rparr>) b
          else if hex_count d = 16 then Bad d
          else Next (d\<lparr>bytes_left_in_chunk := bytes_left_in_chunk d * 16 + of_int (decode_hex b), hex_count := hex_count d + 1\<rparr>) []
      | CHUNKED_IN_CHUNK_EXT \<Rightarrow> ext_byte d b
      | CHUNKED_IN_CHUNK_DATA \<Rightarrow>
          if bytes_left_in_chunk d = 1 then Next (d\<lparr>bytes_left_in_chunk := 0, chunk_st := CHUNKED_IN_CHUNK_CRLF\<rparr>) [b]
          else Next (d\<lparr>bytes_left_in_chunk := bytes_left_in_chunk d - 1\<rparr>) [b]
      | CHUNKED_IN_CHUNK_CRLF \<Rightarrow>
          if b = 13 then Next d [] else if b = 10 then Next (d\<lparr>chunk_st := CHUNKED_IN_CHUNK_SIZE\<rparr>) [] else Bad d
      | CHUNKED_IN_TRAILERS_LINE_HEAD \<Rightarrow>
          if b = 13 then Next d [] else if b = 10 then Ended d
          else Next (d\<lparr>chunk_st := CHUNKED_IN_TRAILERS_LINE_MIDDLE\<rparr>) []
      | CHUNKED_IN_TRAILERS_LINE_MIDDLE \<Rightarrow>
          if b = 10 then Next (d\<lparr>chunk_st := CHUNKED_IN_TRAILERS_LINE_HEAD\<rparr>) [] else Next d [])"

datatype chunk_end = Incomplete | Finished "byte list" | Refused "byte list"

definition prepend :: "byte list \<Rightarrow> phr_chunked_decoder \<times> byte list \<times> chunk_end \<Rightarrow> phr_chunked_decoder \<times> byte list \<times> chunk_end" where
  "prepend bs r = (case r of (d, out, e) \<Rightarrow> (d, bs @ out, e))"

fun chunk_run :: "phr_chunked_decoder \<Rightarrow> byte list \<Rightarrow> phr_chunked_decoder \<times> byte list \<times> chunk_end" where
  "chunk_run d [] = (d, [], Incomplete)"
| "chunk_run d (b # bs) =
     (case chunk_byte d b of
        Next d out \<Rightarrow> prepend out (chunk_run d bs)
      | Ended d \<Rightarrow> (d, [], Finished bs)
      | Bad d \<Rightarrow> (d, [], Refused (b # bs)))"

lemma prepend_simps [simp]:
  "prepend bs (d, out, e) = (d, bs @ out, e)" "prepend [] r = r" "prepend as (prepend bs r) = prepend (as @ bs) r"
  by (simp_all add: prepend_def split: prod.split)

section \<open>The two agree\<close>

definition decoder_ok :: "phr_chunked_decoder \<Rightarrow> bool" where
  "decoder_ok d \<longleftrightarrow> (chunk_st d = CHUNKED_IN_CHUNK_DATA \<longrightarrow> bytes_left_in_chunk d \<noteq> 0)"

definition chunked_ok :: "chunked \<Rightarrow> bool" where
  "chunked_ok c \<longleftrightarrow> ch_dst c \<le> ch_src c \<and> ch_src c \<le> length (ch_buf c)"

text \<open>From \<open>c\<close> to \<open>c'\<close> the bytes \<open>out\<close> are produced, and those not read yet stay.\<close>

definition produced :: "chunked \<Rightarrow> byte list \<Rightarrow> chunked \<Rightarrow> bool" where
  "produced c out c' \<longleftrightarrow> chunked_ok c' \<and> ch_src c \<le> ch_src c' \<and> length (ch_buf c') = length (ch_buf c) \<and>
     ch_dst c' = ch_dst c + length out \<and> take (ch_dst c') (ch_buf c') = take (ch_dst c) (ch_buf c) @ out \<and>
     unread c' = drop (ch_src c') (ch_buf c)"

abbreviation run_of :: "chunked \<Rightarrow> phr_chunked_decoder \<times> byte list \<times> chunk_end" where
  "run_of c \<equiv> chunk_run (ch_dec c) (unread c)"

definition agrees :: "chunked \<Rightarrow> chunk_flow \<Rightarrow> bool" where
  "agrees c fl \<longleftrightarrow>
     (case fl of
        Fall c' \<Rightarrow> \<exists>out. produced c out c' \<and> run_of c = prepend out (run_of c')
      | Again c' \<Rightarrow> \<exists>out. produced c out c' \<and> run_of c = prepend out (run_of c') \<and> decoder_ok (ch_dec c') \<and> ch_src c < ch_src c'
      | Complete c' \<Rightarrow> \<exists>out. produced c out c' \<and> run_of c = (ch_dec c', out, Finished (unread c'))
      | Exit r c' \<Rightarrow> \<exists>out. produced c out c' \<and>
          (r = - 2 \<and> run_of c = (ch_dec c', out, Incomplete) \<or> r = - 1 \<and> run_of c = (ch_dec c', out, Refused (unread c'))))"

lemma produced_trans: "produced c as c1 \<Longrightarrow> produced c1 bs c2 \<Longrightarrow> produced c (as @ bs) c2"
  by (auto simp: produced_def chunked_ok_def) (metis drop_drop le_add_diff_inverse2)

lemma agrees_after:
  assumes "produced c out c1" "run_of c = prepend out (run_of c1)" "agrees c1 fl"
  shows "agrees c fl"
proof -
  have "ch_src c \<le> ch_src c1" using assms(1) by (simp add: produced_def)
  then show ?thesis
    using assms(2,3) by (fastforce simp: agrees_def split: chunk_flow.splits dest: produced_trans [OF assms(1)])
qed

lemma agrees_into:
  assumes "agrees c fl" "\<And>c'. fl = Fall c' \<Longrightarrow> chunked_ok c' \<Longrightarrow> agrees c' (f c')"
  shows "agrees c (into fl f)"
proof (cases fl)
  case (Fall c1)
  then obtain out where o: "produced c out c1" "run_of c = prepend out (run_of c1)" using assms(1) by (auto simp: agrees_def)
  then have "agrees c1 (f c1)" using assms(2) [OF Fall] by (simp add: produced_def)
  then show ?thesis using Fall agrees_after [OF o] by simp
qed (use assms(1) in simp_all)

text \<open>A loop that skips bytes on which the decoder does not move.\<close>

lemma run_skip:
  assumes "\<And>b. P b \<Longrightarrow> chunk_byte d b = Next d []"
  shows "chunk_run d bs = chunk_run d (dropWhile P bs)"
  by (induction bs) (simp_all add: assms)

lemma drop_takeWhile: "drop (length (takeWhile P xs)) xs = dropWhile P xs"
  by (induction xs) simp_all

lemma skip_agrees:
  assumes "chunked_ok c" "\<And>b. P b \<Longrightarrow> chunk_byte (ch_dec c) b = Next (ch_dec c) []"
    "\<And>c' b bs. ch_dec c' = ch_dec c \<Longrightarrow> unread c' = b # bs \<Longrightarrow> \<not> P b \<Longrightarrow> chunked_ok c' \<Longrightarrow> agrees c' (f c' b)"
  shows "agrees c (skip_while P c f)"
proof -
  let ?n = "length (takeWhile P (unread c))"
  let ?c = "c\<lparr>ch_src := ch_src c + ?n\<rparr>"
  have u: "unread ?c = dropWhile P (unread c)" using drop_takeWhile [of P "unread c"] by (simp add: add.commute)
  have "?n \<le> length (unread c)" by (rule length_takeWhile_le)
  then have "?n \<le> length (ch_buf c) - ch_src c" by simp
  moreover have "ch_dst c \<le> ch_src c" "ch_src c \<le> length (ch_buf c)" using assms(1) by (simp_all add: chunked_ok_def)
  ultimately have ok: "chunked_ok ?c" unfolding chunked_ok_def by simp
  then have p: "produced c [] ?c" by (simp add: produced_def)
  have r: "run_of c = prepend [] (run_of ?c)" using run_skip [of P "ch_dec c" "unread c"] assms(2) u by simp
  show ?thesis
  proof (cases "unread ?c")
    case Nil
    then show ?thesis using p r by (auto simp: skip_while_def agrees_def)
  next
    case (Cons b bs)
    then have "\<not> P b" using u hd_dropWhile [of P "unread c"] by (metis list.distinct(1) list.sel(1))
    then have "agrees ?c (f ?c b)" using assms(3) [of ?c b bs] Cons ok by simp
    then show ?thesis using agrees_after [OF p r] Cons by (simp add: skip_while_def)
  qed
qed

text \<open>One byte read.\<close>

lemma produced_next:
  assumes "chunked_ok c" "unread c = b # bs"
  shows "produced c [] (c\<lparr>ch_src := Suc (ch_src c), ch_dec := d\<rparr>)" "drop (Suc (ch_src c)) (ch_buf c) = bs"
proof -
  show bs: "drop (Suc (ch_src c)) (ch_buf c) = bs" using assms(2) by (metis drop_Suc drop_drop list.sel(3) plus_1_eq_Suc tl_drop)
  have "ch_src c < length (ch_buf c)" using assms(2) by (metis drop_all leI list.distinct(1))
  then show "produced c [] (c\<lparr>ch_src := Suc (ch_src c), ch_dec := d\<rparr>)" using assms(1) by (simp add: produced_def chunked_ok_def)
qed

lemma agrees_next:
  assumes "chunked_ok c" "unread c = b # bs" "chunk_byte (ch_dec c) b = Next d []"
  shows "agrees c (Fall (c\<lparr>ch_src := Suc (ch_src c), ch_dec := d\<rparr>))"
    "decoder_ok d \<Longrightarrow> agrees c (Again (c\<lparr>ch_src := Suc (ch_src c), ch_dec := d\<rparr>))"
  using produced_next(1) [OF assms(1,2), of d] produced_next(2) [OF assms(1,2)] assms(2,3) by (auto simp: agrees_def intro!: exI [of _ "[]"])

lemma agrees_complete:
  assumes "chunked_ok c" "unread c = b # bs" "chunk_byte (ch_dec c) b = Ended (ch_dec c)"
  shows "agrees c (Complete (c\<lparr>ch_src := Suc (ch_src c)\<rparr>))"
  using produced_next(1) [OF assms(1,2), of "ch_dec c"] produced_next(2) [OF assms(1,2)] assms(2,3) by (auto simp: agrees_def intro!: exI [of _ "[]"])

lemma agrees_bad:
  assumes "chunked_ok c" "unread c = b # bs" "chunk_byte (ch_dec c) b = Bad (ch_dec c)"
  shows "agrees c (Exit (- 1) c)"
  using assms by (auto simp: agrees_def produced_def)

lemmas agrees_intros = agrees_next agrees_complete agrees_bad

lemma ext_agrees:
  assumes "chunked_ok c" "chunk_st (ch_dec c) = CHUNKED_IN_CHUNK_EXT"
  shows "agrees c (in_chunk_ext c)"
  unfolding in_chunk_ext_def using assms
  by (intro skip_agrees) (auto simp: Let_def chunk_byte_def decoder_ok_def intro!: agrees_intros)

lemma crlf_agrees:
  assumes "chunked_ok c" "chunk_st (ch_dec c) = CHUNKED_IN_CHUNK_CRLF"
  shows "agrees c (in_chunk_crlf c)"
  unfolding in_chunk_crlf_def using assms
  by (intro skip_agrees) (auto simp: Let_def chunk_byte_def decoder_ok_def intro!: agrees_intros)

lemma trailers_agree:
  assumes "chunked_ok c"
  shows "chunk_st (ch_dec c) = CHUNKED_IN_TRAILERS_LINE_HEAD \<Longrightarrow> agrees c (in_trailers_head c)"
    "chunk_st (ch_dec c) = CHUNKED_IN_TRAILERS_LINE_MIDDLE \<Longrightarrow> agrees c (in_trailers_middle c)"
  unfolding in_trailers_head_def in_trailers_middle_def using assms
  by (intro skip_agrees; auto simp: Let_def chunk_byte_def decoder_ok_def intro!: agrees_intros)+

lemma size_run:
  assumes "size_loop d bs n = (r, d', n')" "chunk_st d = CHUNKED_IN_CHUNK_SIZE"
  shows "n \<le> n' \<and> n' \<le> n + length bs \<and>
    (case r of
       None \<Rightarrow> chunk_run d bs = chunk_run (d'\<lparr>hex_count := 0, chunk_st := CHUNKED_IN_CHUNK_EXT\<rparr>) (drop (n' - n) bs)
     | Some e \<Rightarrow> e = - 2 \<and> n' = n + length bs \<and> chunk_run d bs = (d', [], Incomplete) \<or>
         e = - 1 \<and> chunk_run d bs = (d', [], Refused (drop (n' - n) bs)))"
  using assms
proof (induction bs arbitrary: d n)
  case Nil
  then show ?case by auto
next
  case (Cons b bs)
  show ?case
  proof (cases "decode_hex b = - 1 \<or> hex_count d = 16")
    case True
    then show ?thesis using Cons.prems by (auto simp: Let_def chunk_byte_def split: if_splits)
  next
    case False
    let ?d = "d\<lparr>bytes_left_in_chunk := bytes_left_in_chunk d * 16 + of_int (decode_hex b), hex_count := hex_count d + 1\<rparr>"
    have r: "chunk_run d (b # bs) = chunk_run ?d bs" using False Cons.prems(2) by (simp add: chunk_byte_def)
    have "size_loop ?d bs (n + 1) = (r, d', n')" using False Cons.prems(1) by (simp add: Let_def)
    from Cons.IH [OF this] have ih: "n + 1 \<le> n'" "n' \<le> n + 1 + length bs"
      "(case r of
       None \<Rightarrow> chunk_run ?d bs = chunk_run (d'\<lparr>hex_count := 0, chunk_st := CHUNKED_IN_CHUNK_EXT\<rparr>) (drop (n' - (n + 1)) bs)
     | Some e \<Rightarrow> e = - 2 \<and> n' = n + 1 + length bs \<and> chunk_run ?d bs = (d', [], Incomplete) \<or>
         e = - 1 \<and> chunk_run ?d bs = (d', [], Refused (drop (n' - (n + 1)) bs)))"
      using Cons.prems(2) by simp_all
    have "n' - n = Suc (n' - (n + 1))" using ih(1) by simp
    then have "drop (n' - n) (b # bs) = drop (n' - (n + 1)) bs" by simp
    then show ?thesis unfolding r using ih by (auto split: option.splits)
  qed
qed

lemma size_agrees:
  assumes "chunked_ok c" "chunk_st (ch_dec c) = CHUNKED_IN_CHUNK_SIZE"
  shows "agrees c (in_chunk_size c)"
proof -
  obtain r d n where s: "size_loop (ch_dec c) (unread c) (ch_src c) = (r, d, n)" by (cases "size_loop (ch_dec c) (unread c) (ch_src c)") auto
  note z = size_run [OF s assms(2)]
  let ?c = "c\<lparr>ch_dec := d\<lparr>hex_count := 0, chunk_st := CHUNKED_IN_CHUNK_EXT\<rparr>, ch_src := n\<rparr>"
  have "n \<le> length (ch_buf c)" "ch_src c \<le> n" using z assms(1) by (auto simp: chunked_ok_def)
  then have p: "produced c [] ?c" "produced c [] (c\<lparr>ch_dec := d, ch_src := n\<rparr>)"
    and u: "drop (n - ch_src c) (unread c) = drop n (ch_buf c)"
    using assms(1) by (simp_all add: produced_def chunked_ok_def)
  show ?thesis
    using s z p unfolding u by (cases r) (auto simp: in_chunk_size_def agrees_def intro!: exI [of _ "[]"])
qed

lemma run_data:
  assumes "chunk_st d = CHUNKED_IN_CHUNK_DATA" "bytes_left_in_chunk d \<noteq> 0"
  shows "chunk_run d bs = (let left = bytes_left_in_chunk d
    in if length bs < unat left then (d\<lparr>bytes_left_in_chunk := left - of_nat (length bs)\<rparr>, bs, Incomplete)
       else prepend (take (unat left) bs)
         (chunk_run (d\<lparr>bytes_left_in_chunk := 0, chunk_st := CHUNKED_IN_CHUNK_CRLF\<rparr>) (drop (unat left) bs)))"
  using assms
proof (induction bs arbitrary: d)
  case Nil
  then show ?case by (simp add: unat_gt_0)
next
  case (Cons b bs)
  let ?l = "bytes_left_in_chunk d"
  show ?case
  proof (cases "?l = 1")
    case True
    then show ?thesis using Cons.prems by (simp add: chunk_byte_def)
  next
    case False
    let ?d = "d\<lparr>bytes_left_in_chunk := ?l - 1\<rparr>"
    have "0 < unat ?l" using Cons.prems(2) by (simp add: unat_gt_0)
    then have u: "unat ?l = Suc (unat (?l - 1))" using Cons.prems(2) by (simp add: unat_minus_one)
    have "chunk_run d (b # bs) = prepend [b] (chunk_run ?d bs)"
      using False Cons.prems(1) by (simp add: chunk_byte_def)
    moreover have "?l - 1 \<noteq> 0" using False by simp
    ultimately show ?thesis
      using Cons.IH [of ?d] Cons.prems(1) u by (simp add: Let_def diff_diff_eq)
  qed
qed

lemma memmove_facts:
  assumes "dst \<le> src" "src + n \<le> length buf"
  shows "length (memmove_down dst src n buf) = length buf" "take (dst + n) (memmove_down dst src n buf) = take dst buf @ take n (drop src buf)"
    "drop (src + n) (memmove_down dst src n buf) = drop (src + n) buf"
  using assms by (auto simp: memmove_down_def take_add min_def)

lemma data_agrees:
  assumes "chunked_ok c" "chunk_st (ch_dec c) = CHUNKED_IN_CHUNK_DATA" "bytes_left_in_chunk (ch_dec c) \<noteq> 0"
  shows "agrees c (in_chunk_data c)"
proof -
  let ?left = "bytes_left_in_chunk (ch_dec c)" and ?avail = "length (ch_buf c) - ch_src c"
  have ok: "ch_dst c \<le> ch_src c" "ch_src c \<le> length (ch_buf c)" using assms(1) by (simp_all add: chunked_ok_def)
  have p: "produced c (take n (unread c)) (c\<lparr>ch_buf := memmove_down (ch_dst c) (ch_src c) n (ch_buf c), ch_src := ch_src c + n,
      ch_dst := ch_dst c + n, ch_dec := d\<rparr>)" if "n \<le> ?avail" for n d
  proof -
    have n: "ch_src c + n \<le> length (ch_buf c)" using that ok by simp
    then show ?thesis using memmove_facts [OF ok(1) n] ok by (simp add: produced_def chunked_ok_def)
  qed
  note r = run_data [OF assms(2,3), of "unread c"]
  show ?thesis
  proof (cases "?avail < unat ?left")
    case True
    then show ?thesis
      using r p [of ?avail] ok by (auto simp: in_chunk_data_def agrees_def Let_def memmove_facts intro!: exI [of _ "unread c"])
  next
    case False
    then have le: "unat ?left \<le> ?avail" by simp
    then have "ch_src c + unat ?left \<le> length (ch_buf c)" using ok by simp
    note m = memmove_facts(3) [OF ok(1) this]
    show ?thesis
      using r p [OF le] False m by (auto simp: in_chunk_data_def agrees_def Let_def add.commute intro!: exI [of _ "take (unat ?left) (unread c)"])
  qed
qed

lemma skip_falls: "skip_while P c f = Fall c' \<Longrightarrow> \<exists>c1 b. f c1 b = Fall c'"
  by (auto simp: skip_while_def Let_def split: list.splits)

lemma falls:
  "in_chunk_size c = Fall c' \<Longrightarrow> chunk_st (ch_dec c') = CHUNKED_IN_CHUNK_EXT"
  "in_chunk_ext c = Fall c' \<Longrightarrow> chunk_st (ch_dec c') = CHUNKED_IN_CHUNK_DATA \<and> bytes_left_in_chunk (ch_dec c') \<noteq> 0"
  "in_chunk_data c = Fall c' \<Longrightarrow> chunk_st (ch_dec c') = CHUNKED_IN_CHUNK_CRLF"
  "in_trailers_head c = Fall c' \<Longrightarrow> chunk_st (ch_dec c') = CHUNKED_IN_TRAILERS_LINE_MIDDLE"
  "in_chunk_crlf c \<noteq> Fall c'" "in_trailers_middle c \<noteq> Fall c'"
  by (auto simp: in_chunk_size_def in_chunk_ext_def in_chunk_data_def in_chunk_crlf_def in_trailers_head_def in_trailers_middle_def
    Let_def dest!: skip_falls split: option.splits prod.splits if_splits)

lemma into_falls: "into fl f = Fall c' \<Longrightarrow> \<exists>c1. fl = Fall c1 \<and> f c1 = Fall c'"
  by (cases fl) auto

lemma switch_agrees:
  assumes "chunked_ok c" "decoder_ok (ch_dec c)"
  shows "agrees c (chunk_switch c)" "chunk_switch c \<noteq> Fall c'"
proof -
  show "agrees c (chunk_switch c)"
    using assms unfolding chunk_switch_def
    by (cases "chunk_st (ch_dec c)")
      (auto simp: decoder_ok_def falls(5,6) dest: falls(1-4) dest!: into_falls
        intro!: agrees_into size_agrees ext_agrees data_agrees crlf_agrees trailers_agree)
  show "chunk_switch c \<noteq> Fall c'"
    by (auto simp: chunk_switch_def falls dest!: into_falls split: chunk_state.splits)
qed

lemma loop_agrees:
  assumes "chunked_ok c" "decoder_ok (ch_dec c)"
  shows "\<exists>fl. chunk_loop c = Some fl \<and> agrees c fl \<and> (\<forall>c'. fl \<noteq> Fall c' \<and> fl \<noteq> Again c')"
  using assms
proof (induction "length (ch_buf c) - ch_src c" arbitrary: c rule: less_induct)
  case less
  note sw = switch_agrees [OF less.prems]
  show ?case
  proof (cases "chunk_switch c")
    case (Again c1)
    then obtain out where o: "produced c out c1" "run_of c = prepend out (run_of c1)" "decoder_ok (ch_dec c1)" "ch_src c < ch_src c1"
      using sw(1) by (auto simp: agrees_def)
    then have "length (ch_buf c1) - ch_src c1 < length (ch_buf c) - ch_src c" "chunked_ok c1"
      by (auto simp: produced_def chunked_ok_def)
    from less.hyps [OF this o(3)] obtain fl where fl: "chunk_loop c1 = Some fl" "agrees c1 fl" "\<forall>c'. fl \<noteq> Fall c' \<and> fl \<noteq> Again c'"
      by blast
    then show ?thesis using agrees_after [OF o(1,2) fl(2)] Again by (subst chunk_loop.simps) simp
  qed (use sw in \<open>simp_all add: chunk_loop.simps [of c]\<close>)
qed

lemma decode_runs:
  assumes "decoder_ok d" "chunk_run d buf = (d', out, e)"
  shows "\<exists>buf'. phr_decode_chunked d buf = Some (case e of Incomplete \<Rightarrow> - 2 | Finished rest \<Rightarrow> int (length rest) | Refused rest \<Rightarrow> - 1,
      d', buf', length out) \<and> length buf' = length buf \<and> take (length out) buf' = out \<and>
    (\<forall>rest. e = Finished rest \<longrightarrow> take (length rest) (drop (length out) buf') = rest)"
proof -
  let ?c = "\<lparr>ch_dec = d, ch_buf = buf, ch_dst = 0, ch_src = 0\<rparr>"
  have run: "run_of ?c = (d', out, e)" using assms(2) by simp
  obtain fl where fl: "chunk_loop ?c = Some fl" "agrees ?c fl" "\<forall>c'. fl \<noteq> Fall c' \<and> fl \<noteq> Again c'"
    using loop_agrees [of ?c] assms(1) by (auto simp: chunked_ok_def)
  have fin: "length b = length buf" "take (length out) b = out" "take (length (unread c)) (drop (length out) b) = unread c"
    if p: "produced ?c out c" and b: "b = memmove_down (ch_dst c) (ch_src c) (length (ch_buf c) - ch_src c) (ch_buf c)" for b c
  proof -
    have f: "ch_dst c \<le> ch_src c" "ch_src c \<le> length (ch_buf c)" "length (ch_buf c) = length buf" "ch_dst c = length out"
      "take (ch_dst c) (ch_buf c) = out" using p unfolding produced_def chunked_ok_def by (elim conjE, simp)+
    have s: "ch_src c + (length (ch_buf c) - ch_src c) \<le> length (ch_buf c)" using f(2) by simp
    note m = memmove_facts [OF f(1) s, folded b]
    let ?k = "length (ch_buf c) - ch_src c"
    have e: "take (length out + ?k) b = out @ unread c" using m(2) f(4,5) by simp
    show "length b = length buf" using m(1) f(3) by simp
    have "take (length out) (take (length out + ?k) b) = out" unfolding e by simp
    then show "take (length out) b = out" by simp
    have "drop (length out) (take (length out + ?k) b) = unread c" unfolding e by simp
    then show "take (length (unread c)) (drop (length out) b) = unread c" by (simp add: drop_take)
  qed
  show ?thesis
  proof (cases fl)
    case (Complete c)
    then have a: "produced ?c out c" "d' = ch_dec c" "e = Finished (unread c)" using fl(2) run by (auto simp: agrees_def)
    have l: "length (unread c) = length buf - ch_src c" using a(1) by (simp add: produced_def)
    show ?thesis using Complete fl(1) fin [OF a(1) refl] a l by (simp add: phr_decode_chunked_def chunk_exit_def produced_def)
  next
    case (Exit r c)
    then have a: "produced ?c out c" "d' = ch_dec c" "r = - 2 \<and> e = Incomplete \<or> r = - 1 \<and> e = Refused (unread c)"
      using fl(2) run by (auto simp: agrees_def)
    show ?thesis using Exit fl(1) fin [OF a(1) refl] a by (auto simp: phr_decode_chunked_def chunk_exit_def produced_def)
  qed (use fl(3) in simp_all)
qed

section \<open>Pieces\<close>

lemma run_append:
  "chunk_run d (as @ bs) = (case chunk_run d as of (d', out, e) \<Rightarrow>
     (case e of Incomplete \<Rightarrow> prepend out (chunk_run d' bs) | Finished r \<Rightarrow> (d', out, Finished (r @ bs))
      | Refused r \<Rightarrow> (d', out, Refused (r @ bs))))"
  by (induction as arbitrary: d) (auto split: chunk_step.split prod.split chunk_end.split simp: prepend_def)

lemma run_ok:
  assumes "chunk_run d bs = (d', out, Incomplete)" "decoder_ok d"
  shows "decoder_ok d'"
  using assms
proof (induction bs arbitrary: d out)
  case (Cons b bs)
  then obtain d1 o1 where b: "chunk_byte d b = Next d1 o1"
    by (cases "chunk_byte d b") auto
  moreover obtain d2 o2 e where r: "chunk_run d1 bs = (d2, o2, e)" by (cases "chunk_run d1 bs") auto
  ultimately have "d2 = d'" "e = Incomplete" using Cons.prems(1) by simp_all
  moreover have "decoder_ok d1" using b Cons.prems(2)
    by (auto simp: chunk_byte_def decoder_ok_def Let_def split: chunk_state.splits if_splits)
  ultimately show ?case using Cons.IH r by blast
qed simp

text \<open>The caller decodes the pieces of a body in turn until the decoder has enough: the data, the last result, and
  the bytes that were not needed.\<close>

fun decode_pieces :: "phr_chunked_decoder \<Rightarrow> byte list list \<Rightarrow> (byte list \<times> int \<times> byte list) option" where
  "decode_pieces d [] = Some ([], - 2, [])"
| "decode_pieces d (p # ps) =
     (case phr_decode_chunked d p of
        None \<Rightarrow> None
      | Some (ret, d, buf, n) \<Rightarrow>
          if ret = - 2 then map_option (\<lambda>(out, r). (take n buf @ out, r)) (decode_pieces d ps)
          else Some (take n buf, ret, take (nat ret) (drop n buf) @ concat ps))"

lemma pieces_run:
  assumes "decoder_ok d" "chunk_run d (concat ps) = (d', out, e)"
  shows "\<exists>ret left. decode_pieces d ps = Some (out, ret, left) \<and>
    (case e of Incomplete \<Rightarrow> ret = - 2 | Finished rest \<Rightarrow> 0 \<le> ret \<and> left = rest | Refused rest \<Rightarrow> ret = - 1)"
  using assms
proof (induction ps arbitrary: d out)
  case (Cons p ps)
  obtain d1 o1 e1 where r1: "chunk_run d p = (d1, o1, e1)" by (cases "chunk_run d p") auto
  from decode_runs [OF Cons.prems(1) r1] obtain buf where b: "phr_decode_chunked d p = Some (case e1 of Incomplete \<Rightarrow> - 2
      | Finished rest \<Rightarrow> int (length rest) | Refused rest \<Rightarrow> - 1, d1, buf, length o1)" "take (length o1) buf = o1"
    "\<forall>rest. e1 = Finished rest \<longrightarrow> take (length rest) (drop (length o1) buf) = rest" by blast
  show ?case
  proof (cases e1)
    case Incomplete
    obtain d2 o2 e2 where r2: "chunk_run d1 (concat ps) = (d2, o2, e2)" by (cases "chunk_run d1 (concat ps)") auto
    have e: "out = o1 @ o2" "e2 = e" using Cons.prems(2) r1 r2 Incomplete by (auto simp: run_append)
    have "decoder_ok d1" using run_ok r1 Incomplete Cons.prems(1) by simp
    moreover have "chunk_run d1 (concat ps) = (d', o2, e)" using Cons.prems(2) r1 r2 Incomplete by (auto simp: run_append)
    ultimately show ?thesis using Cons.IH [of d1 o2] b(1,2) Incomplete e by auto
  next
    case (Finished rest)
    then have "out = o1" "e = Finished (rest @ concat ps)" using Cons.prems(2) r1 by (auto simp: run_append)
    then show ?thesis using b Finished by auto
  next
    case (Refused rest)
    then have "out = o1" "e = Refused (rest @ concat ps)" using Cons.prems(2) r1 by (auto simp: run_append)
    then show ?thesis using b Refused by auto
  qed
qed simp

section \<open>Bodies\<close>

record body_chunk =
  bk_size :: "byte list"
  bk_ext :: "byte list"
  bk_data :: "byte list"
  bk_cr :: "byte list"

definition hex_value :: "byte list \<Rightarrow> nat" where
  "hex_value ds = foldl (\<lambda>n b. n * 16 + nat (decode_hex b)) 0 ds"

definition size_ok :: "byte list \<Rightarrow> byte list \<Rightarrow> nat \<Rightarrow> bool" where
  "size_ok ds ext n \<longleftrightarrow> ds \<noteq> [] \<and> length ds \<le> 16 \<and> list_all (\<lambda>b. decode_hex b \<noteq> - 1) ds \<and> hex_value ds = n \<and> n < 2 ^ 64 \<and>
     10 \<notin> set ext \<and> (ext \<noteq> [] \<longrightarrow> decode_hex (hd ext) = - 1)"

definition chunk_ok :: "body_chunk \<Rightarrow> bool" where
  "chunk_ok c \<longleftrightarrow> size_ok (bk_size c) (bk_ext c) (length (bk_data c)) \<and> bk_data c \<noteq> [] \<and> set (bk_cr c) \<subseteq> {13}"

definition chunk_bytes :: "body_chunk \<Rightarrow> byte list" where
  "chunk_bytes c = bk_size c @ bk_ext c @ [10] @ bk_data c @ bk_cr c @ [10]"

text \<open>The line of the last chunk, the lines of the trailer and the empty line.\<close>

definition trailer_bytes :: "byte list list \<Rightarrow> byte list \<Rightarrow> byte list" where
  "trailer_bytes lines crs = concat (map (\<lambda>l. l @ [10]) lines) @ crs @ [10]"

definition trailer_ok :: "byte list list \<Rightarrow> byte list \<Rightarrow> bool" where
  "trailer_ok lines crs \<longleftrightarrow> list_all (\<lambda>l. 10 \<notin> set l \<and> \<not> set l \<subseteq> {13}) lines \<and> set crs \<subseteq> {13}"

definition fresh_decoder :: "byte \<Rightarrow> phr_chunked_decoder" where
  "fresh_decoder t = \<lparr>bytes_left_in_chunk = 0, consume_trailer = t, hex_count = 0, chunk_st = CHUNKED_IN_CHUNK_SIZE\<rparr>"

lemma run_digits:
  assumes "list_all (\<lambda>b. decode_hex b \<noteq> - 1) ds" "chunk_st d = CHUNKED_IN_CHUNK_SIZE" "unat (hex_count d) + length ds \<le> 16"
  shows "chunk_run d (ds @ r) = chunk_run (d\<lparr>bytes_left_in_chunk := foldl (\<lambda>w b. w * 16 + of_int (decode_hex b)) (bytes_left_in_chunk d) ds,
      hex_count := hex_count d + of_nat (length ds)\<rparr>) r"
  using assms
proof (induction ds arbitrary: d)
  case (Cons b ds)
  let ?d = "d\<lparr>bytes_left_in_chunk := bytes_left_in_chunk d * 16 + of_int (decode_hex b), hex_count := hex_count d + 1\<rparr>"
  have u: "unat (hex_count d + 1) = unat (hex_count d) + 1" using Cons.prems(3) by (subst unat_add_lem [THEN iffD1]) simp_all
  have "hex_count d \<noteq> 16" using Cons.prems(3) by auto
  then have step: "chunk_run d ((b # ds) @ r) = chunk_run ?d (ds @ r)" using Cons.prems by (simp add: chunk_byte_def)
  have "chunk_run ?d (ds @ r) = chunk_run (?d\<lparr>bytes_left_in_chunk := foldl (\<lambda>w b. w * 16 + of_int (decode_hex b)) (bytes_left_in_chunk ?d) ds,
      hex_count := hex_count ?d + of_nat (length ds)\<rparr>) r"
    using Cons.prems u by (intro Cons.IH) simp_all
  then show ?case unfolding step by (simp add: ac_simps)
qed simp

lemma decode_hex_range: "decode_hex b \<noteq> - 1 \<Longrightarrow> 0 \<le> decode_hex b"
  by (auto simp: decode_hex_def Let_def split: if_splits)

lemma hex_fold:
  "list_all (\<lambda>b. decode_hex b \<noteq> - 1) ds \<Longrightarrow>
     foldl (\<lambda>w b. w * 16 + of_int (decode_hex b)) (of_nat n :: u64) ds = of_nat (foldl (\<lambda>n b. n * 16 + nat (decode_hex b)) n ds)"
proof (induction ds arbitrary: n)
  case (Cons b ds)
  have "(of_nat n :: u64) * 16 + of_int (decode_hex b) = of_nat (n * 16 + nat (decode_hex b))"
    using decode_hex_range [of b] Cons.prems by simp
  then show ?case using Cons by (simp del: of_nat_add of_nat_mult)
qed simp

lemma run_over:
  assumes "\<And>b. b \<in> set xs \<Longrightarrow> chunk_byte d b = Next d []"
  shows "chunk_run d (xs @ r) = chunk_run d r"
  using assms by (induction xs) simp_all

text \<open>A size line.\<close>

lemma run_size:
  assumes "size_ok ds ext n"
  shows "chunk_run (fresh_decoder t) (ds @ ext @ 10 # r) =
    (if n \<noteq> 0 then chunk_run \<lparr>bytes_left_in_chunk = of_nat n, consume_trailer = t, hex_count = 0, chunk_st = CHUNKED_IN_CHUNK_DATA\<rparr> r
     else if t \<noteq> 0 then chunk_run \<lparr>bytes_left_in_chunk = 0, consume_trailer = t, hex_count = 0, chunk_st = CHUNKED_IN_TRAILERS_LINE_HEAD\<rparr> r
     else (\<lparr>bytes_left_in_chunk = 0, consume_trailer = t, hex_count = 0, chunk_st = CHUNKED_IN_CHUNK_EXT\<rparr>, [], Finished r))"
proof -
  let ?d = "\<lparr>bytes_left_in_chunk = of_nat n, consume_trailer = t, hex_count = of_nat (length ds), chunk_st = CHUNKED_IN_CHUNK_SIZE\<rparr>"
  let ?e = "?d\<lparr>hex_count := 0, chunk_st := CHUNKED_IN_CHUNK_EXT\<rparr>"
  have ds: "ds \<noteq> []" "length ds \<le> 16" "list_all (\<lambda>b. decode_hex b \<noteq> - 1) ds" "hex_value ds = n" "n < 2 ^ 64" "10 \<notin> set ext"
    "ext \<noteq> [] \<longrightarrow> decode_hex (hd ext) = - 1" using assms by (simp_all add: size_ok_def)
  have digits: "chunk_run (fresh_decoder t) (ds @ r') = chunk_run ?d r'" for r'
    using run_digits [OF ds(3), of "fresh_decoder t" r'] ds(2,4) hex_fold [OF ds(3), of 0]
    by (simp add: fresh_decoder_def hex_value_def)
  have "length ds mod 256 \<noteq> 0" using ds(1,2) by (cases ds) auto
  then have k: "(of_nat (length ds) :: byte) \<noteq> 0" by (simp add: word_of_nat_eq_0_iff dvd_eq_mod_eq_0)
  have ext: "chunk_run ?d (ext @ 10 # r) = chunk_run ?e (ext @ 10 # r)"
  proof -
    obtain b bs where b: "ext @ 10 # r = b # bs" "decode_hex b = - 1"
      using ds(7) by (cases ext) (auto simp: decode_hex_def)
    have "chunk_byte ?d b = chunk_byte ?e b" using b(2) k by (simp add: chunk_byte_def)
    then show ?thesis unfolding b(1) by simp
  qed
  have skip: "chunk_run ?e (ext @ 10 # r) = chunk_run ?e (10 # r)"
    by (rule run_over) (use ds(6) in \<open>auto simp: chunk_byte_def\<close>)
  have "(of_nat n :: u64) = 0 \<longleftrightarrow> n = 0" using ds(5) by (auto simp: word_of_nat_eq_0_iff dest: dvd_imp_le)
  then show ?thesis unfolding digits ext skip by (simp add: chunk_byte_def)
qed

lemma run_chunk:
  assumes "chunk_ok c"
  shows "chunk_run (fresh_decoder t) (chunk_bytes c @ r) = prepend (bk_data c) (chunk_run (fresh_decoder t) r)"
proof -
  let ?n = "length (bk_data c)"
  have c: "size_ok (bk_size c) (bk_ext c) ?n" "?n \<noteq> 0" "set (bk_cr c) \<subseteq> {13}" using assms by (simp_all add: chunk_ok_def)
  have n: "unat (of_nat ?n :: u64) = ?n" using c(1) by (simp add: size_ok_def unat_of_nat take_bit_nat_eq_self)
  then have nz: "(of_nat ?n :: u64) \<noteq> 0" using c(2) by (metis unat_0)
  let ?d = "\<lparr>bytes_left_in_chunk = of_nat ?n, consume_trailer = t, hex_count = 0, chunk_st = CHUNKED_IN_CHUNK_DATA\<rparr>"
  let ?e = "\<lparr>bytes_left_in_chunk = 0, consume_trailer = t, hex_count = 0, chunk_st = CHUNKED_IN_CHUNK_CRLF\<rparr>"
  have "chunk_run (fresh_decoder t) (chunk_bytes c @ r) = chunk_run ?d (bk_data c @ bk_cr c @ 10 # r)"
    using run_size [OF c(1), of t "bk_data c @ bk_cr c @ 10 # r"] c(2) by (simp add: chunk_bytes_def)
  also have "\<dots> = prepend (bk_data c) (chunk_run ?e (bk_cr c @ 10 # r))"
    using run_data [of ?d "bk_data c @ bk_cr c @ 10 # r"] n nz by (simp add: Let_def)
  also have "chunk_run ?e (bk_cr c @ 10 # r) = chunk_run ?e (10 # r)"
    by (rule run_over) (use c(3) in \<open>auto simp: chunk_byte_def\<close>)
  also have "\<dots> = chunk_run (fresh_decoder t) r" by (simp add: chunk_byte_def fresh_decoder_def)
  finally show ?thesis .
qed

lemma run_chunks:
  "list_all chunk_ok cs \<Longrightarrow> chunk_run (fresh_decoder t) (concat (map chunk_bytes cs) @ r) =
     prepend (concat (map bk_data cs)) (chunk_run (fresh_decoder t) r)"
  by (induction cs) (simp_all add: run_chunk)

lemma run_trailer:
  assumes "trailer_ok lines crs" "chunk_st d = CHUNKED_IN_TRAILERS_LINE_HEAD"
  shows "\<exists>d'. chunk_run d (trailer_bytes lines crs @ r) = (d', [], Finished r)"
  using assms
proof (induction lines)
  case Nil
  then have "chunk_run d (crs @ 10 # r) = chunk_run d (10 # r)"
    by (intro run_over) (auto simp: trailer_ok_def chunk_byte_def)
  then show ?case using Nil.prems(2) by (simp add: trailer_bytes_def chunk_byte_def)
next
  case (Cons l lines)
  let ?r = "trailer_bytes lines crs @ r"
  let ?m = "d\<lparr>chunk_st := CHUNKED_IN_TRAILERS_LINE_MIDDLE\<rparr>"
  have l: "10 \<notin> set l" "\<not> set l \<subseteq> {13}" "trailer_ok lines crs" using Cons.prems(1) by (simp_all add: trailer_ok_def)
  obtain b bs where b: "dropWhile (\<lambda>b. b = 13) l = b # bs" using l(2) by (cases "dropWhile (\<lambda>b. b = 13) l") auto
  have w: "l = takeWhile (\<lambda>b. b = 13) l @ b # bs" using b by (metis takeWhile_dropWhile_id)
  then have nb: "b \<noteq> 13" "b \<noteq> 10" "10 \<notin> set bs" using l(1) b hd_dropWhile [of "\<lambda>b. b = 13" l] by (auto dest: arg_cong [of l _ set])
  have "chunk_run d (takeWhile (\<lambda>b. b = 13) l @ (b # bs) @ 10 # ?r) = chunk_run d ((b # bs) @ 10 # ?r)"
    by (rule run_over) (use Cons.prems(2) in \<open>auto simp: chunk_byte_def dest: set_takeWhileD\<close>)
  then have "chunk_run d (l @ 10 # ?r) = chunk_run d ((b # bs) @ 10 # ?r)"
    by (metis append.assoc w)
  also have "\<dots> = chunk_run ?m (bs @ 10 # ?r)" using nb Cons.prems(2) by (simp add: chunk_byte_def)
  also have "\<dots> = chunk_run ?m (10 # ?r)"
    by (rule run_over) (use nb(3) in \<open>auto simp: chunk_byte_def\<close>)
  also have "\<dots> = chunk_run d ?r" using Cons.prems(2) by (cases d) (simp add: chunk_byte_def)
  finally have "chunk_run d (trailer_bytes (l # lines) crs @ r) = chunk_run d ?r" by (simp add: trailer_bytes_def)
  then show ?case using Cons.IH l(3) Cons.prems(2) by simp
qed

definition chunked_body :: "body_chunk list \<Rightarrow> byte list \<Rightarrow> byte list \<Rightarrow> byte list" where
  "chunked_body cs zs ext = concat (map chunk_bytes cs) @ zs @ ext @ [10]"

lemma body_run:
  assumes "list_all chunk_ok cs" "size_ok zs ext 0" "trailer_ok lines crs"
  shows "\<exists>d. chunk_run (fresh_decoder t) (chunked_body cs zs ext @ (if t = 0 then [] else trailer_bytes lines crs) @ rest) =
    (d, concat (map bk_data cs), Finished rest)"
proof -
  let ?r = "(if t = 0 then [] else trailer_bytes lines crs) @ rest"
  have b: "chunk_run (fresh_decoder t) (chunked_body cs zs ext @ ?r) =
      prepend (concat (map bk_data cs)) (chunk_run (fresh_decoder t) (zs @ ext @ 10 # ?r))"
    using run_chunks [OF assms(1), of t "zs @ ext @ 10 # ?r"] by (simp add: chunked_body_def)
  have z: "\<exists>d. chunk_run (fresh_decoder t) (zs @ ext @ 10 # ?r) = (d, [], Finished rest)"
    using run_size [OF assms(2), of t ?r] run_trailer [OF assms(3), of _ rest] by (cases "t = 0") simp_all
  then show ?thesis unfolding b by auto
qed

text \<open>C26: A chunked body is decoded to its data however it is cut into pieces and fed to the decoder, whatever
  the extensions and the lines of its trailer are: the calls return -2 until the end of the body has been seen, the data
  are those of the chunks in order, and the bytes behind the body are left over.  The calls end.\<close>

theorem chunked_body_decoded:
  assumes "list_all chunk_ok cs" "size_ok zs ext 0" "trailer_ok lines crs"
    "concat pieces = chunked_body cs zs ext @ (if t = 0 then [] else trailer_bytes lines crs) @ rest"
  shows "\<exists>ret. decode_pieces (fresh_decoder t) pieces = Some (concat (map bk_data cs), ret, rest) \<and> 0 \<le> ret"
proof -
  obtain d where r: "chunk_run (fresh_decoder t) (concat pieces) = (d, concat (map bk_data cs), Finished rest)"
    using body_run [OF assms(1-3)] assms(4) by metis
  have "decoder_ok (fresh_decoder t)" by (simp add: decoder_ok_def fresh_decoder_def)
  from pieces_run [OF this r] show ?thesis by auto
qed

definition sample_chunk :: body_chunk where
  "sample_chunk = \<lparr>bk_size = [48, 51], bk_ext = [59, 97, 13], bk_data = [1, 2, 3], bk_cr = [13]\<rparr>"

lemma chunked_body_decoded_witness:
  "\<exists>ret. decode_pieces (fresh_decoder 1) [[48, 51, 59, 97], [13, 10, 1], [2, 3, 13, 10, 48, 13, 10, 88, 13, 10, 13, 10, 71, 69], [84]] =
    Some (concat (map bk_data [sample_chunk]), ret, [71, 69, 84]) \<and> 0 \<le> ret"
  by (rule chunked_body_decoded [of "[sample_chunk]" "[48]" "[13]" "[[88, 13]]" "[13]"])
    (simp_all add: sample_chunk_def chunk_ok_def size_ok_def decode_hex_def hex_value_def trailer_ok_def chunked_body_def
      chunk_bytes_def trailer_bytes_def)

text \<open>Input that is not a chunked body is refused: no digit, or more than sixteen.\<close>

lemma missing_size_refused: "decode_hex b = - 1 \<Longrightarrow> chunk_run (fresh_decoder t) (b # bs) = (fresh_decoder t, [], Refused (b # bs))"
  by (simp add: chunk_byte_def fresh_decoder_def)

end
