(* ===== verification/Jhash.thy ===== *)
theory Jhash
  imports Prelude
begin

text \<open>
  Jenkins' hash, src/apps/kvs/jhash.h (src/apps/kvs-repl/jhash.h is the same file), in its variant for
  little-endian machines.  The code reads the key by words, half words or bytes depending on the
  alignment of its address; memory is a function from the offset to the key, since the word variant
  reads, and masks out, up to three bytes behind the key.
\<close>

section \<open>Mixing\<close>

definition rot :: "u32 \<Rightarrow> nat \<Rightarrow> u32" where
  "rot x k = (push_bit k x) OR (drop_bit (32 - k) x)"

type_synonym abc = "u32 \<times> u32 \<times> u32"

definition mix :: "abc \<Rightarrow> abc" where
  "mix = (\<lambda>(a, b, c).
     (let a = a - c; a = xor a (rot c 4); c = c + b;
          b = b - a; b = xor b (rot a 6); a = a + c;
          c = c - b; c = xor c (rot b 8); b = b + a;
          a = a - c; a = xor a (rot c 16); c = c + b;
          b = b - a; b = xor b (rot a 19); a = a + c;
          c = c - b; c = xor c (rot b 4); b = b + a
      in (a, b, c)))"

definition final :: "abc \<Rightarrow> abc" where
  "final = (\<lambda>(a, b, c).
     (let c = xor c b; c = c - rot b 14;
          a = xor a c; a = a - rot c 11;
          b = xor b a; b = b - rot a 25;
          c = xor c b; c = c - rot b 16;
          a = xor a c; a = a - rot c 4;
          b = xor b a; b = b - rot a 14;
          c = xor c b; c = c - rot b 24
      in (a, b, c)))"

section \<open>Reading the key\<close>

type_synonym mem = "nat \<Rightarrow> byte"

definition m8 :: "mem \<Rightarrow> nat \<Rightarrow> u32" where "m8 k i = ucast (k i)"

text \<open>The values of little-endian half words and words in memory; a half word is promoted when used.\<close>

definition m16 :: "mem \<Rightarrow> nat \<Rightarrow> u32" where "m16 k i = m8 k i + push_bit 8 (m8 k (i + 1))"

definition m32 :: "mem \<Rightarrow> nat \<Rightarrow> u32" where
  "m32 k i = m8 k i + push_bit 8 (m8 k (i + 1)) + push_bit 16 (m8 k (i + 2)) + push_bit 24 (m8 k (i + 3))"

section \<open>The three ways through the key\<close>

text \<open>Offsets are in bytes: \<open>k[2]\<close> of the word pointer is \<open>m32 key (k + 8)\<close>.\<close>

fun words_loop :: "mem \<Rightarrow> nat \<Rightarrow> nat \<Rightarrow> abc \<Rightarrow> nat \<times> nat \<times> abc" where
  "words_loop key k len (a, b, c) =
     (if len > 12 then words_loop key (k + 12) (len - 12) (mix (a + m32 key k, b + m32 key (k + 4), c + m32 key (k + 8)))
      else (k, len, (a, b, c)))"

definition words_tail :: "mem \<Rightarrow> nat \<Rightarrow> nat \<Rightarrow> abc \<Rightarrow> abc" where
  "words_tail key k len = (\<lambda>(a, b, c).
     (let w0 = m32 key k; w1 = m32 key (k + 4); w2 = m32 key (k + 8) in
      if len = 12 then (a + w0, b + w1, c + w2)
      else if len = 11 then (a + w0, b + w1, c + (w2 AND 0xffffff))
      else if len = 10 then (a + w0, b + w1, c + (w2 AND 0xffff))
      else if len = 9 then (a + w0, b + w1, c + (w2 AND 0xff))
      else if len = 8 then (a + w0, b + w1, c)
      else if len = 7 then (a + w0, b + (w1 AND 0xffffff), c)
      else if len = 6 then (a + w0, b + (w1 AND 0xffff), c)
      else if len = 5 then (a + w0, b + (w1 AND 0xff), c)
      else if len = 4 then (a + w0, b, c)
      else if len = 3 then (a + (w0 AND 0xffffff), b, c)
      else if len = 2 then (a + (w0 AND 0xffff), b, c)
      else (a + (w0 AND 0xff), b, c)))"

fun halves_loop :: "mem \<Rightarrow> nat \<Rightarrow> nat \<Rightarrow> abc \<Rightarrow> nat \<times> nat \<times> abc" where
  "halves_loop key k len (a, b, c) =
     (if len > 12 then halves_loop key (k + 12) (len - 12)
        (mix (a + (m16 key k + push_bit 16 (m16 key (k + 2))), b + (m16 key (k + 4) + push_bit 16 (m16 key (k + 6))),
              c + (m16 key (k + 8) + push_bit 16 (m16 key (k + 10)))))
      else (k, len, (a, b, c)))"

text \<open>The cases 11, 9, 7, 5 and 3 fall through into the next one.\<close>

definition halves_tail :: "mem \<Rightarrow> nat \<Rightarrow> nat \<Rightarrow> abc \<Rightarrow> abc" where
  "halves_tail key k len = (\<lambda>(a, b, c).
     (let w0 = m16 key k + push_bit 16 (m16 key (k + 2)); w1 = m16 key (k + 4) + push_bit 16 (m16 key (k + 6)) in
      if len = 12 then (a + w0, b + w1, c + (m16 key (k + 8) + push_bit 16 (m16 key (k + 10))))
      else if len = 11 then (a + w0, b + w1, c + push_bit 16 (m8 key (k + 10)) + m16 key (k + 8))
      else if len = 10 then (a + w0, b + w1, c + m16 key (k + 8))
      else if len = 9 then (a + w0, b + w1, c + m8 key (k + 8))
      else if len = 8 then (a + w0, b + w1, c)
      else if len = 7 then (a + w0, b + push_bit 16 (m8 key (k + 6)) + m16 key (k + 4), c)
      else if len = 6 then (a + w0, b + m16 key (k + 4), c)
      else if len = 5 then (a + w0, b + m8 key (k + 4), c)
      else if len = 4 then (a + w0, b, c)
      else if len = 3 then (a + push_bit 16 (m8 key (k + 2)) + m16 key k, b, c)
      else if len = 2 then (a + m16 key k, b, c)
      else (a + m8 key k, b, c)))"

definition add4 :: "mem \<Rightarrow> nat \<Rightarrow> u32 \<Rightarrow> u32" where
  "add4 key k x = x + m8 key k + push_bit 8 (m8 key (k + 1)) + push_bit 16 (m8 key (k + 2)) + push_bit 24 (m8 key (k + 3))"

fun bytes_loop :: "mem \<Rightarrow> nat \<Rightarrow> nat \<Rightarrow> abc \<Rightarrow> nat \<times> nat \<times> abc" where
  "bytes_loop key k len (a, b, c) =
     (if len > 12 then bytes_loop key (k + 12) (len - 12) (mix (add4 key k a, add4 key (k + 4) b, add4 key (k + 8) c))
      else (k, len, (a, b, c)))"

text \<open>All cases fall through: byte \<open>i\<close> is added, shifted by its place in its word, when the length is
  larger than \<open>i\<close>.\<close>

definition bytes_tail :: "mem \<Rightarrow> nat \<Rightarrow> nat \<Rightarrow> abc \<Rightarrow> abc" where
  "bytes_tail key k len = (\<lambda>(a, b, c).
     (let c = (if len \<ge> 12 then c + push_bit 24 (m8 key (k + 11)) else c);
          c = (if len \<ge> 11 then c + push_bit 16 (m8 key (k + 10)) else c);
          c = (if len \<ge> 10 then c + push_bit 8 (m8 key (k + 9)) else c);
          c = (if len \<ge> 9 then c + m8 key (k + 8) else c);
          b = (if len \<ge> 8 then b + push_bit 24 (m8 key (k + 7)) else b);
          b = (if len \<ge> 7 then b + push_bit 16 (m8 key (k + 6)) else b);
          b = (if len \<ge> 6 then b + push_bit 8 (m8 key (k + 5)) else b);
          b = (if len \<ge> 5 then b + m8 key (k + 4) else b);
          a = (if len \<ge> 4 then a + push_bit 24 (m8 key (k + 3)) else a);
          a = (if len \<ge> 3 then a + push_bit 16 (m8 key (k + 2)) else a);
          a = (if len \<ge> 2 then a + push_bit 8 (m8 key (k + 1)) else a);
          a = a + m8 key k
      in (a, b, c)))"

definition jenkins_hash :: "u64 \<Rightarrow> mem \<Rightarrow> nat \<Rightarrow> u32 \<Rightarrow> u32" where
  "jenkins_hash addr key len initval =
     (let x = 0xdeadbeef + of_nat len + initval;
          (tail, (k, len, abc)) =
            (if addr AND 3 = 0 then (words_tail, words_loop key 0 len (x, x, x))
             else if addr AND 1 = 0 then (halves_tail, halves_loop key 0 len (x, x, x))
             else (bytes_tail, bytes_loop key 0 len (x, x, x)))
      in if len = 0 then snd (snd abc) else snd (snd (final (tail key k len abc))))"

declare words_loop.simps [simp del] halves_loop.simps [simp del] bytes_loop.simps [simp del]

section \<open>The reference\<close>

text \<open>The key as bytes, cut into blocks of twelve, the last one padded with zeros.\<close>

definition at :: "byte list \<Rightarrow> mem" where "at bs i = (if i < length bs then bs ! i else 0)"

definition add_block :: "byte list \<Rightarrow> abc \<Rightarrow> abc" where
  "add_block bs = (\<lambda>(a, b, c). (a + m32 (at bs) 0, b + m32 (at bs) 4, c + m32 (at bs) 8))"

fun blocks :: "byte list \<Rightarrow> abc \<Rightarrow> abc" where
  "blocks bs abc = (if length bs > 12 then blocks (drop 12 bs) (mix (add_block (take 12 bs) abc)) else final (add_block bs abc))"

declare blocks.simps [simp del]

definition jenkins_spec :: "byte list \<Rightarrow> u32 \<Rightarrow> u32" where
  "jenkins_spec bs initval =
     (let x = 0xdeadbeef + of_nat (length bs) + initval
      in if bs = [] then x else snd (snd (blocks bs (x, x, x))))"

text \<open>The three loops and tails against the reference.\<close>

lemma m32_halves: "m16 key k + push_bit 16 (m16 key (k + 2)) = m32 key k"
proof -
  have "k + 2 + 1 = k + 3" by simp
  then show ?thesis by (simp only: m16_def m32_def) (simp add: push_bit_eq_mult algebra_simps)
qed

lemma m32_masks:
  "m32 key k AND 0xffffff = m8 key k + push_bit 8 (m8 key (k + 1)) + push_bit 16 (m8 key (k + 2))"
  "m32 key k AND 0xffff = m8 key k + push_bit 8 (m8 key (k + 1))"
  "m32 key k AND 0xff = m8 key k"
proof -
  have b: "unat (m8 key i) < 256" for i
    using unsigned_less [where 'a = nat, of "key i"] by (simp add: m8_def unat_ucast_up)
  have p: "unat (push_bit n (m8 key i)) = 2 ^ n * unat (m8 key i)" if "n \<in> {8, 16, 24}" for n i
    using that b [of i] by (auto simp: push_bit_eq_mult unat_word_ariths mult.commute)
  let ?x = "\<lambda>i. unat (m8 key (k + i))"
  have u: "unat (m32 key k) = ?x 0 + 2 ^ 8 * ?x 1 + 2 ^ 16 * ?x 2 + 2 ^ 24 * ?x 3"
    "unat (m8 key k + push_bit 8 (m8 key (k + 1)) + push_bit 16 (m8 key (k + 2))) = ?x 0 + 2 ^ 8 * ?x 1 + 2 ^ 16 * ?x 2"
    "unat (m8 key k + push_bit 8 (m8 key (k + 1))) = ?x 0 + 2 ^ 8 * ?x 1"
    using b [of k] b [of "k + 1"] b [of "k + 2"] b [of "k + 3"]
    by (simp_all add: m32_def unat_word_ariths p)
  have mk: "(0xffffff :: u32) = mask 24" "(0xffff :: u32) = mask 16" "(0xff :: u32) = mask 8"
    by (simp_all add: mask_eq_exp_minus_1)
  note bs = b [of k] b [of "k + 1"] b [of "k + 2"] b [of "k + 3"]
  have tb: "take_bit n (lo + 2 ^ n * y) = lo" if "lo < 2 ^ n" for n lo y :: nat
    using that by (simp add: take_bit_eq_mod)
  have t: "take_bit 24 (?x 0 + 2 ^ 8 * ?x 1 + 2 ^ 16 * ?x 2 + 2 ^ 24 * ?x 3) = ?x 0 + 2 ^ 8 * ?x 1 + 2 ^ 16 * ?x 2"
    "take_bit 16 (?x 0 + 2 ^ 8 * ?x 1 + 2 ^ 16 * ?x 2 + 2 ^ 24 * ?x 3) = ?x 0 + 2 ^ 8 * ?x 1"
    "take_bit 8 (?x 0 + 2 ^ 8 * ?x 1 + 2 ^ 16 * ?x 2 + 2 ^ 24 * ?x 3) = ?x 0"
    using bs tb [of "?x 0 + 2 ^ 8 * ?x 1 + 2 ^ 16 * ?x 2" 24 "?x 3"] tb [of "?x 0 + 2 ^ 8 * ?x 1" 16 "?x 2 + 2 ^ 8 * ?x 3"]
      tb [of "?x 0" 8 "?x 1 + 2 ^ 8 * ?x 2 + 2 ^ 16 * ?x 3"]
    by (simp_all add: algebra_simps)
  show "m32 key k AND 0xffffff = m8 key k + push_bit 8 (m8 key (k + 1)) + push_bit 16 (m8 key (k + 2))"
    unfolding mk take_bit_eq_mask [symmetric]
    by (rule word_unat_eq_iff [THEN iffD2]) (simp only: unsigned_take_bit_eq u t)
  show "m32 key k AND 0xffff = m8 key k + push_bit 8 (m8 key (k + 1))"
    unfolding mk take_bit_eq_mask [symmetric]
    by (rule word_unat_eq_iff [THEN iffD2]) (simp only: unsigned_take_bit_eq u t)
  show "m32 key k AND 0xff = m8 key k"
    unfolding mk take_bit_eq_mask [symmetric]
    by (rule word_unat_eq_iff [THEN iffD2], simp only: unsigned_take_bit_eq u t) simp
qed

definition from_mem :: "mem \<Rightarrow> nat \<Rightarrow> nat \<Rightarrow> byte list" where "from_mem key k len = map (\<lambda>i. key (k + i)) [0..<len]"

lemma length_from_mem [simp]: "length (from_mem key k len) = len"
  by (simp add: from_mem_def)

lemma m8_at: "m8 (at (from_mem key k len)) i = (if i < len then m8 key (k + i) else 0)"
  by (simp add: m8_def at_def from_mem_def)

lemma drop_from_mem: "drop n (from_mem key k len) = from_mem key (k + n) (len - n)"
proof (rule nth_equalityI)
  fix i assume "i < length (drop n (from_mem key k len))"
  then have "n + i < len" "i < len - n" by simp_all
  then show "drop n (from_mem key k len) ! i = from_mem key (k + n) (len - n) ! i" by (simp add: from_mem_def add.assoc)
qed simp

lemma take_from_mem: "n \<le> len \<Longrightarrow> take n (from_mem key k len) = from_mem key k n"
  by (rule nth_equalityI) (simp_all add: from_mem_def)

lemma m32_at: "m32 (at (from_mem key k 12)) 0 = m32 key k" "m32 (at (from_mem key k 12)) 4 = m32 key (k + 4)"
  "m32 (at (from_mem key k 12)) 8 = m32 key (k + 8)"
  by (simp_all add: m32_def m8_at ac_simps)

lemma add4_m32: "add4 key k x = x + m32 key k"
  by (simp add: add4_def m32_def)

lemma tails:
  assumes "0 < len" "len \<le> 12"
  shows "words_tail key k len abc = add_block (from_mem key k len) abc"
    "halves_tail key k len abc = add_block (from_mem key k len) abc"
    "bytes_tail key k len abc = add_block (from_mem key k len) abc"
proof -
  obtain a b c where abc: "abc = (a, b, c)" by (cases abc) auto
  have ks: "k + 4 + 1 = k + 5" "k + 4 + 2 = k + 6" "k + 4 + 3 = k + 7" "k + 8 + 1 = k + 9" "k + 8 + 2 = k + 10" "k + 8 + 3 = k + 11"
    "k + 2 + 1 = k + 3" "k + 6 + 1 = k + 7" "k + 10 + 1 = k + 11" by simp_all
  have is': "4 + 1 = (5 :: nat)" "4 + 2 = (6 :: nat)" "4 + 3 = (7 :: nat)" "8 + 1 = (9 :: nat)" "8 + 2 = (10 :: nat)" "8 + 3 = (11 :: nat)"
    by simp_all
  have len: "len = 1 \<or> len = 2 \<or> len = 3 \<or> len = 4 \<or> len = 5 \<or> len = 6 \<or> len = 7 \<or> len = 8 \<or> len = 9 \<or>
      len = 10 \<or> len = 11 \<or> len = 12" using assms by presburger
  show "words_tail key k len abc = add_block (from_mem key k len) abc"
    using len unfolding abc words_tail_def add_block_def Let_def m32_masks prod.case
    by (elim disjE) (simp_all only: m32_def m8_at ks is', simp_all add: m8_at)
  show "halves_tail key k len abc = add_block (from_mem key k len) abc"
    using len unfolding abc halves_tail_def add_block_def Let_def prod.case
    by (elim disjE) (simp_all only: m32_def m16_def m8_at ks is', simp_all add: m8_at push_bit_eq_mult algebra_simps)
  show "bytes_tail key k len abc = add_block (from_mem key k len) abc"
    using len unfolding abc bytes_tail_def add_block_def Let_def prod.case
    by (elim disjE) (simp_all only: m32_def m8_at ks is', simp_all add: m8_at algebra_simps)
qed

lemma words_run:
  "case words_loop key k len abc of (k', len', abc') \<Rightarrow> (0 < len \<longrightarrow> 0 < len' \<and> len' \<le> 12 \<and>
     final (add_block (from_mem key k' len') abc') = blocks (from_mem key k len) abc) \<and> (len = 0 \<longrightarrow> len' = 0 \<and> abc' = abc)"
proof (induction key k len abc rule: words_loop.induct)
  case (1 key k len a b c)
  show ?case
  proof (cases "12 < len")
    case True
    with 1 show ?thesis
      by (simp add: words_loop.simps [of key k len] blocks.simps [of "from_mem key k len"] drop_from_mem take_from_mem
          add_block_def m32_at)
  qed (simp add: words_loop.simps [of key k len] blocks.simps [of "from_mem key k len"])
qed

lemma halves_words: "halves_loop key k len abc = words_loop key k len abc"
proof (induction key k len abc rule: words_loop.induct)
  case (1 key k len a b c)
  have h: "m16 key (k + 4) + push_bit 16 (m16 key (k + 6)) = m32 key (k + 4)"
    "m16 key (k + 8) + push_bit 16 (m16 key (k + 10)) = m32 key (k + 8)"
    using m32_halves [of key "k + 4"] m32_halves [of key "k + 8"] by (simp_all add: add.commute)
  show ?case
    unfolding halves_loop.simps [of key k len a b c] words_loop.simps [of key k len a b c] m32_halves h
    using 1 by simp
qed

lemma bytes_words: "bytes_loop key k len abc = words_loop key k len abc"
proof (induction key k len abc rule: words_loop.induct)
  case (1 key k len a b c)
  show ?case
    unfolding bytes_loop.simps [of key k len a b c] words_loop.simps [of key k len a b c] add4_m32
    using 1 by simp
qed

lemma hash_is_spec: "jenkins_hash addr key len initval = jenkins_spec (from_mem key 0 len) initval"
proof -
  let ?x = "0xdeadbeef + of_nat len + initval"
  obtain k' len' abc' where w: "words_loop key 0 len (?x, ?x, ?x) = (k', len', abc')"
    by (cases "words_loop key 0 len (?x, ?x, ?x)") auto
  note r = words_run [where key = key and k = 0 and len = len and abc = "(?x, ?x, ?x)", unfolded w prod.case]
  show ?thesis
  proof (cases "len = 0")
    case True
    then show ?thesis
      using r w by (auto simp: jenkins_hash_def jenkins_spec_def halves_words bytes_words from_mem_def Let_def)
  next
    case False
    then have "0 < len'" "len' \<le> 12" "final (add_block (from_mem key k' len') abc') = blocks (from_mem key 0 len) (?x, ?x, ?x)"
      using r by simp_all
    then show ?thesis
      using False w tails [of len' key k' abc']
      by (auto simp: jenkins_hash_def jenkins_spec_def halves_words bytes_words from_mem_def Let_def)
  qed
qed

text \<open>C38: the hash is a function of the bytes of the key alone: whichever way the alignment of the address
  makes the code read the key, it computes the hash of the reference, and the bytes it reads behind
  the key do not matter.\<close>

theorem hash_of_bytes: "jenkins_hash addr key len initval = jenkins_spec (from_mem key 0 len) initval"
  by (rule hash_is_spec)

end
