(* ===== verification/KvStore.thy ===== *)
theory KvStore
  imports Jhash HandoffProps
begin

text \<open>
  The key-value store, src/apps/kvs: a proxy that hands every request to the backend its path hashes to
  (phttp_kvs_proxy.cpp), and backends that answer from a LevelDB database (phttp_kvs_backend.cpp).
  LevelDB and the memory behind the request buffer are parameters.  A failed assertion and a copy that
  runs over its buffer are \<open>None\<close>.
\<close>

section \<open>Slices and buffers\<close>

text \<open>\<open>leveldb::Slice(a, n)\<close> for a pointer into the buffer of the request.\<close>

definition slice_of :: "http_request \<Rightarrow> addr \<Rightarrow> u64 \<Rightarrow> byte list" where
  "slice_of req a n = take (unat n) (mem_from (hq_mem req) a)"

text \<open>\<open>strncmp(m, req->method, strlen(m)) == 0\<close>.\<close>

definition has_method :: "http_request \<Rightarrow> byte list \<Rightarrow> bool" where
  "has_method req m \<longleftrightarrow> strncmp_eq (length m) m (mem_from (hq_mem req) (hq_method req))"

text \<open>\<open>memcpy(mem->begin, src, n)\<close>.\<close>

definition memcpy_begin :: "membuf \<Rightarrow> byte list \<Rightarrow> membuf option" where
  "memcpy_begin buf src =
     (if length src \<le> length (mb_data buf) then Some (buf\<lparr>mb_data := stn (mb_data buf) 0 src\<rparr>) else None)"

text \<open>Where a response is handed off to: an element of one of the arrays of connections, or the next server.\<close>

datatype target = Backends u32 | Conn_pool u32 | Next_server

definition respond :: "u32 \<Rightarrow> string \<Rightarrow> ('cb, target) http_response \<Rightarrow> ('cb, target) http_response" where
  "respond status reason res = res\<lparr>hr_status := status, hr_reason := str reason\<rparr>"

definition hand_off :: "target \<Rightarrow> ('cb, target) http_response \<Rightarrow> ('cb, target) http_response" where
  "hand_off t res = (respond 600 ''Handoff'' res)\<lparr>hr_handoff_data := t\<rparr>"

section \<open>The proxy\<close>

definition path_mem :: "mem \<Rightarrow> http_request \<Rightarrow> mem" where
  "path_mem behind req = (let s = mem_from (hq_mem req) (hq_path req) in (\<lambda>i. if i < length s then s ! i else behind i))"

definition kvs_proxy_request_handler ::
  "mem \<Rightarrow> u32 \<Rightarrow> http_request \<Rightarrow> ('cb, target) http_response \<Rightarrow> (int \<times> ('cb, target) http_response) option" where
  "kvs_proxy_request_handler behind nbackends req res =
     (let hash = jenkins_hash (hq_path req) (path_mem behind req) (unat (hq_path_len req)) 0;
          hash = hash mod nbackends
      in if \<not> (hash \<ge> 0 \<and> hash \<le> 4) then None
         else Some (0, hand_off (Backends hash) res))"

section \<open>The database\<close>

datatype db_status = Db_ok | Db_not_found | Db_failed

record 'db leveldb =
  db_get :: "'db \<Rightarrow> byte list \<Rightarrow> db_status \<times> byte list"
  db_put :: "'db \<Rightarrow> byte list \<Rightarrow> byte list \<Rightarrow> db_status \<times> 'db"
  db_delete :: "'db \<Rightarrow> byte list \<Rightarrow> db_status \<times> 'db"

section \<open>The backend\<close>

record 'db kvs_backend =
  kb_db :: 'db
  kb_rr_factor :: u32
  kb_nconnection :: u32

text \<open>The memory \<open>realloc\<close> returns, and the addresses of the string literals of the DELETE response.\<close>

record kvs_env =
  ke_block :: block
  ke_connection :: addr
  ke_close :: addr

definition next_conn :: "'db kvs_backend \<Rightarrow> ('cb, target) http_response \<Rightarrow> 'db kvs_backend \<times> ('cb, target) http_response" where
  "next_conn b res =
     (let rr = kb_rr_factor b + 1
      in (b\<lparr>kb_rr_factor := (if rr = kb_nconnection b then 0 else rr)\<rparr>, hand_off (Conn_pool (kb_rr_factor b)) res))"

definition kvs_get ::
  "'db leveldb \<Rightarrow> kvs_env \<Rightarrow> 'db kvs_backend \<Rightarrow> http_request \<Rightarrow> ('cb, target) http_response \<Rightarrow> ('cb, target) http_response option" where
  "kvs_get L E b req res =
     (let (s, val) = db_get L (kb_db b) (slice_of req (hq_path req) (hq_path_len req))
      in if s = Db_not_found then Some (respond 404 ''Not Found'' res)
         else if s \<noteq> Db_ok then Some (respond 500 ''LevelDB GET Failed\<newline>'' res)
         else
           let size = of_nat (length val) :: u64;
               mem = hr_body_mem res;
               mem = (if membuf_avail mem < size then membuf_grow (ke_block E) mem (size - membuf_avail mem) else mem)
           in case memcpy_begin mem val of
                None \<Rightarrow> None
              | Some mem \<Rightarrow> Some (respond 200 ''OK'' (res\<lparr>hr_body_mem := snd (membuf_consume mem size)\<rparr>)))"

definition kvs_put ::
  "'db leveldb \<Rightarrow> 'db kvs_backend \<Rightarrow> http_request \<Rightarrow> ('cb, target) http_response \<Rightarrow> 'db kvs_backend \<times> ('cb, target) http_response" where
  "kvs_put L b req res =
     (if hq_body_len req = 0 then (b, respond 400 ''PUT need to have body\<newline>'' res)
      else
        let (s, db) = db_put L (kb_db b) (slice_of req (hq_path req) (hq_path_len req)) (slice_of req (hq_body req) (hq_body_len req));
            b = b\<lparr>kb_db := db\<rparr>
        in if s \<noteq> Db_ok then (b, respond 500 ''LevelDB PUT Failed\<newline>'' res) else (b, respond 200 ''OK'' res))"

definition kvs_delete ::
  "'db leveldb \<Rightarrow> kvs_env \<Rightarrow> 'db kvs_backend \<Rightarrow> http_request \<Rightarrow> ('cb, target) http_response \<Rightarrow>
   ('db kvs_backend \<times> ('cb, target) http_response) option" where
  "kvs_delete L E b req res =
     (let (s, db) = db_delete L (kb_db b) (slice_of req (hq_path req) (hq_path_len req));
          b = b\<lparr>kb_db := db\<rparr>
      in if s \<noteq> Db_ok then Some (b, respond 500 ''LevelDB DELETE Failed\<newline>'' res)
         else
           let (error, res) = http_response_add_header res (ke_connection E) 10 (ke_close E) 5
           in if error \<noteq> 0 then None else Some (b, respond 204 ''NoContent\<newline>'' res))"

definition kvs_backend_request_handler ::
  "'db leveldb \<Rightarrow> kvs_env \<Rightarrow> 'db kvs_backend \<Rightarrow> http_request \<Rightarrow> ('cb, target) http_response \<Rightarrow> bool \<Rightarrow>
   (int \<times> 'db kvs_backend \<times> ('cb, target) http_response) option" where
  "kvs_backend_request_handler L E b req res was_imported =
     (if \<not> was_imported then Some (0, next_conn b res)
      else if has_method req (str ''GET'') then map_option (\<lambda>res. (0, b, res)) (kvs_get L E b req res)
      else if has_method req (str ''PUT'') then Some (0, kvs_put L b req res)
      else if has_method req (str ''DELETE'') then map_option (Pair 0) (kvs_delete L E b req res)
      else Some (0, b, respond 405 ''Method Not Allowed\<newline>'' res))"

end
