(* ===== verification/KvStoreProps.thy ===== *)
theory KvStoreProps
  imports KvStore
begin

text \<open>
  The store as a whole: the proxy, the move of the request and the backends together keep one map from
  paths to values.
\<close>

section \<open>A moved request\<close>

definition within :: "http_request \<Rightarrow> addr \<Rightarrow> nat \<Rightarrow> bool" where
  "within req a n \<longleftrightarrow> unat (a - mb_begin (hq_mem req)) + n \<le> unat (membuf_used (hq_mem req))"

text \<open>The path and the body lie in the received bytes, and so do six bytes from the method on.\<close>

definition request_within :: "http_request \<Rightarrow> bool" where
  "request_within req \<longleftrightarrow> within req (hq_method req) 6 \<and> within req (hq_path req) (unat (hq_path_len req)) \<and>
     (hq_body_len req \<noteq> 0 \<longrightarrow> within req (hq_body req) (unat (hq_body_len req)))"

lemma take_mem_from:
  assumes "within req a n"
  shows "take n (mem_from (hq_mem req) a) = take n (drop (unat (a - mb_begin (hq_mem req))) (used_bytes (hq_mem req)))"
  using assms by (simp add: within_def mem_from_def used_bytes_def drop_take min_def)

lemma same_bytes:
  assumes "same_request req req'" "within req a n" "a' - mb_begin (hq_mem req') = a - mb_begin (hq_mem req)"
    "mb_ok (hq_mem req)" "mb_ok (hq_mem req')"
  shows "take n (mem_from (hq_mem req') a') = take n (mem_from (hq_mem req) a)"
proof -
  have u: "used_bytes (hq_mem req') = used_bytes (hq_mem req)" using assms(1) by (simp add: same_request_def Let_def)
  then have "unat (membuf_used (hq_mem req')) = unat (membuf_used (hq_mem req))"
    using length_used [OF assms(4)] length_used [OF assms(5)] by simp
  then have "within req' a' n" using assms(2,3) by (simp add: within_def)
  then show ?thesis using take_mem_from assms(2,3) u by simp
qed

lemma strncmp_eq_take: "strncmp_eq n s (take n t) = strncmp_eq n s t"
  by (induction n s t rule: strncmp_eq.induct) auto

lemma import_ok:
  assumes "http_request_import blk (http_request_init b) ex = Some req'"
  shows "mb_ok (hq_mem req')"
proof -
  let ?mem = "membuf_init b 5000000" and ?n = "of_nat (length (ex_buf ex)) :: u64"
  let ?g = "if membuf_avail ?mem < ?n then membuf_grow blk ?mem (?n - membuf_avail ?mem) else ?mem"
  have g: "mb_ok ?g"
    using grow_ok(1) [OF mb_ok_init [of b 5000000]] unsigned_less [where 'a = nat, of "?n - membuf_avail ?mem"]
    by (auto simp: mb_ok_init)
  have e: "hq_mem (http_request_init b) = ?mem" by (simp add: http_request_init_def)
  obtain m where m: "memcpy_cur ?g (ex_buf ex) = Some m" "hq_mem req' = snd (membuf_consume m ?n)"
    using assms unfolding http_request_import_def Let_def e
    by (auto split: option.splits if_splits simp del: init_avail)
  have "mb_ok m" using g m(1) by (auto simp: memcpy_cur_def mb_ok_def split: if_splits)
  then show ?thesis using m(2) consume_ok(1) by (cases "?n \<le> membuf_avail m") (auto simp: membuf_consume_def not_le)
qed

definition moved :: "http_request \<Rightarrow> http_request \<Rightarrow> bool" where
  "moved req req' \<longleftrightarrow> same_request req req' \<and> mb_ok (hq_mem req) \<and> mb_ok (hq_mem req') \<and> request_within req"

lemma moved_slices:
  assumes "moved req req'"
  shows "slice_of req' (hq_path req') (hq_path_len req') = slice_of req (hq_path req) (hq_path_len req)"
    "hq_body_len req' = hq_body_len req"
    "hq_body_len req \<noteq> 0 \<Longrightarrow> slice_of req' (hq_body req') (hq_body_len req') = slice_of req (hq_body req) (hq_body_len req)"
    "length m \<le> 6 \<Longrightarrow> has_method req' m = has_method req m"
proof -
  note a = assms [unfolded moved_def request_within_def same_request_def Let_def]
  show "slice_of req' (hq_path req') (hq_path_len req') = slice_of req (hq_path req) (hq_path_len req)"
    "hq_body_len req \<noteq> 0 \<Longrightarrow> slice_of req' (hq_body req') (hq_body_len req') = slice_of req (hq_body req) (hq_body_len req)"
    "hq_body_len req' = hq_body_len req"
    using a assms same_bytes [of req req'] by (simp_all add: slice_of_def moved_def)
  show "has_method req' m = has_method req m" if "length m \<le> 6"
  proof -
    have "take 6 (mem_from (hq_mem req') (hq_method req')) = take 6 (mem_from (hq_mem req) (hq_method req))"
      using a assms same_bytes [of req req' "hq_method req" 6] by (simp add: moved_def)
    then have "take (length m) (mem_from (hq_mem req') (hq_method req')) = take (length m) (mem_from (hq_mem req) (hq_method req))"
      using that by (metis min.absorb1 take_take)
    then show ?thesis unfolding has_method_def using strncmp_eq_take by metis
  qed
qed

lemma import_moved:
  assumes "exportable req" "request_within req"
  obtains req' where "http_request_import b2 (http_request_init b1) (http_request_export req) = Some req'" "moved req req'"
  using import_into_fresh [OF assms(1), of b2 b1] import_ok assms by (metis exportable_def moved_def)

section \<open>One map\<close>

text \<open>What a database holds, and the documented behaviour of LevelDB: writes and deletions that report
  success take effect on their key alone.\<close>

definition view :: "'db leveldb \<Rightarrow> 'db \<Rightarrow> byte list \<rightharpoonup> byte list" where
  "view L db key = (case db_get L db key of (Db_ok, v) \<Rightarrow> Some v | _ \<Rightarrow> None)"

definition leveldb_ok :: "'db leveldb \<Rightarrow> bool" where
  "leveldb_ok L \<longleftrightarrow>
     (\<forall>db key v db'. db_put L db key v = (Db_ok, db') \<longrightarrow> view L db' = (view L db)(key \<mapsto> v)) \<and>
     (\<forall>db key db'. db_delete L db key = (Db_ok, db') \<longrightarrow> view L db' = (view L db)(key := None))"

text \<open>What a client may see: \<open>M\<close> and \<open>M'\<close> are the contents before and after its request.  Nothing is
  said of the contents when writing has failed.\<close>

definition kvs_answer ::
  "(byte list \<rightharpoonup> byte list) \<Rightarrow> (byte list \<rightharpoonup> byte list) \<Rightarrow> http_request \<Rightarrow> u32 \<Rightarrow> byte list \<Rightarrow> bool" where
  "kvs_answer M M' req status out \<longleftrightarrow>
     (let path = slice_of req (hq_path req) (hq_path_len req); body = slice_of req (hq_body req) (hq_body_len req) in
      if has_method req (str ''GET'') then
        M' = M \<and> (case M path of Some v \<Rightarrow> status = 200 \<and> out = v | None \<Rightarrow> (status = 404 \<or> status = 500) \<and> out = [])
      else if has_method req (str ''PUT'') then
        (if hq_body_len req = 0 then status = 400 \<and> M' = M else status = 500 \<or> (status = 200 \<and> M' = M(path \<mapsto> body)))
      else if has_method req (str ''DELETE'') then status = 500 \<or> (status = 204 \<and> M' = M(path := None))
      else status = 405 \<and> M' = M)"

lemma memcpy_begin_cur: "membuf_used mem = 0 \<Longrightarrow> memcpy_begin mem src = memcpy_cur mem src"
  by (simp add: memcpy_begin_def memcpy_cur_def)

text \<open>A value is copied to the body of a fresh response.\<close>

lemma get_value:
  assumes "view L (kb_db b) (slice_of req (hq_path req) (hq_path_len req)) = Some v" "length v \<le> 5000000"
  shows "\<exists>res. kvs_get L E b req (http_response_init b3 b4 d) = Some res \<and> hr_status res = 200 \<and> used_bytes (hr_body_mem res) = v"
proof -
  have g: "db_get L (kb_db b) (slice_of req (hq_path req) (hq_path_len req)) = (Db_ok, v)"
    using assms(1) by (auto simp: view_def split: prod.splits db_status.splits)
  let ?mem = "membuf_init b4 5000000" and ?n = "of_nat (length v) :: u64"
  have u: "unat ?n = length v" using assms(2) by (intro unat_of_nat64) simp
  have le: "length v \<le> unat (membuf_avail ?mem)" using assms(2) by simp
  obtain m where m: "memcpy_cur ?mem v = Some m" "used_bytes (snd (membuf_consume m ?n)) = v"
    using memcpy_empty [OF mb_ok_init init_used le] by metis
  have ng: "\<not> membuf_avail ?mem < ?n" using le u by (simp add: word_less_nat_alt)
  have r: "hr_body_mem (http_response_init b3 b4 d) = ?mem" by (simp add: http_response_init_def)
  show ?thesis
    using m ng by (simp add: kvs_get_def g r memcpy_begin_cur respond_def del: init_avail)
qed

lemma fresh_response [simp]: "hr_nheaders (http_response_init b3 b4 d) = 0" "used_bytes (hr_body_mem (http_response_init b3 b4 d)) = []"
  by (simp_all add: http_response_init_def used_bytes_def)

text \<open>A backend answers an imported request from its own database.\<close>

lemma backend_answers:
  assumes "leveldb_ok L"
    and "\<forall>v. view L (kb_db b) (slice_of req (hq_path req) (hq_path_len req)) = Some v \<longrightarrow> length v \<le> 5000000"
  shows "\<exists>b' res'. kvs_backend_request_handler L E b req (http_response_init b3 b4 d) True = Some (0, b', res') \<and>
    kvs_answer (view L (kb_db b)) (view L (kb_db b')) req (hr_status res') (used_bytes (hr_body_mem res'))"
proof -
  let ?r = "http_response_init b3 b4 d" and ?k = "slice_of req (hq_path req) (hq_path_len req)"
  note h = kvs_backend_request_handler_def kvs_answer_def respond_def
  consider "has_method req (str ''GET'')" | "\<not> has_method req (str ''GET'')" "has_method req (str ''PUT'')"
    | "\<not> has_method req (str ''GET'')" "\<not> has_method req (str ''PUT'')" "has_method req (str ''DELETE'')"
    | "\<not> has_method req (str ''GET'')" "\<not> has_method req (str ''PUT'')" "\<not> has_method req (str ''DELETE'')" by blast
  then show ?thesis
  proof cases
    case 1
    show ?thesis
    proof (cases "view L (kb_db b) ?k")
      case None
      then have "fst (db_get L (kb_db b) ?k) \<noteq> Db_ok" by (auto simp: view_def split: prod.splits db_status.splits)
      then show ?thesis using 1 None by (auto simp: h kvs_get_def split: prod.splits)
    next
      case (Some v)
      then show ?thesis
        using 1 get_value [OF Some, of E b3 b4 d] assms(2) by (auto simp: kvs_backend_request_handler_def kvs_answer_def Let_def)
    qed
  next
    case 2
    then show ?thesis
      using assms(1) by (auto simp: h kvs_put_def leveldb_ok_def Let_def split: prod.splits)
  next
    case 3
    then show ?thesis
      using assms(1)
      by (auto simp: h kvs_delete_def leveldb_ok_def http_response_add_header_def HTTP_HEADERS_MAX_def Let_def split: prod.splits)
  next
    case 4
    then show ?thesis by (simp add: h Let_def)
  qed
qed

section \<open>The store\<close>

text \<open>A request on its way: the proxy's handler, the move to the backend it names, where the request is
  imported into a new connection, and the backend's handler.  \<open>blks\<close> are the blocks of the buffers.\<close>

definition kvs_request ::
  "'db leveldb \<Rightarrow> kvs_env \<Rightarrow> mem \<Rightarrow> (nat \<Rightarrow> block) \<Rightarrow> target \<Rightarrow> 'db kvs_backend list \<Rightarrow> http_request \<Rightarrow>
   ('cb, target) http_response \<Rightarrow> ('db kvs_backend list \<times> ('cb, target) http_response) option" where
  "kvs_request L E behind blks d bs req res =
     (case kvs_proxy_request_handler behind (of_nat (length bs)) req res of
        None \<Rightarrow> None
      | Some (error, res) \<Rightarrow>
          (case hr_handoff_data res of
             Backends i \<Rightarrow>
               if unat i < length bs then
                 (case http_request_import (blks 1) (http_request_init (blks 0)) (http_request_export req) of
                    None \<Rightarrow> None
                  | Some req \<Rightarrow>
                      (case kvs_backend_request_handler L E (bs ! unat i) req (http_response_init (blks 2) (blks 3) d) True of
                         None \<Rightarrow> None
                       | Some (error, b, res) \<Rightarrow> Some (bs[unat i := b], res)))
               else None
           | _ \<Rightarrow> None))"

definition owner :: "nat \<Rightarrow> byte list \<Rightarrow> nat" where
  "owner n path = unat (jenkins_spec path 0) mod n"

definition kvs_map :: "'db leveldb \<Rightarrow> 'db kvs_backend list \<Rightarrow> byte list \<rightharpoonup> byte list" where
  "kvs_map L bs path = view L (kb_db (bs ! owner (length bs) path)) path"

lemma path_hash:
  assumes "within req (hq_path req) (unat (hq_path_len req))" "mb_ok (hq_mem req)"
  shows "jenkins_hash (hq_path req) (path_mem behind req) (unat (hq_path_len req)) 0 =
    jenkins_spec (slice_of req (hq_path req) (hq_path_len req)) 0"
proof -
  let ?s = "mem_from (hq_mem req) (hq_path req)" and ?n = "unat (hq_path_len req)"
  have l: "?n \<le> length ?s"
    using assms(1) unat_avail(2) [OF assms(2)] by (simp add: within_def mem_from_def)
  have "from_mem (path_mem behind req) 0 ?n = take ?n ?s"
  proof (rule nth_equalityI)
    fix i assume i: "i < length (from_mem (path_mem behind req) 0 ?n)"
    then have "i < length ?s" using l by simp
    then show "from_mem (path_mem behind req) 0 ?n ! i = take ?n ?s ! i"
      using i by (simp add: from_mem_def path_mem_def Let_def)
  qed (use l in simp)
  then show ?thesis by (simp add: slice_of_def hash_is_spec)
qed

lemma proxy_chooses_owner:
  assumes "within req (hq_path req) (unat (hq_path_len req))" "mb_ok (hq_mem req)" "0 < n" "n \<le> 5"
  shows "\<exists>i. kvs_proxy_request_handler behind (of_nat n) req res = Some (0, hand_off (Backends i) res) \<and>
    unat i = owner n (slice_of req (hq_path req) (hq_path_len req))"
proof -
  let ?h = "jenkins_spec (slice_of req (hq_path req) (hq_path_len req)) 0"
  have n: "unat (of_nat n :: u32) = n" using assms(4) by (simp add: take_bit_nat_eq_self unsigned_of_nat)
  have u: "unat (?h mod of_nat n) = owner n (slice_of req (hq_path req) (hq_path_len req))"
    by (simp add: unat_mod owner_def n)
  also have "\<dots> < n" using assms(3) by (simp add: owner_def)
  finally have "unat (?h mod of_nat n) \<le> 4" using assms(4) by linarith
  then have "?h mod of_nat n \<le> 4" by (simp add: word_le_nat_alt)
  then show ?thesis
    using u path_hash [OF assms(1,2)]
    by (intro exI [of _ "?h mod of_nat n"]) (simp add: kvs_proxy_request_handler_def Let_def)
qed

lemma kvs_map_owner: "i = owner (length bs) p \<Longrightarrow> kvs_map L bs p = view L (kb_db (bs ! i)) p"
  by (simp add: kvs_map_def)

lemma map_upd:
  assumes "i < length bs" "i = owner (length bs) p" "view L (kb_db b) = (view L (kb_db (bs ! i)))(p := x)"
  shows "kvs_map L (bs[i := b]) = (kvs_map L bs)(p := x)"
  using assms by (auto simp: kvs_map_def fun_eq_iff nth_list_update)

lemma map_same:
  assumes "i < length bs" "view L (kb_db b) = view L (kb_db (bs ! i))"
  shows "kvs_map L (bs[i := b]) = kvs_map L bs"
  using assms by (auto simp: kvs_map_def fun_eq_iff nth_list_update)


text \<open>A value that does not fit the body buffer is written over its end: the buffer is grown by what is
  missing, which leaves it smaller than before.\<close>

theorem large_value_overflows:
  assumes "db_get L (kb_db b) (slice_of req (hq_path req) (hq_path_len req)) = (Db_ok, v)"
    and "5000000 < length v" and "length v < 2 ^ 64"
  shows "kvs_get L E b req (http_response_init b3 b4 d) = None"
proof -
  let ?mem = "membuf_init b4 5000000" and ?n = "of_nat (length v) :: u64"
  have u: "unat ?n = length v" using assms(3) by (intro unat_of_nat64) simp
  then have g: "5000000 < ?n" using assms(2) by (simp add: word_less_nat_alt)
  have d: "unat (?n - 5000000) = length v - 5000000"
    using unat_sub [of 5000000 ?n] g u by (simp add: word_le_nat_alt word_less_nat_alt)
  have "unat (membuf_used ?mem) + unat (?n - 5000000) < 2 ^ 64" using assms(3) d by simp
  note gr = grow_ok [OF mb_ok_init this, of "ke_block E"]
  have "length (mb_data (membuf_grow (ke_block E) ?mem (?n - 5000000))) = length v - 5000000"
    using unat_avail [OF gr(1)] gr(2,3) d by simp
  then have "memcpy_begin (membuf_grow (ke_block E) ?mem (?n - 5000000)) v = None"
    using assms(2) by (simp add: memcpy_begin_def)
  then show ?thesis
    using g by (simp add: kvs_get_def assms(1) http_response_init_def)
qed

text \<open>With six backends or more the proxy stops at the first request whose hash is larger than 4.\<close>

theorem sixth_backend_aborts:
  assumes "jenkins_hash (hq_path req) (path_mem behind req) (unat (hq_path_len req)) 0 mod n > 4"
  shows "kvs_proxy_request_handler behind n req res = None"
  using assms by (simp add: kvs_proxy_request_handler_def Let_def not_le)

section \<open>Samples\<close>

definition map_db :: "(byte list \<Rightarrow> byte list option) leveldb" where
  "map_db = \<lparr>db_get = (\<lambda>m k. case m k of None \<Rightarrow> (Db_not_found, []) | Some v \<Rightarrow> (Db_ok, v)),
     db_put = (\<lambda>m k v. (Db_ok, m(k \<mapsto> v))), db_delete = (\<lambda>m k. (Db_ok, m(k := None)))\<rparr>"

lemma view_map_db [simp]: "view map_db m = m"
  by (auto simp: view_def map_db_def fun_eq_iff split: option.splits)

lemma map_db_ok: "leveldb_ok map_db"
  unfolding leveldb_ok_def view_map_db by (simp add: map_db_def)

text \<open>A request whose path has two bytes, with an optional body behind it.\<close>

definition kv_request :: "byte list \<Rightarrow> nat \<Rightarrow> nat \<Rightarrow> http_request" where
  "kv_request text path_ofs body_len = \<lparr>hq_mem = \<lparr>mb_begin = 4096, mb_cur = 4096 + of_nat (length text), mb_prev = 4096,
       mb_end = 4096 + of_nat (length text), mb_data = text\<rparr>,
     hq_minor_version = 1, hq_method = 4096, hq_method_len = 3, hq_path = 4096 + of_nat path_ofs, hq_path_len = 2,
     hq_headers = replicate 16 header_reset, hq_nheaders = 0,
     hq_body = (if body_len = 0 then 0 else 4096 + of_nat (path_ofs + 2)), hq_body_len = of_nat body_len\<rparr>"

definition get_k :: http_request where "get_k = kv_request (str ''GET /k HTTP/1.1'') 4 0"

definition key_k :: "byte list" where "key_k = str ''/k''"

definition sample_store :: "(byte list \<Rightarrow> byte list option) \<Rightarrow> (byte list \<Rightarrow> byte list option) kvs_backend list" where
  "sample_store m = replicate 2 \<lparr>kb_db = m, kb_rr_factor = 0, kb_nconnection = 1\<rparr>"

lemma sample_map [simp]: "kvs_map map_db (sample_store m) = m"
proof (rule ext)
  fix p show "kvs_map map_db (sample_store m) p = m p"
  proof -
    have "owner 2 p < 2" by (simp add: owner_def)
    then show ?thesis by (simp add: kvs_map_def sample_store_def)
  qed
qed

definition kvs_sample_env :: kvs_env where "kvs_sample_env = \<lparr>ke_block = (65536, \<lambda>_. 0), ke_connection = 0, ke_close = 0\<rparr>"

lemma strncmp_eq_num: "strncmp_eq (numeral n) (a # s) (b # t) = (a = b \<and> (a = 0 \<or> strncmp_eq (pred_numeral n) s t))"
  by (simp add: numeral_eq_Suc)

lemma get_k_facts: "exportable get_k" "request_within get_k" "slice_of get_k (hq_path get_k) (hq_path_len get_k) = key_k"
  "has_method get_k (str ''GET'')"
  by (simp_all add: get_k_def kv_request_def str_def exportable_def mb_ok_def membuf_used_def request_within_def within_def
      slice_of_def mem_from_def key_k_def has_method_def strncmp_eq_num)


end
