(* ===== verification/KvRepl.thy ===== *)
theory KvRepl
  imports KvStoreProps
begin

text \<open>
  The replicated store, src/apps/kvs-repl: the proxy hands reads to the backends in turn and writes to
  the first one (phttp_kvs_repl_proxy.cpp); a backend that has written hands the request on to the next
  server of the chain, and the last one answers (phttp_kvs_repl_backend.cpp).
\<close>

section \<open>The handlers\<close>

text \<open>\<open>rr\<close> is \<open>rr_factor\<close>.  Other methods leave the response as it was.\<close>

definition repl_proxy_request_handler ::
  "u32 \<Rightarrow> u32 \<Rightarrow> http_request \<Rightarrow> ('cb, target) http_response \<Rightarrow> int \<times> u32 \<times> ('cb, target) http_response" where
  "repl_proxy_request_handler nbackends rr req res =
     (if has_method req (str ''GET'') then (0, if rr + 1 = nbackends then 0 else rr + 1, hand_off (Backends rr) res)
      else if has_method req (str ''PUT'') then (0, rr, hand_off (Backends 0) res)
      else (0, rr, res))"

text \<open>\<open>has_next\<close>: the pointer \<open>next_server\<close> is not NULL.\<close>

definition repl_put ::
  "'db leveldb \<Rightarrow> bool \<Rightarrow> 'db kvs_backend \<Rightarrow> http_request \<Rightarrow> ('cb, target) http_response \<Rightarrow>
   'db kvs_backend \<times> ('cb, target) http_response" where
  "repl_put L has_next b req res =
     (if hq_body_len req = 0 then (b, respond 400 ''PUT need to have body\<newline>'' res)
      else
        let (s, db) = db_put L (kb_db b) (slice_of req (hq_path req) (hq_path_len req)) (slice_of req (hq_body req) (hq_body_len req));
            b = b\<lparr>kb_db := db\<rparr>
        in if s \<noteq> Db_ok then (b, respond 500 ''LevelDB PUT Failed\<newline>'' res)
           else if has_next then (b, hand_off Next_server res)
           else (b, respond 200 ''OK'' res))"

definition repl_backend_request_handler ::
  "'db leveldb \<Rightarrow> kvs_env \<Rightarrow> bool \<Rightarrow> 'db kvs_backend \<Rightarrow> http_request \<Rightarrow> ('cb, target) http_response \<Rightarrow> bool \<Rightarrow>
   (int \<times> 'db kvs_backend \<times> ('cb, target) http_response) option" where
  "repl_backend_request_handler L E has_next b req res was_imported =
     (if \<not> was_imported then Some (0, next_conn b res)
      else if has_method req (str ''GET'') then map_option (\<lambda>res. (0, b, res)) (kvs_get L E b req res)
      else if has_method req (str ''PUT'') then Some (0, repl_put L has_next b req res)
      else if has_method req (str ''DELETE'') then map_option (Pair 0) (kvs_delete L E b req res)
      else Some (0, b, respond 405 ''Method Not Allowed\<newline>'' res))"

section \<open>The chain\<close>

text \<open>The message of a handoff goes from server to server unchanged; each imports the request into a
  new connection.\<close>

fun repl_chain ::
  "'db leveldb \<Rightarrow> kvs_env \<Rightarrow> (nat \<Rightarrow> block) \<Rightarrow> target \<Rightarrow> HTTPReq \<Rightarrow> 'db kvs_backend list \<Rightarrow>
   ('db kvs_backend list \<times> ('cb, target) http_response) option" where
  "repl_chain L E blks d ex [] = None"
| "repl_chain L E blks d ex (b # bs) =
     (case http_request_import (blks 1) (http_request_init (blks 0)) ex of
        None \<Rightarrow> None
      | Some req \<Rightarrow>
          (case repl_backend_request_handler L E (bs \<noteq> []) b req (http_response_init (blks 2) (blks 3) d) True of
             None \<Rightarrow> None
           | Some (error, b', res) \<Rightarrow>
               if hr_status res = 600
               then map_option (\<lambda>(bs', res). (b' # bs', res)) (repl_chain L E blks d ex bs)
               else Some (b' # bs, res)))"

text \<open>The servers in the order of the chain are the backends of the proxy.\<close>

definition repl_request ::
  "'db leveldb \<Rightarrow> kvs_env \<Rightarrow> (nat \<Rightarrow> block) \<Rightarrow> target \<Rightarrow> u32 \<Rightarrow> 'db kvs_backend list \<Rightarrow> http_request \<Rightarrow>
   ('cb, target) http_response \<Rightarrow> (u32 \<times> 'db kvs_backend list \<times> ('cb, target) http_response) option" where
  "repl_request L E blks d rr bs req res =
     (let (error, rr, res) = repl_proxy_request_handler (of_nat (length bs)) rr req res
      in if hr_status res \<noteq> 600 then Some (rr, bs, res)
         else
           (case hr_handoff_data res of
              Backends i \<Rightarrow>
                map_option (\<lambda>(bs', res). (rr, take (unat i) bs @ bs', res))
                  (repl_chain L E blks d (http_request_export req) (drop (unat i) bs))
            | _ \<Rightarrow> None))"

section \<open>One map, many copies\<close>

lemma not_both: "has_method req (str ''PUT'') \<Longrightarrow> \<not> has_method req (str ''GET'')"
  by (cases "mem_from (hq_mem req) (hq_method req)") (auto simp: has_method_def str_def strncmp_eq_num)

text \<open>The first server of a chain handles a read as a single server does, and a write of a single server
  is that of the last one.\<close>

lemma chain_get:
  fixes d :: target
  assumes "leveldb_ok L" "exportable req" "request_within req" "has_method req (str ''GET'')" "bs \<noteq> []"
    "\<forall>v. view L (kb_db (hd bs)) (slice_of req (hq_path req) (hq_path_len req)) = Some v \<longrightarrow> length v \<le> 5000000"
  shows "\<exists>res' :: ('cb, target) http_response. repl_chain L E blks d (http_request_export req) bs = Some (bs, res') \<and>
    kvs_answer (view L (kb_db (hd bs))) (view L (kb_db (hd bs))) req (hr_status res') (used_bytes (hr_body_mem res'))"
proof -
  obtain b bs' where bs: "bs = b # bs'" using assms(5) by (cases bs) auto
  obtain req' where r: "http_request_import (blks 1) (http_request_init (blks 0)) (http_request_export req) = Some req'"
    "moved req req'" by (rule import_moved [OF assms(2,3)])
  note sl = moved_slices [OF r(2)]
  have g: "has_method req' (str ''GET'')" using assms(4) sl(4) by (simp add: str_def)
  have "\<forall>v. view L (kb_db b) (slice_of req' (hq_path req') (hq_path_len req')) = Some v \<longrightarrow> length v \<le> 5000000"
    using assms(6) bs sl(1) by simp
  from backend_answers [OF assms(1) this, of E "blks 2" "blks 3" d]
  obtain b' and res' :: "('cb, target) http_response"
    where k: "kvs_backend_request_handler L E b req' (http_response_init (blks 2) (blks 3) d) True = Some (0, b', res')"
    "kvs_answer (view L (kb_db b)) (view L (kb_db b')) req' (hr_status res') (used_bytes (hr_body_mem res'))" by blast
  have b': "b' = b" "kvs_get L E b req' (http_response_init (blks 2) (blks 3) d) = Some res'"
    using k(1) g by (auto simp: kvs_backend_request_handler_def)
  have a: "kvs_answer (view L (kb_db b)) (view L (kb_db b)) req (hr_status res') (used_bytes (hr_body_mem res'))"
    using k(2) b' sl g assms(4) by (simp add: kvs_answer_def Let_def str_def)
  then have "hr_status res' \<noteq> 600" using assms(4) by (auto simp: kvs_answer_def Let_def split: option.splits)
  then show ?thesis using r(1) b' g a bs by (auto simp: repl_backend_request_handler_def)
qed

text \<open>A write goes along the chain up to the first server that cannot write.\<close>

definition written :: "'db leveldb \<Rightarrow> http_request \<Rightarrow> 'db kvs_backend \<Rightarrow> 'db kvs_backend \<Rightarrow> bool" where
  "written L req b b' \<longleftrightarrow> view L (kb_db b') = (view L (kb_db b))
     (slice_of req (hq_path req) (hq_path_len req) \<mapsto> slice_of req (hq_body req) (hq_body_len req))"

text \<open>All servers have written, or those before one that failed have and those behind it have not.\<close>

definition chain_result ::
  "'db leveldb \<Rightarrow> http_request \<Rightarrow> u32 \<Rightarrow> 'db kvs_backend list \<Rightarrow> 'db kvs_backend list \<Rightarrow> bool" where
  "chain_result L req status bs bs' \<longleftrightarrow>
     status = 200 \<and> list_all2 (written L req) bs bs' \<or>
     status = 500 \<and> length bs' = length bs \<and>
       (\<exists>j < length bs. list_all2 (written L req) (take j bs) (take j bs') \<and> drop (j + 1) bs' = drop (j + 1) bs)"

lemma chain_result_Cons:
  assumes "written L req b b'" "chain_result L req status bs bs'"
  shows "chain_result L req status (b # bs) (b' # bs')"
proof -
  { fix j assume "j < length bs" "list_all2 (written L req) (take j bs) (take j bs')" "drop (j + 1) bs' = drop (j + 1) bs"
    then have "Suc j < length (b # bs) \<and> list_all2 (written L req) (take (Suc j) (b # bs)) (take (Suc j) (b' # bs')) \<and>
        drop (Suc j + 1) (b' # bs') = drop (Suc j + 1) (b # bs)"
      using assms(1) by simp
    then have "\<exists>j < length (b # bs). list_all2 (written L req) (take j (b # bs)) (take j (b' # bs')) \<and>
        drop (j + 1) (b' # bs') = drop (j + 1) (b # bs)" by blast }
  then show ?thesis using assms by (auto simp: chain_result_def)
qed

lemma chain_put:
  fixes d :: target
  assumes "leveldb_ok L" "exportable req" "request_within req" "has_method req (str ''PUT'')" "hq_body_len req \<noteq> 0" "bs \<noteq> []"
  shows "\<exists>bs' (res' :: ('cb, target) http_response). repl_chain L E blks d (http_request_export req) bs = Some (bs', res') \<and>
    chain_result L req (hr_status res') bs bs'"
  using assms(6)
proof (induction bs)
  case (Cons b bs)
  obtain req' where r: "http_request_import (blks 1) (http_request_init (blks 0)) (http_request_export req) = Some req'"
    "moved req req'" by (rule import_moved [OF assms(2,3)])
  note sl = moved_slices [OF r(2)]
  have p: "has_method req' (str ''PUT'')" "hq_body_len req' \<noteq> 0" using assms(4,5) sl(2,4) by (simp_all add: str_def)
  note g = not_both [OF p(1)]
  obtain s db where put: "db_put L (kb_db b) (slice_of req (hq_path req) (hq_path_len req)) (slice_of req (hq_body req) (hq_body_len req)) = (s, db)"
    by fastforce
  let ?b = "b\<lparr>kb_db := db\<rparr>" and ?r = "http_response_init (blks 2) (blks 3) d :: ('cb, target) http_response"
  have h: "repl_backend_request_handler L E n b req' ?r True = Some (0, ?b,
      if s \<noteq> Db_ok then respond 500 ''LevelDB PUT Failed\<newline>'' ?r else if n then hand_off Next_server ?r else respond 200 ''OK'' ?r)" for n
    using p g sl(1) sl(3) [OF assms(5)] put by (simp add: repl_backend_request_handler_def repl_put_def)
  show ?case
  proof (cases "s = Db_ok")
    case False
    then show ?thesis using r(1) h by (auto simp: respond_def chain_result_def intro!: exI [of _ 0])
  next
    case True
    have w: "written L req b ?b" using assms(1) put True by (simp add: leveldb_ok_def written_def)
    show ?thesis
    proof (cases "bs = []")
      case True
      then show ?thesis using r(1) h w \<open>s = Db_ok\<close> by (simp add: respond_def chain_result_def)
    next
      case False
      from Cons.IH [OF this] obtain bs' and res' :: "('cb, target) http_response"
        where c: "repl_chain L E blks d (http_request_export req) bs = Some (bs', res')" "chain_result L req (hr_status res') bs bs'" by blast
      have "repl_chain L E blks d (http_request_export req) (b # bs) = Some (?b # bs', res')"
        using r(1) h False \<open>s = Db_ok\<close> c(1) by (simp add: hand_off_def respond_def)
      then show ?thesis using chain_result_Cons [OF w c(2)] by blast
    qed
  qed
qed simp

text \<open>C37: the replicas together are one map as long as no write fails: all of them hold the same contents,
  a read that goes to any of them is answered from these contents, and when a write is answered with
  200 every replica holds the new value, so that whichever replica is read next returns it.  When a
  write is answered with 500 the servers before the one that failed hold the new value and those behind
  it the old one.\<close>

theorem replicas_refine_map:
  fixes res :: "('cb, target) http_response"
  assumes "leveldb_ok L" and "bs \<noteq> []" and "\<forall>b \<in> set bs. view L (kb_db b) = M"
    and "length bs < 2 ^ 32" and "unat rr < length bs"
    and "exportable req" and "request_within req"
    and "has_method req (str ''GET'') \<or> has_method req (str ''PUT'') \<and> hq_body_len req \<noteq> 0"
    and "\<forall>v. M (slice_of req (hq_path req) (hq_path_len req)) = Some v \<longrightarrow> length v \<le> 5000000"
  shows "\<exists>rr' bs' res'. repl_request L E blks d rr bs req res = Some (rr', bs', res') \<and>
    length bs' = length bs \<and> unat rr' < length bs \<and>
    (if has_method req (str ''PUT'') \<and> hr_status res' \<noteq> 200 then chain_result L req 500 bs bs'
     else \<exists>M'. (\<forall>b \<in> set bs'. view L (kb_db b) = M') \<and> kvs_answer M M' req (hr_status res') (used_bytes (hr_body_mem res')))"
proof -
  let ?n = "of_nat (length bs) :: u32" and ?ex = "http_request_export req"
  have n: "unat ?n = length bs" using assms(4) by (simp add: take_bit_nat_eq_self unsigned_of_nat)
  show ?thesis
  proof (cases "has_method req (str ''GET'')")
    case True
    then have np: "\<not> has_method req (str ''PUT'')" using not_both by blast
    let ?rr = "if rr + 1 = ?n then 0 else rr + 1" and ?bs = "drop (unat rr) bs"
    have "unat (rr + 1) = unat rr + 1" using assms(4,5) by (simp add: unat_word_ariths)
    then have rr: "unat ?rr < length bs"
      using assms(5) n by (auto simp: word_unat_eq_iff [of "rr + 1"])
    have m: "?bs \<noteq> []" "view L (kb_db (hd ?bs)) = M" using assms(3,5) by (simp_all add: hd_drop_conv_nth)
    then obtain res' :: "('cb, target) http_response" where c: "repl_chain L E blks d ?ex ?bs = Some (?bs, res')"
      "kvs_answer M M req (hr_status res') (used_bytes (hr_body_mem res'))"
      using chain_get [OF assms(1,6,7) True m(1), of E blks d] assms(9) by auto
    have "repl_request L E blks d rr bs req res = Some (?rr, bs, res')"
      using True c(1) by (simp add: repl_request_def repl_proxy_request_handler_def hand_off_def respond_def)
    then show ?thesis using c(2) assms(3) rr np by auto
  next
    case False
    then have p: "has_method req (str ''PUT'')" "hq_body_len req \<noteq> 0" using assms(8) by blast+
    obtain bs' and res' :: "('cb, target) http_response" where c: "repl_chain L E blks d ?ex bs = Some (bs', res')"
      "chain_result L req (hr_status res') bs bs'" using chain_put [OF assms(1,6,7) p assms(2)] by blast
    have q: "repl_request L E blks d rr bs req res = Some (rr, bs', res')"
      using False p c(1) by (simp add: repl_request_def repl_proxy_request_handler_def hand_off_def respond_def)
    have l: "length bs' = length bs" using c(2) by (auto simp: chain_result_def list_all2_lengthD)
    let ?M = "M(slice_of req (hq_path req) (hq_path_len req) \<mapsto> slice_of req (hq_body req) (hq_body_len req))"
    show ?thesis
    proof (cases "hr_status res' = 200")
      case True
      then have w: "list_all2 (written L req) bs bs'" using c(2) by (auto simp: chain_result_def)
      have "\<forall>b \<in> set bs'. view L (kb_db b) = ?M"
      proof
        fix b assume "b \<in> set bs'"
        then obtain a where "a \<in> set bs" "written L req a b"
          using w by (metis in_set_conv_nth list_all2_conv_all_nth nth_mem)
        then show "view L (kb_db b) = ?M" using assms(3) by (simp add: written_def)
      qed
      then show ?thesis using q l True False p assms(5) by (auto simp: kvs_answer_def Let_def)
    next
      case no: False
      then have "hr_status res' = 500" using c(2) by (auto simp: chain_result_def)
      then show ?thesis using q l p assms(5) c(2) by auto
    qed
  qed
qed

definition put_k :: http_request where "put_k = kv_request (str ''PUT /khi HTTP/1.1'') 4 2"

lemma put_k_facts: "exportable put_k" "request_within put_k" "slice_of put_k (hq_path put_k) (hq_path_len put_k) = key_k"
  "slice_of put_k (hq_body put_k) (hq_body_len put_k) = [104, 105]" "has_method put_k (str ''PUT'')" "hq_body_len put_k = 2"
  by (simp_all add: put_k_def kv_request_def str_def exportable_def mb_ok_def membuf_used_def request_within_def within_def
      slice_of_def mem_from_def key_k_def has_method_def strncmp_eq_num)

theorem replicas_refine_map_witness:
  "\<exists>rr' bs' res'. repl_request map_db kvs_sample_env (\<lambda>_. (65536, \<lambda>_. 0)) Next_server 1 (sample_store Map.empty) put_k
      (http_response_init (0, \<lambda>_. 0) (0, \<lambda>_. 0) Next_server :: (unit, target) http_response) = Some (rr', bs', res') \<and>
    (hr_status res' = 200 \<longrightarrow> (\<forall>b \<in> set bs'. kb_db b key_k = Some [104, 105]))"
proof -
  have s: "sample_store Map.empty \<noteq> []" "\<forall>b \<in> set (sample_store Map.empty). view map_db (kb_db b) = Map.empty"
    "length (sample_store Map.empty) < 2 ^ 32" "unat (1 :: u32) < length (sample_store Map.empty)"
    by (simp_all add: sample_store_def)
  note t = replicas_refine_map [OF map_db_ok s put_k_facts(1,2), of kvs_sample_env "\<lambda>_. (65536, \<lambda>_. 0)" Next_server
      "http_response_init (0, \<lambda>_. 0) (0, \<lambda>_. 0) Next_server :: (unit, target) http_response"]
  obtain rr' bs' and res' :: "(unit, target) http_response"
    where r: "repl_request map_db kvs_sample_env (\<lambda>_. (65536, \<lambda>_. 0)) Next_server 1 (sample_store Map.empty) put_k
      (http_response_init (0, \<lambda>_. 0) (0, \<lambda>_. 0) Next_server) = Some (rr', bs', res')"
    "if hr_status res' \<noteq> 200 then chain_result map_db put_k 500 (sample_store Map.empty) bs'
     else \<exists>M'. (\<forall>b \<in> set bs'. view map_db (kb_db b) = M') \<and> kvs_answer Map.empty M' put_k (hr_status res') (used_bytes (hr_body_mem res'))"
    using t put_k_facts by auto
  have "\<not> has_method put_k (str ''GET'')" using not_both put_k_facts(5) by blast
  then have "hr_status res' = 200 \<longrightarrow> (\<forall>b \<in> set bs'. kb_db b key_k = Some [104, 105])"
    using r(2) put_k_facts by (auto simp: kvs_answer_def Let_def)
  then show ?thesis using r(1) by blast
qed

end
