(* ===== verification/Options.thy ===== *)
theory Options
  imports CString Split
begin

text \<open>
  The options of the programs: the option parser, src/include/extern/argparse.h, and the options of the
  servers, src/phttp_argparse.cpp.  A call of \<open>exit\<close> is \<open>Inl\<close> with its status, an exception that nobody
  catches \<open>None\<close>.
\<close>

section \<open>The parser\<close>

datatype ArgumentType = Store | StoreTrue

record argument_info =
  ai_name :: "byte list list"
  ai_type :: ArgumentType

record argument_parser =
  ap_positional :: "argument_info list"
  ap_keyword :: "argument_info list"

text \<open>The values of every keyword; a keyword that was not given has none.\<close>

type_synonym arguments = "byte list \<Rightarrow> byte list list"

definition addArgument :: "byte list list \<Rightarrow> ArgumentType \<Rightarrow> argument_parser \<Rightarrow> argument_parser" where
  "addArgument name type p =
     (if name = [] then p
      else
        let info = \<lparr>ai_name = name, ai_type = type\<rparr>
        in if hd name \<noteq> [] \<and> hd (hd name) = 45 then p\<lparr>ap_keyword := ap_keyword p @ [info]\<rparr>
           else p\<lparr>ap_positional := ap_positional p @ [info]\<rparr>)"

definition ArgumentParser :: argument_parser where
  "ArgumentParser = addArgument [str ''--help'', str ''-h''] StoreTrue \<lparr>ap_positional = [], ap_keyword = []\<rparr>"

definition remove_hyphen :: "byte list \<Rightarrow> byte list" where
  "remove_hyphen s = (let r = dropWhile (\<lambda>c. c = 45) s in if r = [] then s else r)"

definition emplace :: "byte list \<Rightarrow> byte list \<Rightarrow> arguments \<Rightarrow> arguments" where
  "emplace k v parsed = parsed(k := parsed k @ [v])"

definition find_keyword :: "argument_info list \<Rightarrow> byte list \<Rightarrow> argument_info option" where
  "find_keyword kws a = find (\<lambda>info. a \<in> set (ai_name info)) kws"

fun keyword_loop :: "argument_info list \<Rightarrow> byte list list \<Rightarrow> arguments \<Rightarrow> int + arguments \<times> byte list list" where
  "keyword_loop kws [] parsed = Inr (parsed, [])"
| "keyword_loop kws (a # args) parsed =
     (case find_keyword kws a of
        None \<Rightarrow> if a \<noteq> [] \<and> hd a = 45 then Inl 1 else Inr (parsed, a # args)
      | Some info \<Rightarrow>
          (case ai_type info of
             Store \<Rightarrow>
               (case args of
                  [] \<Rightarrow> Inl 1
                | v # args' \<Rightarrow> keyword_loop kws args' (emplace (remove_hyphen (hd (ai_name info))) v parsed))
           | StoreTrue \<Rightarrow>
               if hd (ai_name info) = str ''--help'' then Inl 0
               else keyword_loop kws args (emplace (remove_hyphen (hd (ai_name info))) [] parsed)))"

fun add_positional :: "argument_info list \<Rightarrow> byte list list \<Rightarrow> arguments \<Rightarrow> arguments" where
  "add_positional (i # is) (a # as) parsed = add_positional is as (emplace (remove_hyphen (hd (ai_name i))) a parsed)"
| "add_positional is as parsed = parsed"

text \<open>\<open>args\<close> are the arguments behind the name of the program.\<close>

definition parseArgs :: "argument_parser \<Rightarrow> byte list list \<Rightarrow> int + arguments" where
  "parseArgs p args =
     (let args = concat (map (\<lambda>a. split_nonempty a 61) args)
      in if args = [] then Inr (\<lambda>_. [])
         else
           (case (if hd (hd args) = 45 then keyword_loop (ap_keyword p) args (\<lambda>_. []) else Inr (\<lambda>_. [], args)) of
              Inl status \<Rightarrow> Inl status
            | Inr (parsed, rest) \<Rightarrow>
                if ap_positional p = [] \<and> rest \<noteq> [] then Inl 1
                else if length (ap_positional p) \<noteq> length rest then Inl 1
                else Inr (add_positional (ap_positional p) rest parsed)))"

section \<open>Values\<close>

definition has_arg :: "arguments \<Rightarrow> byte list \<Rightarrow> bool" where "has_arg args kw \<longleftrightarrow> args kw \<noteq> []"

definition get_string :: "arguments \<Rightarrow> byte list \<Rightarrow> byte list option" where
  "get_string args kw = (case args kw of [] \<Rightarrow> None | v # _ \<Rightarrow> Some v)"

text \<open>\<open>std::stoi\<close> throws when there is no number or it does not fit an \<open>int\<close>.\<close>

definition stoi :: "byte list \<Rightarrow> int option" where
  "stoi s = (let (v, n) = strtoll 10 s in if n = 0 \<or> v < - (2 ^ 31) \<or> 2 ^ 31 \<le> v then None else Some v)"

definition get_int :: "arguments \<Rightarrow> byte list \<Rightarrow> int option" where
  "get_int args kw = Option.bind (get_string args kw) stoi"

definition get_u16 :: "arguments \<Rightarrow> byte list \<Rightarrow> u16 option" where
  "get_u16 args kw = map_option word_of_int (get_int args kw)"

section \<open>The options of a server\<close>

record phttp_args =
  pa_addr :: "byte list"
  pa_port :: u32
  pa_mac :: "byte list"
  pa_backlog :: int
  pa_tls :: bool
  pa_tls_crt :: "byte list"
  pa_tls_key :: "byte list"
  pa_ho_addr :: "byte list"
  pa_ho_port :: u32
  pa_ho_backlog :: int
  pa_sw_addr :: "byte list"
  pa_sw_port :: "byte list"

definition phttp_argparse_set_all_args :: "argument_parser \<Rightarrow> argument_parser" where
  "phttp_argparse_set_all_args p =
     (let add = (\<lambda>n. addArgument [str n] Store);
          p = fold add [''--addr'', ''--port'', ''--mac'', ''--backlog''] p;
          p = addArgument [str ''--tls''] StoreTrue p
      in fold add [''--tls-crt'', ''--tls-key'', ''--ho-addr'', ''--ho-port'', ''--ho-backlog'', ''--sw-addr'', ''--sw-port''] p)"

text \<open>\<open>sscanf\<close> with \<open>%hhx\<close> fields between colons: the fields read before the first mismatch.\<close>

fun scan_hex_fields :: "nat \<Rightarrow> byte list \<Rightarrow> byte list" where
  "scan_hex_fields 0 s = []"
| "scan_hex_fields (Suc n) s =
     (let (v, k) = strtoll 16 s
      in if k = 0 then []
         else word_of_int v # (case drop k s of c # cs \<Rightarrow> if c = 58 then scan_hex_fields n cs else [] | [] \<Rightarrow> []))"

definition phttp_argparse_parse_server_conf :: "arguments \<Rightarrow> phttp_args \<Rightarrow> phttp_args option" where
  "phttp_argparse_parse_server_conf args pa =
     (case (get_string args (str ''addr''), get_u16 args (str ''port''), get_string args (str ''mac''), get_int args (str ''backlog'')) of
        (Some addr, Some port, Some mac, Some backlog) \<Rightarrow>
          let m = scan_hex_fields 6 mac;
              pa = pa\<lparr>pa_addr := addr, pa_port := ucast port, pa_backlog := backlog, pa_mac := m @ drop (length m) (pa_mac pa)\<rparr>
          in if has_arg args (str ''tls'') then
               (case (get_string args (str ''tls-crt''), get_string args (str ''tls-key'')) of
                  (Some crt, Some key) \<Rightarrow> Some (pa\<lparr>pa_tls := True, pa_tls_crt := crt, pa_tls_key := key\<rparr>)
                | _ \<Rightarrow> None)
             else Some (pa\<lparr>pa_tls := False\<rparr>)
      | _ \<Rightarrow> None)"

definition phttp_argparse_parse_handoff_server_conf :: "arguments \<Rightarrow> phttp_args \<Rightarrow> phttp_args option" where
  "phttp_argparse_parse_handoff_server_conf args pa =
     (case (get_string args (str ''ho-addr''), get_u16 args (str ''ho-port''), get_int args (str ''ho-backlog'')) of
        (Some ho_addr, Some ho_port, Some ho_backlog) \<Rightarrow>
          Some (pa\<lparr>pa_ho_addr := ho_addr, pa_ho_port := ucast ho_port, pa_ho_backlog := ho_backlog\<rparr>)
      | _ \<Rightarrow> None)"

definition phttp_argparse_parse_global_conf :: "arguments \<Rightarrow> phttp_args \<Rightarrow> phttp_args option" where
  "phttp_argparse_parse_global_conf args pa =
     (case (get_string args (str ''sw-addr''), get_string args (str ''sw-port'')) of
        (Some sw_addr, Some sw_port) \<Rightarrow> Some (pa\<lparr>pa_sw_addr := sw_addr, pa_sw_port := sw_port\<rparr>)
      | _ \<Rightarrow> None)"

definition phttp_argparse_parse_all :: "arguments \<Rightarrow> phttp_args \<Rightarrow> phttp_args option" where
  "phttp_argparse_parse_all args pa =
     Option.bind (phttp_argparse_parse_server_conf args pa) (\<lambda>pa.
     Option.bind (phttp_argparse_parse_handoff_server_conf args pa) (phttp_argparse_parse_global_conf args))"

section \<open>Options are read back\<close>

text \<open>An option with its value, as one argument or as two.\<close>

definition write_option :: "bool \<times> byte list \<times> byte list \<Rightarrow> byte list list" where
  "write_option = (\<lambda>(joined, n, v). if joined then [n @ [61] @ v] else [n, v])"

definition stores :: "argument_parser \<Rightarrow> byte list \<Rightarrow> bool" where
  "stores p n \<longleftrightarrow> (case find_keyword (ap_keyword p) n of Some info \<Rightarrow> ai_type info = Store | None \<Rightarrow> False)"

definition key_of :: "argument_parser \<Rightarrow> byte list \<Rightarrow> byte list" where
  "key_of p n = (case find_keyword (ap_keyword p) n of Some info \<Rightarrow> remove_hyphen (hd (ai_name info)) | None \<Rightarrow> [])"

definition option_ok :: "argument_parser \<Rightarrow> bool \<times> byte list \<times> byte list \<Rightarrow> bool" where
  "option_ok p = (\<lambda>(joined, n, v). stores p n \<and> n \<noteq> [] \<and> hd n = 45 \<and> 61 \<notin> set n \<and> v \<noteq> [] \<and> 61 \<notin> set v)"

definition values_of :: "argument_parser \<Rightarrow> (bool \<times> byte list \<times> byte list) list \<Rightarrow> arguments" where
  "values_of p opts k = map (\<lambda>(joined, n, v). v) (filter (\<lambda>(joined, n, v). key_of p n = k) opts)"

lemma split_option:
  assumes "option_ok p opt"
  shows "concat (map (\<lambda>a. split_nonempty a 61) (write_option opt)) = [fst (snd opt), snd (snd opt)]"
proof -
  obtain j n v where opt: "opt = (j, n, v)" by (cases opt)
  then have "parts 61 n = [n]" "parts 61 v = [v]" "parts 61 (n @ [61] @ v) = [n, v]" "n \<noteq> []" "v \<noteq> []"
    using assms by (auto simp: option_ok_def parts_one parts_cut)
  then show ?thesis by (simp add: opt write_option_def split_nonempty_parts)
qed

lemma split_options:
  "\<forall>opt \<in> set opts. option_ok p opt \<Longrightarrow>
   concat (map (\<lambda>a. split_nonempty a 61) (concat (map write_option opts))) =
   concat (map (\<lambda>opt. [fst (snd opt), snd (snd opt)]) opts)"
  by (induction opts) (simp_all add: split_option [where p = p])

lemma loop_reads:
  "\<forall>opt \<in> set opts. option_ok p opt \<Longrightarrow>
   keyword_loop (ap_keyword p) (concat (map (\<lambda>opt. [fst (snd opt), snd (snd opt)]) opts)) parsed =
   Inr (\<lambda>k. parsed k @ values_of p opts k, [])"
proof (induction opts arbitrary: parsed)
  case (Cons opt opts)
  obtain j n v where opt: "opt = (j, n, v)" by (cases opt)
  then obtain info where i: "find_keyword (ap_keyword p) n = Some info" "ai_type info = Store"
    using Cons.prems by (auto simp: option_ok_def stores_def split: option.splits)
  have "keyword_loop (ap_keyword p) (concat (map (\<lambda>opt. [fst (snd opt), snd (snd opt)]) (opt # opts))) parsed =
      keyword_loop (ap_keyword p) (concat (map (\<lambda>opt. [fst (snd opt), snd (snd opt)]) opts)) (emplace (key_of p n) v parsed)"
    using i by (simp add: opt key_of_def)
  also have "\<dots> = Inr (\<lambda>k. emplace (key_of p n) v parsed k @ values_of p opts k, [])"
    using Cons.IH Cons.prems by simp
  also have "(\<lambda>k. emplace (key_of p n) v parsed k @ values_of p opts k) = (\<lambda>k. parsed k @ values_of p (opt # opts) k)"
    by (auto simp: emplace_def values_of_def opt)
  finally show ?case .
qed (simp add: values_of_def)

text \<open>The options of a command line are read back: in whichever of the two forms each is written, every
  keyword gets the values it was given, in their order, and no other.  A value must not be empty and must
  not contain an equals sign, at which the parser would cut it.\<close>

theorem options_read_back:
  assumes "\<forall>opt \<in> set opts. option_ok p opt" and "ap_positional p = []"
  shows "parseArgs p (concat (map write_option opts)) = Inr (values_of p opts)"
proof (cases opts)
  case Nil
  then show ?thesis by (simp add: parseArgs_def values_of_def fun_eq_iff)
next
  case (Cons opt opts')
  obtain j n v where opt: "opt = (j, n, v)" by (cases opt)
  let ?args = "concat (map (\<lambda>opt. [fst (snd opt), snd (snd opt)]) opts)"
  have "?args \<noteq> []" "hd (hd ?args) = 45" using assms(1) Cons opt by (auto simp: option_ok_def)
  then show ?thesis
    using assms(2) loop_reads [OF assms(1), of "\<lambda>_. []"]
    by (simp add: parseArgs_def split_options [OF assms(1)] Let_def)
qed

definition server_parser :: argument_parser where
  "server_parser = phttp_argparse_set_all_args ArgumentParser"

theorem options_read_back_witness:
  "(case parseArgs server_parser [str ''--port=8080'', str ''--addr'', str ''10.0.0.1''] of
      Inr args \<Rightarrow> get_u16 args (str ''port'') = Some 8080 \<and> get_string args (str ''addr'') = Some (str ''10.0.0.1'')
    | Inl _ \<Rightarrow> False)"
proof -
  let ?opts = "[(True, str ''--port'', str ''8080''), (False, str ''--addr'', str ''10.0.0.1'')]"
  have ok: "\<forall>opt \<in> set ?opts. option_ok server_parser opt" "ap_positional server_parser = []" by code_simp+
  have w: "concat (map write_option ?opts) = [str ''--port=8080'', str ''--addr'', str ''10.0.0.1'']" by code_simp
  have v: "get_u16 (values_of server_parser ?opts) (str ''port'') = Some 8080"
    "get_string (values_of server_parser ?opts) (str ''addr'') = Some (str ''10.0.0.1'')" by code_simp+
  show ?thesis unfolding options_read_back [OF ok, unfolded w] using v by simp
qed

end
