(* ===== verification/PhttpConn.thy ===== *)
theory PhttpConn
  imports HandoffProps
begin

text \<open>
  Accepting clients, src/phttp_server.cpp: the listening socket, a new connection, the TLS handshake,
  and what holds of every connection whatever arrives on it.  libuv and the TLS library are parameters;
  a failed assertion is \<open>None\<close>.
\<close>

section \<open>The listening socket\<close>

text \<open>The calls of \<open>phttp_server_init\<close> and \<open>phttp_handoff_server_init\<close> in their order; \<open>call\<close> gives what
  each returns.\<close>

datatype listen_call =
    Init_tcp | Set_reuseaddr | Set_reuseport | Simultaneous_accepts bool | Bind u32 u16 | Listen int

fun all_ok :: "(listen_call \<Rightarrow> int) \<Rightarrow> listen_call list \<Rightarrow> listen_call list option" where
  "all_ok call [] = Some []"
| "all_ok call (c # cs) = (if call c \<noteq> 0 then None else map_option (Cons c) (all_ok call cs))"

definition phttp_server_init :: "(listen_call \<Rightarrow> int) \<Rightarrow> u32 \<Rightarrow> u16 \<Rightarrow> int \<Rightarrow> listen_call list option" where
  "phttp_server_init call server_addr server_port backlog =
     all_ok call [Init_tcp, Set_reuseaddr, Set_reuseport, Simultaneous_accepts True, Bind server_addr server_port, Listen backlog]"

definition phttp_handoff_server_init :: "(listen_call \<Rightarrow> int) \<Rightarrow> u32 \<Rightarrow> u16 \<Rightarrow> int \<Rightarrow> listen_call list option" where
  "phttp_handoff_server_init call server_addr server_port backlog =
     all_ok call [Init_tcp, Set_reuseaddr, Set_reuseport, Simultaneous_accepts False, Bind server_addr server_port, Listen backlog]"

section \<open>A new connection\<close>

record 'tls accept_env =
  ae_uv_init :: int
  ae_accept :: int
  ae_nodelay :: int
  ae_monitor_init :: int
  ae_read_start :: int
  ae_getpeername :: int
  ae_peer :: "u32 \<times> u16"
  ae_tls_accept :: "'tls \<Rightarrow> 'tls"
  ae_make_exportable :: "'tls \<Rightarrow> 'tls"

text \<open>Which pair of callbacks reads: \<open>on_tls_handshake_alloc\<close> and \<open>on_tls_handshake_read\<close>, or
  \<open>phttp_on_alloc\<close> and \<open>phttp_on_read\<close>.\<close>

datatype read_cb = Tls_handshake | Http_read

definition on_connection ::
  "'tls accept_env \<Rightarrow> http_server_socket \<Rightarrow> 'tls option \<Rightarrow> block \<Rightarrow> block \<Rightarrow> block \<Rightarrow> 'd \<Rightarrow> int \<Rightarrow>
   (('cb, 'd, 'tls) conn \<times> read_cb) option" where
  "on_connection A hss server_tls b1 b2 b3 d status =
     (if status \<noteq> 0 then None
      else if ae_uv_init A \<noteq> 0 \<or> ae_accept A \<noteq> 0 \<or> ae_nodelay A \<noteq> 0 \<or> ae_monitor_init A \<noteq> 0 then None
      else
        let (tls, cb) = (case server_tls of
              Some t \<Rightarrow> (Some (ae_make_exportable A (ae_tls_accept A t)), Tls_handshake)
            | None \<Rightarrow> (None, Http_read))
        in if ae_read_start A \<noteq> 0 \<or> ae_getpeername A \<noteq> 0 then None
           else Some (\<lparr>cn_hcs = http_client_socket_init b1 b2 b3 d, cn_tls = tls, cn_peer_addr = fst (ae_peer A),
             cn_peer_port = ucast (snd (ae_peer A)), cn_server = hss, cn_export = None\<rparr>, cb))"

definition ho_on_connection :: "'tls accept_env \<Rightarrow> block \<Rightarrow> int \<Rightarrow> ho_conn option" where
  "ho_on_connection A blk status =
     (if status \<noteq> 0 \<or> ae_uv_init A \<noteq> 0 \<or> ae_accept A \<noteq> 0 \<or> ae_nodelay A \<noteq> 0 then None
      else
        let hhcs = http_handoff_client_socket_init blk
        in if ae_read_start A \<noteq> 0 then None else Some hhcs)"

definition phttp_handoff_server_read_start :: "'tls accept_env \<Rightarrow> block \<Rightarrow> ho_conn option" where
  "phttp_handoff_server_read_start A blk =
     (let hhcs = http_handoff_client_socket_init blk in if ae_read_start A \<noteq> 0 then None else Some hhcs)"

section \<open>The TLS handshake\<close>

record ('k, 'tls) handshake_env =
  te_consume :: "'tls \<Rightarrow> byte list \<Rightarrow> int \<times> 'tls"
  te_write_buffer :: "'tls \<Rightarrow> byte list"
  te_buffer_clear :: "'tls \<Rightarrow> 'tls"
  te_established :: "'tls \<Rightarrow> bool"
  te_make_ktls :: "'tls \<Rightarrow> 'k \<Rightarrow> int \<times> 'k"
  te_write :: int
  te_read_start :: int

definition after_tls_send_pending ::
  "('k, 'tls) handshake_env \<Rightarrow> int \<Rightarrow> ('cb, 'd, 'tls) conn \<Rightarrow> ('cb, 'd, 'tls) conn option" where
  "after_tls_send_pending T status c =
     (if status \<noteq> 0 then None else Some (c\<lparr>cn_tls := map_option (te_buffer_clear T) (cn_tls c)\<rparr>))"

definition tls_send_pending :: "('k, 'tls) handshake_env \<Rightarrow> 'tls \<Rightarrow> 'cb action list option" where
  "tls_send_pending T tls = (if te_write T \<noteq> 0 then None else Some [Write (te_write_buffer T tls)])"

text \<open>\<open>buf\<close> are the \<open>nread\<close> bytes that were read.  The connection has a TLS context.\<close>

definition on_tls_handshake_read ::
  "('k, 'tls) handshake_env \<Rightarrow> int \<Rightarrow> byte list \<Rightarrow> 'tls \<Rightarrow> ('cb, 'd, 'tls) conn \<Rightarrow> 'k \<Rightarrow>
   (('cb, 'd, 'tls) conn \<times> 'k \<times> read_cb \<times> 'cb action list) option" where
  "on_tls_handshake_read T nread buf tls c k =
     (if nread < 0 then Some (c, k, Tls_handshake, [Close])
      else
        let (has_pending_message, tls) = te_consume T tls buf;
            c = c\<lparr>cn_tls := Some tls\<rparr>
        in case (if has_pending_message \<noteq> 0 then tls_send_pending T tls else Some []) of
             None \<Rightarrow> None
           | Some out \<Rightarrow>
               if te_established T tls then
                 let (error, k) = te_make_ktls T tls k
                 in if error \<noteq> 0 \<or> te_read_start T \<noteq> 0 then None else Some (c, k, Http_read, out)
               else Some (c, k, Tls_handshake, out))"

section \<open>What holds of every connection\<close>

definition req_ok :: "http_request \<Rightarrow> bool" where
  "req_ok req \<longleftrightarrow> mb_ok (hq_mem req) \<and> length (hq_headers req) = 16 \<and> unat (hq_nheaders req) \<le> 16"

definition res_ok :: "('cb, 'd) http_response \<Rightarrow> bool" where
  "res_ok res \<longleftrightarrow> mb_ok (hr_mem res) \<and> mb_ok (hr_body_mem res) \<and> length (hr_headers res) = 16 \<and> unat (hr_nheaders res) \<le> 16"

definition conn_ok :: "('cb, 'd) client_socket \<Rightarrow> bool" where
  "conn_ok s \<longleftrightarrow> req_ok (hc_req s) \<and> res_ok (hc_res s)"

text \<open>A request handler keeps the request and the response well-formed.\<close>

definition handler_ok :: "('cb, 'd) handler \<Rightarrow> bool" where
  "handler_ok handler \<longleftrightarrow> (\<forall>req res error req' res'. handler req res = (error, req', res') \<longrightarrow>
     req_ok req \<longrightarrow> res_ok res \<longrightarrow> req_ok req' \<and> res_ok res')"

lemma consume_mb_ok: "mb_ok b \<Longrightarrow> mb_ok (snd (membuf_consume b n))"
  using consume_ok(1) [of b n] by (cases "n \<le> membuf_avail b") (auto simp: membuf_consume_def not_le)

lemma memcpy_mb_ok: "memcpy_cur b src = Some m \<Longrightarrow> mb_ok b \<Longrightarrow> mb_ok m"
  by (auto simp: memcpy_cur_def mb_ok_def split: if_splits)

lemma mem_print_mb_ok: "mem_print b s = Some m \<Longrightarrow> mb_ok b \<Longrightarrow> mb_ok m"
  using memcpy_mb_ok consume_mb_ok by (auto simp: mem_print_def split: if_splits option.splits)

lemma print_headers_mb_ok: "print_headers peek hs b = Some m \<Longrightarrow> mb_ok b \<Longrightarrow> mb_ok m"
  using mem_print_mb_ok by (induction hs arbitrary: b) (fastforce split: if_splits option.splits)+

definition print_head :: "(addr \<Rightarrow> byte list) \<Rightarrow> bool \<Rightarrow> ('cb, 'd) http_response \<Rightarrow> membuf option" where
  "print_head peek continue_res res =
     (if continue_res
      then mem_print (hr_mem res) (http11 @ dec (unat (hr_status res)) @ [32] @ hr_reason res @ crlf)
      else
        (case mem_print (hr_mem res) (http11 @ dec (unat (hr_status res)) @ [32] @ hr_reason res @ crlf @ server_line) of
           None \<Rightarrow> None
         | Some mem \<Rightarrow>
             (case mem_print mem (content_length @ [58, 32] @ dec (unat (membuf_used (hr_body_mem res))) @ crlf) of
                None \<Rightarrow> None
              | Some mem \<Rightarrow> print_headers peek (take (unat (hr_nheaders res)) (hr_headers res)) mem)))"

lemma print_head_mb_ok:
  assumes "print_head peek continue_res res = Some m" "mb_ok (hr_mem res)"
  shows "mb_ok m"
proof (cases continue_res)
  case True
  then show ?thesis using assms mem_print_mb_ok by (simp add: print_head_def)
next
  case False
  then obtain m1 m2 where "mem_print (hr_mem res) (http11 @ dec (unat (hr_status res)) @ [32] @ hr_reason res @ crlf @ server_line) = Some m1"
    "mem_print m1 (content_length @ [58, 32] @ dec (unat (membuf_used (hr_body_mem res))) @ crlf) = Some m2"
    "print_headers peek (take (unat (hr_nheaders res)) (hr_headers res)) m2 = Some m"
    using assms(1) by (auto simp: print_head_def split: option.splits)
  then show ?thesis using assms(2) mem_print_mb_ok print_headers_mb_ok by blast
qed

lemma send_res_ok:
  assumes "phttp_send_http_res peek continue_res res = Some (res', bytes)" "res_ok res"
  shows "res_ok res'"
proof -
  obtain m m' where m: "print_head peek continue_res res = Some m" "memcpy_cur m crlf = Some m'"
    "res' = res\<lparr>hr_mem := snd (membuf_consume m' 2)\<rparr>"
    using assms(1) unfolding phttp_send_http_res_def Let_def print_head_def [symmetric]
    by (auto split: if_splits option.splits)
  have "mb_ok (hr_mem res)" using assms(2) by (simp add: res_ok_def)
  then have "mb_ok (snd (membuf_consume m' 2))" using m(1,2) print_head_mb_ok memcpy_mb_ok consume_mb_ok by blast
  then show ?thesis using assms(2) m(3) by (simp add: res_ok_def)
qed

lemma parse_req_ok:
  assumes "req_ok req"
  shows "\<exists>e req'. http_parse_request req = (Some e, req') \<and> req_ok req' \<and> hq_mem req' = hq_mem req"
proof -
  let ?m = "hq_mem req" and ?hs = "map (to_phr (hq_mem req)) (hq_headers req)"
  obtain r q where p: "phr_parse_request (used_bytes ?m) ?hs 16 (unat (mb_prev ?m - mb_begin ?m)) = (r, q)" by fastforce
  have "unat (mb_prev ?m - mb_begin ?m) \<le> length (used_bytes ?m)"
    using assms length_used [of ?m] by (simp add: req_ok_def mb_ok_def membuf_used_def word_le_nat_alt)
  from parser_safe [OF p _ this] assms obtain e where e: "r = Some e" "snd (rq_hdrs q) \<le> 16" "length (fst (rq_hdrs q)) = 16"
    by (auto simp: req_ok_def)
  then show ?thesis
    using p assms by (auto simp: http_parse_request_def HTTP_HEADERS_MAX_def req_ok_def Let_def unat_of_nat64)
qed

text \<open>Why a request can bring the server down: its handler fails, or the head of the response does not
  fit its buffer.\<close>

definition response_fails :: "(addr \<Rightarrow> byte list) \<Rightarrow> ('cb, 'd) handler \<Rightarrow> bool" where
  "response_fails peek handler \<longleftrightarrow> (\<exists>req res error req' res' status reason. handler req res = (error, req', res') \<and>
     (error \<noteq> 0 \<or> phttp_send_http_res peek False (res'\<lparr>hr_status := status, hr_reason := reason\<rparr>) = None))"

lemma handler_fails: "handler req res = (error, req', res') \<Longrightarrow> error \<noteq> 0 \<Longrightarrow> response_fails peek handler"
  unfolding response_fails_def by blast

lemma handle_ok:
  assumes "conn_ok s" "handler_ok handler"
  shows "case handle_request peek handler he s of None \<Rightarrow> response_fails peek handler | Some (s', out) \<Rightarrow> conn_ok s'"
proof -
  obtain error req res where h: "handler (hc_req s) (hc_res s) = (error, req, res)" by (metis prod_cases3)
  then have ok: "req_ok req" "res_ok res" using assms by (auto simp: handler_ok_def conn_ok_def)
  let ?res = "if hr_status res = 600 then res\<lparr>hr_status := 500, hr_reason := internal_error\<rparr> else res"
  have rs: "?res = res\<lparr>hr_status := hr_status ?res, hr_reason := hr_reason ?res\<rparr>" by simp
  have ok': "res_ok ?res" using ok(2) by (simp add: res_ok_def)
  show ?thesis
  proof (cases "error \<noteq> 0 \<or> hr_status res = 600 \<and> he = 0")
    case True
    then show ?thesis using h ok handler_fails [of handler "hc_req s" "hc_res s" error req res peek] by (auto simp: handle_request_def conn_ok_def)
  next
    case False
    then have e: "handle_request peek handler he s =
        (case phttp_send_http_res peek False ?res of None \<Rightarrow> None
         | Some (res, bytes) \<Rightarrow> Some (s\<lparr>hc_req := req, hc_res := res\<rparr>, [Write bytes]))"
      using h by (simp add: handle_request_def Let_def split: option.split prod.split)
    show ?thesis
    proof (cases "phttp_send_http_res peek False ?res")
      case None
      then have "phttp_send_http_res peek False (res\<lparr>hr_status := hr_status ?res, hr_reason := hr_reason ?res\<rparr>) = None"
        unfolding rs [symmetric] .
      then have "response_fails peek handler" unfolding response_fails_def using h by blast
      then show ?thesis unfolding e None by simp
    next
      case (Some a)
      obtain r bytes where a: "a = (r, bytes)" by (cases a)
      have "res_ok r" by (rule send_res_ok [OF Some [unfolded a] ok'])
      then show ?thesis unfolding e Some a using ok(1) by (simp add: conn_ok_def)
    qed
  qed
qed

lemma receive_body_ok:
  assumes "conn_ok s" "handler_ok handler"
  shows "case receive_body peek handler he s of None \<Rightarrow> response_fails peek handler | Some (s', out) \<Rightarrow> conn_ok s'"
  using assms handle_ok [of "s\<lparr>hc_state := HTTP_PARSING_HEADER\<rparr>" handler peek he]
  by (simp add: receive_body_def conn_ok_def Let_def)

text \<open>Bytes that fit the buffer libuv was given.\<close>

lemma on_read_ok:
  assumes "conn_ok s" "handler_ok handler" "length bytes \<le> unat (membuf_avail (hq_mem (hc_req s)))"
    "memcpy_cur (hq_mem (hc_req s)) bytes = Some m"
  shows "case phttp_on_read peek handler he (int (length bytes)) (s\<lparr>hc_req := (hc_req s)\<lparr>hq_mem := m\<rparr>\<rparr>) of
    None \<Rightarrow> response_fails peek handler | Some (s', out) \<Rightarrow> conn_ok s'"
proof (cases "bytes = []")
  case True
  have "mb_ok m" by (rule memcpy_mb_ok [OF assms(4)]) (use assms(1) in \<open>simp add: conn_ok_def req_ok_def\<close>)
  then show ?thesis using True assms(1) by (simp add: phttp_on_read_def conn_ok_def req_ok_def)
next
  case False
  define m' where "m' = snd (membuf_consume m (of_nat (length bytes)))"
  let ?n = "of_nat (length bytes) :: u64" and ?req = "(hc_req s)\<lparr>hq_mem := m'\<rparr>"
  have "length bytes < 2 ^ 64"
    using assms(3) unsigned_less [where 'a = nat, of "membuf_avail (hq_mem (hc_req s))"] by simp
  then have n: "unat ?n = length bytes" by (rule unat_of_nat64)
  have av: "membuf_avail m = membuf_avail (hq_mem (hc_req s))"
    using assms(4) by (auto simp: memcpy_cur_def membuf_avail_def split: if_splits)
  have ok: "mb_ok m" by (rule memcpy_mb_ok [OF assms(4)]) (use assms(1) in \<open>simp add: conn_ok_def req_ok_def\<close>)
  have c: "membuf_consume m ?n = (0, m')"
    using assms(3) av n by (auto simp: m'_def membuf_consume_def word_less_nat_alt)
  have r: "req_ok ?req" using assms(1) ok consume_mb_ok by (simp add: m'_def conn_ok_def req_ok_def)
  obtain e req' where p: "http_parse_request ?req = (Some e, req')" "req_ok req'" using parse_req_ok [OF r] by auto
  have res: "res_ok (hc_res s)" using assms(1) by (simp add: conn_ok_def)
  define rest where "rest = (case hc_state s of
      HTTP_PARSING_HEADER \<Rightarrow>
        if e = -1 then Some (s\<lparr>hc_req := req'\<rparr>, [Close])
        else if e = -2 then Some (s\<lparr>hc_req := req'\<rparr>, [])
        else if http_request_determine_body_len req' = 0 then handle_request peek handler he (s\<lparr>hc_req := req'\<rparr>)
        else receive_body peek handler he (s\<lparr>hc_req := req'\<lparr>hq_body := mb_prev m' + word_of_int e,
          hq_body_len := http_request_determine_body_len req'\<rparr>, hc_state := HTTP_RECEIVING_BODY\<rparr>)
    | HTTP_RECEIVING_BODY \<Rightarrow> receive_body peek handler he (s\<lparr>hc_req := ?req\<rparr>))"
  have on: "phttp_on_read peek handler he (int (length bytes)) (s\<lparr>hc_req := (hc_req s)\<lparr>hq_mem := m\<rparr>\<rparr>) = rest"
    using False c p(1) by (simp add: phttp_on_read_def rest_def Let_def split: http_state.splits)
  have "case rest of None \<Rightarrow> response_fails peek handler | Some (s', out) \<Rightarrow> conn_ok s'"
    unfolding rest_def
    using p(2) r res handle_ok [OF _ assms(2), of _ peek he] receive_body_ok [OF _ assms(2), of _ peek he]
    by (auto simp: conn_ok_def req_ok_def split: http_state.splits if_splits)
  then show ?thesis unfolding on .
qed

section \<open>Any sequence of events\<close>

inductive conn_reach :: "(addr \<Rightarrow> byte list) \<Rightarrow> ('cb, 'd) handler \<Rightarrow> ('cb, 'd) client_socket \<Rightarrow> bool"
  for peek handler where
  accepted: "conn_reach peek handler (http_client_socket_init b1 b2 b3 d)"
| alloc: "conn_reach peek handler s \<Longrightarrow> unat (membuf_used (hq_mem (hc_req s))) + 4096 < 2 ^ 64 \<Longrightarrow>
    conn_reach peek handler (snd (phttp_on_alloc blk s))"
| received: "conn_reach peek handler s \<Longrightarrow> length bytes \<le> unat (membuf_avail (hq_mem (hc_req s))) \<Longrightarrow>
    memcpy_cur (hq_mem (hc_req s)) bytes = Some m \<Longrightarrow>
    phttp_on_read peek handler he (int (length bytes)) (s\<lparr>hc_req := (hc_req s)\<lparr>hq_mem := m\<rparr>\<rparr>) = Some (s', out) \<Longrightarrow>
    conn_reach peek handler s'"
| written: "conn_reach peek handler s \<Longrightarrow> conn_reach peek handler (fst (after_send_http_res s))"
| continue_written: "conn_reach peek handler s \<Longrightarrow> conn_reach peek handler (after_send_continue_res s)"

lemma alloc_ok:
  assumes "conn_ok s" "unat (membuf_used (hq_mem (hc_req s))) + 4096 < 2 ^ 64"
  obtains s' where "phttp_on_alloc blk s = ((mb_cur (hq_mem (hc_req s')), membuf_avail (hq_mem (hc_req s'))), s')"
    "conn_ok s'" "1024 \<le> unat (membuf_avail (hq_mem (hc_req s')))"
proof -
  let ?m = "hq_mem (hc_req s)"
  have ok: "mb_ok ?m" using assms(1) by (simp add: conn_ok_def req_ok_def)
  have g: "mb_ok (membuf_grow blk ?m 4096)" "membuf_avail (membuf_grow blk ?m 4096) = 4096"
    using grow_ok(1,2) [OF ok, of 4096 blk] assms(2) by simp_all
  define s' where "s' = snd (phttp_on_alloc blk s)"
  have m: "hq_mem (hc_req s') = (if membuf_avail ?m < 1024 then membuf_grow blk ?m 4096 else ?m)"
    by (simp add: s'_def phttp_on_alloc_def Let_def)
  have "conn_ok s'" using assms(1) g(1) by (auto simp: s'_def phttp_on_alloc_def Let_def conn_ok_def req_ok_def)
  moreover have "1024 \<le> unat (membuf_avail (hq_mem (hc_req s')))"
    using g(2) by (simp add: m word_less_nat_alt)
  moreover have "phttp_on_alloc blk s = ((mb_cur (hq_mem (hc_req s')), membuf_avail (hq_mem (hc_req s'))), s')"
    unfolding m by (simp add: s'_def phttp_on_alloc_def Let_def)
  ultimately show thesis using that by blast
qed

lemma conn_reach_ok: "conn_reach peek handler s \<Longrightarrow> handler_ok handler \<Longrightarrow> conn_ok s"
proof (induction rule: conn_reach.induct)
  case (accepted b1 b2 b3 d)
  show ?case
    by (simp add: http_client_socket_init_def conn_ok_def req_ok_def res_ok_def http_request_init_def http_response_init_def
        mb_ok_init HTTP_HEADERS_MAX_def)
next
  case (alloc s blk)
  then show ?case using alloc_ok [of s blk] by (metis snd_conv)
next
  case (received s bytes m he s' out)
  then show ?case using on_read_ok [of s handler bytes m peek he] by simp
qed (auto simp: after_send_http_res_def after_send_continue_res_def conn_ok_def req_ok_def res_ok_def http_request_reset_def
    http_response_reset_def reset_ok HTTP_HEADERS_MAX_def Let_def)


text \<open>When the buffer is moved while a body is being received, the body pointer stays behind: the number
  of body bytes received is off by the distance of the two blocks.\<close>

theorem growing_loses_body:
  assumes "membuf_avail (hq_mem (hc_req s)) < 1024"
  shows "let req = hc_req s; req' = hc_req (snd (phttp_on_alloc blk s)) in
    mb_cur (hq_mem req') - hq_body req' = (mb_cur (hq_mem req) - hq_body req) + (fst blk - mb_begin (hq_mem req))"
  using assms by (simp add: phttp_on_alloc_def membuf_grow_def Let_def)

section \<open>A sample\<close>

definition answer_ok :: "(unit, unit) handler" where
  "answer_ok req res = (0, req, res\<lparr>hr_status := 200, hr_reason := [79, 75]\<rparr>)"

lemma answer_ok_ok: "handler_ok answer_ok"
  by (simp add: handler_ok_def answer_ok_def res_ok_def)


end
