(* ===== verification/Startup.thy ===== *)
theory Startup
  imports Options KvStore PhttpConn
begin

text \<open>
  How the programs find each other: the addresses of the switch daemon
  (src/switch/src/cpp/prism_switchd.cpp, prism_switch_client.cpp), the configuration of the servers
  (src/apps/kvs/common.h), and the connections of proxies and backends to each other.  The contents of
  files are a parameter.  An index out of range is \<open>None\<close>.
\<close>

section \<open>Addresses\<close>

text \<open>\<open>inet_addr\<close> of the C library: up to four numbers in any base of C literals, the last one filling
  the remaining bytes; the result is in network byte order, and all ones for anything else.\<close>

function inet_parts :: "int list \<Rightarrow> byte list \<Rightarrow> int list option" where
  "inet_parts acc s =
     (if s = [] \<or> \<not> is_digit (s ! 0) then None
      else
        let (v, n) = strtoll 0 s; rest = drop n s
        in if v > 0xffffffff then None
           else if rest \<noteq> [] \<and> rest ! 0 = 46 then
             (if length acc < 3 \<and> v \<le> 255 then inet_parts (acc @ [v]) (drop 1 rest) else None)
           else if rest \<noteq> [] \<and> \<not> isspace (rest ! 0) then None
           else if v < 256 ^ (4 - length acc) then Some (acc @ [v]) else None)"
  by pat_completeness auto
termination by (relation "measure (\<lambda>(acc, s). 4 - length acc)") auto

declare inet_parts.simps [simp del]

definition INADDR_NONE :: u32 where "INADDR_NONE = 0xffffffff"

definition inet_addr :: "byte list \<Rightarrow> u32" where
  "inet_addr s =
     (case inet_parts [] s of
        None \<Rightarrow> INADDR_NONE
      | Some vs \<Rightarrow> htonl (word_of_int (foldr (\<lambda>(i, v) r. v * 256 ^ (3 - i) + r) (enumerate 0 (butlast vs)) (last vs))))"

definition end_point :: "byte list list \<Rightarrow> int \<Rightarrow> (u32 \<times> u16) option" where
  "end_point spl add =
     (case spl of a # p # _ \<Rightarrow> Some (inet_addr a, htons (word_of_int (atoi p + add))) | _ \<Rightarrow> None)"

section \<open>The switch daemon and its client\<close>

definition build_sw_addr :: "byte list \<Rightarrow> (u32 \<times> u16) option" where
  "build_sw_addr host = end_point (split host 58) 0"

definition prism_switch_client_create :: "byte list \<Rightarrow> (u32 \<times> u16) option" where
  "prism_switch_client_create host = (case client_split host 58 of None \<Rightarrow> None | Some spl \<Rightarrow> end_point spl 0)"

record daemon_conf =
  dc_bpf_src :: "byte list option"
  dc_vale_name :: "byte list option"
  dc_include_path :: "byte list option"
  dc_sw :: "u32 \<times> u16"

text \<open>\<open>opts\<close> is what \<open>getopt\<close> returns, option by option; \<open>None\<close> stands for one it does not know.\<close>

fun getopt_loop :: "(byte \<times> byte list) option list \<Rightarrow> daemon_conf \<Rightarrow> (int \<times> daemon_conf) option" where
  "getopt_loop [] g = Some (0, g)"
| "getopt_loop (None # opts) g = Some (EINVAL, g)"
| "getopt_loop (Some (opt, optarg) # opts) g =
     (if opt = 102 then getopt_loop opts (g\<lparr>dc_bpf_src := Some optarg\<rparr>)
      else if opt = 115 then getopt_loop opts (g\<lparr>dc_vale_name := Some optarg\<rparr>)
      else if opt = 73 then getopt_loop opts (g\<lparr>dc_include_path := Some optarg\<rparr>)
      else if opt = 97 then
        (case build_sw_addr optarg of None \<Rightarrow> None | Some sw \<Rightarrow> getopt_loop opts (g\<lparr>dc_sw := sw\<rparr>))
      else Some (EINVAL, g))"

text \<open>The configuration is a static variable, zero at first.\<close>

definition parse_options :: "(byte \<times> byte list) option list \<Rightarrow> (int \<times> daemon_conf) option" where
  "parse_options opts =
     (case getopt_loop opts \<lparr>dc_bpf_src = None, dc_vale_name = None, dc_include_path = None, dc_sw = (0, 0)\<rparr> of
        None \<Rightarrow> None
      | Some (error, g) \<Rightarrow>
          if error \<noteq> 0 then Some (error, g)
          else if dc_vale_name g = None \<or> dc_include_path g = None then Some (EINVAL, g)
          else Some (0, g))"

text \<open>The name of the VALE switch ends with a colon; \<open>back\<close> of an empty string is undefined.\<close>

definition vale_switch_name :: "byte list \<Rightarrow> byte list option" where
  "vale_switch_name vale_name =
     (if vale_name = [] then None else Some (if last vale_name \<noteq> 58 then vale_name @ [58] else vale_name))"

section \<open>The configuration of a server\<close>

definition tweak_phttp_args :: "phttp_args \<Rightarrow> u32 \<Rightarrow> phttp_args" where
  "tweak_phttp_args pa workerid = pa\<lparr>pa_ho_port := pa_ho_port pa + workerid\<rparr>"

text \<open>The number of bytes read and the bytes, of which at most \<open>max_len - 1\<close> are read.\<close>

definition read_from_file :: "(byte list \<Rightarrow> byte list option) \<Rightarrow> byte list \<Rightarrow> nat \<Rightarrow> byte list" where
  "read_from_file files fname max_len = (case files fname of None \<Rightarrow> [] | Some f \<Rightarrow> take (max_len - 1) f)"

datatype tls_load = Load_certificates "byte list" | Load_private_key "byte list"

definition load_keys :: "(byte list \<Rightarrow> byte list option) \<Rightarrow> byte list \<Rightarrow> byte list \<Rightarrow> tls_load list" where
  "load_keys files fname priv_fname =
     (let buf = read_from_file files fname 0xFFFF; buf2 = read_from_file files priv_fname 0xFFFF
      in if length buf > 0 then [Load_certificates buf, Load_private_key buf2] else [])"

record server_conf =
  sc_backlog :: int
  sc_addr :: u32
  sc_port :: u16
  sc_mac :: "byte list"
  sc_tls :: "tls_load list option"

definition init_server_conf :: "(byte list \<Rightarrow> byte list option) \<Rightarrow> phttp_args \<Rightarrow> server_conf" where
  "init_server_conf files pa = \<lparr>sc_backlog = pa_backlog pa, sc_addr = inet_addr (pa_addr pa),
     sc_port = htons (ucast (pa_port pa)), sc_mac = take 6 (pa_mac pa),
     sc_tls = (if pa_tls pa then Some (load_keys files (pa_tls_crt pa) (pa_tls_key pa)) else None)\<rparr>"

definition init_handoff_server_conf :: "phttp_args \<Rightarrow> int \<times> u32 \<times> u16" where
  "init_handoff_server_conf pa = (pa_ho_backlog pa, inet_addr (pa_ho_addr pa), htons (ucast (pa_ho_port pa)))"

definition init_global_conf :: "phttp_args \<Rightarrow> (u32 \<times> u16) option" where
  "init_global_conf pa = prism_switch_client_create (pa_sw_addr pa @ [58] @ pa_sw_port pa)"

section \<open>Connections to the other servers\<close>

text \<open>The connection in an element of \<open>backends\<close> or \<open>conn_pool\<close>, or of the next server.\<close>

record pool_conn =
  pc_addr :: u32
  pc_port :: u16
  pc_connected :: bool
  pc_timer :: bool

definition start_connect :: "u32 \<Rightarrow> u16 \<Rightarrow> pool_conn" where
  "start_connect addr port = \<lparr>pc_addr = addr, pc_port = port, pc_connected = False, pc_timer = True\<rparr>"

text \<open>The timer fires every second; the arguments are the socket, the result of \<open>connect\<close>, and whether one of
  \<open>uv_tcp_open\<close>, \<open>uv_tcp_nodelay\<close> and \<open>uv_timer_stop\<close> fails.\<close>

definition try_connect :: "int \<Rightarrow> int \<Rightarrow> bool \<Rightarrow> pool_conn \<Rightarrow> pool_conn option" where
  "try_connect sock error uv_fails c =
     (if \<not> sock > 0 then None
      else if error \<noteq> 0 then Some c
      else if uv_fails then None
      else Some (c\<lparr>pc_connected := True, pc_timer := False\<rparr>))"

fun those_some :: "'a option list \<Rightarrow> 'a list option" where
  "those_some [] = Some []"
| "those_some (None # xs) = None"
| "those_some (Some x # xs) = map_option (Cons x) (those_some xs)"

definition start_connect_to_backends :: "byte list \<Rightarrow> u32 \<Rightarrow> (u32 \<times> pool_conn list) option" where
  "start_connect_to_backends bes_arg workerid =
     (let bes = split bes_arg 44
      in map_option (Pair (of_nat (length bes)))
           (those_some (map (\<lambda>be. map_option (\<lambda>(a, p). start_connect a p) (end_point (split be 58) (uint workerid))) bes)))"

definition start_connect_to_proxy :: "byte list \<Rightarrow> u16 \<Rightarrow> u32 \<Rightarrow> u32 \<times> pool_conn list" where
  "start_connect_to_proxy proxy_addr proxy_port workerid =
     (1, [start_connect (inet_addr proxy_addr) (htons (ucast (ucast proxy_port + workerid :: u32)))])"

definition start_connect_to_next_server :: "byte list \<Rightarrow> u16 \<Rightarrow> u32 \<Rightarrow> pool_conn option" where
  "start_connect_to_next_server next_addr next_port workerid =
     (let addr = inet_addr next_addr
      in if addr = 0 then None else Some (start_connect addr (htons (ucast (ucast next_port + workerid :: u32)))))"

section \<open>A worker\<close>

definition init_all_conf ::
  "(byte list \<Rightarrow> byte list option) \<Rightarrow> phttp_args \<Rightarrow> (server_conf \<times> (int \<times> u32 \<times> u16) \<times> u32 \<times> u16) option" where
  "init_all_conf files pa =
     map_option (\<lambda>sw. (init_server_conf files pa, init_handoff_server_conf pa, sw)) (init_global_conf pa)"

record worker =
  wk_switch :: "u32 \<times> u16"
  wk_http :: "listen_call list"
  wk_handoff :: "listen_call list"
  wk_conns :: "u32 \<times> pool_conn list"

text \<open>Worker \<open>i\<close>: the configuration, the two listening sockets and the connections to the other servers, which
  \<open>connect\<close> makes.\<close>

definition start_worker ::
  "(listen_call \<Rightarrow> int) \<Rightarrow> (byte list \<Rightarrow> byte list option) \<Rightarrow> phttp_args \<Rightarrow> u32 \<Rightarrow> (u32 \<times> pool_conn list) option \<Rightarrow> worker option" where
  "start_worker call files pa i connect =
     Option.bind (init_all_conf files (tweak_phttp_args pa i)) (\<lambda>(sc, (backlog, addr, port), sw).
     Option.bind (phttp_server_init call (sc_addr sc) (sc_port sc) (sc_backlog sc)) (\<lambda>http.
     Option.bind (phttp_handoff_server_init call addr port backlog) (\<lambda>handoff.
     map_option (\<lambda>conns. \<lparr>wk_switch = sw, wk_http = http, wk_handoff = handoff, wk_conns = conns\<rparr>) connect)))"

definition kvs_proxy_worker ::
  "(listen_call \<Rightarrow> int) \<Rightarrow> (byte list \<Rightarrow> byte list option) \<Rightarrow> phttp_args \<Rightarrow> byte list \<Rightarrow> u32 \<Rightarrow> worker option" where
  "kvs_proxy_worker call files pa bes_arg i = start_worker call files pa i (start_connect_to_backends bes_arg i)"

definition kvs_backend_worker ::
  "(listen_call \<Rightarrow> int) \<Rightarrow> (byte list \<Rightarrow> byte list option) \<Rightarrow> phttp_args \<Rightarrow> byte list \<Rightarrow> u16 \<Rightarrow> u32 \<Rightarrow> worker option" where
  "kvs_backend_worker call files pa proxy_addr proxy_port i =
     start_worker call files pa i (Some (start_connect_to_proxy proxy_addr proxy_port i))"

section \<open>The parties agree\<close>

lemma client_split_two:
  fixes a p :: "byte list"
  assumes "58 \<notin> set a" "58 \<notin> set p" "p \<noteq> []"
  shows "client_split (a @ [58] @ p) 58 = Some [a, p]" "split (a @ [58] @ p) 58 = [a, p]"
proof -
  have "parts 58 (a @ [58] @ p) = [a, p]" using assms by (simp add: parts_cut parts_one)
  then show "client_split (a @ [58] @ p) 58 = Some [a, p]" "split (a @ [58] @ p) 58 = [a, p]"
    using assms splits_agree [of "a @ [58] @ p" 58] by auto
qed

text \<open>The daemon, told its address as one option, and the servers, told it as two, use the same one.\<close>

theorem switch_address_agrees:
  assumes "58 \<notin> set (pa_sw_addr pa)" and "58 \<notin> set (pa_sw_port pa)" and "pa_sw_port pa \<noteq> []"
  shows "init_global_conf pa = build_sw_addr (pa_sw_addr pa @ [58] @ pa_sw_port pa) \<and>
    init_global_conf pa = Some (inet_addr (pa_sw_addr pa), htons (word_of_int (atoi (pa_sw_port pa))))"
  using client_split_two [OF assms]
  by (simp add: init_global_conf_def prism_switch_client_create_def build_sw_addr_def end_point_def)

lemma those_some_map: "(\<And>x. x \<in> set xs \<Longrightarrow> f x = Some (g x)) \<Longrightarrow> those_some (map f xs) = Some (map g xs)"
  by (induction xs) auto

lemma parts_join:
  assumes "d \<notin> set x" "\<forall>y \<in> set ys. d \<notin> set y"
  shows "parts d (x @ concat (map (\<lambda>y. d # y) ys)) = x # ys"
  using assms by (induction ys arbitrary: x) (auto simp: parts_one parts_cut)

text \<open>A list of backends as it is written on the command line.\<close>

definition backend_text :: "byte list \<times> byte list \<Rightarrow> byte list" where
  "backend_text = (\<lambda>(a, p). a @ [58] @ p)"

fun backends_text :: "(byte list \<times> byte list) list \<Rightarrow> byte list" where
  "backends_text [] = []"
| "backends_text (h # hs) = backend_text h @ concat (map (\<lambda>h. 44 # backend_text h) hs)"

definition backend_ok :: "byte list \<times> byte list \<Rightarrow> bool" where
  "backend_ok = (\<lambda>(a, p). 58 \<notin> set a \<and> 58 \<notin> set p \<and> 44 \<notin> set a \<and> 44 \<notin> set p \<and> p \<noteq> [])"

lemma connects_to_backends:
  assumes "\<forall>h \<in> set hosts. backend_ok h" "hosts \<noteq> []"
  shows "start_connect_to_backends (backends_text hosts) i = Some (of_nat (length hosts),
    map (\<lambda>(a, p). start_connect (inet_addr a) (htons (word_of_int (atoi p + uint i)))) hosts)"
proof -
  let ?f = "\<lambda>b. map_option (\<lambda>(a, p). start_connect a p) (end_point (split b 58) (uint i))"
  let ?g = "\<lambda>(a, p). start_connect (inet_addr a) (htons (word_of_int (atoi p + uint i)))"
  obtain h hs where hosts: "hosts = h # hs" using assms(2) by (cases hosts) auto
  have nc: "44 \<notin> set (backend_text x)" if "x \<in> set hosts" for x
    using assms(1) that by (cases x) (auto simp: backend_ok_def backend_text_def)
  have sp: "split (backends_text hosts) 44 = map backend_text hosts"
    using parts_join [of 44 "backend_text h" "map backend_text hs"] nc by (auto simp: split_parts hosts comp_def)
  have "?f (backend_text h) = Some (?g h)" if "h \<in> set hosts" for h
  proof -
    obtain a p where h: "h = (a, p)" by (cases h)
    then have "58 \<notin> set a" "58 \<notin> set p" "p \<noteq> []" using assms(1) that by (auto simp: backend_ok_def)
    then have "split (backend_text h) 58 = [a, p]" using client_split_two(2) h by (simp add: backend_text_def)
    then show ?thesis by (simp add: end_point_def h)
  qed
  then have "those_some (map (\<lambda>h. ?f (backend_text h)) hosts) = Some (map ?g hosts)" by (rule those_some_map)
  then have "those_some (map ?f (map backend_text hosts)) = Some (map ?g hosts)" by (simp only: map_map comp_def)
  then show ?thesis unfolding start_connect_to_backends_def Let_def sp by simp
qed

lemma all_ok_calls: "all_ok call cs = Some cs' \<Longrightarrow> cs' = cs"
  by (induction cs arbitrary: cs') (auto split: if_splits)

lemma worker_listens:
  assumes "start_worker call files pa i connect = Some W"
  shows "Bind (inet_addr (pa_ho_addr pa)) (htons (ucast (pa_ho_port pa + i))) \<in> set (wk_handoff W) \<and> connect = Some (wk_conns W)"
proof -
  let ?pa = "tweak_phttp_args pa i"
  obtain sw http n where w: "phttp_handoff_server_init call (inet_addr (pa_ho_addr ?pa)) (htons (ucast (pa_ho_port ?pa))) n = Some (wk_handoff W)"
    "connect = Some (wk_conns W)"
    using assms by (auto simp: start_worker_def init_all_conf_def init_handoff_server_conf_def bind_eq_Some_conv)
  show ?thesis
    using all_ok_calls [OF w(1) [unfolded phttp_handoff_server_init_def]] w(2) by (simp add: tweak_phttp_args_def)
qed

lemma take_bit_sum: "take_bit 16 (n + take_bit 32 i) = take_bit 16 (n + i)" for n i :: int
  using take_bit_add [of 16 n "take_bit 32 i"] take_bit_add [of 16 n i] by simp

lemma ucast_sum: "(ucast (word_of_int n + i :: u32) :: u16) = word_of_int (n + uint i)"
  by transfer (simp add: take_bit_sum take_bit_add)

text \<open>C40: the workers find each other: when the proxy is given the addresses of the backends, and a backend
  that of the proxy, worker \<open>i\<close> of the proxy connects to the port on which worker \<open>i\<close> of that backend
  listens for handoffs, and worker \<open>i\<close> of the backend to the one on which worker \<open>i\<close> of the proxy listens.\<close>

theorem workers_meet:
  assumes "\<forall>h \<in> set hosts. backend_ok h" and "(pa_ho_addr pb, p) \<in> set hosts" and "pa_ho_port pb = word_of_int (atoi p)"
    and "kvs_proxy_worker call files pp (backends_text hosts) i = Some P"
    and "kvs_backend_worker call' files' pb (pa_ho_addr pp) proxy_port i = Some B" and "pa_ho_port pp = ucast proxy_port"
  shows "(\<exists>c \<in> set (snd (wk_conns P)). Bind (pc_addr c) (pc_port c) \<in> set (wk_handoff B)) \<and>
    (\<exists>c \<in> set (snd (wk_conns B)). Bind (pc_addr c) (pc_port c) \<in> set (wk_handoff P))"
proof
  note P = worker_listens [OF assms(4) [unfolded kvs_proxy_worker_def]]
  note B = worker_listens [OF assms(5) [unfolded kvs_backend_worker_def]]
  have "hosts \<noteq> []" using assms(2) by auto
  from connects_to_backends [OF assms(1) this, of i]
  have "start_connect (inet_addr (pa_ho_addr pb)) (htons (word_of_int (atoi p + uint i))) \<in> set (snd (wk_conns P))"
    using P assms(2) by (force simp: image_iff)
  moreover have "htons (ucast (pa_ho_port pb + i)) = htons (word_of_int (atoi p + uint i))"
    by (simp only: assms(3) ucast_sum)
  ultimately show "\<exists>c \<in> set (snd (wk_conns P)). Bind (pc_addr c) (pc_port c) \<in> set (wk_handoff B)"
    using B by (metis start_connect_def pool_conn.select_convs(1,2))
  show "\<exists>c \<in> set (snd (wk_conns B)). Bind (pc_addr c) (pc_port c) \<in> set (wk_handoff P)"
  proof -
    have "wk_conns B = (1, [start_connect (inet_addr (pa_ho_addr pp)) (htons (ucast (ucast proxy_port + i :: u32)))])"
      using B by (simp add: start_connect_to_proxy_def)
    then show ?thesis using P assms(6) by (simp add: start_connect_def)
  qed
qed

section \<open>A sample\<close>

definition server_args :: "string \<Rightarrow> u32 \<Rightarrow> phttp_args" where
  "server_args ho_addr ho_port = \<lparr>pa_addr = str ''10.0.0.100'', pa_port = 80, pa_mac = [2, 0, 0, 0, 0, 1], pa_backlog = 10,
     pa_tls = False, pa_tls_crt = [], pa_tls_key = [], pa_ho_addr = str ho_addr, pa_ho_port = ho_port, pa_ho_backlog = 10,
     pa_sw_addr = str ''10.0.0.254'', pa_sw_port = str ''9000''\<rparr>"

definition sample_proxy :: worker where
  "sample_proxy = the (kvs_proxy_worker (\<lambda>_. 0) (\<lambda>_. None) (server_args ''10.0.0.1'' 7000) (str ''10.0.0.2:8000,10.0.0.3:8000'') 2)"

definition sample_backend :: worker where
  "sample_backend = the (kvs_backend_worker (\<lambda>_. 0) (\<lambda>_. None) (server_args ''10.0.0.3'' 8000) (str ''10.0.0.1'') 7000 2)"

theorem workers_meet_witness:
  "(\<exists>c \<in> set (snd (wk_conns sample_proxy)). Bind (pc_addr c) (pc_port c) \<in> set (wk_handoff sample_backend)) \<and>
   (\<exists>c \<in> set (snd (wk_conns sample_backend)). Bind (pc_addr c) (pc_port c) \<in> set (wk_handoff sample_proxy))"
proof -
  let ?hosts = "[(str ''10.0.0.2'', str ''8000''), (str ''10.0.0.3'', str ''8000'')]"
  let ?pp = "server_args ''10.0.0.1'' 7000" and ?pb = "server_args ''10.0.0.3'' 8000"
  have h: "\<forall>h \<in> set ?hosts. backend_ok h" "(pa_ho_addr ?pb, str ''8000'') \<in> set ?hosts"
    "pa_ho_port ?pb = word_of_int (atoi (str ''8000''))" by code_simp+
  have t: "backends_text ?hosts = str ''10.0.0.2:8000,10.0.0.3:8000''" "pa_ho_addr ?pp = str ''10.0.0.1''"
    "pa_ho_port ?pp = ucast (7000 :: u16)" by code_simp+
  have s: "kvs_proxy_worker (\<lambda>_. 0) (\<lambda>_. None) ?pp (backends_text ?hosts) 2 = Some sample_proxy"
    "kvs_backend_worker (\<lambda>_. 0) (\<lambda>_. None) ?pb (pa_ho_addr ?pp) 7000 2 = Some sample_backend"
    unfolding t by (code_simp, code_simp)
  show ?thesis by (rule workers_meet [OF h s t(3)])
qed

end
