(* ===== verification/Bench.thy ===== *)
theory Bench
  imports KvStore
begin

text \<open>
  The benchmark, src/apps/bench: the path of a request is the size of the object wanted.  The proxy hands
  a request whose path it can read to the backends in turn (phttp_bench_proxy.cpp), and a backend answers
  with that many bytes (phttp_bench_backend.cpp).  A failed assertion is \<open>None\<close>.
\<close>

text \<open>\<open>sscanf(path, "/%lu", &objsize)\<close>: the number of conversions, or -1 when the string ends before the first
  one, and the value converted.\<close>

definition scan_size :: "byte list \<Rightarrow> int \<times> u64 option" where
  "scan_size mem =
     (case takeWhile (\<lambda>c. c \<noteq> 0) mem of
        [] \<Rightarrow> (-1, None)
      | c # s \<Rightarrow>
          if c \<noteq> 47 then (0, None)
          else
            let s = dropWhile isspace s;
                sg = (if s \<noteq> [] \<and> (s ! 0 = 43 \<or> s ! 0 = 45) then 1 else 0);
                neg = (s \<noteq> [] \<and> s ! 0 = 45);
                ds = takeWhile is_digit (drop sg s);
                v = digits_value 10 ds
            in if s = [] then (-1, None)
               else if ds = [] then (0, None)
               else (1, Some (if v > 2 ^ 64 - 1 then -1 else if neg then - word_of_int v else word_of_int v)))"

definition bench_proxy_request_handler ::
  "u32 \<Rightarrow> u32 \<Rightarrow> http_request \<Rightarrow> ('cb, target) http_response \<Rightarrow> (int \<times> u32 \<times> ('cb, target) http_response) option" where
  "bench_proxy_request_handler nbackends rr req res =
     (if fst (scan_size (mem_from (hq_mem req) (hq_path req))) = 0 then
        let res = respond 500 ''Internal Server Error'' res
        in case memcpy_cur (hr_body_mem res) (str ''Debug: Invalid path\<newline>'') of
             None \<Rightarrow> None
           | Some mem \<Rightarrow>
               let (error, mem) = membuf_consume mem 20
               in if error \<noteq> 0 then None else Some (0, rr, res\<lparr>hr_body_mem := mem\<rparr>)
      else Some (0, if rr + 1 = nbackends then 0 else rr + 1, hand_off (Backends rr) res))"

text \<open>\<open>junk\<close> is what \<open>objsize\<close> holds when nothing was converted.\<close>

definition bench_backend_request_handler ::
  "u64 \<Rightarrow> 'db kvs_backend \<Rightarrow> http_request \<Rightarrow> ('cb, target) http_response \<Rightarrow> bool \<Rightarrow>
   (int \<times> 'db kvs_backend \<times> ('cb, target) http_response) option" where
  "bench_backend_request_handler junk b req res was_imported =
     (if was_imported then
        let objsize = (case snd (scan_size (mem_from (hq_mem req) (hq_path req))) of Some v \<Rightarrow> v | None \<Rightarrow> junk);
            res = respond 200 ''OK'' res;
            (error, mem) = membuf_consume (hr_body_mem res) objsize
        in if error \<noteq> 0 then None else Some (0, b, res\<lparr>hr_body_mem := mem\<rparr>)
      else Some (0, next_conn b res))"

text \<open>The path of a request is followed by a blank.\<close>

lemma scan_size_dec:
  assumes "mem = (47 # dec n) @ 32 # r" "n < 2 ^ 64"
  shows "scan_size mem = (1, Some (of_nat n))"
proof -
  have d: "\<forall>c \<in> set (dec n). is_digit c" by (rule dec_digits)
  then have nz: "\<And>c. c \<in> set (dec n) \<Longrightarrow> c \<noteq> 0 \<and> \<not> isspace c \<and> c \<noteq> 43 \<and> c \<noteq> 45"
    by (auto simp: is_digit_def isspace_def word_le_nat_alt)
  obtain c cs where cs: "dec n = c # cs" by (cases "dec n") auto
  let ?s = "dec n @ 32 # takeWhile (\<lambda>c. c \<noteq> 0) r"
  have tw: "takeWhile (\<lambda>c. c \<noteq> 0) mem = 47 # ?s"
    using nz by (simp add: assms(1) takeWhile_append2)
  have h: "?s ! 0 = c" "\<not> isspace c" "c \<noteq> 43" "c \<noteq> 45" using nz [of c] cs by simp_all
  have dw: "dropWhile isspace ?s = ?s" using h cs by simp
  have ds: "takeWhile is_digit ?s = dec n" using d by (simp add: takeWhile_append2 is_digit_def)
  have v: "digits_value 10 (dec n) = int n" by (rule digits_value_dec)
  show ?thesis
    using h dw ds v assms(2) by (simp add: scan_size_def tw Let_def del: dropWhile_eq_Nil_conv)
qed

text \<open>A request for \<open>n\<close> bytes is handed to the next backend, and a backend it was handed to answers with a body
  of exactly \<open>n\<close> bytes; more than the body buffer holds brings it down.\<close>

theorem bench_answers:
  assumes "mem_from (hq_mem req) (hq_path req) = (47 # dec n) @ 32 # r" and "n < 2 ^ 64"
    and "mem_from (hq_mem req') (hq_path req') = (47 # dec n) @ 32 # r'"
  shows "bench_proxy_request_handler nb rr req res = Some (0, if rr + 1 = nb then 0 else rr + 1, hand_off (Backends rr) res)"
    and "if n \<le> 5000000
      then \<exists>res'. bench_backend_request_handler junk b req' (http_response_init b3 b4 d :: ('cb, target) http_response) True = Some (0, b, res') \<and>
        hr_status res' = 200 \<and> length (used_bytes (hr_body_mem res')) = n
      else bench_backend_request_handler junk b req' (http_response_init b3 b4 d :: ('cb, target) http_response) True = None"
proof -
  show "bench_proxy_request_handler nb rr req res = Some (0, if rr + 1 = nb then 0 else rr + 1, hand_off (Backends rr) res)"
    using scan_size_dec [OF assms(1,2)] by (simp add: bench_proxy_request_handler_def)
  let ?m = "membuf_init b4 5000000" and ?n = "of_nat n :: u64"
  have n: "unat ?n = n" by (rule unat_of_nat64 [OF assms(2)])
  note sc = scan_size_dec [OF assms(3,2)]
  have r: "hr_body_mem (http_response_init b3 b4 d :: ('cb, target) http_response) = ?m" by (simp add: http_response_init_def)
  have le: "?n \<le> membuf_avail ?m \<longleftrightarrow> n \<le> 5000000" by (simp add: word_le_nat_alt n)
  show "if n \<le> 5000000
      then \<exists>res'. bench_backend_request_handler junk b req' (http_response_init b3 b4 d :: ('cb, target) http_response) True = Some (0, b, res') \<and>
        hr_status res' = 200 \<and> length (used_bytes (hr_body_mem res')) = n
      else bench_backend_request_handler junk b req' (http_response_init b3 b4 d :: ('cb, target) http_response) True = None"
  proof (cases "n \<le> 5000000")
    case True
    define m where "m = snd (membuf_consume ?m ?n)"
    have fits: "?n \<le> membuf_avail ?m" using True le by simp
    have c: "membuf_consume ?m ?n = (0, m)" using fits by (auto simp: m_def membuf_consume_def)
    note k = consume_ok [OF mb_ok_init fits, folded m_def]
    have "length (used_bytes m) = n" using length_used [OF k(1)] k(2,3) n by simp
    then show ?thesis
      using True c sc r by (simp add: bench_backend_request_handler_def respond_def)
  next
    case False
    then have "membuf_avail ?m < ?n" using le by simp
    then have "fst (membuf_consume ?m ?n) \<noteq> 0" by (simp add: membuf_consume_def)
    then show ?thesis
      using False sc r by (cases "membuf_consume ?m ?n") (simp add: bench_backend_request_handler_def respond_def)
  qed
qed

end
