(* ===== verification/Connect.thy ===== *)
theory Connect
  imports Prelude
begin

text \<open>
  Connecting to another server with a bounded number of retries, src/phttp_hoproto_connect.cpp.  libuv
  calls \<open>phttp_after_connect\<close> with the outcome of every attempt, and \<open>retry_connect\<close> when the timer
  fires, which starts the next one.  A failed assertion and \<open>uv_close\<close> of a NULL handle are \<open>None\<close>.
\<close>

definition UV_ECONNREFUSED :: int where "UV_ECONNREFUSED = -111"

text \<open>\<open>cc_timer\<close>: \<open>retry_timer\<close> is not NULL.\<close>

record connect_ctx =
  cc_retry :: u32
  cc_retry_limit :: u32
  cc_timer :: bool

datatype connect_action = Try_connect | Timer_init | Timer_start nat | Timer_close | User_cb int

definition phttp_start_connect :: "u32 \<Rightarrow> connect_ctx \<times> connect_action list" where
  "phttp_start_connect retry_limit = (\<lparr>cc_retry = 0, cc_retry_limit = retry_limit, cc_timer = False\<rparr>, [Try_connect])"

definition retry_connect :: "int \<Rightarrow> connect_action list option" where
  "retry_connect error = (if error \<noteq> 0 then None else Some [Try_connect])"

text \<open>The context is gone when the attempt was the last one.\<close>

definition phttp_after_connect :: "connect_ctx \<Rightarrow> int \<Rightarrow> (connect_ctx option \<times> connect_action list) option" where
  "phttp_after_connect ctx status =
     (if status = UV_ECONNREFUSED then
        if cc_retry ctx = cc_retry_limit ctx then
          if \<not> cc_timer ctx then None else Some (None, [Timer_close, User_cb status])
        else
          Some (Some (ctx\<lparr>cc_timer := True, cc_retry := cc_retry ctx + 1\<rparr>),
            (if \<not> cc_timer ctx then [Timer_init] else []) @ [Timer_start 1000])
      else if status \<noteq> 0 then None
      else if \<not> cc_timer ctx then None
      else Some (None, [User_cb status, Timer_close]))"

section \<open>All attempts\<close>

text \<open>\<open>outcome n\<close> is the status of attempt \<open>n\<close>; starting an attempt is assumed to succeed.\<close>

function connect_run :: "(nat \<Rightarrow> int) \<Rightarrow> nat \<Rightarrow> connect_ctx \<Rightarrow> connect_action list option" where
  "connect_run outcome n ctx =
     (case phttp_after_connect ctx (outcome n) of
        None \<Rightarrow> None
      | Some (None, acts) \<Rightarrow> Some acts
      | Some (Some ctx', acts) \<Rightarrow>
          (case retry_connect 0 of
             None \<Rightarrow> None
           | Some acts' \<Rightarrow> map_option (\<lambda>rest. acts @ acts' @ rest) (connect_run outcome (n + 1) ctx')))"
  by pat_completeness auto
termination
proof (relation "measure (\<lambda>(outcome, n, ctx). unat (cc_retry_limit ctx - cc_retry ctx))")
  fix outcome and n :: nat and ctx x y and acts acts' :: "connect_action list" and ctx'
  assume "phttp_after_connect ctx (outcome n) = Some x" "(y, acts) = x" "y = Some ctx'"
  then have s: "phttp_after_connect ctx (outcome n) = Some (Some ctx', acts)" by simp
  then have ne: "cc_retry ctx \<noteq> cc_retry_limit ctx" "cc_retry ctx' = cc_retry ctx + 1" "cc_retry_limit ctx' = cc_retry_limit ctx"
    by (auto simp: phttp_after_connect_def split: if_splits)
  let ?d = "cc_retry_limit ctx - cc_retry ctx"
  have "?d \<noteq> 0" using ne(1) by simp
  then have "unat (?d - 1) < unat ?d" by (metis measure_unat)
  then show "((outcome, n + 1, ctx'), outcome, n, ctx) \<in> measure (\<lambda>(outcome, n, ctx). unat (cc_retry_limit ctx - cc_retry ctx))"
    using ne by (simp add: algebra_simps)
qed simp

declare connect_run.simps [simp del]

definition phttp_connect :: "u32 \<Rightarrow> (nat \<Rightarrow> int) \<Rightarrow> connect_action list option" where
  "phttp_connect retry_limit outcome =
     (let (ctx, acts) = phttp_start_connect retry_limit in map_option (\<lambda>rest. acts @ rest) (connect_run outcome 0 ctx))"

section \<open>What the caller sees\<close>

definition attempts :: "connect_action list \<Rightarrow> nat" where
  "attempts acts = length (filter (\<lambda>a. a = Try_connect) acts)"

definition callbacks :: "connect_action list \<Rightarrow> int list" where
  "callbacks acts = concat (map (\<lambda>a. case a of User_cb s \<Rightarrow> [s] | _ \<Rightarrow> []) acts)"

lemma counts [simp]:
  "attempts [] = 0" "attempts (a # as) = (if a = Try_connect then 1 else 0) + attempts as" "attempts (as @ bs) = attempts as + attempts bs"
  "callbacks [] = []" "callbacks (a # as) = (case a of User_cb s \<Rightarrow> [s] | _ \<Rightarrow> []) @ callbacks as"
  "callbacks (as @ bs) = callbacks as @ callbacks bs"
  by (simp_all add: attempts_def callbacks_def)

text \<open>From a context whose timer exists, or with at least one refusal to come.\<close>

lemma run_ends:
  assumes "\<forall>i < k. outcome (n + i) = UV_ECONNREFUSED" "k \<le> unat (cc_retry_limit ctx - cc_retry ctx)"
    "outcome (n + k) = 0 \<or> outcome (n + k) = UV_ECONNREFUSED \<and> k = unat (cc_retry_limit ctx - cc_retry ctx)"
    "cc_timer ctx \<or> 0 < k"
  shows "\<exists>acts. connect_run outcome n ctx = Some acts \<and> attempts acts = k \<and> callbacks acts = [outcome (n + k)]"
  using assms
proof (induction k arbitrary: n ctx)
  case 0
  then have t: "cc_timer ctx" by simp
  from 0(3) show ?case
  proof
    assume "outcome (n + 0) = 0"
    then show ?case
      using t by (simp add: connect_run.simps [of outcome n ctx] phttp_after_connect_def UV_ECONNREFUSED_def)
  next
    assume "outcome (n + 0) = UV_ECONNREFUSED \<and> 0 = unat (cc_retry_limit ctx - cc_retry ctx)"
    moreover then have "cc_retry ctx = cc_retry_limit ctx" by (simp add: unat_eq_0)
    ultimately show ?case
      using t by (simp add: connect_run.simps [of outcome n ctx] phttp_after_connect_def)
  qed
next
  case (Suc k)
  let ?ctx = "ctx\<lparr>cc_timer := True, cc_retry := cc_retry ctx + 1\<rparr>" and ?d = "cc_retry_limit ctx - cc_retry ctx"
  have ne: "cc_retry ctx \<noteq> cc_retry_limit ctx" using Suc.prems(2) by auto
  have "?d \<noteq> 0" using ne by simp
  then have "1 \<le> unat ?d" by (simp add: Suc_leI unat_gt_0)
  then have "unat (?d - 1) = unat ?d - 1" using unat_sub [of 1 ?d] by (simp add: word_le_nat_alt)
  then have d: "unat (cc_retry_limit ctx - (cc_retry ctx + 1)) = unat ?d - 1" by (simp add: algebra_simps)
  have first: "outcome n = UV_ECONNREFUSED" using Suc.prems(1) by (metis add_0_right zero_less_Suc)
  have "\<forall>i < k. outcome (n + 1 + i) = UV_ECONNREFUSED"
  proof (intro allI impI)
    fix i assume "i < k"
    then show "outcome (n + 1 + i) = UV_ECONNREFUSED" using Suc.prems(1) [rule_format, of "i + 1"] by simp
  qed
  then have "\<exists>acts. connect_run outcome (n + 1) ?ctx = Some acts \<and> attempts acts = k \<and> callbacks acts = [outcome (n + 1 + k)]"
    using Suc.prems(2,3) d \<open>1 \<le> unat ?d\<close> by (intro Suc.IH) auto
  then show ?case
    using first ne
    by (auto simp: connect_run.simps [of outcome n ctx] phttp_after_connect_def retry_connect_def)
qed

text \<open>Connecting ends: a server that refuses the first connections is tried again until it accepts
  one or the limit is reached, the attempts are one more than the refusals that were retried, and the
  caller is called back exactly once, with the outcome of the last attempt.  When the very first attempt
  decides, because it succeeds or because no retries are allowed, the code closes a timer that it never
  created and crashes.\<close>

theorem connect_ends:
  assumes "\<forall>i < k. outcome i = UV_ECONNREFUSED" and "k \<le> unat retry_limit"
    and "outcome k = 0 \<or> outcome k = UV_ECONNREFUSED \<and> k = unat retry_limit"
  shows "if k = 0 then phttp_connect retry_limit outcome = None
    else \<exists>acts. phttp_connect retry_limit outcome = Some acts \<and> attempts acts = k + 1 \<and> callbacks acts = [outcome k]"
proof (cases "k = 0")
  case True
  then have "connect_run outcome 0 \<lparr>cc_retry = 0, cc_retry_limit = retry_limit, cc_timer = False\<rparr> = None"
    using assms(3) by (auto simp: connect_run.simps [of outcome 0] phttp_after_connect_def UV_ECONNREFUSED_def unat_eq_0)
  then show ?thesis using True by (simp add: phttp_connect_def phttp_start_connect_def)
next
  case False
  let ?ctx = "\<lparr>cc_retry = 0, cc_retry_limit = retry_limit, cc_timer = False\<rparr>"
  have "\<exists>acts. connect_run outcome 0 ?ctx = Some acts \<and> attempts acts = k \<and> callbacks acts = [outcome (0 + k)]"
    using assms False by (intro run_ends) simp_all
  then show ?thesis using False by (auto simp: phttp_connect_def phttp_start_connect_def)
qed

theorem connect_ends_witness:
  "\<exists>acts. phttp_connect 5 (\<lambda>n. if n < 3 then UV_ECONNREFUSED else 0) = Some acts \<and> attempts acts = 4 \<and> callbacks acts = [0]"
  using connect_ends [of 3 "\<lambda>n. if n < 3 then UV_ECONNREFUSED else 0" 5] by simp

end
