(* ===== verification/Monitor.thy ===== *)
theory Monitor
  imports Prelude
begin

text \<open>
  Waiting until the kernel has destroyed a socket, src/uv_tcp_monitor.cpp: an eventfd is given to the
  kernel, through the device of a kernel module when compiled with \<open>TCP_MONITOR_USE_CREME\<close>, as the
  Makefile does, and by a socket option otherwise, and libuv polls it.  The results of the calls are
  parameters.  A failed assertion is \<open>None\<close>.
\<close>

datatype monitor_action = Ioctl int u64 | Set_eventfd int int | Poll_init int | Open_fd int | Close_fd int | Poll_stop | Saved_close nat

record tcp_monitor =
  tm_evfd :: int
  tm_creme_fd :: int
  tm_tcp :: nat
  tm_saved_close :: "nat option"
  tm_polling :: bool

record monitor_calls =
  mc_sock :: int
  mc_eventfd :: int
  mc_creme_open :: int
  mc_ioctl :: int
  mc_setsockopt :: int
  mc_poll_init :: int
  mc_errno :: int

text \<open>The part up to the labels: the error, the action so far, and the label jumped to, 0 when all went well.\<close>

definition monitor_watch :: "bool \<Rightarrow> monitor_calls \<Rightarrow> tcp_monitor \<Rightarrow> int \<times> tcp_monitor \<times> monitor_action list \<times> nat option" where
  "monitor_watch creme C m =
     (let evfd = mc_eventfd C; creme_fd = mc_creme_open C; err = - mc_errno C;
          val = push_bit 32 (word_of_int evfd) OR (word_of_int (mc_sock C)) :: u64
      in if creme then
           (if creme_fd = -1 then (err, m, [], Some 0)
            else if mc_ioctl C = -1 then (err, m, [Open_fd creme_fd, Ioctl creme_fd val], Some 1)
            else (0, m\<lparr>tm_creme_fd := creme_fd\<rparr>, [Open_fd creme_fd, Ioctl creme_fd val], None))
         else if mc_setsockopt C \<noteq> 0 then (err, m, [Set_eventfd (mc_sock C) evfd], Some 0)
         else (0, m, [Set_eventfd (mc_sock C) evfd], None))"

text \<open>\<open>args_ok\<close>: none of the pointers is NULL.  The labels \<open>err1\<close> and \<open>err0\<close> close the descriptors.\<close>

definition uv_tcp_monitor_init ::
  "bool \<Rightarrow> bool \<Rightarrow> monitor_calls \<Rightarrow> nat \<Rightarrow> tcp_monitor \<Rightarrow> int \<times> tcp_monitor \<times> monitor_action list" where
  "uv_tcp_monitor_init creme args_ok C tcp m =
     (if \<not> args_ok then (- 22, m, [])
      else if mc_eventfd C = -1 then (- mc_errno C, m, [])
      else
        let (error, m, acts, label) = monitor_watch creme C m;
            acts = Open_fd (mc_eventfd C) # acts
        in case label of
             Some l \<Rightarrow> (error, m, acts @ (if l = 1 then [Close_fd (mc_creme_open C)] else []) @ [Close_fd (mc_eventfd C)])
           | None \<Rightarrow>
               if mc_poll_init C \<noteq> 0 then (mc_poll_init C, m, acts @ [Poll_init (mc_eventfd C), Close_fd (mc_eventfd C)])
               else (0, m\<lparr>tm_evfd := mc_eventfd C, tm_tcp := tcp, tm_polling := False\<rparr>, acts @ [Poll_init (mc_eventfd C)]))"

definition uv_tcp_monitor_wait_close :: "int \<Rightarrow> nat \<Rightarrow> tcp_monitor \<Rightarrow> int \<times> tcp_monitor" where
  "uv_tcp_monitor_wait_close poll_start cb m =
     (poll_start, m\<lparr>tm_saved_close := Some cb, tm_polling := (if poll_start = 0 then True else tm_polling m)\<rparr>)"

text \<open>\<open>rsize\<close> and \<open>counter\<close> are the results of reading the eventfd; a callback that was never set is a jump
  to nowhere.  Errors and unexpected events are only printed.\<close>

definition uv_tcp_monitor_on_tcp_close ::
  "bool \<Rightarrow> int \<Rightarrow> u64 \<Rightarrow> tcp_monitor \<Rightarrow> (tcp_monitor \<times> monitor_action list) option" where
  "uv_tcp_monitor_on_tcp_close creme rsize counter m =
     (if rsize \<noteq> 8 \<or> counter \<noteq> 1 then None
      else case tm_saved_close m of
             None \<Rightarrow> None
           | Some cb \<Rightarrow> Some (m\<lparr>tm_polling := False\<rparr>,
               Poll_stop # (if creme then [Close_fd (tm_creme_fd m)] else []) @ [Saved_close cb]))"

text \<open>The descriptors that were opened and not closed again.\<close>

definition left_open :: "monitor_action list \<Rightarrow> int set" where
  "left_open acts = {fd. Open_fd fd \<in> set acts \<and> Close_fd fd \<notin> set acts}"

text \<open>When the monitor cannot be set up, the descriptors are closed again, except that the device of the
  kernel module stays open when libuv refuses the eventfd.\<close>

theorem monitor_init_leaks:
  assumes "uv_tcp_monitor_init creme True C tcp m = (error, m', acts)" and "mc_errno C \<noteq> 0"
    and "mc_creme_open C \<noteq> mc_eventfd C"
  shows "left_open acts = (if error = 0 then {mc_eventfd C} \<union> (if creme then {mc_creme_open C} else {})
    else if creme \<and> mc_eventfd C \<noteq> -1 \<and> mc_creme_open C \<noteq> -1 \<and> mc_ioctl C \<noteq> -1 then {mc_creme_open C} else {})"
  using assms by (auto simp: uv_tcp_monitor_init_def monitor_watch_def left_open_def Let_def split: if_splits)

text \<open>The callback given to \<open>uv_tcp_monitor_wait_close\<close> is the one that runs, once, when the kernel reports
  the socket gone; then nothing is polled any more.\<close>

theorem monitor_calls_back:
  assumes "uv_tcp_monitor_wait_close 0 cb m = (0, m')"
  shows "uv_tcp_monitor_on_tcp_close creme 8 1 m' = Some (m'\<lparr>tm_polling := False\<rparr>,
    Poll_stop # (if creme then [Close_fd (tm_creme_fd m)] else []) @ [Saved_close cb])"
  using assms by (auto simp: uv_tcp_monitor_wait_close_def uv_tcp_monitor_on_tcp_close_def)

end
