(* ===== verification/Shutdown.thy ===== *)
theory Shutdown
  imports Prelude
begin

text \<open>
  The end of a server: SIGINT, the walk over the handles of the event loop in src/apps/kvs/common.h, and the close
  callbacks of the sockets.  Closing a handle that is already closing fails an assertion of libuv and is \<open>None\<close>.
\<close>

section \<open>Handles\<close>

datatype uv_handle_type = UV_UDP | UV_TCP | UV_OTHER

text \<open>The \<open>close\<close> of an \<open>http_socket\<close>; a client connection names its monitor.\<close>

datatype close_fn = Http_server_close | Http_handoff_client_socket_close | Phttp_start_close nat bool

record uv_handle =
  ha_type :: uv_handle_type
  ha_data :: "close_fn option"
  ha_closing :: bool

text \<open>Close callbacks that close another handle.\<close>

datatype close_cb = No_cb | After_close nat | After_close_imported nat

record uv_loop =
  lp_handles :: "uv_handle list"
  lp_closing :: "close_cb list"
  lp_end :: bool

text \<open>\<open>uv_close\<close> and \<open>uv_poll_start\<close> of libuv, parameters; \<open>None\<close> is a failed assertion, also that the result is 0.\<close>

type_synonym uv_closer = "nat \<Rightarrow> close_cb \<Rightarrow> uv_loop \<Rightarrow> uv_loop option"
type_synonym uv_poller = "nat \<Rightarrow> uv_loop \<Rightarrow> uv_loop option"

section \<open>The program\<close>

definition http_server_close :: "uv_closer \<Rightarrow> nat \<Rightarrow> uv_loop \<Rightarrow> uv_loop option" where
  "http_server_close uv_close server = uv_close server No_cb"

definition http_handoff_client_socket_close :: "uv_closer \<Rightarrow> nat \<Rightarrow> uv_loop \<Rightarrow> uv_loop option" where
  "http_handoff_client_socket_close uv_close client = uv_close client No_cb"

definition start_close :: "uv_closer \<Rightarrow> nat \<Rightarrow> bool \<Rightarrow> nat \<Rightarrow> uv_loop \<Rightarrow> uv_loop option" where
  "start_close uv_close monitor imported client =
     uv_close client (if imported then After_close_imported monitor else After_close monitor)"

primrec call_close :: "uv_closer \<Rightarrow> close_fn \<Rightarrow> nat \<Rightarrow> uv_loop \<Rightarrow> uv_loop option" where
  "call_close uv_close Http_server_close = http_server_close uv_close"
| "call_close uv_close Http_handoff_client_socket_close = http_handoff_client_socket_close uv_close"
| "call_close uv_close (Phttp_start_close m imported) = start_close uv_close m imported"

definition on_walk :: "uv_closer \<Rightarrow> nat \<Rightarrow> uv_loop \<Rightarrow> uv_loop option" where
  "on_walk uv_close i l =
     (let handle = lp_handles l ! i
      in if ha_closing handle then Some l
         else
           case (if ha_type handle = UV_UDP then uv_close i No_cb l else Some l) of
             None \<Rightarrow> None
           | Some l \<Rightarrow>
               (case ha_data handle of
                  Some f \<Rightarrow> if ha_type handle = UV_TCP then call_close uv_close f i l else uv_close i No_cb l
                | None \<Rightarrow> uv_close i No_cb l))"

text \<open>The callback is called for the handles the loop has when the walk starts.\<close>

primrec walk :: "uv_closer \<Rightarrow> nat list \<Rightarrow> uv_loop \<Rightarrow> uv_loop option" where
  "walk uv_close [] l = Some l"
| "walk uv_close (i # hs) l = Option.bind (on_walk uv_close i l) (walk uv_close hs)"

definition on_sig :: "uv_loop \<Rightarrow> uv_loop" where
  "on_sig l = l\<lparr>lp_end := True\<rparr>"

definition on_prepare :: "uv_closer \<Rightarrow> uv_loop \<Rightarrow> uv_loop option" where
  "on_prepare uv_close l = (if lp_end l then walk uv_close [0..<length (lp_handles l)] l else Some l)"

text \<open>The callback of a client connection that was accepted here closes its monitor; that of an imported one makes the
  monitor wait for the kernel.\<close>

primrec after_close_cb :: "uv_closer \<Rightarrow> uv_poller \<Rightarrow> close_cb \<Rightarrow> uv_loop \<Rightarrow> uv_loop option" where
  "after_close_cb uv_close uv_poll_start No_cb l = Some l"
| "after_close_cb uv_close uv_poll_start (After_close m) l = uv_close m No_cb l"
| "after_close_cb uv_close uv_poll_start (After_close_imported m) l = uv_poll_start m l"

primrec run_closing :: "uv_closer \<Rightarrow> uv_poller \<Rightarrow> close_cb list \<Rightarrow> uv_loop \<Rightarrow> uv_loop option" where
  "run_closing uv_close uv_poll_start [] l = Some l"
| "run_closing uv_close uv_poll_start (cb # cbs) l = Option.bind (after_close_cb uv_close uv_poll_start cb l) (run_closing uv_close uv_poll_start cbs)"

text \<open>One iteration of the loop after the signal.\<close>

definition shutdown_turn :: "uv_closer \<Rightarrow> uv_poller \<Rightarrow> uv_loop \<Rightarrow> uv_loop option" where
  "shutdown_turn uv_close uv_poll_start l =
     Option.bind (on_prepare uv_close (on_sig l)) (\<lambda>l. run_closing uv_close uv_poll_start (lp_closing l) (l\<lparr>lp_closing := []\<rparr>))"

section \<open>Closing handles\<close>

definition open_handle :: "uv_loop \<Rightarrow> nat \<Rightarrow> bool" where
  "open_handle l i \<longleftrightarrow> i < length (lp_handles l) \<and> \<not> ha_closing (lp_handles l ! i)"

definition same_kind :: "uv_loop \<Rightarrow> uv_loop \<Rightarrow> bool" where
  "same_kind l l' \<longleftrightarrow> length (lp_handles l') = length (lp_handles l) \<and>
     (\<forall>i < length (lp_handles l). ha_type (lp_handles l' ! i) = ha_type (lp_handles l ! i) \<and> ha_data (lp_handles l' ! i) = ha_data (lp_handles l ! i))"

definition cb_of :: "uv_handle \<Rightarrow> close_cb" where
  "cb_of h = (case (ha_type h, ha_data h) of
     (UV_TCP, Some (Phttp_start_close m True)) \<Rightarrow> After_close_imported m
   | (UV_TCP, Some (Phttp_start_close m False)) \<Rightarrow> After_close m | _ \<Rightarrow> No_cb)"

lemma same_kind_trans: "same_kind l l1 \<Longrightarrow> same_kind l1 l2 \<Longrightarrow> same_kind l l2"
  by (simp add: same_kind_def)

section \<open>When a server can be stopped\<close>

text \<open>A request to the switch that is still being sent has a UDP handle; a client connection has a monitor.\<close>

definition stoppable :: "uv_loop \<Rightarrow> bool" where
  "stoppable l \<longleftrightarrow> (\<forall>i < length (lp_handles l). \<not> ha_closing (lp_handles l ! i) \<longrightarrow>
     ha_type (lp_handles l ! i) \<noteq> UV_UDP \<and>
     (ha_type (lp_handles l ! i) = UV_TCP \<longrightarrow>
        (case ha_data (lp_handles l ! i) of Some (Phttp_start_close m imported) \<Rightarrow> False | _ \<Rightarrow> True)))"

lemma cb_connection:
  "cb_of h = No_cb \<longleftrightarrow> \<not> (ha_type h = UV_TCP \<and> (\<exists>m imported. ha_data h = Some (Phttp_start_close m imported)))"
  by (auto simp: cb_of_def split: uv_handle_type.splits option.splits close_fn.splits bool.splits)

text \<open>libuv closes an open handle and calls its callback later; a closed handle must be neither closed nor polled.\<close>

locale uv_handles =
  fixes uv_close :: uv_closer and uv_poll_start :: uv_poller
  assumes close_kind: "uv_close i cb l = Some l' \<Longrightarrow> same_kind l l' \<and> lp_closing l' = lp_closing l @ [cb] \<and> lp_end l' = lp_end l"
    and close_one: "uv_close i cb l = Some l' \<Longrightarrow> open_handle l' j \<longleftrightarrow> open_handle l j \<and> j \<noteq> i"
    and close_open: "open_handle l i \<Longrightarrow> \<exists>l'. uv_close i cb l = Some l'"
    and close_again: "\<not> open_handle l i \<Longrightarrow> uv_close i cb l = None"
    and poll_closed: "\<not> open_handle l i \<Longrightarrow> uv_poll_start i l = None"
begin

lemma close_facts:
  assumes "uv_close i cb l = Some l'"
  shows "same_kind l l'" "open_handle l' j \<longleftrightarrow> open_handle l j \<and> j \<noteq> i" "lp_closing l' = lp_closing l @ [cb]" "lp_end l' = lp_end l"
  using close_kind [OF assms] close_one [OF assms] by simp_all

lemma walk_one:
  assumes "i < length (lp_handles l)" "ha_type (lp_handles l ! i) = UV_UDP \<Longrightarrow> \<not> open_handle l i"
  shows "on_walk uv_close i l = (if open_handle l i then uv_close i (cb_of (lp_handles l ! i)) l else Some l)"
  using assms
  by (auto simp: on_walk_def Let_def open_handle_def cb_of_def start_close_def http_server_close_def
    http_handoff_client_socket_close_def split: option.split close_fn.split uv_handle_type.split)

lemma walk_udp:
  assumes "open_handle l i" "ha_type (lp_handles l ! i) = UV_UDP"
  shows "on_walk uv_close i l = None"
proof -
  obtain l' where l': "uv_close i No_cb l = Some l'" using close_open [OF assms(1)] by blast
  then have "uv_close i cb l' = None" for cb using close_facts(2) [OF l'] by (intro close_again) simp
  then show ?thesis using assms l' by (simp add: on_walk_def open_handle_def Let_def split: option.split)
qed

lemma walk_closes:
  assumes "\<forall>i \<in> set hs. i < length (lp_handles l) \<and> (ha_type (lp_handles l ! i) = UV_UDP \<longrightarrow> \<not> open_handle l i)"
  shows "\<exists>l'. walk uv_close hs l = Some l' \<and> same_kind l l' \<and> (\<forall>j. open_handle l' j \<longleftrightarrow> open_handle l j \<and> j \<notin> set hs) \<and>
    set (lp_closing l') = set (lp_closing l) \<union> {cb_of (lp_handles l ! i) | i. i \<in> set hs \<and> open_handle l i}"
  using assms
proof (induction hs arbitrary: l)
  case Nil
  then show ?case by (auto simp: same_kind_def)
next
  case (Cons i hs)
  then have i: "i < length (lp_handles l)" "ha_type (lp_handles l ! i) = UV_UDP \<Longrightarrow> \<not> open_handle l i" by simp_all
  show ?case
  proof (cases "open_handle l i")
    case True
    then obtain l1 where l1: "uv_close i (cb_of (lp_handles l ! i)) l = Some l1" using close_open by blast
    note f = close_facts [OF l1]
    have c: "cb_of (lp_handles l1 ! j) = cb_of (lp_handles l ! j)" if "j < length (lp_handles l)" for j
      using f(1) that by (simp add: same_kind_def cb_of_def)
    have "\<forall>j \<in> set hs. j < length (lp_handles l1) \<and> (ha_type (lp_handles l1 ! j) = UV_UDP \<longrightarrow> \<not> open_handle l1 j)"
      using Cons.prems f(1,2) by (auto simp: same_kind_def)
    from Cons.IH [OF this] obtain l' where l': "walk uv_close hs l1 = Some l'" "same_kind l1 l'"
      "\<forall>j. open_handle l' j \<longleftrightarrow> open_handle l1 j \<and> j \<notin> set hs"
      "set (lp_closing l') = set (lp_closing l1) \<union> {cb_of (lp_handles l1 ! i) | i. i \<in> set hs \<and> open_handle l1 i}" by blast
    have "{cb_of (lp_handles l1 ! j) | j. j \<in> set hs \<and> open_handle l1 j} = {cb_of (lp_handles l ! j) | j. j \<in> set hs \<and> open_handle l j \<and> j \<noteq> i}"
      using c f(2) by (auto simp: open_handle_def) metis+
    then have "set (lp_closing l') = set (lp_closing l) \<union> {cb_of (lp_handles l ! j) | j. j \<in> set (i # hs) \<and> open_handle l j}"
      using l'(4) f(3) True by auto
    then show ?thesis
      using walk_one [OF i] True l1 l'(1,3) same_kind_trans [OF f(1) l'(2)] f(2) by auto
  next
    case False
    from Cons.IH [of l] Cons.prems obtain l' where l': "walk uv_close hs l = Some l'" "same_kind l l'"
      "\<forall>j. open_handle l' j \<longleftrightarrow> open_handle l j \<and> j \<notin> set hs"
      "set (lp_closing l') = set (lp_closing l) \<union> {cb_of (lp_handles l ! i) | i. i \<in> set hs \<and> open_handle l i}" by auto
    then show ?thesis using walk_one [OF i] False by auto
  qed
qed

lemma walk_keeps_open:
  assumes "on_walk uv_close j l = Some l1" "open_handle l i" "ha_type (lp_handles l ! i) = UV_UDP"
  shows "open_handle l1 i \<and> ha_type (lp_handles l1 ! i) = UV_UDP"
proof (cases "j < length (lp_handles l)")
  case True
  show ?thesis
  proof (cases "ha_type (lp_handles l ! j) = UV_UDP \<and> open_handle l j")
    case True
    then show ?thesis using walk_udp assms(1) by simp
  next
    case False
    then have "l1 = l \<or> uv_close j (cb_of (lp_handles l ! j)) l = Some l1 \<and> j \<noteq> i"
      using walk_one [OF True] assms by (auto split: if_splits)
    then show ?thesis
    proof
      assume c: "uv_close j (cb_of (lp_handles l ! j)) l = Some l1 \<and> j \<noteq> i"
      note f = close_facts [OF conjunct1 [OF c]]
      have "i < length (lp_handles l)" using assms(2) by (simp add: open_handle_def)
      then show ?thesis using f(1) f(2) [of i] c assms(2,3) by (simp add: same_kind_def)
    qed (use assms in simp)
  qed
next
  case False
  then have "uv_close j cb l = None" for cb by (intro close_again) (simp add: open_handle_def)
  moreover from this have "call_close uv_close f j l = None" for f
    by (cases f) (simp_all add: start_close_def http_server_close_def http_handoff_client_socket_close_def)
  ultimately have "l1 = l" using assms(1) by (auto simp: on_walk_def Let_def split: if_splits option.splits)
  then show ?thesis using assms by simp
qed

lemma udp_aborts:
  "open_handle l i \<Longrightarrow> ha_type (lp_handles l ! i) = UV_UDP \<Longrightarrow> i \<in> set hs \<Longrightarrow> walk uv_close hs l = None"
proof (induction hs arbitrary: l)
  case (Cons j hs)
  show ?case
  proof (cases "on_walk uv_close j l")
    case (Some l1)
    have "j \<noteq> i" using walk_udp [OF Cons.prems(1,2)] Some by auto
    then show ?thesis using Cons.IH [of l1] walk_keeps_open [OF Some Cons.prems(1,2)] Cons.prems(3) Some by simp
  qed simp
qed simp

lemma run_closing_none:
  assumes "\<forall>i. \<not> open_handle l i" "cb \<in> set cbs" "cb \<noteq> No_cb"
  shows "run_closing uv_close uv_poll_start cbs l = None"
  using assms(2)
proof (induction cbs)
  case (Cons c cbs)
  have "uv_close m No_cb l = None" "uv_poll_start m l = None" for m using assms(1) close_again poll_closed by simp_all
  then show ?case using Cons assms(3) by (cases c) auto
qed simp

lemma run_closing_some:
  "set cbs \<subseteq> {No_cb} \<Longrightarrow> run_closing uv_close uv_poll_start cbs l = Some l"
  by (induction cbs) auto

section \<open>The end\<close>

lemma shutdown_iff:
  assumes "lp_closing l = []"
  shows "case shutdown_turn uv_close uv_poll_start l of None \<Rightarrow> \<not> stoppable l | Some l' \<Rightarrow> stoppable l \<and> (\<forall>h \<in> set (lp_handles l'). ha_closing h)"
proof -
  let ?l = "on_sig l" and ?n = "length (lp_handles l)"
  have h: "lp_handles ?l = lp_handles l" "lp_closing ?l = []" using assms by (simp_all add: on_sig_def)
  have op: "open_handle ?l i \<longleftrightarrow> i < ?n \<and> \<not> ha_closing (lp_handles l ! i)" for i by (simp add: open_handle_def h)
  have turn: "shutdown_turn uv_close uv_poll_start l = Option.bind (walk uv_close [0..<?n] ?l) (\<lambda>l. run_closing uv_close uv_poll_start (lp_closing l) (l\<lparr>lp_closing := []\<rparr>))"
    by (simp add: shutdown_turn_def on_prepare_def on_sig_def)
  show ?thesis
  proof (cases "\<exists>i. open_handle ?l i \<and> ha_type (lp_handles l ! i) = UV_UDP")
    case True
    then obtain i where i: "open_handle ?l i" "ha_type (lp_handles ?l ! i) = UV_UDP" using h(1) by auto
    then have "walk uv_close [0..<?n] ?l = None" using op by (intro udp_aborts [OF i]) simp
    moreover have "\<not> stoppable l" using i op h(1) by (auto simp: stoppable_def)
    ultimately show ?thesis by (simp add: turn)
  next
    case False
    then have "\<forall>i \<in> set [0..<?n]. i < length (lp_handles ?l) \<and> (ha_type (lp_handles ?l ! i) = UV_UDP \<longrightarrow> \<not> open_handle ?l i)"
      using h(1) by auto
    from walk_closes [OF this] obtain l' where l': "walk uv_close [0..<?n] ?l = Some l'" "same_kind ?l l'"
      "\<forall>j. open_handle l' j \<longleftrightarrow> open_handle ?l j \<and> j \<notin> set [0..<?n]"
      "set (lp_closing l') = {cb_of (lp_handles l ! i) | i. i \<in> set [0..<?n] \<and> open_handle ?l i}"
      unfolding h by auto
    have shut: "\<forall>i. \<not> open_handle (l'\<lparr>lp_closing := []\<rparr>) i" using l'(3) op by (auto simp: open_handle_def)
    have st: "stoppable l \<longleftrightarrow> set (lp_closing l') \<subseteq> {No_cb}"
    proof -
      have "set (lp_closing l') \<subseteq> {No_cb} \<longleftrightarrow> (\<forall>i < ?n. \<not> ha_closing (lp_handles l ! i) \<longrightarrow> cb_of (lp_handles l ! i) = No_cb)"
        unfolding l'(4) op by auto
      then show ?thesis using False op unfolding stoppable_def cb_connection by (fastforce split: option.splits close_fn.splits)
    qed
    show ?thesis
    proof (cases "stoppable l")
      case True
      then have "shutdown_turn uv_close uv_poll_start l = Some (l'\<lparr>lp_closing := []\<rparr>)" using st l'(1) by (simp add: turn run_closing_some)
      then show ?thesis using True shut by (auto simp: open_handle_def in_set_conv_nth)
    next
      case ns: False
      then have "shutdown_turn uv_close uv_poll_start l = None" using st l'(1) run_closing_none [OF shut] by (fastforce simp: turn)
      then show ?thesis using ns by simp
    qed
  qed
qed

end

text \<open>A loop that only marks its handles.\<close>

definition model_close :: uv_closer where
  "model_close i cb l =
     (if length (lp_handles l) \<le> i \<or> ha_closing (lp_handles l ! i) then None
      else Some (l\<lparr>lp_handles := (lp_handles l)[i := (lp_handles l ! i)\<lparr>ha_closing := True\<rparr>], lp_closing := lp_closing l @ [cb]\<rparr>))"

definition model_poll :: uv_poller where
  "model_poll i l = (if length (lp_handles l) \<le> i \<or> ha_closing (lp_handles l ! i) then None else Some l)"

interpretation model_loop: uv_handles model_close model_poll
  by unfold_locales (auto simp: model_close_def model_poll_def same_kind_def open_handle_def nth_list_update split: if_splits)


text \<open>A server with a listening socket, and one with a connection and its monitor.\<close>

definition idle_loop :: uv_loop where
  "idle_loop = \<lparr>lp_handles = [\<lparr>ha_type = UV_TCP, ha_data = Some Http_server_close, ha_closing = False\<rparr>,
     \<lparr>ha_type = UV_OTHER, ha_data = None, ha_closing = False\<rparr>], lp_closing = [], lp_end = False\<rparr>"

definition busy_loop :: uv_loop where
  "busy_loop = idle_loop\<lparr>lp_handles := lp_handles idle_loop @
     [\<lparr>ha_type = UV_TCP, ha_data = Some (Phttp_start_close 3 False), ha_closing = False\<rparr>,
      \<lparr>ha_type = UV_OTHER, ha_data = None, ha_closing = False\<rparr>]\<rparr>"


end
