(* ===== verification/Spec2Isabelle.thy ===== *)
theory Spec2Isabelle
  imports ValeNative HandoffWire ConnHandoff TlsChannel PicoChunked KvRepl Startup Bench Connect Monitor Shutdown
begin

text \<open>
  Prism-HTTP: HTTP servers that hand a TCP or TLS connection on to another server, behind a programmable
  switch that redirects the segments of the connection.

  The program.  A client connects to a virtual end point, that of the server that accepts the connection
  (src/phttp_server.cpp).  The server receives and parses a request (src/http.cpp, picohttpparser) and
  gives it to the request handler of an application (src/apps).  The handler answers, or it answers with
  the status 600 and names another server.  Then the handoff begins (src/phttp_hoproto_export2.cpp): the
  switch is asked to lock the flow, the states of TCP (src/tcp_export.cpp), TLS (src/tls_export.cpp) and
  HTTP (src/http_export.cpp) are exported, the socket is closed, and when the kernel has destroyed it
  (src/uv_tcp_monitor.cpp) the states are sent to the other server as one frame
  (src/phttp_handoff_server.cpp).  That server imports the request and gives it to its own handler
  (src/phttp_hoproto_import2.cpp); when that answers, the socket is rebuilt, the switch is told the new
  owner of the flow, and the response is sent.  The switch is an eBPF program in a kernel switch
  (src/switch/src/cpp/prism_switch.bpf.c, src/switch/kern_src/vale_bpf_native.c) that is configured by
  datagrams, which the servers send and repeat until they are answered
  (src/switch/src/cpp/prism_switch_client.cpp).

  Conventions.  A C integer is a word of its width, and pointers are 64-bit addresses or offsets.  A result
  \<open>option\<close> is \<open>None\<close> when an assertion of the code fails or memory outside a block would be accessed; error
  codes are values.  Libraries that are not part of the sources (libuv, LibTomCrypt, protobuf, LevelDB,
  bcc, the kernel) are parameters: records of their functions, with the documented laws that a theorem
  needs as named hypotheses (\<open>bpf_hash\<close>, \<open>repair_kernel\<close>, \<open>sends\<close>, \<open>leveldb_ok\<close>, \<open>ktls_socket\<close>, \<open>keys_accepted\<close>, \<open>keeps_iv\<close>).
  The servers use the TLS library through such records too; \<open>TlsKtls\<close> fills the fields of the handoff with
  the functions of src/extern/tlse.c.  What a block of memory
  holds after \<open>malloc\<close> is a parameter as well.

  Theories, with the sources they model and what their lemmas show.

  \<^item> \<open>Prelude\<close>: bytes in memory, byte order, lists and words; \<open>CString\<close>: the C library functions on strings;
    \<open>Split\<close>: the three functions that cut a string at a delimiter, against one reference.

  \<^item> \<open>Checksum\<close>, \<open>BpfTable\<close>, \<open>PswProto\<close>, \<open>PrismSwitch\<close> (prism_switch.bpf.c, prism_switch.h): the one's complement
    sums, the tables the switch program uses as a locale with the laws of BPF hash maps, the
    configuration requests as structures and as bytes, and the program itself.  \<open>PrismSwitchProps\<close>,
    \<open>SwitchConfigProps\<close>, \<open>SwitchResponse\<close> and \<open>SwitchRuns\<close> hold the lemmas inside the locale, on single
    frames and on runs; \<open>SwitchTheorems\<close> and \<open>SwitchConfigTheorems\<close> the properties: configuration refines
    commands on a map of rules, segments are rewritten with correct checksums, a locked flow is
    isolated.  \<open>ValeNative\<close> (vale_bpf_native.c) is the kernel module around the program.

  \<^item> \<open>SwitchClient\<close> (prism_switch_client.cpp): the requests on the wire, repeated until the first reply.

  \<^item> \<open>PicoParser\<close> (picohttpparser.c): the request parser on positions in a buffer, where reading outside is
    a result of its own.  \<open>PicoProps\<close> shows that it never does, \<open>PicoStable\<close> that a verdict does not change
    when more bytes arrive, \<open>PicoRoundtrip\<close> that it reads back a request that was written out.  \<open>PicoChunked\<close>
    is the decoder of chunked bodies, which works in place; it agrees with a machine that takes one byte at a
    time, so that the pieces in which a body arrives do not matter.

  \<^item> \<open>Membuf\<close> (membuf.h), \<open>Http\<close>, \<open>HttpProps\<close> (http.cpp, http.h), \<open>HttpExport\<close> (http_export.cpp): growing buffers,
    requests and responses with their pointers, and the move of a request to another buffer.

  \<^item> \<open>PhttpServer\<close>, \<open>PhttpServed\<close>, \<open>PhttpConn\<close> (phttp_server.cpp): receiving, handling and answering; what is on
    the wire; accepting, the TLS handshake, and the invariant of a connection whatever arrives on it.

  \<^item> \<open>HandoffServer\<close> (phttp_handoff_server.cpp): frames are cut out of the stream however it is fragmented.

  \<^item> \<open>TcpExport\<close>, \<open>TcpExportProps\<close> (tcp_export.cpp): the system calls that read and rebuild a connection, over a
    kernel with the laws of repair mode.

  \<^item> \<open>HandoffExport\<close>, \<open>HandoffImport\<close>, \<open>HandoffProps\<close> (phttp_hoproto_export2.cpp, phttp_hoproto_close2.cpp,
    phttp_hoproto_import2.cpp, tls_export.cpp): the giving side as a state machine over its pending
    callbacks, the taking side as functions, and the two together: the order of the steps, the request
    that arrives, the rule of the flow at the switch.  \<open>HandoffSystem\<close> puts the source, the rules of the
    switch and the destination into one step relation, whose invariant holds in every interleaving, and
    \<open>HandoffWire\<close> replaces the rules by the switch program driven by frames, with a simulation between the two.

  \<^item> \<open>TlsContext\<close>, \<open>TlsExport\<close>, \<open>TlsKtls\<close> (extern/tlse.c): contexts and their ciphers, the packet builder, exporting and
    importing a context, and moving its keys and record numbers into and out of the kernel.  \<open>TlsProps\<close> shows
    that the import reads back what the export wrote, \<open>TlsBounds\<close> which memory it reads, and \<open>TlsMoves\<close> puts
    the two ends together: a session goes on in the library and in the kernel of the next server.
    \<open>TcpFrame\<close> shows what the calls on the TCP state of a socket leave alone, and \<open>ConnHandoff\<close> composes the parts:
    the TCP state, the TLS session and the request of a connection all arrive at the next server.

  \<^item> \<open>ChaCha\<close>, \<open>Poly1305\<close>, \<open>Poly1305Props\<close> (extern/tlse.c): ChaCha20 and Poly1305 as the library computes them, with words
    of 32 and 64 bits and partial blocks; the limbs of Poly1305 never overflow and hold the number of RFC 8439.

  \<^item> \<open>TlsRecord\<close> (extern/tlse.c): the record layer, that is protecting a packet, taking in the stream, opening a record,
    application data and alerts.  \<open>TlsRecordProps\<close> shows for every cipher that the other side opens what one side
    protects, \<open>TlsAead\<close> that a ChaCha20-Poly1305 record is that of RFC 7905, \<open>TlsStream\<close> that the stream may be cut
    anywhere.  \<open>TlsChannel\<close> has the promises to the users: data arrives whole and in order, also when the connection
    is handed over in the middle of a record, and a forged record ends the connection.

  \<^item> \<open>Monitor\<close> (uv_tcp_monitor.cpp) and \<open>Connect\<close> (phttp_hoproto_connect.cpp): waiting for a socket to be destroyed,
    and connecting with a bounded number of retries.

  \<^item> \<open>Jhash\<close> (apps/kvs/jhash.h), \<open>KvStore\<close>, \<open>KvStoreProps\<close> (apps/kvs), \<open>KvRepl\<close> (apps/kvs-repl), \<open>Bench\<close> (apps/bench): the
    applications.  The hash does not depend on how the key is aligned; proxy, move and backends
    together are one map, and so are replicas as long as no write fails.

  \<^item> \<open>Options\<close> (argparse.h, phttp_argparse.cpp), \<open>Startup\<close> (prism_switchd.cpp, apps/kvs/common.h and the connecting parts
    of the programs): options, configuration, and which worker connects to which.  \<open>Shutdown\<close> is what happens on
    SIGINT: the walk over the handles of the loop and when it succeeds.

  Bounds and fuel.  \<open>client_split\<close> runs with the fuel \<open>length str + 2\<close>, which is shown to be enough.
  The loop that sends a queue may run forever when the kernel accepts nothing; it is a partial function
  into \<open>option\<close>, and it is shown to end over a kernel that accepts at least one byte of every call.  All other loops are total functions.  The buffers have the sizes of the code: 5000000
  bytes for requests and bodies, 4096 for the head of a response, 16 headers.

  The TLS library is modelled as it is built here, without TLS 1.3 and with ChaCha20.  In the record layer the running hash
  over the messages of the handshake, the error code of an alert and the random sleep before an error are left out.

  Not modelled: the handshake, certificates and the derivation of keys in the TLS library (extern/tlse.c), a
  third-party library that the servers reach as parameters; the first version of the handoff
  protocol (phttp_hoproto_export.cpp, phttp_hoproto_import.cpp, phttp_hoproto_close.cpp,
  uv_psw_client.cpp), which is not built; forking, threads and the event loop of the programs;
  profiling, debug output, and the glue to bcc.  Memory is not freed in the model, so nothing is shown
  about leaks or use after free, apart from the descriptors of \<open>Monitor\<close>.
\<close>

end
